(* ===== verification/Prelude.thy ===== *)
theory Prelude
  imports Main "HOL-Library.Word" "HOL-Library.Monad_Syntax"
begin

unbundle bit_operations_syntax

text \<open>
  Types, C library functions and generic lemmas that every component of the jailfs model uses.
  A C string is the list of its characters up to (not with) the terminating NUL. The C library
  functions are written for the "C" locale and an LP64 machine (\<open>int\<close> of 32 bits, \<open>long\<close>,
  \<open>size_t\<close> and \<open>time_t\<close> of 64 bits). The result type \<open>'a option\<close> of a modelled function
  always reads: \<open>Some r\<close>, the call returns \<open>r\<close>; \<open>None\<close>, the call has no defined result (it
  reads through an invalid pointer, fails an \<open>assert\<close>, or never returns). Each theory says
  which of these its functions can meet.
\<close>

section \<open>Machine types\<close>

type_synonym u8 = "8 word"
type_synonym u32 = "32 word"
type_synonym u64 = "64 word"

text \<open>A pointer: \<open>None\<close> is NULL.\<close>
type_synonym ptr = "nat option"

text \<open>Hints the component proofs share.\<close>
named_theorems cstring \<open>evaluation of the C string functions\<close>

text \<open>The value of a \<open>long\<close> converted to a 32-bit \<open>int\<close>.\<close>
definition int_of_long :: "int \<Rightarrow> int" where
  "int_of_long v = sint (word_of_int v :: u32)"

lemma int_of_long_id: "- (2 ^ 31) \<le> v \<Longrightarrow> v < 2 ^ 31 \<Longrightarrow> int_of_long v = v"
  by (simp add: int_of_long_def sint_sbintrunc' signed_take_bit_int_eq_self)

text \<open>The result of a call that may end the process with \<open>exit\<close>.\<close>
datatype 'a proc = Return 'a | Exits

section \<open>Lists read by index, with the bounds check\<close>

definition nth_opt :: "'a list \<Rightarrow> nat \<Rightarrow> 'a option" where
  "nth_opt xs i = (if i < length xs then Some (xs ! i) else None)"

lemma nth_opt_Some [simp]: "nth_opt xs i = Some x \<longleftrightarrow> i < length xs \<and> xs ! i = x"
  by (auto simp: nth_opt_def)

lemma nth_opt_None [simp]: "nth_opt xs i = None \<longleftrightarrow> length xs \<le> i"
  by (auto simp: nth_opt_def)

lemma nth_opt_in [simp]: "i < length xs \<Longrightarrow> nth_opt xs i = Some (xs ! i)"
  by simp

text \<open>A loop over a list whose body may have no defined result.\<close>

fun fold_opt :: "('a \<Rightarrow> 's \<Rightarrow> 's option) \<Rightarrow> 'a list \<Rightarrow> 's \<Rightarrow> 's option" where
  "fold_opt f [] s = Some s"
| "fold_opt f (x # xs) s = (case f x s of None \<Rightarrow> None | Some s' \<Rightarrow> fold_opt f xs s')"

lemma fold_opt_append:
  "fold_opt f (xs @ ys) s = (case fold_opt f xs s of None \<Rightarrow> None | Some s' \<Rightarrow> fold_opt f ys s')"
  by (induction xs arbitrary: s) (auto split: option.splits)

lemma map_of_rev_distinct: "distinct (map fst xs) \<Longrightarrow> map_of (rev xs) = map_of xs"
  by (subst map_of_inject_set) (auto simp: rev_map [symmetric])

lemma in_keys [intro]: "(m, d) \<in> set s \<Longrightarrow> m \<in> fst ` set s"
  by force

section \<open>Characters\<close>

definition c_nul :: char where "c_nul = CHR 0x00"
definition c_tab :: char where "c_tab = CHR 0x09"
definition c_nl :: char where "c_nl = CHR 0x0A"
definition c_cr :: char where "c_cr = CHR 0x0D"

definition c_isspace :: "char \<Rightarrow> bool" where
  "c_isspace c \<longleftrightarrow> c \<in> {CHR '' '', CHR 0x09, CHR 0x0A, CHR 0x0B, CHR 0x0C, CHR 0x0D}"

definition c_isupper :: "char \<Rightarrow> bool" where
  "c_isupper c \<longleftrightarrow> 65 \<le> (of_char c :: nat) \<and> (of_char c :: nat) \<le> 90"

definition c_islower :: "char \<Rightarrow> bool" where
  "c_islower c \<longleftrightarrow> 97 \<le> (of_char c :: nat) \<and> (of_char c :: nat) \<le> 122"

definition c_tolower :: "char \<Rightarrow> char" where
  "c_tolower c = (if c_isupper c then char_of ((of_char c :: nat) + 32) else c)"

lemma c_tolower_upper: "c_isupper c \<Longrightarrow> (of_char (c_tolower c) :: nat) = of_char c + 32"
  by (simp add: c_tolower_def c_isupper_def)

lemma not_upper_tolower: "\<not> c_isupper (c_tolower c)"
  by (cases "c_isupper c") (auto simp: c_isupper_def c_tolower_def)

lemma c_tolower_idem [simp]: "c_tolower (c_tolower c) = c_tolower c"
  using not_upper_tolower [of c] by (simp add: c_tolower_def [of "c_tolower c"])

text \<open>The value of a digit in some base, as \<open>strtol\<close> reads it.\<close>
definition digit_val :: "char \<Rightarrow> nat option" where
  "digit_val c = (let n = (of_char c :: nat) in
     if 48 \<le> n \<and> n \<le> 57 then Some (n - 48)
     else if 97 \<le> n \<and> n \<le> 122 then Some (n - 87)
     else if 65 \<le> n \<and> n \<le> 90 then Some (n - 55) else None)"

definition is_digit :: "nat \<Rightarrow> char \<Rightarrow> bool" where
  "is_digit base c \<longleftrightarrow> (case digit_val c of None \<Rightarrow> False | Some v \<Rightarrow> v < base)"

section \<open>C string functions\<close>

text \<open>\<open>strcasecmp(s, t) == 0\<close> and \<open>strncasecmp(s, t, n) == 0\<close>.\<close>

definition strcaseeq :: "string \<Rightarrow> string \<Rightarrow> bool" where
  "strcaseeq s t \<longleftrightarrow> map c_tolower s = map c_tolower t"

definition strncaseeq :: "string \<Rightarrow> string \<Rightarrow> nat \<Rightarrow> bool" where
  "strncaseeq s t n \<longleftrightarrow> take n (map c_tolower s) = take n (map c_tolower t)"

text \<open>\<open>strchr\<close>: the offset of the first \<open>c\<close> in \<open>s\<close>.\<close>

fun strchr :: "string \<Rightarrow> char \<Rightarrow> nat option" where
  "strchr [] c = None"
| "strchr (x # xs) c = (if x = c then Some 0 else map_option Suc (strchr xs c))"

lemma strchr_None: "strchr s c = None \<longleftrightarrow> c \<notin> set s"
  by (induction s) auto

lemma strchr_append [simp]:
  "c \<notin> set a \<Longrightarrow> strchr (a @ c # b) c = Some (length a)"
  by (induction a) auto

lemma strchr_SomeD:
  "strchr s c = Some k \<Longrightarrow> k < length s \<and> s ! k = c \<and> c \<notin> set (take k s)"
  by (induction s arbitrary: k) (auto split: if_splits)

text \<open>
  \<open>strtok\<close>: skip the delimiters at the scan position, cut the token at the next delimiter. The
  result is the token and the text after the delimiter that ended it (the position the next
  call with a NULL first argument starts from), or \<open>None\<close> for a NULL result.
\<close>

definition strtok :: "char list \<Rightarrow> string \<Rightarrow> (string \<times> string) option" where
  "strtok delims s =
     (let r = dropWhile (\<lambda>c. c \<in> set delims) s in
      if r = [] then None
      else Some (takeWhile (\<lambda>c. c \<notin> set delims) r,
                 drop 1 (dropWhile (\<lambda>c. c \<notin> set delims) r)))"

lemma strtok_rest_length: "strtok ds s = Some (t, r) \<Longrightarrow> length r < length s"
proof -
  assume "strtok ds s = Some (t, r)"
  then have r: "r = drop 1 (dropWhile (\<lambda>c. c \<notin> set ds) (dropWhile (\<lambda>c. c \<in> set ds) s))"
    and ne: "dropWhile (\<lambda>c. c \<in> set ds) s \<noteq> []"
    by (auto simp: strtok_def Let_def split: if_splits)
  have "length (dropWhile (\<lambda>c. c \<in> set ds) s) \<le> length s"
    by (rule length_dropWhile_le)
  moreover have "length (dropWhile (\<lambda>c. c \<notin> set ds) (dropWhile (\<lambda>c. c \<in> set ds) s))
      \<le> length (dropWhile (\<lambda>c. c \<in> set ds) s)"
    by (rule length_dropWhile_le)
  moreover have "0 < length (dropWhile (\<lambda>c. c \<in> set ds) s)"
    using ne by (metis length_greater_0_conv)
  ultimately show ?thesis unfolding r length_drop by linarith
qed

text \<open>The loop \<open>for (p = strtok(s, ds); p; p = strtok(NULL, ds))\<close>: all the tokens in order.\<close>

function strtok_all :: "char list \<Rightarrow> string \<Rightarrow> string list" where
  "strtok_all ds s = (case strtok ds s of None \<Rightarrow> [] | Some (t, r) \<Rightarrow> t # strtok_all ds r)"
  by pat_completeness auto
termination
  by (relation "measure (\<lambda>(ds, s). length s)") (auto dest: strtok_rest_length)

declare strtok_all.simps [simp del]

text \<open>
  \<open>strtol(s, &end, 0)\<close>: (value, text from \<open>end\<close> on, whether \<open>errno\<close> is set to ERANGE). A leading
  \<open>0x\<close> with a hexadecimal digit after it selects base 16, any other leading \<open>0\<close> base 8.
\<close>

definition digits_value :: "nat \<Rightarrow> string \<Rightarrow> nat" where
  "digits_value base ds = foldl (\<lambda>a c. a * base + (case digit_val c of None \<Rightarrow> 0 | Some v \<Rightarrow> v)) 0 ds"

definition strtol_sign :: "string \<Rightarrow> bool \<times> string" where
  "strtol_sign s = (case s of c # r \<Rightarrow>
      if c = CHR ''-'' then (True, r) else if c = CHR ''+'' then (False, r) else (False, s)
    | [] \<Rightarrow> (False, []))"

definition strtol_base :: "string \<Rightarrow> nat \<times> string" where
  "strtol_base s =
     (if take 1 s = ''0''
      then (if 3 \<le> length s \<and> s ! 1 \<in> {CHR ''x'', CHR ''X''} \<and> is_digit 16 (s ! 2)
            then (16, drop 2 s) else (8, s))
      else (10, s))"

definition strtol0 :: "string \<Rightarrow> int \<times> string \<times> bool" where
  "strtol0 s =
     (let (neg, s2) = strtol_sign (dropWhile c_isspace s);
          (base, s3) = strtol_base s2;
          ds = takeWhile (is_digit base) s3;
          v = (if neg then - int (digits_value base ds) else int (digits_value base ds))
      in if ds = [] then (0, s, False)
         else if v < - (2 ^ 63) then (- (2 ^ 63), dropWhile (is_digit base) s3, True)
         else if 2 ^ 63 \<le> v then (2 ^ 63 - 1, dropWhile (is_digit base) s3, True)
         else (v, dropWhile (is_digit base) s3, False))"

definition strtol_val :: "string \<Rightarrow> int" where
  "strtol_val s = fst (strtol0 s)"

lemma strtol0_Nil [simp]: "strtol0 [] = (0, [], False)"
  by (simp add: strtol0_def strtol_sign_def strtol_base_def)

lemma strtol_val_Nil [simp]: "strtol_val [] = 0"
  by (simp add: strtol_val_def)

section \<open>Decimal output\<close>

text \<open>\<open>printf("%u")\<close> and \<open>printf("%d")\<close>.\<close>

definition digit_char :: "nat \<Rightarrow> char" where
  "digit_char d = char_of (48 + d)"

fun show_nat :: "nat \<Rightarrow> string" where
  "show_nat n = (if n < 10 then [digit_char n] else show_nat (n div 10) @ [digit_char (n mod 10)])"

declare show_nat.simps [simp del]

definition show_int :: "int \<Rightarrow> string" where
  "show_int i = (if i < 0 then CHR ''-'' # show_nat (nat (- i)) else show_nat (nat i))"

lemma of_char_digit_char: "d < 10 \<Longrightarrow> (of_char (digit_char d) :: nat) = 48 + d"
  by (simp add: digit_char_def)

lemma digit_val_digit_char [simp]: "d < 10 \<Longrightarrow> digit_val (digit_char d) = Some d"
  by (simp add: digit_val_def of_char_digit_char Let_def)

lemma is_digit_digit_char [simp]: "d < 10 \<Longrightarrow> is_digit 10 (digit_char d)"
  by (simp add: is_digit_def)

lemma show_nat_nonempty [simp]: "show_nat n \<noteq> []"
  by (subst show_nat.simps) simp

lemma show_nat_digits: "\<forall>c \<in> set (show_nat n). is_digit 10 c"
proof (induction n rule: show_nat.induct)
  case (1 n)
  then show ?case by (subst show_nat.simps) auto
qed

lemma digits_value_snoc:
  "d < 10 \<Longrightarrow> digits_value 10 (ds @ [digit_char d]) = digits_value 10 ds * 10 + d"
  by (simp add: digits_value_def)

lemma digits_value_show_nat: "digits_value 10 (show_nat n) = n"
proof (induction n rule: show_nat.induct)
  case (1 n)
  show ?case
  proof (cases "n < 10")
    case True
    then show ?thesis
      by (subst show_nat.simps) (simp add: digits_value_def)
  next
    case False
    with "1.IH" show ?thesis
      by (subst show_nat.simps) (simp add: digits_value_snoc)
  qed
qed

lemma hd_show_nat: "0 < n \<Longrightarrow> \<exists>d. hd (show_nat n) = digit_char d \<and> 0 < d \<and> d < 10"
proof (induction n rule: show_nat.induct)
  case (1 n)
  show ?case
  proof (cases "n < 10")
    case True
    with "1.prems" show ?thesis by (subst show_nat.simps) auto
  next
    case False
    with "1.IH" show ?thesis by (subst show_nat.simps) simp
  qed
qed

end
