(* ===== verification/Dict.thy ===== *)
theory Dict
  imports Prelude
begin

text \<open>
  The string dictionary of lsd/dict.c and lsd/dict.h: an open-addressing hash table with the probe
  sequence of CPython's dictionaries. A \<open>dict\<close> is the struct of dict.h, its fields kept as 32-bit
  words; the table is the list of its slots, the empty list standing for a NULL table (every slot
  read of it fails). A slot's key is NULL, the deletion mark DUMMY_PTR, a string, or a freed
  string (the pointer an \<open>strdup\<close> failure leaves behind). The comparison \<open>ep->key == key\<close> of
  pointers is subsumed by the comparison of hash and text: the dictionary owns its copies, so equal
  pointers mean the same slot text.

  \<open>None\<close> as the result of a function: the probe loop never ends, or it reads a freed key or a
  NULL table. \<open>None\<close> for a dict or string argument is a NULL pointer. The allocator and the clock
  are the record \<open>denv\<close>: which \<open>strdup\<close> and \<open>calloc\<close> calls succeed, and the time.
\<close>

section \<open>Data\<close>

datatype slotkey = KNull | KDummy | KFreed | KStr string

text \<open>
  What a \<open>blob\<close> field can point to: an address a caller passed, or a parameter in the frame of a
  \<open>dict_add_p\<close> call that has returned (\<open>slot->blob = (void * )&blob\<close> stores the latter).
\<close>
datatype blobptr = Caller nat | DeadFrame

record keypair =
  kp_key :: slotkey
  kp_val :: "string option"
  kp_blob :: "blobptr option"
  kp_ts :: int
  kp_hash :: u32

record dict =
  d_fill :: u32
  d_used :: u32
  d_size :: u32
  d_table :: "keypair list"

record denv =
  strdup_ok :: "string \<Rightarrow> bool"
  calloc_ok :: "u32 \<Rightarrow> bool"
  now :: int

text \<open>The zeroed slot \<open>calloc\<close> returns.\<close>
definition empty_slot :: keypair where
  "empty_slot = \<lparr>kp_key = KNull, kp_val = None, kp_blob = None, kp_ts = 0, kp_hash = 0\<rparr>"

definition DICT_MIN_SZ :: u32 where "DICT_MIN_SZ = 8"
definition PERTURB_SHIFT :: nat where "PERTURB_SHIFT = 5"
definition DICT_BIGSZ :: u32 where "DICT_BIGSZ = 64000"

section \<open>Hash functions\<close>

text \<open>\<open>(unsigned)key[i]\<close>: \<open>char\<close> is signed, so the byte is sign-extended.\<close>
definition char_u32 :: "char \<Rightarrow> u32" where
  "char_u32 c = scast (of_char c :: u8)"

fun dobbs_loop :: "u32 \<Rightarrow> string \<Rightarrow> u32" where
  "dobbs_loop h [] = h"
| "dobbs_loop h (c # cs) =
     (let h1 = h + char_u32 c; h2 = h1 + push_bit 10 h1; h3 = h2 XOR drop_bit 6 h2
      in dobbs_loop h3 cs)"

definition dict_hash :: "string \<Rightarrow> u32" where
  "dict_hash key =
     (let h = dobbs_loop 0 key; h1 = h + push_bit 3 h; h2 = h1 XOR drop_bit 11 h1
      in h2 + push_bit 15 h2)"

section \<open>Lookup\<close>

text \<open>The hash-and-text match of a slot against a key.\<close>
definition slot_match :: "keypair \<Rightarrow> string \<Rightarrow> u32 \<Rightarrow> bool" where
  "slot_match ep key hash \<longleftrightarrow> kp_hash ep = hash \<and> kp_key ep = KStr key"

definition probe_next :: "dict \<Rightarrow> u32 \<Rightarrow> u32 \<Rightarrow> u32" where
  "probe_next d i perturb = (push_bit 2 i + i + perturb + 1) AND (d_size d - 1)"

text \<open>
  The loop \<open>for (perturb = hash ; ; perturb >>= PERTURB_SHIFT)\<close> of \<open>dict_lookup\<close>, from the head of
  its body: \<open>free\<close> is \<open>mem_freeslot\<close>. The result is the index of the slot returned.
\<close>
partial_function (option) dict_probe ::
  "dict \<Rightarrow> string \<Rightarrow> u32 \<Rightarrow> u32 \<Rightarrow> u32 \<Rightarrow> nat option \<Rightarrow> nat option" where
  "dict_probe d key hash i0 perturb free =
     (let i = probe_next d i0 perturb in
      case nth_opt (d_table d) (unat i) of
        None \<Rightarrow> None
      | Some ep \<Rightarrow>
          if kp_key ep = KNull then Some (case free of None \<Rightarrow> unat i | Some f \<Rightarrow> f)
          else if kp_key ep = KFreed \<and> kp_hash ep = hash then None
          else if slot_match ep key hash then Some (unat i)
          else dict_probe d key hash i (drop_bit PERTURB_SHIFT perturb)
                 (if kp_key ep = KDummy \<and> free = None then Some (unat i) else free))"

declare dict_probe.simps [code]

definition dict_lookup :: "dict \<Rightarrow> string \<Rightarrow> u32 \<Rightarrow> nat option" where
  "dict_lookup d key hash =
     (let i = hash AND (d_size d - 1) in
      case nth_opt (d_table d) (unat i) of
        None \<Rightarrow> None
      | Some ep \<Rightarrow>
          if kp_key ep = KNull then Some (unat i)
          else if kp_key ep = KDummy then dict_probe d key hash i hash (Some (unat i))
          else if kp_key ep = KFreed \<and> kp_hash ep = hash then None
          else if slot_match ep key hash then Some (unat i)
          else dict_probe d key hash i hash None)"

section \<open>Insertion and resizing\<close>

definition set_slot :: "dict \<Rightarrow> nat \<Rightarrow> keypair \<Rightarrow> dict" where
  "set_slot d s ep = d\<lparr>d_table := (d_table d)[s := ep]\<rparr>"

text \<open>
  The size search of \<open>dict_resize\<close>: \<open>while (newsize <= (factor * d->used)) newsize *= 2\<close>, in
  unsigned 32-bit arithmetic. \<open>None\<close>: it loops forever (the product wrapped round to 0).
\<close>
partial_function (option) grow_size :: "u32 \<Rightarrow> u32 \<Rightarrow> u32 option" where
  "grow_size newsize bound =
     (if newsize \<le> bound then grow_size (newsize * 2) bound else Some newsize)"

declare grow_size.simps [code]

text \<open>
  The reinsertion loop over the old table; \<open>add\<close> is \<open>dict_add_p\<close> with \<open>copy = 0\<close>, whose result
  value the loop ignores.
\<close>
fun dict_reinsert ::
  "(dict \<Rightarrow> string \<Rightarrow> string option \<Rightarrow> int \<Rightarrow> (int \<times> dict) option) \<Rightarrow> keypair list \<Rightarrow> dict \<Rightarrow> dict option" where
  "dict_reinsert add [] d = Some d"
| "dict_reinsert add (ep # eps) d =
     (case kp_key ep of
        KNull \<Rightarrow> dict_reinsert add eps d
      | KDummy \<Rightarrow> dict_reinsert add eps d
      | KFreed \<Rightarrow> None
      | KStr k \<Rightarrow> do { (rv, d') \<leftarrow> add d k (kp_val ep) (kp_ts ep); dict_reinsert add eps d' })"

definition dict_resize_by ::
  "(dict \<Rightarrow> string \<Rightarrow> string option \<Rightarrow> int \<Rightarrow> (int \<times> dict) option) \<Rightarrow> denv \<Rightarrow> dict \<Rightarrow> (int \<times> dict) option" where
  "dict_resize_by add m d =
     (let factor = (if DICT_BIGSZ < d_size d then 2 else 4) in
      do { newsize \<leftarrow> grow_size (d_size d) (factor * d_used d);
           if newsize = d_size d then Some (0, d)
           else if \<not> calloc_ok m newsize then Some (- 1, d\<lparr>d_table := []\<rparr>)
           else do { d' \<leftarrow> dict_reinsert add (d_table d)
                            \<lparr>d_fill = 0, d_used = 0, d_size = newsize,
                             d_table = replicate (unat newsize) empty_slot\<rparr>;
                     Some (0, d') } })"

text \<open>The stores of \<open>dict_add_p\<close> into the slot once the copies exist.\<close>
definition fill_slot ::
  "denv \<Rightarrow> keypair \<Rightarrow> string \<Rightarrow> string option \<Rightarrow> bool \<Rightarrow> int \<Rightarrow> bool \<Rightarrow> keypair" where
  "fill_slot m ep key val blob ts copy =
     ep\<lparr>kp_key := KStr key,
        kp_val := (if copy then (case val of None \<Rightarrow> kp_val ep | Some v \<Rightarrow> Some v) else val),
        kp_blob := (if blob then Some DeadFrame else kp_blob ep),
        kp_ts := (if ts \<noteq> 0 then ts else now m),
        kp_hash := dict_hash key\<rparr>"

text \<open>
  \<open>dict_add_p\<close> for non-NULL \<open>d\<close> and \<open>key\<close>; \<open>blob\<close> tells whether the blob argument is non-NULL. The
  first argument bounds how many resizes may nest (each at least doubles the table, so 32 are
  possible before the 32-bit size wraps); when it is used up the result is \<open>None\<close>.
\<close>
primrec dict_add_p ::
  "nat \<Rightarrow> denv \<Rightarrow> dict \<Rightarrow> string \<Rightarrow> string option \<Rightarrow> bool \<Rightarrow> int \<Rightarrow> bool \<Rightarrow> (int \<times> dict) option" where
  "dict_add_p 0 m d key val blob ts copy = None"
| "dict_add_p (Suc n) m d key val blob ts copy =
     (let hash = dict_hash key in
      case dict_lookup d key hash of
        None \<Rightarrow> None
      | Some s \<Rightarrow>
          let ep = d_table d ! s in
          if copy \<and> \<not> strdup_ok m key then Some (- 1, set_slot d s (ep\<lparr>kp_key := KNull\<rparr>))
          else if copy \<and> (case val of None \<Rightarrow> False | Some v \<Rightarrow> \<not> strdup_ok m v)
          then Some (- 1, set_slot d s (ep\<lparr>kp_key := KFreed, kp_val := None\<rparr>))
          else
            let d1 = set_slot d s (fill_slot m ep key val blob ts copy);
                d2 = d1\<lparr>d_used := d_used d1 + 1, d_fill := d_fill d1 + 1\<rparr>
            in if d_size d2 * 2 \<le> 3 * d_fill d2
               then (case dict_resize_by (\<lambda>d k v t. dict_add_p n m d k v False t False) m d2 of
                       None \<Rightarrow> None
                     | Some (rv, d3) \<Rightarrow> Some (if rv \<noteq> 0 then - 1 else 0, d3))
               else Some (0, d2))"

declare dict_add_p.simps(2) [simp del]

definition RESIZE_DEPTH :: nat where "RESIZE_DEPTH = 33"

definition dict_resize :: "denv \<Rightarrow> dict \<Rightarrow> (int \<times> dict) option" where
  "dict_resize m d =
     dict_resize_by (\<lambda>d k v t. dict_add_p RESIZE_DEPTH m d k v False t False) m d"


section \<open>The public operations\<close>

definition dict_new :: "denv \<Rightarrow> dict option" where
  "dict_new m =
     (if \<not> calloc_ok m 1 then None
      else Some \<lparr>d_fill = 0, d_used = 0, d_size = DICT_MIN_SZ,
                 d_table = (if calloc_ok m DICT_MIN_SZ
                            then replicate (unat DICT_MIN_SZ) empty_slot else [])\<rparr>)"

text \<open>\<open>dict_add_p\<close> with \<open>copy = 1\<close>, with its check for NULL arguments.\<close>
definition dict_add_args ::
  "denv \<Rightarrow> dict option \<Rightarrow> string option \<Rightarrow> string option \<Rightarrow> bool \<Rightarrow> int \<Rightarrow> (int \<times> dict option) option" where
  "dict_add_args m d key val blob ts =
     (case (d, key) of
        (Some d', Some k) \<Rightarrow>
          (case dict_add_p RESIZE_DEPTH m d' k val blob ts True of
             None \<Rightarrow> None | Some (rv, d'') \<Rightarrow> Some (rv, Some d''))
      | _ \<Rightarrow> Some (- 1, d))"

definition dict_add ::
  "denv \<Rightarrow> dict option \<Rightarrow> string option \<Rightarrow> string option \<Rightarrow> (int \<times> dict option) option" where
  "dict_add m d key val = dict_add_args m d key val False (now m)"

definition dict_add_ts ::
  "denv \<Rightarrow> dict option \<Rightarrow> string option \<Rightarrow> string option \<Rightarrow> int \<Rightarrow> (int \<times> dict option) option" where
  "dict_add_ts m d key val ts = dict_add_args m d key val False ts"

text \<open>
  The blob variants pass \<open>&ptr\<close>, the address of their own parameter, whatever \<open>ptr\<close> is: the
  argument \<open>ptr\<close> of the caller does not reach the table.
\<close>
definition dict_add_blob ::
  "denv \<Rightarrow> dict option \<Rightarrow> string option \<Rightarrow> ptr \<Rightarrow> (int \<times> dict option) option" where
  "dict_add_blob m d key ptr = dict_add_args m d key None True (now m)"

definition dict_add_blob_ts ::
  "denv \<Rightarrow> dict option \<Rightarrow> string option \<Rightarrow> ptr \<Rightarrow> int \<Rightarrow> (int \<times> dict option) option" where
  "dict_add_blob_ts m d key ptr ts = dict_add_args m d key None True ts"

definition dict_get :: "dict option \<Rightarrow> string option \<Rightarrow> string option \<Rightarrow> string option option" where
  "dict_get d key defval =
     (case (d, key) of
        (Some d', Some k) \<Rightarrow>
          map_option (\<lambda>s. kp_val (d_table d' ! s)) (dict_lookup d' k (dict_hash k))
      | _ \<Rightarrow> Some defval)"

definition dict_get_blob ::
  "dict option \<Rightarrow> string option \<Rightarrow> blobptr option \<Rightarrow> blobptr option option" where
  "dict_get_blob d key defval =
     (case (d, key) of
        (Some d', Some k) \<Rightarrow>
          map_option (\<lambda>s. case kp_blob (d_table d' ! s) of None \<Rightarrow> defval | Some b \<Rightarrow> Some b)
            (dict_lookup d' k (dict_hash k))
      | _ \<Rightarrow> Some defval)"

definition dict_del :: "dict option \<Rightarrow> string option \<Rightarrow> (int \<times> dict option) option" where
  "dict_del d key =
     (case (d, key) of
        (Some d', Some k) \<Rightarrow>
          (case dict_lookup d' k (dict_hash k) of
             None \<Rightarrow> None
           | Some s \<Rightarrow>
               Some (0, Some ((set_slot d' s ((d_table d' ! s)\<lparr>kp_key := KDummy, kp_val := None\<rparr>))
                               \<lparr>d_used := d_used d' - 1\<rparr>)))
      | _ \<Rightarrow> Some (- 1, d))"

text \<open>The strings \<open>dict_free\<close> hands to \<open>mem_free\<close>, in order.\<close>
definition dict_free :: "dict option \<Rightarrow> string list option" where
  "dict_free d =
     (case d of
        None \<Rightarrow> Some []
      | Some d' \<Rightarrow>
          if length (d_table d') < unat (d_size d') \<or> (\<exists>ep \<in> set (d_table d'). kp_key ep = KFreed)
          then None
          else Some (concat (map (\<lambda>ep. case kp_key ep of
                 KStr k \<Rightarrow> k # (case kp_val ep of None \<Rightarrow> [] | Some v \<Rightarrow> [v]) | _ \<Rightarrow> [])
               (take (unat (d_size d')) (d_table d')))))"

section \<open>Enumeration and dumping\<close>

text \<open>
  The scan of \<open>dict_enumerate\<close> reads \<open>table[rank].key\<close> before it compares \<open>rank\<close> with the size, so at
  the end of the table it reads one slot past it: \<open>past\<close> is what lies there.
\<close>
definition slot_key_at :: "slotkey \<Rightarrow> dict \<Rightarrow> nat \<Rightarrow> slotkey" where
  "slot_key_at past d i = (if i < length (d_table d) then kp_key (d_table d ! i) else past)"

function enum_scan :: "slotkey \<Rightarrow> dict \<Rightarrow> nat \<Rightarrow> nat" where
  "enum_scan past d rank =
     (if (slot_key_at past d rank = KNull \<or> slot_key_at past d rank = KDummy) \<and> rank < unat (d_size d)
      then enum_scan past d (Suc rank) else rank)"
  by pat_completeness auto
termination
  by (relation "measure (\<lambda>(past, d, rank). unat (d_size d) - rank)") auto

declare enum_scan.simps [simp del]

text \<open>The result: the returned rank, \<open>*key\<close>, \<open>*val\<close>, and \<open>*ts\<close> where it is stored.\<close>
definition dict_enumerate ::
  "slotkey \<Rightarrow> dict option \<Rightarrow> int \<Rightarrow> int \<times> slotkey \<times> string option \<times> int option" where
  "dict_enumerate past d rank =
     (case d of
        None \<Rightarrow> (- 1, KNull, None, None)
      | Some d' \<Rightarrow>
          if rank < 0 then (- 1, KNull, None, None)
          else let r = enum_scan past d' (nat rank) in
            if unat (d_size d') \<le> r then (- 1, KNull, None, None)
            else let ep = d_table d' ! r in (int r + 1, kp_key ep, kp_val ep, Some (kp_ts ep)))"

text \<open>
  \<open>dict_dump\<close>: \<open>put s\<close> says whether \<open>fprintf\<close> of the line \<open>s\<close> succeeds. The result is the list of the
  lines printed and the error count. The first argument bounds the calls of \<open>dict_enumerate\<close>; the
  table size plus one is enough, as each call returns a larger rank or -1.
\<close>
definition dump_line :: "slotkey \<Rightarrow> string option \<Rightarrow> string" where
  "dump_line key val =
     (case key of KStr k \<Rightarrow> k | _ \<Rightarrow> ''(null)'') @ ''='' @
     (case val of None \<Rightarrow> ''UNDEF'' | Some v \<Rightarrow> v) @ [c_nl]"

fun dump_loop ::
  "nat \<Rightarrow> (string \<Rightarrow> bool) \<Rightarrow> slotkey \<Rightarrow> dict \<Rightarrow> int \<Rightarrow> nat \<Rightarrow> (string list \<times> nat) option" where
  "dump_loop 0 put past d rank errors = None"
| "dump_loop (Suc n) put past d rank errors =
     (let (rank', key, val, ts) = dict_enumerate past (Some d) rank in
      if rank' < 0 then Some ([], errors)
      else let line = dump_line key val in
        if put line
        then map_option (\<lambda>(ls, e). (line # ls, e)) (dump_loop n put past d rank' errors)
        else dump_loop n put past d rank' (Suc errors))"

definition dict_dump ::
  "(string \<Rightarrow> bool) \<Rightarrow> slotkey \<Rightarrow> dict option \<Rightarrow> (string list \<times> nat) option" where
  "dict_dump put past d =
     (case d of None \<Rightarrow> Some ([], 0) | Some d' \<Rightarrow> dump_loop (unat (d_size d') + 1) put past d' 0 0)"

section \<open>Typed getters\<close>

definition dict_getBool :: "dict option \<Rightarrow> string option \<Rightarrow> bool \<Rightarrow> bool option" where
  "dict_getBool d key def =
     (case dict_get d key None of
        None \<Rightarrow> None
      | Some None \<Rightarrow> Some def
      | Some (Some s) \<Rightarrow>
          if strcaseeq s ''false'' \<or> strcaseeq s ''no'' then Some False
          else if strcaseeq s ''true'' \<or> strcaseeq s ''yes'' then Some True
          else Some def)"

definition dict_getInt :: "dict option \<Rightarrow> string option \<Rightarrow> int \<Rightarrow> int option" where
  "dict_getInt d key def =
     (case dict_get d key None of
        None \<Rightarrow> None
      | Some None \<Rightarrow> Some def
      | Some (Some s) \<Rightarrow>
          (case strtol0 s of (v, rest, erange) \<Rightarrow>
             if erange \<or> (int_of_long v = 0 \<and> rest = s) then Some def else Some (int_of_long v)))"

end
