(* ===== verification/Probe.thy ===== *)
theory Probe
  imports Prelude
begin

text \<open>
  The number theory behind the probe sequence of lsd/dict.c. Once the perturbation has been shifted
  out, the sequence is the linear congruential generator \<open>i := 5 * i + 1\<close> modulo the table size, a
  power of two. This theory shows that it visits every index before it repeats one, which is what
  makes the unbounded loop of \<open>dict_lookup\<close> stop on any table with a NULL slot.
\<close>

section \<open>The order of 5 modulo a power of two\<close>

lemma five_pow_mod8: "odd d \<Longrightarrow> (5 :: int) ^ d mod 8 = 5"
proof -
  assume "odd d"
  then obtain e where d: "d = 2 * e + 1" by (auto elim: oddE)
  have a: "(25 :: int) ^ e mod 8 = 1"
    by (induction e) (auto simp: mod_mult_right_eq [of 25, symmetric])
  have "(5 :: int) ^ d = 5 * 25 ^ e" by (simp add: d power_mult)
  then show ?thesis using mod_mult_right_eq [of 5 "25 ^ e" "8::int"] a by simp
qed

lemma five_pow_mod4: "(5 :: int) ^ d mod 4 = 1"
  by (induction d) (auto simp: mod_mult_right_eq [of 5, symmetric])

lemma five_pow_square: "(5 :: int) ^ (2 * e) - 1 = (5 ^ e - 1) * (5 ^ e + 1)"
  by (simp add: power_mult power2_eq_square algebra_simps power_mult_distrib [symmetric])

lemma five_pow_plus1: obtains m where "(5 :: int) ^ e + 1 = 2 * m" and "odd m"
proof -
  have "((5 :: int) ^ e + 1) mod 4 = 2" using five_pow_mod4 [of e] by presburger
  then have "(5 :: int) ^ e + 1 = 2 * (((5 :: int) ^ e + 1) div 2)"
    and "odd (((5 :: int) ^ e + 1) div 2)" by presburger+
  then show ?thesis by (rule that)
qed

lemma dvd_five_pow: "(2 :: int) ^ (k + 2) dvd 5 ^ d - 1 \<Longrightarrow> 2 ^ k dvd d"
proof (induction k arbitrary: d)
  case 0
  show ?case by simp
next
  case (Suc k)
  have "even d"
  proof (rule ccontr)
    assume "odd d"
    then have "(5 :: int) ^ d mod 8 = 5" by (rule five_pow_mod8)
    moreover have "(8 :: int) dvd 2 ^ (Suc k + 2)"
      using le_imp_power_dvd [of 3 "Suc k + 2" "2::int"] by simp
    then have "(8 :: int) dvd 5 ^ d - 1" using Suc.prems by (rule dvd_trans)
    ultimately show False by presburger
  qed
  then obtain e where d: "d = 2 * e" by (auto elim: evenE)
  obtain m where m: "(5 :: int) ^ e + 1 = 2 * m" and oddm: "odd m"
    by (rule five_pow_plus1)
  have "(2 :: int) * 2 ^ (k + 2) dvd 2 * ((5 ^ e - 1) * m)"
  proof -
    have "(2 :: int) ^ (Suc k + 2) dvd (5 ^ e - 1) * (2 * m)"
      using Suc.prems by (simp only: d five_pow_square m)
    then show ?thesis by (simp only: power_Suc add_Suc ac_simps)
  qed
  then have "(2 :: int) ^ (k + 2) dvd (5 ^ e - 1) * m"
    by (simp only: dvd_mult_cancel_left) simp
  moreover have "coprime ((2 :: int) ^ (k + 2)) m"
    using oddm by (simp only: coprime_power_left_iff coprime_left_2_iff_odd) simp
  ultimately have "(2 :: int) ^ (k + 2) dvd 5 ^ e - 1"
    by (simp only: coprime_dvd_mult_left_iff)
  then have "2 ^ k dvd e" by (rule Suc.IH)
  then show ?case by (simp add: d)
qed

section \<open>The generator has full period\<close>

primrec lcg :: "nat \<Rightarrow> nat \<Rightarrow> nat" where
  "lcg 0 x = x"
| "lcg (Suc n) x = 5 * lcg n x + 1"

lemma lcg_closed: "4 * int (lcg n x) + 1 = 5 ^ n * (4 * int x + 1)"
  by (induction n) (auto simp: algebra_simps)

lemma lcg_add: "lcg (m + n) x = lcg n (lcg m x)"
  by (induction n) auto

lemma lcg_period:
  assumes "lcg d x mod 2 ^ k = x mod 2 ^ k"
  shows "2 ^ k dvd d"
proof -
  have "int (lcg d x) mod 2 ^ k = int x mod 2 ^ k"
    using assms by (metis of_nat_mod of_nat_numeral of_nat_power)
  then have "(2 :: int) ^ k dvd int (lcg d x) - int x"
    by (simp add: mod_eq_dvd_iff)
  then have "(4 :: int) * 2 ^ k dvd 4 * (int (lcg d x) - int x)"
    by (rule mult_dvd_mono [OF dvd_refl])
  moreover have "4 * (int (lcg d x) - int x) = (5 ^ d - 1) * (4 * int x + 1)"
    using lcg_closed [of d x] by (simp add: algebra_simps)
  ultimately have "(2 :: int) ^ (k + 2) dvd (5 ^ d - 1) * (4 * int x + 1)"
    by (simp add: power_add mult.commute)
  moreover have "odd (4 * int x + 1)" by simp
  then have "coprime ((2 :: int) ^ (k + 2)) (4 * int x + 1)"
    by (simp only: coprime_power_left_iff coprime_left_2_iff_odd) simp
  ultimately have "(2 :: int) ^ (k + 2) dvd 5 ^ d - 1"
    by (simp only: coprime_dvd_mult_left_iff)
  then show ?thesis by (rule dvd_five_pow)
qed

lemma lcg_inj: "inj_on (\<lambda>n. lcg n x mod 2 ^ k) {..<2 ^ k}"
proof (rule linorder_inj_onI)
  fix m n :: nat
  assume "m < n" and "m \<in> {..<2 ^ k}" and "n \<in> {..<2 ^ k}"
  then have "0 < n - m" and "n - m < 2 ^ k" by auto
  then have "\<not> 2 ^ k dvd n - m" by (metis nat_dvd_not_less)
  then have "lcg (n - m) (lcg m x) mod 2 ^ k \<noteq> lcg m x mod 2 ^ k"
    using lcg_period by blast
  then show "lcg m x mod 2 ^ k \<noteq> lcg n x mod 2 ^ k"
    using \<open>m < n\<close> lcg_add [of m "n - m" x] by simp
qed auto

lemma lcg_covers: "j < 2 ^ k \<Longrightarrow> \<exists>n < 2 ^ k. lcg n x mod 2 ^ k = j"
proof -
  assume j: "j < 2 ^ k"
  have "(\<lambda>n. lcg n x mod 2 ^ k) ` {..<2 ^ k} = {..<2 ^ k}"
    by (rule endo_inj_surj [OF _ _ lcg_inj]) auto
  then show ?thesis using j by (metis (no_types, lifting) image_iff lessThan_iff)
qed

end
