(* ===== verification/DictLookup.thy ===== *)
theory DictLookup
  imports Dict Probe
begin

text \<open>
  What \<open>dict_lookup\<close> of lsd/dict.c returns, on any table without freed keys whose size is a power of
  two: the first slot of the probe path that is NULL or matches decides, and if no slot of the path
  does, the call never returns. The path covers the whole table (theory Probe).
\<close>

section \<open>The probe path\<close>

primrec probe_ix :: "dict \<Rightarrow> u32 \<Rightarrow> nat \<Rightarrow> u32" where
  "probe_ix d h 0 = h AND (d_size d - 1)"
| "probe_ix d h (Suc n) = probe_next d (probe_ix d h n) (drop_bit (PERTURB_SHIFT * n) h)"

definition size_ok :: "dict \<Rightarrow> bool" where
  "size_ok d \<longleftrightarrow> (\<exists>k \<in> {3..31}. unat (d_size d) = 2 ^ k \<and> length (d_table d) = 2 ^ k)"

lemma and_size:
  assumes "unat sz = 2 ^ k" "k < 32"
  shows "unat ((x :: u32) AND (sz - 1)) = unat x mod 2 ^ k"
proof -
  have "unat (2 ^ k :: u32) = 2 ^ k" using assms(2) 
  proof -
    have "(2 :: u32) ^ k = word_of_nat (2 ^ k)" by simp
    moreover have "(2 :: nat) ^ k < 2 ^ 32"
      using assms(2) by (intro power_strict_increasing) auto
    ultimately show ?thesis by (simp only: unsigned_of_nat take_bit_eq_mod) simp
  qed
  then have "sz = 2 ^ k" using assms(1) by (metis unsigned_word_eqI)
  then have "sz - 1 = mask k" by (simp add: mask_eq_exp_minus_1)
  then have "x AND (sz - 1) = take_bit k x" by (simp add: take_bit_eq_mask)
  then show ?thesis by (simp only: unsigned_take_bit_eq) (simp only: take_bit_eq_mod)
qed

lemma unat_probe_next:
  assumes "unat (d_size d) = 2 ^ k" "k < 32"
  shows "unat (probe_next d i p) = (5 * unat i + unat p + 1) mod 2 ^ k"
proof -
  have "push_bit 2 i + i = 5 * i"
    by (simp add: push_bit_eq_mult)
  then have "unat (push_bit 2 i + i + p + 1) = (5 * unat i + unat p + 1) mod 2 ^ 32"
    by (simp add: unat_word_ariths mod_simps)
  moreover have "(2 :: nat) ^ k dvd 2 ^ 32" using assms(2) by (intro le_imp_power_dvd) simp
  ultimately show ?thesis
    by (simp add: probe_next_def and_size [OF assms] mod_mod_cancel)
qed

lemma probe_ix_less:
  assumes "unat (d_size d) = 2 ^ k" "k < 32"
  shows "unat (probe_ix d h n) < 2 ^ k"
  by (cases n) (simp_all add: and_size [OF assms] unat_probe_next [OF assms])

lemma perturb_gone: "7 \<le> n \<Longrightarrow> drop_bit (PERTURB_SHIFT * n) (h :: u32) = 0"
proof -
  assume "7 \<le> n"
  then have "32 \<le> PERTURB_SHIFT * n" by (simp add: PERTURB_SHIFT_def)
  then have "unat h < 2 ^ (PERTURB_SHIFT * n)"
    using unsigned_less [of h, where ?'a = nat] power_increasing [of 32 "PERTURB_SHIFT * n" "2::nat"] by simp
  moreover have "unat (drop_bit (PERTURB_SHIFT * n) h) = drop_bit (PERTURB_SHIFT * n) (unat h)"
    using unsigned_less [of h, where ?'a = nat]
    by (simp add: unsigned_drop_bit_eq take_bit_nat_eq_self)
  ultimately have "unat (drop_bit (PERTURB_SHIFT * n) h) = 0"
    by (simp add: drop_bit_eq_div [of _ "unat h"])
  then show ?thesis by (simp add: unat_eq_0)
qed

lemma probe_ix_lcg:
  assumes "unat (d_size d) = 2 ^ k" "k < 32"
  shows "unat (probe_ix d h (7 + n)) = lcg n (unat (probe_ix d h 7)) mod 2 ^ k"
proof (induction n)
  case 0
  show ?case using probe_ix_less [OF assms] by simp
next
  case (Suc n)
  have "unat (probe_ix d h (7 + Suc n)) = (5 * unat (probe_ix d h (7 + n)) + 1) mod 2 ^ k"
    by (simp only: add_Suc_right probe_ix.simps unat_probe_next [OF assms]) (simp add: perturb_gone)
  also have "\<dots> = (5 * lcg n (unat (probe_ix d h 7)) + 1) mod 2 ^ k"
    by (simp only: Suc.IH) (metis mod_add_left_eq mod_mult_right_eq)
  finally show ?case by simp
qed

lemma probe_ix_covers:
  assumes "unat (d_size d) = 2 ^ k" "k < 32" "j < 2 ^ k"
  shows "\<exists>n < 7 + 2 ^ k. unat (probe_ix d h n) = j"
proof -
  obtain n where "n < 2 ^ k" "lcg n (unat (probe_ix d h 7)) mod 2 ^ k = j"
    using lcg_covers [OF assms(3)] by blast
  then show ?thesis using probe_ix_lcg [OF assms(1,2), of h n]
    by (intro exI [of _ "7 + n"]) simp
qed

declare probe_ix.simps(2) [simp del]

lemma probe_step [simp]:
  "probe_next d (probe_ix d h n) (drop_bit (PERTURB_SHIFT * n) h) = probe_ix d h (Suc n)"
  by (simp add: probe_ix.simps(2))

lemma perturb_step [simp]:
  "drop_bit PERTURB_SHIFT (drop_bit (PERTURB_SHIFT * n) (h :: u32)) = drop_bit (PERTURB_SHIFT * Suc n) h"
  by (simp add: drop_bit_drop_bit add.commute)

section \<open>The slot the lookup returns\<close>

abbreviation path :: "dict \<Rightarrow> u32 \<Rightarrow> nat \<Rightarrow> nat" where
  "path d h n \<equiv> unat (probe_ix d h n)"

definition no_freed :: "dict \<Rightarrow> bool" where
  "no_freed d \<longleftrightarrow> (\<forall>ep \<in> set (d_table d). kp_key ep \<noteq> KFreed)"

text \<open>The probe does not stop at a slot: neither NULL nor the key.\<close>
definition passes :: "dict \<Rightarrow> string \<Rightarrow> u32 \<Rightarrow> nat \<Rightarrow> bool" where
  "passes d key h n \<longleftrightarrow>
     kp_key (d_table d ! path d h n) \<noteq> KNull \<and> \<not> slot_match (d_table d ! path d h n) key h"

lemma path_less: "size_ok d \<Longrightarrow> path d h n < length (d_table d)"
  by (auto simp: size_ok_def probe_ix_less)

lemma slot_not_freed: "no_freed d \<Longrightarrow> i < length (d_table d) \<Longrightarrow> kp_key (d_table d ! i) \<noteq> KFreed"
  by (auto simp: no_freed_def)

lemma dict_probe_run:
  assumes "size_ok d" "no_freed d"
  shows "\<lbrakk>\<forall>m. n < m \<and> m < n + Suc k \<longrightarrow> passes d key h m; \<not> passes d key h (n + Suc k)\<rbrakk> \<Longrightarrow>
    \<exists>r. dict_probe d key h (probe_ix d h n) (drop_bit (PERTURB_SHIFT * n) h) free = Some r \<and>
      (slot_match (d_table d ! path d h (n + Suc k)) key h \<longrightarrow> r = path d h (n + Suc k)) \<and>
      (\<not> slot_match (d_table d ! path d h (n + Suc k)) key h \<longrightarrow>
         (case free of Some f \<Rightarrow> r = f
          | None \<Rightarrow> \<exists>m. n < m \<and> m \<le> n + Suc k \<and> r = path d h m \<and>
              (kp_key (d_table d ! r) = KNull \<or> kp_key (d_table d ! r) = KDummy)))"
proof (induction k arbitrary: n free)
  case 0
  let ?ep = "d_table d ! path d h (Suc n)"
  have "nth_opt (d_table d) (path d h (Suc n)) = Some ?ep"
    using path_less [OF assms(1)] by simp
  moreover have "kp_key ?ep \<noteq> KFreed"
    by (rule slot_not_freed [OF assms(2) path_less [OF assms(1)]])
  ultimately show ?case using "0.prems"(2)
    by (subst dict_probe.simps)
       (auto simp: Let_def passes_def slot_match_def split: option.splits)
next
  case (Suc k)
  let ?ep = "d_table d ! path d h (Suc n)"
  have nth: "nth_opt (d_table d) (path d h (Suc n)) = Some ?ep"
    using path_less [OF assms(1)] by simp
  have nf: "kp_key ?ep \<noteq> KFreed"
    by (rule slot_not_freed [OF assms(2) path_less [OF assms(1)]])
  have ps: "passes d key h (Suc n)" using Suc.prems(1) by simp
  let ?free = "if kp_key ?ep = KDummy \<and> free = None then Some (path d h (Suc n)) else free"
  have step: "dict_probe d key h (probe_ix d h n) (drop_bit (PERTURB_SHIFT * n) h) free =
      dict_probe d key h (probe_ix d h (Suc n)) (drop_bit (PERTURB_SHIFT * Suc n) h) ?free"
    using nth nf ps
    by (subst dict_probe.simps) (simp add: Let_def passes_def)
  have pre: "\<forall>m. Suc n < m \<and> m < Suc n + Suc k \<longrightarrow> passes d key h m"
    "\<not> passes d key h (Suc n + Suc k)"
    using Suc.prems by auto
  from Suc.IH [OF pre, of ?free] obtain r where r:
    "dict_probe d key h (probe_ix d h (Suc n)) (drop_bit (PERTURB_SHIFT * Suc n) h) ?free = Some r"
    "slot_match (d_table d ! path d h (Suc n + Suc k)) key h \<longrightarrow> r = path d h (Suc n + Suc k)"
    "\<not> slot_match (d_table d ! path d h (Suc n + Suc k)) key h \<longrightarrow>
       (case ?free of Some f \<Rightarrow> r = f
        | None \<Rightarrow> \<exists>m. Suc n < m \<and> m \<le> Suc n + Suc k \<and> r = path d h m \<and>
            (kp_key (d_table d ! r) = KNull \<or> kp_key (d_table d ! r) = KDummy))"
    by blast
  have ren: "n + Suc (Suc k) = Suc n + Suc k" by simp
  have "\<not> slot_match (d_table d ! path d h (Suc n + Suc k)) key h \<Longrightarrow>
       (case free of Some f \<Rightarrow> r = f
        | None \<Rightarrow> \<exists>m. n < m \<and> m \<le> Suc n + Suc k \<and> r = path d h m \<and>
            (kp_key (d_table d ! r) = KNull \<or> kp_key (d_table d ! r) = KDummy))"
  proof (cases free)
    case (Some f)
    then show "?thesis" if "\<not> slot_match (d_table d ! path d h (Suc n + Suc k)) key h"
      using r(3) that by simp
  next
    case None
    show "?thesis" if nm: "\<not> slot_match (d_table d ! path d h (Suc n + Suc k)) key h"
    proof (cases "kp_key ?ep = KDummy")
      case True
      then have "r = path d h (Suc n)" using r(3) nm None by simp
      then show ?thesis using None True by (auto intro!: exI [of _ "Suc n"])
    next
      case False
      then obtain m where "Suc n < m \<and> m \<le> Suc n + Suc k \<and> r = path d h m \<and>
          (kp_key (d_table d ! r) = KNull \<or> kp_key (d_table d ! r) = KDummy)"
        using r(3) nm None by auto
      then show ?thesis using None by (auto intro!: exI [of _ m])
    qed
  qed
  then show ?case unfolding step ren using r(1,2) by blast
qed

lemma lookup_run:
  assumes "size_ok d" "no_freed d" "\<forall>m < N. passes d key h m" "\<not> passes d key h N"
  shows "\<exists>r. dict_lookup d key h = Some r \<and> r < length (d_table d) \<and>
    (slot_match (d_table d ! path d h N) key h \<longrightarrow> r = path d h N) \<and>
    (\<not> slot_match (d_table d ! path d h N) key h \<longrightarrow>
      (\<exists>m \<le> N. r = path d h m \<and>
         (kp_key (d_table d ! r) = KNull \<or> kp_key (d_table d ! r) = KDummy)))"
proof (cases N)
  case 0
  let ?ep = "d_table d ! path d h 0"
  have "nth_opt (d_table d) (unat (h AND (d_size d - 1))) = Some ?ep"
    using path_less [OF assms(1), of h 0] by simp
  moreover have "kp_key ?ep \<noteq> KFreed"
    by (rule slot_not_freed [OF assms(2) path_less [OF assms(1)]])
  ultimately show ?thesis using assms(4) 0 path_less [OF assms(1), of h 0]
    by (auto simp: dict_lookup_def Let_def passes_def slot_match_def split: option.splits)
next
  case (Suc k)
  let ?ep = "d_table d ! path d h 0"
  let ?free = "if kp_key ?ep = KDummy then Some (path d h 0) else None"
  have nth: "nth_opt (d_table d) (unat (h AND (d_size d - 1))) = Some ?ep"
    using path_less [OF assms(1), of h 0] by simp
  have nf: "kp_key ?ep \<noteq> KFreed"
    by (rule slot_not_freed [OF assms(2) path_less [OF assms(1)]])
  have ps: "passes d key h 0" using assms(3) Suc by simp
  have step: "dict_lookup d key h =
      dict_probe d key h (probe_ix d h 0) (drop_bit (PERTURB_SHIFT * 0) h) ?free"
    using nth nf ps by (auto simp: dict_lookup_def Let_def passes_def slot_match_def)
  have pre: "\<forall>m. 0 < m \<and> m < 0 + Suc k \<longrightarrow> passes d key h m" "\<not> passes d key h (0 + Suc k)"
    using assms(3,4) Suc by auto
  from dict_probe_run [OF assms(1,2) pre, of ?free] obtain r where r:
    "dict_lookup d key h = Some r"
    "slot_match (d_table d ! path d h N) key h \<longrightarrow> r = path d h N"
    "\<not> slot_match (d_table d ! path d h N) key h \<longrightarrow>
       (case ?free of Some f \<Rightarrow> r = f
        | None \<Rightarrow> \<exists>m. 0 < m \<and> m \<le> N \<and> r = path d h m \<and>
            (kp_key (d_table d ! r) = KNull \<or> kp_key (d_table d ! r) = KDummy))"
    unfolding step Suc add_0 by blast
  have "\<exists>m \<le> N. r = path d h m \<and> (kp_key (d_table d ! r) = KNull \<or> kp_key (d_table d ! r) = KDummy)"
    if "\<not> slot_match (d_table d ! path d h N) key h"
    using r(3) that by (cases "kp_key ?ep = KDummy") (auto intro: exI [of _ 0])
  moreover have "r < length (d_table d)"
    using calculation r(2) path_less [OF assms(1), of h] by blast
  ultimately show ?thesis using r by blast
qed

lemma first_stop:
  assumes "\<not> passes d key h n"
  obtains N where "N \<le> n" "\<not> passes d key h N" "\<forall>m < N. passes d key h m"
  using that [of "LEAST n. \<not> passes d key h n"] assms
  by (metis LeastI Least_le not_less_Least)

lemma probe_stops:
  "dict_probe d key h i p free = Some r \<Longrightarrow> size_ok d \<Longrightarrow> no_freed d \<Longrightarrow>
     i = probe_ix d h n \<Longrightarrow> p = drop_bit (PERTURB_SHIFT * n) h \<Longrightarrow> \<exists>m > n. \<not> passes d key h m"
proof -
  assume ret: "dict_probe d key h i p free = Some r"
  let ?P = "\<lambda>d key h i p (free :: nat option) (r :: nat). \<forall>n. size_ok d \<longrightarrow> no_freed d \<longrightarrow>
     i = probe_ix d h n \<longrightarrow> p = drop_bit (PERTURB_SHIFT * n) h \<longrightarrow> (\<exists>m > n. \<not> passes d key h m)"
  have "?P d key h i p free r"
  proof (rule dict_probe.raw_induct [where P = ?P, OF _ ret], intro allI impI)
    fix f d key h i p free r n
    assume IH: "\<And>d key h i p free r. f d key h i p free = Some r \<Longrightarrow> ?P d key h i p free r"
      and eq: "(let i' = probe_next d i p in
         case nth_opt (d_table d) (unat i') of None \<Rightarrow> None
         | Some ep \<Rightarrow>
             if kp_key ep = KNull then Some (case free of None \<Rightarrow> unat i' | Some f \<Rightarrow> f)
             else if kp_key ep = KFreed \<and> kp_hash ep = h then None
             else if slot_match ep key h then Some (unat i')
             else f d key h i' (drop_bit PERTURB_SHIFT p)
                    (if kp_key ep = KDummy \<and> free = None then Some (unat i') else free)) = Some r"
      and inv: "size_ok d" "no_freed d" "i = probe_ix d h n" "p = drop_bit (PERTURB_SHIFT * n) h"
    show "\<exists>m > n. \<not> passes d key h m"
    proof (cases "passes d key h (Suc n)")
      case False
      then show ?thesis by blast
    next
      case True
      let ?ep = "d_table d ! path d h (Suc n)"
      have nth: "nth_opt (d_table d) (path d h (Suc n)) = Some ?ep"
        using path_less [OF inv(1)] by simp
      have "kp_key ?ep \<noteq> KFreed"
        by (rule slot_not_freed [OF inv(2) path_less [OF inv(1)]])
      then have ret': "f d key h (probe_ix d h (Suc n)) (drop_bit (PERTURB_SHIFT * Suc n) h)
          (if kp_key ?ep = KDummy \<and> free = None then Some (path d h (Suc n)) else free) = Some r"
        using eq True nth by (simp add: inv Let_def passes_def)
      have "\<exists>m > Suc n. \<not> passes d key h m"
        using IH [OF ret', THEN spec, of "Suc n"] inv(1,2) by blast
      then show ?thesis by (meson Suc_lessD)
    qed
  qed
  then show "size_ok d \<Longrightarrow> no_freed d \<Longrightarrow> i = probe_ix d h n \<Longrightarrow>
      p = drop_bit (PERTURB_SHIFT * n) h \<Longrightarrow> \<exists>m > n. \<not> passes d key h m" by blast
qed

lemma lookup_stops:
  assumes "dict_lookup d key h = Some r" "size_ok d" "no_freed d"
  shows "\<exists>n. \<not> passes d key h n"
proof (rule ccontr)
  assume all: "\<nexists>n. \<not> passes d key h n"
  then have ps: "passes d key h 0" by blast
  let ?ep = "d_table d ! path d h 0"
  let ?free = "if kp_key ?ep = KDummy then Some (path d h 0) else None"
  have nth: "nth_opt (d_table d) (unat (h AND (d_size d - 1))) = Some ?ep"
    using path_less [OF assms(2), of h 0] by simp
  have nf: "kp_key ?ep \<noteq> KFreed"
    by (rule slot_not_freed [OF assms(3) path_less [OF assms(2)]])
  have "dict_lookup d key h = dict_probe d key h (probe_ix d h 0) (drop_bit (PERTURB_SHIFT * 0) h) ?free"
    using nth nf ps by (auto simp: dict_lookup_def Let_def passes_def slot_match_def)
  then show False using probe_stops [of d key h _ _ ?free r 0] assms all by auto
qed
end
