(* ===== verification/DictInv.thy ===== *)
theory DictInv
  imports DictLookup
begin

text \<open>
  The well-formedness invariant of a dictionary table (lsd/dict.c), its abstraction to a map, the
  lookup of present and absent keys, and the effect of writing a slot. A well-formed table need not
  have a NULL slot: that is the extra condition under which looking up an absent key returns.
\<close>

section \<open>The invariant and the abstraction\<close>

definition slot_ok :: "dict \<Rightarrow> nat \<Rightarrow> bool" where
  "slot_ok d i \<longleftrightarrow>
     (case kp_key (d_table d ! i) of
        KStr k \<Rightarrow> kp_hash (d_table d ! i) = dict_hash k \<and>
          (\<exists>n. path d (dict_hash k) n = i \<and>
               (\<forall>m < n. kp_key (d_table d ! path d (dict_hash k) m) \<noteq> KNull))
      | KFreed \<Rightarrow> False
      | _ \<Rightarrow> kp_val (d_table d ! i) = None)"

definition keys_distinct :: "dict \<Rightarrow> bool" where
  "keys_distinct d \<longleftrightarrow>
     (\<forall>i < length (d_table d). \<forall>j < length (d_table d). \<forall>k.
        kp_key (d_table d ! i) = KStr k \<longrightarrow> kp_key (d_table d ! j) = KStr k \<longrightarrow> i = j)"

definition table_ok :: "dict \<Rightarrow> bool" where
  "table_ok d \<longleftrightarrow> size_ok d \<and> (\<forall>i < length (d_table d). slot_ok d i) \<and> keys_distinct d"

definition null_slots :: "dict \<Rightarrow> nat set" where
  "null_slots d = {i. i < length (d_table d) \<and> kp_key (d_table d ! i) = KNull}"

definition live_slots :: "dict \<Rightarrow> nat set" where
  "live_slots d = {i. i < length (d_table d) \<and> (\<exists>k. kp_key (d_table d ! i) = KStr k)}"

definition dict_abs :: "dict \<Rightarrow> string \<Rightarrow> string option option" where
  "dict_abs d k = map_option kp_val (List.find (\<lambda>ep. kp_key ep = KStr k) (d_table d))"

lemma finite_null [simp]: "finite (null_slots d)" and finite_live [simp]: "finite (live_slots d)"
  by (simp_all add: null_slots_def live_slots_def)

lemma slot_okD_str:
  "table_ok d \<Longrightarrow> i < length (d_table d) \<Longrightarrow> kp_key (d_table d ! i) = KStr k \<Longrightarrow>
     kp_hash (d_table d ! i) = dict_hash k"
  by (auto simp: table_ok_def slot_ok_def)

lemma slot_okD_path:
  "table_ok d \<Longrightarrow> i < length (d_table d) \<Longrightarrow> kp_key (d_table d ! i) = KStr k \<Longrightarrow>
     \<exists>n. path d (dict_hash k) n = i \<and> (\<forall>m < n. kp_key (d_table d ! path d (dict_hash k) m) \<noteq> KNull)"
  unfolding table_ok_def slot_ok_def by force

lemma slot_okD_free:
  "table_ok d \<Longrightarrow> i < length (d_table d) \<Longrightarrow> kp_key (d_table d ! i) \<in> {KNull, KDummy} \<Longrightarrow>
     kp_val (d_table d ! i) = None"
  by (auto simp: table_ok_def slot_ok_def)

lemma table_ok_no_freed: "table_ok d \<Longrightarrow> no_freed d"
  by (force simp: table_ok_def no_freed_def slot_ok_def in_set_conv_nth split: slotkey.splits)

lemma dict_abs_None: "dict_abs d k = None \<longleftrightarrow> (\<forall>i < length (d_table d). kp_key (d_table d ! i) \<noteq> KStr k)"
  by (auto simp: dict_abs_def find_None_iff in_set_conv_nth)

lemma dict_abs_at:
  assumes "keys_distinct d" "i < length (d_table d)" "kp_key (d_table d ! i) = KStr k"
  shows "dict_abs d k = Some (kp_val (d_table d ! i))"
proof -
  have "List.find (\<lambda>ep. kp_key ep = KStr k) (d_table d) \<noteq> None"
    using assms(2,3) by (auto simp: find_None_iff in_set_conv_nth)
  then obtain x j where "List.find (\<lambda>ep. kp_key ep = KStr k) (d_table d) = Some x"
    "j < length (d_table d)" "kp_key (d_table d ! j) = KStr k" "x = d_table d ! j"
    by (auto simp: find_Some_iff)
  moreover have "i = j" using assms calculation unfolding keys_distinct_def by blast
  ultimately show ?thesis by (simp add: dict_abs_def)
qed

lemma dict_abs_SomeD:
  assumes "dict_abs d k = Some v"
  obtains i where "i < length (d_table d)" "kp_key (d_table d ! i) = KStr k" "v = kp_val (d_table d ! i)"
  using assms by (auto simp: dict_abs_def find_Some_iff)

lemma match_iff:
  "table_ok d \<Longrightarrow> i < length (d_table d) \<Longrightarrow>
     slot_match (d_table d ! i) k (dict_hash k) \<longleftrightarrow> kp_key (d_table d ! i) = KStr k"
  by (auto simp: slot_match_def slot_okD_str)

section \<open>Lookup on a well-formed table\<close>

lemma lookup_present:
  assumes ok: "table_ok d" and i: "i < length (d_table d)" "kp_key (d_table d ! i) = KStr k"
  shows "dict_lookup d k (dict_hash k) = Some i"
proof -
  have sz: "size_ok d" using ok by (simp add: table_ok_def)
  obtain n where n: "path d (dict_hash k) n = i"
    "\<forall>m < n. kp_key (d_table d ! path d (dict_hash k) m) \<noteq> KNull"
    using slot_okD_path [OF ok i] by blast
  have "\<not> passes d k (dict_hash k) n"
    using n(1) i match_iff [OF ok i(1)] by (simp add: passes_def)
  then obtain N where N: "N \<le> n" "\<not> passes d k (dict_hash k) N" "\<forall>m < N. passes d k (dict_hash k) m"
    by (rule first_stop)
  have "kp_key (d_table d ! path d (dict_hash k) N) \<noteq> KNull"
    using N(1) n i by (cases "N = n") auto
  then have mt: "slot_match (d_table d ! path d (dict_hash k) N) k (dict_hash k)"
    using N(2) by (simp add: passes_def)
  then have "path d (dict_hash k) N = i"
    using i path_less [OF sz] ok by (auto simp: table_ok_def keys_distinct_def slot_match_def)
  then show ?thesis
    using lookup_run [OF sz table_ok_no_freed [OF ok] N(3,2)] mt by auto
qed

lemma null_on_path:
  assumes "size_ok d" "null_slots d \<noteq> {}"
  obtains n where "kp_key (d_table d ! path d h n) = KNull"
proof -
  from assms(1) obtain k where k: "unat (d_size d) = 2 ^ k" "k < 32" "length (d_table d) = 2 ^ k"
    by (auto simp: size_ok_def)
  obtain j where "j < 2 ^ k" "kp_key (d_table d ! j) = KNull"
    using assms(2) k(3) by (auto simp: null_slots_def)
  then show ?thesis using probe_ix_covers [OF k(1,2), of j h] that by auto
qed

lemma lookup_absent:
  assumes ok: "table_ok d" and abs: "dict_abs d k = None" and null: "null_slots d \<noteq> {}"
  shows "\<exists>r. dict_lookup d k (dict_hash k) = Some r \<and> r < length (d_table d) \<and>
     kp_key (d_table d ! r) \<in> {KNull, KDummy} \<and>
     (\<exists>n. path d (dict_hash k) n = r \<and> (\<forall>m < n. kp_key (d_table d ! path d (dict_hash k) m) \<noteq> KNull))"
proof -
  have sz: "size_ok d" using ok by (simp add: table_ok_def)
  have nomatch: "\<not> slot_match (d_table d ! path d (dict_hash k) n) k (dict_hash k)" for n
    using abs path_less [OF sz] by (auto simp: dict_abs_None slot_match_def)
  obtain n where "kp_key (d_table d ! path d (dict_hash k) n) = KNull"
    using null_on_path [OF sz null] .
  then have "\<not> passes d k (dict_hash k) n" by (simp add: passes_def)
  then obtain N where N: "\<not> passes d k (dict_hash k) N" "\<forall>m < N. passes d k (dict_hash k) m"
    by (rule first_stop)
  from lookup_run [OF sz table_ok_no_freed [OF ok] N(2,1)] nomatch obtain r m where
    r: "dict_lookup d k (dict_hash k) = Some r" "r < length (d_table d)" "m \<le> N"
    "r = path d (dict_hash k) m" "kp_key (d_table d ! r) \<in> {KNull, KDummy}" by auto
  moreover have "\<forall>m' < m. kp_key (d_table d ! path d (dict_hash k) m') \<noteq> KNull"
    using N(2) r(3) by (auto simp: passes_def)
  ultimately show ?thesis by blast
qed

lemma lookup_diverges:
  assumes ok: "table_ok d" and abs: "dict_abs d k = None" and null: "null_slots d = {}"
  shows "dict_lookup d k (dict_hash k) = None"
proof (cases "dict_lookup d k (dict_hash k)")
  case (Some r)
  have sz: "size_ok d" using ok by (simp add: table_ok_def)
  obtain n where "\<not> passes d k (dict_hash k) n"
    using lookup_stops [OF Some sz table_ok_no_freed [OF ok]] by blast
  then show ?thesis using abs null path_less [OF sz, of "dict_hash k" n]
    by (auto simp: passes_def null_slots_def slot_match_def dict_abs_None)
qed

section \<open>Writing a slot\<close>

lemma set_slot_simps [simp]:
  "d_size (set_slot d s ep) = d_size d" "d_used (set_slot d s ep) = d_used d"
  "d_fill (set_slot d s ep) = d_fill d" "length (d_table (set_slot d s ep)) = length (d_table d)"
  by (simp_all add: set_slot_def)

lemma probe_ix_cong: "d_size d' = d_size d \<Longrightarrow> probe_ix d' h n = probe_ix d h n"
  by (induction n) (simp_all add: probe_ix.simps probe_next_def)

lemma set_slot_nth:
  "s < length (d_table d) \<Longrightarrow> d_table (set_slot d s ep) ! i = (if i = s then ep else d_table d ! i)"
  by (simp add: set_slot_def nth_list_update)

text \<open>A slot that the lookup of \<open>k\<close> may return: the one holding \<open>k\<close>, or a free one on its path.\<close>
definition target :: "dict \<Rightarrow> string \<Rightarrow> nat \<Rightarrow> bool" where
  "target d k s \<longleftrightarrow> s < length (d_table d) \<and>
     (kp_key (d_table d ! s) = KStr k \<or>
      dict_abs d k = None \<and> kp_key (d_table d ! s) \<in> {KNull, KDummy} \<and>
      (\<exists>n. path d (dict_hash k) n = s \<and>
           (\<forall>m < n. kp_key (d_table d ! path d (dict_hash k) m) \<noteq> KNull)))"

lemma lookup_target:
  assumes "table_ok d" "dict_abs d k \<noteq> None \<or> null_slots d \<noteq> {}"
  obtains s where "dict_lookup d k (dict_hash k) = Some s" "target d k s"
proof (cases "dict_abs d k")
  case None
  then show ?thesis using lookup_absent [OF assms(1) None] assms(2) that by (auto simp: target_def)
next
  case (Some v)
  then obtain i where "i < length (d_table d)" "kp_key (d_table d ! i) = KStr k"
    by (rule dict_abs_SomeD)
  then show ?thesis using lookup_present [OF assms(1)] that by (auto simp: target_def)
qed

lemma target_val:
  assumes "table_ok d" "target d k s"
  shows "kp_val (d_table d ! s) = (case dict_abs d k of None \<Rightarrow> None | Some v \<Rightarrow> v)"
  using assms dict_abs_at [of d s k] slot_okD_free [OF assms(1), of s]
  by (auto simp: target_def table_ok_def)

text \<open>Entry \<open>ep\<close> for key \<open>k\<close> may be written to slot \<open>s\<close>.\<close>
definition placeable :: "dict \<Rightarrow> string \<Rightarrow> nat \<Rightarrow> keypair \<Rightarrow> bool" where
  "placeable d k s ep \<longleftrightarrow> table_ok d \<and> target d k s \<and> kp_key ep = KStr k \<and> kp_hash ep = dict_hash k"

lemma placeableD:
  assumes "placeable d k s ep"
  shows "table_ok d" "target d k s" "kp_key ep = KStr k" "kp_hash ep = dict_hash k"
  using assms by (simp_all add: placeable_def)

lemma set_slot_table_ok:
  assumes pl: "placeable d k s ep"
  shows "table_ok (set_slot d s ep)"
proof -
  note ok = placeableD(1) [OF pl] and tgt = placeableD(2) [OF pl] and ep = placeableD(3,4) [OF pl]
  have s: "s < length (d_table d)" using tgt by (simp add: target_def)
  note nth = set_slot_nth [OF s, of ep] and pc = probe_ix_cong [of "set_slot d s ep" d]
  have other: "kp_key (d_table d ! i) \<noteq> KStr k" if "i < length (d_table d)" "i \<noteq> s" for i
    using tgt that ok by (auto simp: target_def dict_abs_None table_ok_def keys_distinct_def)
  have "slot_ok (set_slot d s ep) i" if i: "i < length (d_table d)" for i
  proof (cases "i = s")
    case True
    have "\<exists>n. path d (dict_hash k) n = s \<and>
        (\<forall>m < n. kp_key (d_table d ! path d (dict_hash k) m) \<noteq> KNull)"
      using tgt slot_okD_path [OF ok s] by (auto simp: target_def)
    then obtain n where "path d (dict_hash k) n = s"
        "\<forall>m < n. kp_key (d_table d ! path d (dict_hash k) m) \<noteq> KNull" by blast
    then show ?thesis using True ep by (auto simp: slot_ok_def nth pc intro!: exI [of _ n])
  next
    case False
    show ?thesis
    proof (cases "kp_key (d_table d ! i)")
      case (KStr k')
      obtain n where "path d (dict_hash k') n = i"
        "\<forall>m < n. kp_key (d_table d ! path d (dict_hash k') m) \<noteq> KNull"
        using slot_okD_path [OF ok i KStr] by blast
      then show ?thesis using KStr False slot_okD_str [OF ok i KStr] ep
        by (auto simp: slot_ok_def nth pc intro!: exI [of _ n])
    qed (use ok i False in \<open>auto simp: slot_ok_def nth table_ok_def split: slotkey.splits\<close>)
  qed
  moreover have "keys_distinct (set_slot d s ep)"
    using ok other ep by (auto simp: keys_distinct_def nth table_ok_def)
  ultimately show ?thesis using ok by (auto simp: table_ok_def size_ok_def)
qed

lemma set_slot_abs:
  assumes pl: "placeable d k s ep"
  shows "dict_abs (set_slot d s ep) = (dict_abs d)(k \<mapsto> kp_val ep)"
proof
  fix k'
  note ok = placeableD(1) [OF pl] and tgt = placeableD(2) [OF pl] and ep = placeableD(3,4) [OF pl]
  have s: "s < length (d_table d)" using tgt by (simp add: target_def)
  note nth = set_slot_nth [OF s, of ep]
  have dist: "keys_distinct (set_slot d s ep)" "keys_distinct d"
    using set_slot_table_ok [OF pl] ok by (auto simp: table_ok_def)
  show "dict_abs (set_slot d s ep) k' = ((dict_abs d)(k \<mapsto> kp_val ep)) k'"
  proof (cases "k' = k")
    case True
    then show ?thesis using dict_abs_at [OF dist(1), of s k] s ep by (simp add: nth)
  next
    case False
    show ?thesis
    proof (cases "dict_abs d k'")
      case None
      then have "dict_abs (set_slot d s ep) k' = None" using False ep by (auto simp: dict_abs_None nth)
      then show ?thesis using None False by simp
    next
      case (Some v)
      then obtain i where i: "i < length (d_table d)" "kp_key (d_table d ! i) = KStr k'"
        "v = kp_val (d_table d ! i)" by (rule dict_abs_SomeD)
      then have "i \<noteq> s" using tgt False by (auto simp: target_def)
      then show ?thesis using dict_abs_at [OF dist(1), of i k'] i False Some by (simp add: nth)
    qed
  qed
qed

lemma set_slot_null: "placeable d k s ep \<Longrightarrow> null_slots (set_slot d s ep) = null_slots d - {s}"
  by (auto simp: null_slots_def set_slot_nth target_def placeable_def split: if_splits)

lemma set_slot_live: "placeable d k s ep \<Longrightarrow> live_slots (set_slot d s ep) = insert s (live_slots d)"
  by (auto simp: live_slots_def set_slot_nth target_def placeable_def split: if_splits)

end
