(* ===== verification/DictGrow.thy ===== *)
theory DictGrow
  imports DictInv
begin

text \<open>
  Insertion, resizing and reinsertion of lsd/dict.c: the size search stops, the reinsertion of a
  well-formed table never triggers a nested resize, and a resize keeps the map.
\<close>

section \<open>The counters do not matter to the table\<close>

definition set_counts :: "dict \<Rightarrow> u32 \<Rightarrow> u32 \<Rightarrow> dict" where
  "set_counts d u f = d\<lparr>d_used := u, d_fill := f\<rparr>"

lemma set_counts_simps [simp]:
  "d_table (set_counts d u f) = d_table d" "d_size (set_counts d u f) = d_size d"
  "d_used (set_counts d u f) = u" "d_fill (set_counts d u f) = f"
  by (simp_all add: set_counts_def)

lemma set_counts_inv [simp]:
  "table_ok (set_counts d u f) = table_ok d" "dict_abs (set_counts d u f) = dict_abs d"
  "null_slots (set_counts d u f) = null_slots d" "live_slots (set_counts d u f) = live_slots d"
  by (auto simp: table_ok_def size_ok_def slot_ok_def keys_distinct_def null_slots_def live_slots_def
      dict_abs_def fun_eq_iff probe_ix_cong [of "set_counts d u f" d] split: slotkey.splits)

section \<open>Growing the size\<close>

lemma u32_pow2_double:
  assumes "unat (sz :: u32) = 2 ^ k" "k < 31"
  shows "unat (sz * 2) = 2 ^ Suc k"
proof -
  have "(2 :: nat) ^ Suc k < 2 ^ 32" using assms(2) by (intro power_strict_increasing) auto
  then show ?thesis using assms(1) by (simp add: unat_word_ariths)
qed

lemma grow_size_ok:
  "unat (sz :: u32) = 2 ^ k \<Longrightarrow> k \<le> 31 \<Longrightarrow> unat bound < 2 ^ 31 \<Longrightarrow>
     \<exists>ns j. grow_size sz bound = Some ns \<and> unat ns = 2 ^ j \<and> k \<le> j \<and> j \<le> 31 \<and>
       unat bound < unat ns \<and> (ns = sz \<or> unat ns \<le> 2 * unat bound)"
proof (induction "31 - k" arbitrary: k sz)
  case 0
  then have "k = 31" by simp
  then have "\<not> sz \<le> bound" using 0 by (simp add: word_le_nat_alt)
  then show ?case using 0 \<open>k = 31\<close>
    by (intro exI [of _ sz] exI [of _ 31]) (auto simp: grow_size.simps word_le_nat_alt)
next
  case (Suc l)
  show ?case
  proof (cases "sz \<le> bound")
    case False
    then show ?thesis using Suc.prems
      by (intro exI [of _ sz] exI [of _ k]) (auto simp: grow_size.simps word_le_nat_alt)
  next
    case True
    have k: "l = 31 - Suc k" "Suc k \<le> 31" using Suc.hyps(2) by auto
    have dbl: "unat (sz * 2) = 2 ^ Suc k" using Suc.prems(1) k by (intro u32_pow2_double) auto
    obtain ns j where ns: "grow_size (sz * 2) bound = Some ns" "unat ns = 2 ^ j" "Suc k \<le> j" "j \<le> 31"
      "unat bound < unat ns" "ns = sz * 2 \<or> unat ns \<le> 2 * unat bound"
      using Suc.hyps(1) [OF k(1) dbl k(2) Suc.prems(3)] by blast
    have "unat ns \<le> 2 * unat bound"
      using ns(6) dbl True Suc.prems(1) by (auto simp: word_le_nat_alt)
    moreover have "grow_size sz bound = Some ns"
      using ns(1) True by (simp add: grow_size.simps)
    ultimately show ?thesis using ns Suc_leD by blast
  qed
qed

section \<open>One insertion, before the resize check\<close>

definition env_ok :: "denv \<Rightarrow> bool" where
  "env_ok m \<longleftrightarrow> (\<forall>s. strdup_ok m s) \<and> (\<forall>n. calloc_ok m n)"

text \<open>The value stored for \<open>key\<close>: with \<open>copy\<close>, a NULL value leaves the old one.\<close>
definition stored_val :: "dict \<Rightarrow> string \<Rightarrow> string option \<Rightarrow> bool \<Rightarrow> string option" where
  "stored_val d key val copy =
     (if copy then (case val of None \<Rightarrow> (case dict_abs d key of None \<Rightarrow> None | Some v \<Rightarrow> v) | Some v \<Rightarrow> Some v)
      else val)"

definition needs_resize :: "dict \<Rightarrow> bool" where
  "needs_resize d \<longleftrightarrow> d_size d * 2 \<le> 3 * d_fill d"

lemma dict_add_p_write:
  assumes env: "env_ok m" and ok: "table_ok d" and room: "dict_abs d key \<noteq> None \<or> null_slots d \<noteq> {}"
  obtains s ep where "placeable d key s ep" "kp_val ep = stored_val d key val copy"
    "dict_add_p (Suc n) m d key val blob ts copy =
       (let d2 = set_counts (set_slot d s ep) (d_used d + 1) (d_fill d + 1) in
        if needs_resize d2
        then map_option (\<lambda>(rv, d3). (if rv \<noteq> 0 then - 1 else 0, d3))
               (dict_resize_by (\<lambda>d k v t. dict_add_p n m d k v False t False) m d2)
        else Some (0, d2))"
proof -
  obtain s where s: "dict_lookup d key (dict_hash key) = Some s" "target d key s"
    using lookup_target [OF ok room] .
  let ?ep = "fill_slot m (d_table d ! s) key val blob ts copy"
  have 1: "placeable d key s ?ep" using ok s(2) by (simp add: placeable_def fill_slot_def)
  have 2: "kp_val ?ep = stored_val d key val copy"
    using target_val [OF ok s(2)] by (auto simp: fill_slot_def stored_val_def split: option.split)
  have 3: "dict_add_p (Suc n) m d key val blob ts copy =
       (let d2 = set_counts (set_slot d s ?ep) (d_used d + 1) (d_fill d + 1) in
        if needs_resize d2
        then map_option (\<lambda>(rv, d3). (if rv \<noteq> 0 then - 1 else 0, d3))
               (dict_resize_by (\<lambda>d k v t. dict_add_p n m d k v False t False) m d2)
        else Some (0, d2))"
    using s(1) env
    by (simp add: dict_add_p.simps(2) Let_def env_ok_def needs_resize_def set_counts_def split: option.splits)
  show ?thesis by (rule that [OF 1 2 3])
qed

section \<open>Tables without deletion marks\<close>

text \<open>
  \<open>compact d c\<close>: the counters both say \<open>c\<close> and at most \<open>c\<close> slots are in use. It holds of new tables
  and of tables that only insertions and resizes have touched.
\<close>
definition compact :: "dict \<Rightarrow> nat \<Rightarrow> bool" where
  "compact d c \<longleftrightarrow> table_ok d \<and> d_used d = of_nat c \<and> d_fill d = of_nat c \<and>
     length (d_table d) \<le> card (null_slots d) + c"

lemma size_unat: "table_ok d \<Longrightarrow> unat (d_size d) = length (d_table d)"
  by (auto simp: table_ok_def size_ok_def)

lemma size_ge_8: "table_ok d \<Longrightarrow> 8 \<le> length (d_table d)"
proof -
  assume "table_ok d"
  then obtain k where "3 \<le> k" "length (d_table d) = 2 ^ k" by (auto simp: table_ok_def size_ok_def)
  then show ?thesis using power_increasing [of 3 k "2::nat"] by simp
qed

lemma live_null_card: "card (live_slots d) + card (null_slots d) \<le> length (d_table d)"
proof -
  have "live_slots d \<inter> null_slots d = {}" by (auto simp: live_slots_def null_slots_def)
  then have "card (live_slots d) + card (null_slots d) = card (live_slots d \<union> null_slots d)"
    by (simp add: card_Un_disjoint)
  also have "\<dots> \<le> card {..<length (d_table d)}"
    by (rule card_mono) (auto simp: live_slots_def null_slots_def)
  finally show ?thesis by simp
qed

lemma compact_live: "compact d c \<Longrightarrow> card (live_slots d) \<le> c"
  using live_null_card [of d] by (simp add: compact_def)

lemma compact_null: "compact d c \<Longrightarrow> c < length (d_table d) \<Longrightarrow> null_slots d \<noteq> {}"
  by (auto simp: compact_def)

lemma compact_write:
  assumes "compact d c" "placeable d k s ep"
  shows "compact (set_counts (set_slot d s ep) (d_used d + 1) (d_fill d + 1)) (Suc c)"
proof -
  have "card (null_slots d) \<le> Suc (card (null_slots d - {s}))"
    by (auto simp: card_Diff_singleton_if)
  then show ?thesis using assms set_slot_table_ok [OF assms(2)] set_slot_null [OF assms(2)]
    by (simp add: compact_def)
qed

lemma unat_small: "n < 2 ^ 32 \<Longrightarrow> unat (of_nat n :: u32) = n"
  by (simp add: unsigned_of_nat take_bit_nat_eq_self)

lemma needs_resize_nat:
  assumes "table_ok d" "length (d_table d) \<le> 2 ^ 30" "unat (d_fill d) \<le> 2 ^ 30"
  shows "needs_resize d \<longleftrightarrow> 2 * length (d_table d) \<le> 3 * unat (d_fill d)"
proof -
  have "unat (d_size d * 2) = 2 * length (d_table d)"
    using assms(2) size_unat [OF assms(1)] by (simp add: unat_word_ariths)
  moreover have "unat (3 * d_fill d) = 3 * unat (d_fill d)"
    using assms(3) by (simp add: unat_word_ariths)
  ultimately show ?thesis by (simp add: needs_resize_def word_le_nat_alt)
qed


text \<open>One insertion that stays below the load limit.\<close>

lemma compact_add:
  assumes env: "env_ok m" and c: "compact d c" and room: "3 * Suc c < 2 * length (d_table d)"
    and sz: "length (d_table d) \<le> 2 ^ 30"
  shows "\<exists>d'. dict_add_p (Suc n) m d key val blob ts copy = Some (0, d') \<and> compact d' (Suc c) \<and>
    d_size d' = d_size d \<and> length (d_table d') = length (d_table d) \<and>
    dict_abs d' = (dict_abs d)(key \<mapsto> stored_val d key val copy)"
proof -
  have ok: "table_ok d" using c by (simp add: compact_def)
  have "null_slots d \<noteq> {}" by (rule compact_null [OF c]) (use room in simp)
  then obtain s ep where pl: "placeable d key s ep" and v: "kp_val ep = stored_val d key val copy"
    and res: "dict_add_p (Suc n) m d key val blob ts copy =
       (let d2 = set_counts (set_slot d s ep) (d_used d + 1) (d_fill d + 1) in
        if needs_resize d2
        then map_option (\<lambda>(rv, d3). (if rv \<noteq> 0 then - 1 else 0, d3))
               (dict_resize_by (\<lambda>d k v t. dict_add_p n m d k v False t False) m d2)
        else Some (0, d2))"
    using dict_add_p_write [OF env ok] by metis
  let ?d2 = "set_counts (set_slot d s ep) (d_used d + 1) (d_fill d + 1)"
  have c2: "compact ?d2 (Suc c)" by (rule compact_write [OF c pl])
  have fill: "unat (d_fill ?d2) = Suc c"
  proof -
    have "d_fill ?d2 = of_nat (Suc c)" using c2 by (simp only: compact_def)
    moreover have "Suc c < 2 ^ 32" using room sz by simp
    ultimately show ?thesis by (simp only: unat_small)
  qed
  have "\<not> needs_resize ?d2"
  proof -
    have "table_ok ?d2" using c2 by (simp only: compact_def)
    moreover have "length (d_table ?d2) \<le> 2 ^ 30" using sz by simp
    moreover have "unat (d_fill ?d2) \<le> 2 ^ 30" using fill room sz by simp
    ultimately show ?thesis using needs_resize_nat [of ?d2] fill room by simp
  qed
  then show ?thesis using res c2 set_slot_abs [OF pl] v by (simp add: Let_def)
qed

section \<open>Reinsertion and resizing\<close>

text \<open>The entries of a table, in slot order.\<close>
definition entries :: "keypair list \<Rightarrow> (string \<times> string option) list" where
  "entries eps = List.map_filter
     (\<lambda>ep. case kp_key ep of KStr k \<Rightarrow> Some (k, kp_val ep) | _ \<Rightarrow> None) eps"

lemma entries_simps [simp]:
  "entries [] = []"
  "entries (ep # eps) =
     (case kp_key ep of KStr k \<Rightarrow> (k, kp_val ep) # entries eps | _ \<Rightarrow> entries eps)"
  by (auto simp: entries_def map_filter_def split: slotkey.splits)

lemma dict_abs_entries: "dict_abs d = map_of (entries (d_table d))"
proof
  fix k
  have "map_option kp_val (List.find (\<lambda>ep. kp_key ep = KStr k) eps) = map_of (entries eps) k" for eps
    by (induction eps) (auto split: slotkey.splits)
  then show "dict_abs d k = map_of (entries (d_table d)) k" by (simp add: dict_abs_def)
qed

lemma length_entries: "length (entries eps) = card {i. i < length eps \<and> (\<exists>k. kp_key (eps ! i) = KStr k)}"
proof -
  have "length (entries eps) = length (filter (\<lambda>ep. \<exists>k. kp_key ep = KStr k) eps)"
    by (induction eps) (auto split: slotkey.splits)
  then show ?thesis by (simp add: length_filter_conv_card)
qed

lemma length_entries_live: "length (entries (d_table d)) = card (live_slots d)"
  by (simp add: length_entries live_slots_def)

lemma entries_distinct_aux:
  "\<forall>i < length eps. \<forall>j < length eps. \<forall>k. kp_key (eps ! i) = KStr k \<longrightarrow> kp_key (eps ! j) = KStr k \<longrightarrow> i = j
   \<Longrightarrow> distinct (map fst (entries eps))"
proof (induction eps)
  case Nil
  then show ?case by simp
next
  case (Cons ep eps)
  have "distinct (map fst (entries eps))"
    by (rule Cons.IH) (use Cons.prems in fastforce)
  moreover have "k \<notin> fst ` set (entries eps)" if "kp_key ep = KStr k" for k
  proof
    assume "k \<in> fst ` set (entries eps)"
    then obtain e where "e \<in> set eps" "kp_key e = KStr k"
      by (auto simp: entries_def map_filter_def split: slotkey.splits)
    then obtain j where "j < length eps" "kp_key (eps ! j) = KStr k" by (auto simp: in_set_conv_nth)
    then show False using Cons.prems [rule_format, of 0 "Suc j" k] that by simp
  qed
  ultimately show ?case by (auto split: slotkey.splits)
qed

lemma entries_distinct: "table_ok d \<Longrightarrow> distinct (map fst (entries (d_table d)))"
  by (rule entries_distinct_aux) (simp add: table_ok_def keys_distinct_def)

lemma dict_reinsert_ok:
  assumes env: "env_ok m"
  shows "\<lbrakk>compact d c; 3 * (c + length (entries eps)) < 2 * length (d_table d);
     length (d_table d) \<le> 2 ^ 30; \<forall>ep \<in> set eps. kp_key ep \<noteq> KFreed\<rbrakk> \<Longrightarrow>
   \<exists>d'. dict_reinsert (\<lambda>d k v t. dict_add_p (Suc n) m d k v False t False) eps d = Some d' \<and>
     compact d' (c + length (entries eps)) \<and> d_size d' = d_size d \<and>
     length (d_table d') = length (d_table d) \<and>
     dict_abs d' = dict_abs d ++ map_of (rev (entries eps))"
proof (induction eps arbitrary: d c)
  case Nil
  then show ?case by auto
next
  case (Cons ep eps)
  show ?case
  proof (cases "kp_key ep")
    case (KStr k)
    obtain d1 where d1: "dict_add_p (Suc n) m d k (kp_val ep) False (kp_ts ep) False = Some (0, d1)"
      "compact d1 (Suc c)" "d_size d1 = d_size d" "length (d_table d1) = length (d_table d)"
      "dict_abs d1 = (dict_abs d)(k \<mapsto> kp_val ep)"
      using compact_add [OF env Cons.prems(1), of n k "kp_val ep" False "kp_ts ep" False]
        Cons.prems KStr by (auto simp: stored_val_def)
    have pre: "3 * (Suc c + length (entries eps)) < 2 * length (d_table d1)"
      "length (d_table d1) \<le> 2 ^ 30" "\<forall>ep \<in> set eps. kp_key ep \<noteq> KFreed"
      using Cons.prems d1(4) KStr by auto
    obtain d' where d': "dict_reinsert (\<lambda>d k v t. dict_add_p (Suc n) m d k v False t False) eps d1 = Some d'"
      "compact d' (Suc c + length (entries eps))" "d_size d' = d_size d1"
      "length (d_table d') = length (d_table d1)" "dict_abs d' = dict_abs d1 ++ map_of (rev (entries eps))"
      using Cons.IH [OF d1(2) pre] by blast
    show ?thesis using d' d1 KStr by (intro exI [of _ d']) simp
  qed (use Cons in auto)
qed

lemma new_table_compact:
  assumes "unat ns = 2 ^ j" "3 \<le> j" "j \<le> 31"
  shows "compact \<lparr>d_fill = 0, d_used = 0, d_size = ns, d_table = replicate (unat ns) empty_slot\<rparr> 0"
    and "dict_abs \<lparr>d_fill = 0, d_used = 0, d_size = ns, d_table = replicate (unat ns) empty_slot\<rparr> = Map.empty"
proof -
  let ?d = "\<lparr>d_fill = 0, d_used = 0, d_size = ns, d_table = replicate (unat ns) empty_slot\<rparr>"
  have "null_slots ?d = {..<unat ns}" by (auto simp: null_slots_def empty_slot_def)
  then show "compact ?d 0" using assms
    by (auto simp: compact_def table_ok_def size_ok_def slot_ok_def keys_distinct_def empty_slot_def)
  show "dict_abs ?d = Map.empty"
    by (rule ext) (simp add: dict_abs_None empty_slot_def)
qed

definition resize_factor :: "dict \<Rightarrow> nat" where
  "resize_factor d = (if 64000 < length (d_table d) then 2 else 4)"

lemma resize_factor_u32:
  assumes "table_ok d"
  shows "(if DICT_BIGSZ < d_size d then 2 else 4) = (of_nat (resize_factor d) :: u32)"
  using size_unat [OF assms] by (simp add: resize_factor_def DICT_BIGSZ_def word_less_nat_alt)

lemma resize_by_ok:
  assumes env: "env_ok m" and ok: "table_ok d" and sz: "length (d_table d) \<le> 2 ^ 30"
    and live: "card (live_slots d) \<le> unat (d_used d)" and used: "unat (d_used d) \<le> 2 ^ 26"
  shows "\<exists>d'. dict_resize_by (\<lambda>d k v t. dict_add_p (Suc n) m d k v False t False) m d = Some (0, d') \<and>
    table_ok d' \<and> dict_abs d' = dict_abs d \<and> length (d_table d') \<le> 2 ^ 30 \<and>
    resize_factor d * unat (d_used d) < length (d_table d') \<and>
    (d' = d \<or> compact d' (card (live_slots d)) \<and>
       length (d_table d') \<le> 2 * resize_factor d * unat (d_used d))"
proof -
  let ?b = "of_nat (resize_factor d) * d_used d"
  have b: "unat ?b = resize_factor d * unat (d_used d)"
    using used by (simp add: unat_word_ariths resize_factor_def)
  then have b31: "unat ?b < 2 ^ 28 + 1" using used by (simp add: resize_factor_def)
  obtain k where k: "unat (d_size d) = 2 ^ k" "3 \<le> k" "k \<le> 31" "length (d_table d) = 2 ^ k"
    using ok by (auto simp: table_ok_def size_ok_def)
  obtain ns j where ns: "grow_size (d_size d) ?b = Some ns" "unat ns = 2 ^ j" "k \<le> j" "j \<le> 31"
    "unat ?b < unat ns" "ns = d_size d \<or> unat ns \<le> 2 * unat ?b"
    using grow_size_ok [OF k(1,3), of ?b] b31 by auto
  show ?thesis
  proof (cases "ns = d_size d")
    case True
    then show ?thesis using ns ok sz size_unat [OF ok] b
      by (auto simp: dict_resize_by_def Let_def resize_factor_u32 [OF ok])
  next
    case False
    let ?new = "\<lparr>d_fill = 0, d_used = 0, d_size = ns, d_table = replicate (unat ns) empty_slot\<rparr>"
    have j: "3 \<le> j" using ns(3) k(2) by simp
    have new: "compact ?new 0" "dict_abs ?new = Map.empty"
      using new_table_compact [OF ns(2) j ns(4)] by auto
    have le30: "unat ns \<le> 2 ^ 30" using False ns(6) b31 by auto
    have "3 * card (live_slots d) < 2 * unat ns"
      using ns(5) b live by (auto simp: resize_factor_def split: if_splits)
    then have fit: "3 * (0 + length (entries (d_table d))) < 2 * length (d_table ?new)"
      by (simp add: length_entries_live)
    have nf: "\<forall>ep \<in> set (d_table d). kp_key ep \<noteq> KFreed"
      using table_ok_no_freed [OF ok] by (simp add: no_freed_def)
    obtain d' where d': "dict_reinsert (\<lambda>d k v t. dict_add_p (Suc n) m d k v False t False) (d_table d) ?new = Some d'"
      "compact d' (card (live_slots d))" "length (d_table d') = unat ns"
      "dict_abs d' = Map.empty ++ map_of (rev (entries (d_table d)))"
      using dict_reinsert_ok [OF env new(1) fit, of n] le30 nf new(2) by (auto simp: length_entries_live)
    have "dict_abs d' = dict_abs d"
      using d'(4) map_of_rev_distinct [OF entries_distinct [OF ok]] by (simp add: dict_abs_entries)
    then show ?thesis using d' ns False env le30 b
      by (auto simp: dict_resize_by_def Let_def resize_factor_u32 [OF ok] env_ok_def compact_def)
  qed
qed

section \<open>Insertion refines map update\<close>

lemma RESIZE_DEPTH_Suc: "RESIZE_DEPTH = Suc (Suc 31)"
  by (simp add: RESIZE_DEPTH_def)

text \<open>Insertion into any well-formed table on which the lookup returns.\<close>

lemma dict_add_p_ok:
  assumes env: "env_ok m" and ok: "table_ok d" and room: "dict_abs d key \<noteq> None \<or> null_slots d \<noteq> {}"
    and sz: "length (d_table d) \<le> 2 ^ 30"
    and live: "card (live_slots d) \<le> unat (d_used d)" and used: "unat (d_used d) < 2 ^ 26"
  shows "\<exists>d'. dict_add_p (Suc (Suc n)) m d key val blob ts copy = Some (0, d') \<and> table_ok d' \<and>
    dict_abs d' = (dict_abs d)(key \<mapsto> stored_val d key val copy)"
proof -
  obtain s ep where pl: "placeable d key s ep" and v: "kp_val ep = stored_val d key val copy"
    and res: "dict_add_p (Suc (Suc n)) m d key val blob ts copy =
       (let d2 = set_counts (set_slot d s ep) (d_used d + 1) (d_fill d + 1) in
        if needs_resize d2
        then map_option (\<lambda>(rv, d3). (if rv \<noteq> 0 then - 1 else 0, d3))
               (dict_resize_by (\<lambda>d k v t. dict_add_p (Suc n) m d k v False t False) m d2)
        else Some (0, d2))"
    using dict_add_p_write [OF env ok room] by metis
  let ?d2 = "set_counts (set_slot d s ep) (d_used d + 1) (d_fill d + 1)"
  have ok2: "table_ok ?d2" using set_slot_table_ok [OF pl] by simp
  have abs2: "dict_abs ?d2 = (dict_abs d)(key \<mapsto> stored_val d key val copy)"
    using set_slot_abs [OF pl] v by simp
  have u: "unat (d_used d + 1) = Suc (unat (d_used d))"
    using used by (simp add: unat_word_ariths)
  have "card (live_slots ?d2) \<le> Suc (card (live_slots d))"
    using set_slot_live [OF pl] by (simp add: card_insert_if)
  then have live2: "card (live_slots ?d2) \<le> unat (d_used ?d2)" using live u by simp
  show ?thesis
  proof (cases "needs_resize ?d2")
    case False
    then show ?thesis using res ok2 abs2 by (simp add: Let_def)
  next
    case True
    have "length (d_table ?d2) \<le> 2 ^ 30" "unat (d_used ?d2) \<le> 2 ^ 26" using sz u used by auto
    then obtain d' where
      "dict_resize_by (\<lambda>d k v t. dict_add_p (Suc n) m d k v False t False) m ?d2 = Some (0, d')"
      "table_ok d'" "dict_abs d' = dict_abs ?d2"
      using resize_by_ok [OF env ok2 _ live2, of n] by auto
    then show ?thesis using res True abs2 by (simp add: Let_def)
  qed
qed

text \<open>Insertion into a table without deletion marks keeps it so, below the load limit.\<close>

definition grown :: "dict \<Rightarrow> nat \<Rightarrow> bool" where
  "grown d c \<longleftrightarrow> compact d c \<and> 3 * c < 2 * length (d_table d)"

lemma grown_null: "grown d c \<Longrightarrow> null_slots d \<noteq> {}"
  by (rule compact_null [of d c]) (auto simp: grown_def)

lemma grown_add:
  assumes env: "env_ok m" and g: "grown d c" and sz: "length (d_table d) \<le> 2 ^ 26"
  shows "\<exists>d' c'. dict_add_p (Suc (Suc n)) m d key val blob ts copy = Some (0, d') \<and>
    grown d' c' \<and> c' \<le> Suc c \<and>
    length (d_table d') \<le> max (length (d_table d)) (8 * Suc c) \<and>
    dict_abs d' = (dict_abs d)(key \<mapsto> stored_val d key val copy)"
proof -
  have c: "compact d c" and load: "3 * c < 2 * length (d_table d)" using g by (auto simp: grown_def)
  have ok: "table_ok d" using c by (simp add: compact_def)
  show ?thesis
  proof (cases "3 * Suc c < 2 * length (d_table d)")
    case True
    have "length (d_table d) \<le> 2 ^ 30" using sz by simp
    then obtain d' where "dict_add_p (Suc (Suc n)) m d key val blob ts copy = Some (0, d')"
      "compact d' (Suc c)" "length (d_table d') = length (d_table d)"
      "dict_abs d' = (dict_abs d)(key \<mapsto> stored_val d key val copy)"
      using compact_add [OF env c True, of "Suc n" key val blob ts copy] by blast
    then show ?thesis using True
      by (intro exI [of _ d'] exI [of _ "Suc c"]) (simp add: grown_def)
  next
    case False
    have "null_slots d \<noteq> {}" by (rule grown_null [OF g])
    then obtain s ep where pl: "placeable d key s ep" and v: "kp_val ep = stored_val d key val copy"
      and res: "dict_add_p (Suc (Suc n)) m d key val blob ts copy =
         (let d2 = set_counts (set_slot d s ep) (d_used d + 1) (d_fill d + 1) in
          if needs_resize d2
          then map_option (\<lambda>(rv, d3). (if rv \<noteq> 0 then - 1 else 0, d3))
                 (dict_resize_by (\<lambda>d k v t. dict_add_p (Suc n) m d k v False t False) m d2)
          else Some (0, d2))"
      using dict_add_p_write [OF env ok] by metis
    let ?d2 = "set_counts (set_slot d s ep) (d_used d + 1) (d_fill d + 1)"
    have c2: "compact ?d2 (Suc c)" by (rule compact_write [OF c pl])
    have ok2: "table_ok ?d2" using c2 by (simp only: compact_def)
    have abs2: "dict_abs ?d2 = (dict_abs d)(key \<mapsto> stored_val d key val copy)"
      using set_slot_abs [OF pl] v by simp
    have "d_used ?d2 = of_nat (Suc c)" "d_fill ?d2 = of_nat (Suc c)" using c2 by (simp_all only: compact_def)
    moreover have small: "Suc c < 2 ^ 32" using load sz by simp
    ultimately have cnt: "unat (d_used ?d2) = Suc c" "unat (d_fill ?d2) = Suc c"
      by (simp_all only: unat_small)
    have live2: "card (live_slots ?d2) \<le> unat (d_used ?d2)" using compact_live [OF c2] cnt by simp
    have len: "length (d_table ?d2) \<le> 2 ^ 30" using sz by simp
    have fl: "unat (d_fill ?d2) \<le> 2 ^ 30" using cnt load sz by simp
    have "2 * length (d_table ?d2) \<le> 3 * unat (d_fill ?d2)" using cnt False by simp
    then have need: "needs_resize ?d2" using needs_resize_nat [OF ok2 len fl] by blast
    have "unat (d_used ?d2) \<le> 2 ^ 26" using cnt load sz by simp
    then obtain d' where d':
      "dict_resize_by (\<lambda>d k v t. dict_add_p (Suc n) m d k v False t False) m ?d2 = Some (0, d')"
      "table_ok d'" "dict_abs d' = dict_abs ?d2"
      "resize_factor ?d2 * Suc c < length (d_table d')"
      "d' = ?d2 \<or> compact d' (card (live_slots ?d2)) \<and>
         length (d_table d') \<le> 2 * resize_factor ?d2 * Suc c"
      using resize_by_ok [OF env ok2 len live2, of n] cnt by auto
    have "d' \<noteq> ?d2"
    proof
      assume "d' = ?d2"
      then have "2 * Suc c < length (d_table ?d2)" using d'(4) by (simp add: resize_factor_def split: if_splits)
      then show False using False by simp
    qed
    then have cd: "compact d' (card (live_slots ?d2))" "length (d_table d') \<le> 2 * resize_factor ?d2 * Suc c"
      using d'(5) by auto
    have cc: "card (live_slots ?d2) \<le> Suc c" using live2 cnt by simp
    have "3 * card (live_slots ?d2) < 2 * length (d_table d')"
      using cc d'(4) by (simp add: resize_factor_def split: if_splits)
    then have "grown d' (card (live_slots ?d2))" using cd(1) by (simp add: grown_def)
    moreover have "length (d_table d') \<le> max (length (d_table d)) (8 * Suc c)"
      using cd(2) by (simp add: resize_factor_def split: if_splits)
    ultimately show ?thesis using res need d'(1,3) abs2 cc
      by (intro exI [of _ d'] exI [of _ "card (live_slots ?d2)"]) (simp add: Let_def)
  qed
qed

end
