(* ===== verification/KVStore.thy ===== *)
theory KVStore
  imports Prelude
begin

text \<open>
  The interface between the dictionary and the code that fills one from a list of key/value pairs
  (the configuration loader, the shell's argument dictionary). A NULL value stores nothing over an
  old value, as \<open>dict_add\<close> does.
\<close>

fun map_put :: "('k \<rightharpoonup> 'v) \<Rightarrow> 'k \<times> 'v option \<Rightarrow> ('k \<rightharpoonup> 'v)" where
  "map_put f (k, None) = f"
| "map_put f (k, Some v) = f(k \<mapsto> v)"

lemma foldl_map_put_other:
  "k \<notin> fst ` set kvs \<Longrightarrow> foldl map_put f kvs k = f k"
proof (induction kvs arbitrary: f)
  case (Cons kv kvs)
  then show ?case by (cases kv; cases "snd kv") auto
qed simp

text \<open>
  \<open>room n s\<close>: \<open>s\<close> is well-formed and can take \<open>n\<close> more insertions; \<open>look s\<close> is the map \<open>s\<close> stands for.
\<close>
locale kv_store =
  fixes room :: "nat \<Rightarrow> 's \<Rightarrow> bool"
    and look :: "'s \<Rightarrow> 'k \<Rightarrow> 'v option"
    and ins :: "'k \<times> 'v option \<Rightarrow> 's \<Rightarrow> 's option"
  assumes ins_law: "room (Suc n) s \<Longrightarrow>
    \<exists>s'. ins kv s = Some s' \<and> room n s' \<and> look s' = map_put (look s) kv"
begin

lemma ins_all:
  "room (length kvs + n) s \<Longrightarrow>
     \<exists>s'. fold_opt ins kvs s = Some s' \<and> room n s' \<and> look s' = foldl map_put (look s) kvs"
proof (induction kvs arbitrary: s)
  case Nil
  then show ?case by simp
next
  case (Cons kv kvs)
  then obtain s1 where s1: "ins kv s = Some s1" "room (length kvs + n) s1"
      "look s1 = map_put (look s) kv"
    using ins_law [of "length kvs + n" s kv] by auto
  then show ?case using Cons.IH [OF s1(2)] by auto
qed

lemma ins_all_absent:
  assumes "room (length kvs + n) s" "fold_opt ins kvs s = Some s'" "k \<notin> fst ` set kvs"
  shows "look s' k = look s k"
  using ins_all [OF assms(1)] assms(2,3) by (auto simp: foldl_map_put_other)

end

end
