(* ===== verification/DictMap.thy ===== *)
theory DictMap
  imports DictGrow KVStore
begin

text \<open>
  The properties of lsd/dict.c: which map a dictionary stands for and how every public operation
  changes it, when a lookup returns at all, and the interpretation of the key/value interface on
  \<open>dict_add\<close> and \<open>dict_get\<close>.
\<close>

section \<open>The map a client sees\<close>

text \<open>The value \<open>dict_get\<close> returns for a key: NULL for an absent key.\<close>
definition dict_val :: "dict \<Rightarrow> string \<Rightarrow> string option" where
  "dict_val d k = (case dict_abs d k of None \<Rightarrow> None | Some v \<Rightarrow> v)"

text \<open>One insertion with its return value checked.\<close>
definition dict_put :: "denv \<Rightarrow> string \<times> string option \<Rightarrow> dict \<Rightarrow> dict option" where
  "dict_put m kv d =
     (case dict_add m (Some d) (Some (fst kv)) (snd kv) of
        Some (rv, Some d') \<Rightarrow> if rv = 0 then Some d' else None
      | _ \<Rightarrow> None)"

definition DICT_CAP :: nat where "DICT_CAP = 2 ^ 23"

definition dict_room :: "nat \<Rightarrow> dict \<Rightarrow> bool" where
  "dict_room n d \<longleftrightarrow> (\<exists>c a. grown d c \<and> c \<le> a \<and> length (d_table d) \<le> max 8 (8 * a) \<and> a + n \<le> DICT_CAP)"

lemma stored_val_copy: "dict_val d' = (case val of None \<Rightarrow> dict_val d | Some v \<Rightarrow> (dict_val d)(k \<mapsto> v))"
  if "dict_abs d' = (dict_abs d)(k \<mapsto> stored_val d k val True)"
  using that by (auto simp: dict_val_def fun_eq_iff stored_val_def split: option.split)

lemma dict_put_room:
  assumes "env_ok m" "dict_room (Suc n) d"
  shows "\<exists>d'. dict_put m kv d = Some d' \<and> dict_room n d' \<and> dict_val d' = map_put (dict_val d) kv"
proof -
  obtain c a where g: "grown d c" "c \<le> a" "length (d_table d) \<le> max 8 (8 * a)" "a + Suc n \<le> DICT_CAP"
    using assms(2) by (auto simp: dict_room_def)
  then have sz: "length (d_table d) \<le> 2 ^ 26" by (auto simp: DICT_CAP_def)
  obtain d' c' where d': "dict_add_p RESIZE_DEPTH m d (fst kv) (snd kv) False (now m) True = Some (0, d')"
    "grown d' c'" "c' \<le> Suc c" "length (d_table d') \<le> max (length (d_table d)) (8 * Suc c)"
    "dict_abs d' = (dict_abs d)(fst kv \<mapsto> stored_val d (fst kv) (snd kv) True)"
    using grown_add [OF assms(1) g(1) sz] unfolding RESIZE_DEPTH_Suc by blast
  have "dict_room n d'"
    unfolding dict_room_def using d'(2-4) g by (intro exI [of _ c'] exI [of _ "Suc a"]) auto
  moreover have "dict_val d' = map_put (dict_val d) kv"
    using stored_val_copy [OF d'(5)] by (cases kv; cases "snd kv") auto
  ultimately show ?thesis using d'(1) by (simp add: dict_put_def dict_add_def dict_add_args_def)
qed

text \<open>The dictionary provides the key/value interface, for every allocator that does not fail.\<close>

definition env0 :: "int \<Rightarrow> denv" where
  "env0 t = \<lparr>strdup_ok = (\<lambda>_. True), calloc_ok = (\<lambda>_. True), now = t\<rparr>"

lemma env0_ok [simp]: "env_ok (env0 t)"
  by (simp add: env_ok_def env0_def)

lemma env_ok_env0: "env_ok m \<Longrightarrow> m = env0 (now m)"
  by (cases m) (auto simp: env_ok_def env0_def fun_eq_iff)

interpretation dkv: kv_store dict_room dict_val "dict_put (env0 t)" for t
  by unfold_locales (rule dict_put_room [OF env0_ok])

section \<open>New dictionaries\<close>

definition fresh_dict :: dict where
  "fresh_dict = \<lparr>d_fill = 0, d_used = 0, d_size = 8, d_table = replicate 8 empty_slot\<rparr>"

lemma dict_new_ok: "env_ok m \<Longrightarrow> dict_new m = Some fresh_dict"
  by (simp add: dict_new_def env_ok_def fresh_dict_def DICT_MIN_SZ_def)

lemma fresh_compact: "compact fresh_dict 0" and fresh_abs: "dict_abs fresh_dict = Map.empty"
proof -
  have "unat (8 :: u32) = 2 ^ 3" by simp
  then show "compact fresh_dict 0" and "dict_abs fresh_dict = Map.empty"
    using new_table_compact [of 8 3] by (simp_all add: fresh_dict_def)
qed

lemma fresh_grown: "grown fresh_dict 0"
  using fresh_compact by (simp add: grown_def fresh_dict_def)

lemma fresh_table_ok: "table_ok fresh_dict"
  using fresh_compact by (simp add: compact_def)

lemma fresh_room: "n \<le> DICT_CAP \<Longrightarrow> dict_room n fresh_dict"
  unfolding dict_room_def using fresh_grown
  by (intro exI [of _ 0] exI [of _ 0]) (simp add: fresh_dict_def)

lemma fresh_val: "dict_val fresh_dict = Map.empty"
  by (simp add: fun_eq_iff dict_val_def fresh_abs)

lemma fresh_simps [simp]:
  "length (d_table fresh_dict) = 8" "d_used fresh_dict = 0" "null_slots fresh_dict \<noteq> {}"
  "live_slots fresh_dict = {}"
  using grown_null [OF fresh_grown] compact_live [OF fresh_compact]
  by (simp_all, simp_all add: fresh_dict_def)

section \<open>Lookup\<close>

lemma dict_lookup_value:
  assumes "table_ok d" "dict_abs d k \<noteq> None \<or> null_slots d \<noteq> {}"
  shows "dict_get (Some d) (Some k) def = Some (dict_val d k)"
proof -
  obtain s where "dict_lookup d k (dict_hash k) = Some s" "target d k s"
    using lookup_target [OF assms] .
  then show ?thesis using target_val [OF assms(1)] by (simp add: dict_get_def dict_val_def)
qed

lemma dict_room_get: "dict_room n d \<Longrightarrow> dict_get (Some d) (Some k) def = Some (dict_val d k)"
  using grown_null by (intro dict_lookup_value) (auto simp: dict_room_def grown_def compact_def)

text \<open>
  C8. With memory available, take a new dictionary and any list of at most 2^23 pairs, the value of a pair possibly NULL,
  and add them one after the other with \<open>dict_add\<close>. Every call succeeds, through all the resizes, and
  then \<open>dict_get\<close> returns, for every key, the last non-NULL value added for it, and NULL for a key
  that was never added (whatever default the caller passes). So adding a key again with the value NULL leaves its old value,
  where the comment in dict.h says that the element is overwritten.
\<close>
theorem dict_fill_then_get:
  assumes "length kvs \<le> DICT_CAP"
  shows "\<exists>d0 d. dict_new (env0 t) = Some d0 \<and> fold_opt (dict_put (env0 t)) kvs d0 = Some d \<and>
    (\<forall>k def. dict_get (Some d) (Some k) def = Some (foldl map_put Map.empty kvs k))"
proof -
  have "dict_room (length kvs + 0) fresh_dict" using assms by (simp add: fresh_room)
  from dkv.ins_all [OF this, of t] obtain d where
    "fold_opt (dict_put (env0 t)) kvs fresh_dict = Some d" "dict_room 0 d"
    "dict_val d = foldl map_put Map.empty kvs"
    by (auto simp: fresh_val)
  then show ?thesis using dict_new_ok [OF env0_ok, of t]
    by (intro exI [of _ fresh_dict] exI [of _ d]) (simp add: dict_room_get)
qed

theorem dict_fill_then_get_witness:
  "length [(''a'', Some ''1''), (''b'', None), (''a'', Some ''2''), (''a'', None)] \<le> DICT_CAP \<and>
   (\<exists>d0 d. dict_new (env0 7) = Some d0 \<and>
     fold_opt (dict_put (env0 7)) [(''a'', Some ''1''), (''b'', None), (''a'', Some ''2''), (''a'', None)] d0 = Some d \<and>
     dict_get (Some d) (Some ''a'') None = Some (Some ''2'') \<and>
     dict_get (Some d) (Some ''b'') (Some ''default'') = Some None)"
proof -
  have len: "length [(''a'', Some ''1''), (''b'', None), (''a'', Some ''2''), (''a'', None)] \<le> DICT_CAP"
    by (simp add: DICT_CAP_def)
  from dict_fill_then_get [OF len, of 7] obtain d0 d where "dict_new (env0 7) = Some d0"
    "fold_opt (dict_put (env0 7)) [(''a'', Some ''1''), (''b'', None), (''a'', Some ''2''), (''a'', None)] d0 = Some d"
    and g: "\<And>k def. dict_get (Some d) (Some k) def =
      Some (foldl map_put Map.empty [(''a'', Some ''1''), (''b'', None), (''a'', Some ''2''), (''a'', None)] k)"
    by blast
  then show ?thesis using len g [of "''a''" None] g [of "''b''" "Some ''default''"] by auto
qed

text \<open>
  C11. On a well-formed table, the lookup of a key returns exactly when the key is present or some
  slot is NULL: on a table whose slots are all in use or marked deleted, asking for an absent key
  never returns.
\<close>
theorem dict_lookup_returns_iff:
  assumes "table_ok d"
  shows "(\<exists>s. dict_lookup d k (dict_hash k) = Some s) \<longleftrightarrow> dict_abs d k \<noteq> None \<or> null_slots d \<noteq> {}"
proof
  assume "\<exists>s. dict_lookup d k (dict_hash k) = Some s"
  then show "dict_abs d k \<noteq> None \<or> null_slots d \<noteq> {}"
    using lookup_diverges [OF assms, of k] by (metis option.distinct(1))
next
  assume "dict_abs d k \<noteq> None \<or> null_slots d \<noteq> {}"
  then show "\<exists>s. dict_lookup d k (dict_hash k) = Some s"
    using lookup_target [OF assms] by blast
qed

theorem dict_lookup_returns_iff_witness:
  "table_ok fresh_dict \<and> (\<exists>s. dict_lookup fresh_dict ''k'' (dict_hash ''k'') = Some s)"
  using dict_lookup_returns_iff [OF fresh_table_ok, of "''k''"] fresh_table_ok by simp

text \<open>
  C10. \<open>dict_add\<close> refines map update for values other than NULL; the value NULL adds a missing key but leaves the old value of a
  present one, against the comment in dict.h, which says that the element is overwritten. On every well-formed table on which the lookup of the key
  returns (tables with deletion marks included), with memory available and the live slots counted in
  \<open>used\<close>, it returns 0 and the new table, resized or not, is well-formed and stands for the old map
  with the key mapped to the new value (to the old one when the new value is NULL).
\<close>
theorem dict_add_refines_update:
  assumes "env_ok m" "table_ok d" "dict_abs d k \<noteq> None \<or> null_slots d \<noteq> {}"
    "length (d_table d) \<le> 2 ^ 30" "card (live_slots d) \<le> unat (d_used d)" "unat (d_used d) < 2 ^ 26"
  shows "\<exists>d'. dict_add m (Some d) (Some k) v = Some (0, Some d') \<and> table_ok d' \<and>
    dict_abs d' = (dict_abs d)(k \<mapsto> (case v of None \<Rightarrow> dict_val d k | Some x \<Rightarrow> Some x))"
proof -
  obtain d' where "dict_add_p RESIZE_DEPTH m d k v False (now m) True = Some (0, d')" "table_ok d'"
    "dict_abs d' = (dict_abs d)(k \<mapsto> stored_val d k v True)"
    using dict_add_p_ok [OF assms, of 31 v False "now m" True] unfolding RESIZE_DEPTH_Suc by blast
  then show ?thesis
    by (auto simp: dict_add_def dict_add_args_def stored_val_def dict_val_def split: option.split)
qed

theorem dict_add_refines_update_witness:
  "\<exists>d'. dict_add (env0 1) (Some fresh_dict) (Some ''k'') (Some ''v'') = Some (0, Some d') \<and> table_ok d' \<and>
     dict_abs d' = [''k'' \<mapsto> Some ''v'']"
  using dict_add_refines_update [OF env0_ok fresh_table_ok, of "''k''" 1 "Some ''v''"]
  by (simp add: fresh_abs)

end
