(* ===== verification/DictOps.thy ===== *)
theory DictOps
  imports DictMap
begin

text \<open>
  Deletion, resizing, dumping and the blob operations of lsd/dict.c, over the table invariant of
  DictInv, and the behaviour of tables that deletions have filled with marks.
\<close>

section \<open>Deletion\<close>

definition erase_slot :: "dict \<Rightarrow> nat \<Rightarrow> dict" where
  "erase_slot d s = set_slot d s ((d_table d ! s)\<lparr>kp_key := KDummy, kp_val := None\<rparr>)"

lemma dict_del_eq:
  "dict_lookup d k (dict_hash k) = Some s \<Longrightarrow>
     dict_del (Some d) (Some k) = Some (0, Some (set_counts (erase_slot d s) (d_used d - 1) (d_fill d)))"
  by (simp add: dict_del_def erase_slot_def set_counts_def set_slot_def)

lemma erase_slot_nth:
  "s < length (d_table d) \<Longrightarrow>
     kp_key (d_table (erase_slot d s) ! i) = (if i = s then KDummy else kp_key (d_table d ! i))"
  by (simp add: erase_slot_def set_slot_nth)

lemma erase_slot_simps [simp]:
  "d_size (erase_slot d s) = d_size d" "d_used (erase_slot d s) = d_used d"
  "d_fill (erase_slot d s) = d_fill d" "length (d_table (erase_slot d s)) = length (d_table d)"
  by (simp_all add: erase_slot_def)

lemma erase_slot_ok:
  assumes ok: "table_ok d" and s: "s < length (d_table d)"
  shows "table_ok (erase_slot d s)"
proof -
  note key = erase_slot_nth [OF s] and pc = probe_ix_cong [of "erase_slot d s" d]
  have sz: "size_ok (erase_slot d s)" using ok by (simp add: table_ok_def size_ok_def)
  have "slot_ok (erase_slot d s) i" if i: "i < length (d_table d)" for i
  proof (cases "i = s")
    case True
    then have "kp_val (d_table (erase_slot d s) ! i) = None" using s by (simp add: erase_slot_def set_slot_nth)
    then show ?thesis using True key [of i] by (simp add: slot_ok_def)
  next
    case False
    have "slot_ok d i" using ok i by (simp add: table_ok_def)
    moreover have "d_table (erase_slot d s) ! i = d_table d ! i"
      using False s by (simp add: erase_slot_def set_slot_nth)
    ultimately show ?thesis using pc by (auto simp: slot_ok_def key split: slotkey.splits)
  qed
  moreover have "keys_distinct (erase_slot d s)"
    using ok unfolding table_ok_def keys_distinct_def by (simp add: key)
  ultimately show ?thesis using sz by (simp add: table_ok_def)
qed

lemma dict_abs_nth:
  "keys_distinct d \<Longrightarrow> i < length (d_table d) \<Longrightarrow> kp_key (d_table d ! i) = KStr k \<Longrightarrow>
     dict_abs d k = Some (kp_val (d_table d ! i))"
  using dict_abs_at by blast

lemma dict_abs_None_iff:
  "dict_abs d k = None \<longleftrightarrow> (\<forall>i < length (d_table d). kp_key (d_table d ! i) \<noteq> KStr k)"
  by (auto simp: dict_abs_def find_None_iff in_set_conv_nth)

lemma erase_slot_abs:
  assumes ok: "table_ok d" and s: "s < length (d_table d)" and k: "kp_key (d_table d ! s) = KStr k"
  shows "dict_abs (erase_slot d s) = (dict_abs d)(k := None)"
proof
  fix k'
  have dist: "keys_distinct d" "keys_distinct (erase_slot d s)"
    using ok erase_slot_ok [OF ok s] by (simp_all add: table_ok_def)
  note key = erase_slot_nth [OF s]
  show "dict_abs (erase_slot d s) k' = ((dict_abs d)(k := None)) k'"
  proof (cases "\<exists>i < length (d_table d). i \<noteq> s \<and> kp_key (d_table d ! i) = KStr k'")
    case True
    then obtain i where i: "i < length (d_table d)" "i \<noteq> s" "kp_key (d_table d ! i) = KStr k'" by blast
    then have "k' \<noteq> k" using dist(1) s k unfolding keys_distinct_def by blast
    moreover have "d_table (erase_slot d s) ! i = d_table d ! i"
      using i s by (simp add: erase_slot_def set_slot_nth)
    ultimately show ?thesis
      using dict_abs_nth [OF dist(1) i(1,3)] dict_abs_nth [OF dist(2), of i k'] i by simp
  next
    case False
    then have "dict_abs (erase_slot d s) k' = None" by (auto simp: dict_abs_None_iff key)
    moreover have "k' \<noteq> k \<Longrightarrow> dict_abs d k' = None"
      using False k by (metis dict_abs_None_iff slotkey.inject)
    ultimately show ?thesis by auto
  qed
qed

lemma dict_abs_slot:
  assumes "dict_abs d k \<noteq> None"
  obtains s where "s < length (d_table d)" "kp_key (d_table d ! s) = KStr k"
  using assms dict_abs_None_iff [of d k] by auto

text \<open>
  C12. Deleting a present key refines map deletion: on every well-formed table \<open>dict_del\<close> returns 0
  and leaves a well-formed table of the same size that stands for the old map without the key.
\<close>
theorem dict_del_refines_delete:
  assumes "table_ok d" "dict_abs d k = Some v"
  shows "\<exists>d'. dict_del (Some d) (Some k) = Some (0, Some d') \<and> table_ok d' \<and>
    d_size d' = d_size d \<and> dict_abs d' = (dict_abs d)(k := None)"
proof -
  obtain s where s: "s < length (d_table d)" "kp_key (d_table d ! s) = KStr k"
    using assms(2) dict_abs_slot [of d k] by auto
  show ?thesis
    using dict_del_eq [OF lookup_present [OF assms(1) s]] erase_slot_ok [OF assms(1) s(1)]
      erase_slot_abs [OF assms(1) s] by auto
qed

definition one_key :: dict where
  "one_key = (case dict_put (env0 1) (''k'', Some ''v'') fresh_dict of Some d \<Rightarrow> d | None \<Rightarrow> fresh_dict)"

lemma one_key_ok: "table_ok one_key" "dict_abs one_key = [''k'' \<mapsto> Some ''v'']" "dict_room 0 one_key"
proof -
  have "dict_room (Suc 0) fresh_dict" by (rule fresh_room) (simp add: DICT_CAP_def)
  from dict_put_room [OF env0_ok this, of 1 "(''k'', Some ''v'')"] obtain d where
    d: "dict_put (env0 1) (''k'', Some ''v'') fresh_dict = Some d" "dict_room 0 d" by blast
  obtain d2 where "dict_add_p RESIZE_DEPTH (env0 1) fresh_dict ''k'' (Some ''v'') False 1 True = Some (0, d2)"
    "table_ok d2" "dict_abs d2 = [''k'' \<mapsto> Some ''v'']"
    using dict_add_p_ok [OF env0_ok fresh_table_ok, where key = "''k''" and n = 31 and val = "Some ''v''" and blob = False and ts = 1 and copy = True]
    unfolding RESIZE_DEPTH_Suc by (auto simp: fresh_abs stored_val_def)
  then show "table_ok one_key" "dict_abs one_key = [''k'' \<mapsto> Some ''v'']" "dict_room 0 one_key"
    using d by (simp_all add: one_key_def dict_put_def dict_add_def dict_add_args_def env0_def)
qed

theorem dict_del_refines_delete_witness:
  "\<exists>d'. dict_del (Some one_key) (Some ''k'') = Some (0, Some d') \<and> table_ok d' \<and> dict_abs d' = Map.empty"
  using dict_del_refines_delete [OF one_key_ok(1), of "''k''" "Some ''v''"] by (auto simp: one_key_ok(2))

section \<open>Tables of deletion marks\<close>

text \<open>One key added and deleted again.\<close>
definition add_del :: "denv \<Rightarrow> string \<Rightarrow> dict \<Rightarrow> dict option" where
  "add_del m k d =
     (case dict_add m (Some d) (Some k) (Some ''on'') of
        Some (rv, Some d1) \<Rightarrow>
          if rv \<noteq> 0 then None
          else (case dict_del (Some d1) (Some k) of Some (rv', d2) \<Rightarrow> d2 | None \<Rightarrow> None)
      | _ \<Rightarrow> None)"

lemma all_marks:
  assumes "size_ok d" "\<forall>ep \<in> set (d_table d). kp_key ep = KDummy \<and> kp_val ep = None"
  shows "table_ok d" "dict_abs d = Map.empty" "null_slots d = {}"
proof -
  have key: "i < length (d_table d) \<Longrightarrow> kp_key (d_table d ! i) = KDummy \<and> kp_val (d_table d ! i) = None" for i
    using assms(2) by simp
  show "table_ok d" using assms(1) key by (auto simp add: table_ok_def keys_distinct_def slot_ok_def)
  show "dict_abs d = Map.empty" using key by (auto simp: fun_eq_iff dict_abs_None_iff)
  show "null_slots d = {}" using key by (auto simp: null_slots_def)
qed

lemma add_del_run:
  "map_option (\<lambda>d. (map (\<lambda>ep. (kp_key ep, kp_val ep)) (d_table d), d_size d, d_used d))
     (fold_opt (add_del (env0 1)) [''e'', ''c'', ''a'', ''b'', ''7'', ''d'', ''f'', ''i''] fresh_dict) =
   Some (replicate 8 (KDummy, None), 8, 0)"
  by code_simp

text \<open>
  C36. A new dictionary to which eight keys (with eight different home slots) were added, each deleted
  again before the next, is empty and counts no key as used, but every one of its slots carries a
  deletion mark: from then on \<open>dict_get\<close>, \<open>dict_add\<close> and \<open>dict_del\<close> of any key never return.
\<close>
theorem dict_marks_hang:
  "\<exists>d. fold_opt (add_del (env0 1)) [''e'', ''c'', ''a'', ''b'', ''7'', ''d'', ''f'', ''i''] fresh_dict = Some d \<and>
     d_used d = 0 \<and> dict_abs d = Map.empty \<and>
     (\<forall>k def. dict_get (Some d) (Some k) def = None) \<and>
     (\<forall>m k v. dict_add m (Some d) (Some k) v = None) \<and>
     (\<forall>k. dict_del (Some d) (Some k) = None)"
proof -
  obtain d where d: "fold_opt (add_del (env0 1)) [''e'', ''c'', ''a'', ''b'', ''7'', ''d'', ''f'', ''i''] fresh_dict = Some d"
    "map (\<lambda>ep. (kp_key ep, kp_val ep)) (d_table d) = replicate 8 (KDummy, None)" "d_size d = 8" "d_used d = 0"
    using add_del_run by auto
  have "length (d_table d) = 8" using arg_cong [OF d(2), of length] by simp
  then have sz: "size_ok d" unfolding size_ok_def by (intro bexI [of _ 3]) (simp_all add: d(3))
  have "kp_key ep = KDummy \<and> kp_val ep = None" if "ep \<in> set (d_table d)" for ep
  proof -
    have "(kp_key ep, kp_val ep) \<in> set (map (\<lambda>ep. (kp_key ep, kp_val ep)) (d_table d))" using that by simp
    then show ?thesis unfolding d(2) by simp
  qed
  then have marks: "table_ok d" "dict_abs d = Map.empty" "null_slots d = {}"
    using all_marks [OF sz] by simp_all
  then have none: "dict_lookup d k (dict_hash k) = None" for k by (simp add: lookup_diverges)
  then have "dict_add_p RESIZE_DEPTH m d k v False t True = None" for m k v t
    unfolding RESIZE_DEPTH_Suc by (simp only: dict_add_p.simps(2) Let_def none option.case)
  then have "dict_add m (Some d) (Some k) v = None" for m k v
    by (simp add: dict_add_def dict_add_args_def)
  moreover have "dict_get (Some d) (Some k) def = None" "dict_del (Some d) (Some k) = None" for k def
    by (simp_all add: dict_get_def dict_del_def none)
  ultimately show ?thesis using d(1,4) marks(2) by blast
qed

section \<open>Resizing\<close>

text \<open>
  \<open>dict_resize\<close> changes the table and not the map: with memory available it returns 0, and the
  new table is well-formed, holds the same entries and has more than \<open>factor * used\<close> slots (the factor
  being 2 above 64000 slots and 4 below), so at least one is NULL when the table was rebuilt.
\<close>
theorem dict_resize_keeps_map:
  assumes "env_ok m" "table_ok d" "length (d_table d) \<le> 2 ^ 30"
    "card (live_slots d) \<le> unat (d_used d)" "unat (d_used d) \<le> 2 ^ 26"
  shows "\<exists>d'. dict_resize m d = Some (0, d') \<and> table_ok d' \<and> dict_abs d' = dict_abs d \<and>
    resize_factor d * unat (d_used d) < length (d_table d') \<and> (d' = d \<or> null_slots d' \<noteq> {})"
proof -
  obtain d' where d': "dict_resize_by (\<lambda>d k v t. dict_add_p RESIZE_DEPTH m d k v False t False) m d = Some (0, d')"
    "table_ok d'" "dict_abs d' = dict_abs d" "resize_factor d * unat (d_used d) < length (d_table d')"
    "d' = d \<or> compact d' (card (live_slots d))"
    using resize_by_ok [OF assms] unfolding RESIZE_DEPTH_Suc by blast
  have "card (live_slots d) < length (d_table d')" if "compact d' (card (live_slots d))"
    using d'(4) assms(4) by (simp add: resize_factor_def split: if_splits)
  then show ?thesis using d' compact_null [of d'] unfolding dict_resize_def by blast
qed

theorem dict_resize_keeps_map_witness:
  "env_ok (env0 1) \<and> (\<exists>d'. dict_resize (env0 1) fresh_dict = Some (0, d') \<and> dict_abs d' = Map.empty)"
  using dict_resize_keeps_map [OF env0_ok fresh_table_ok, of 1] by (auto simp: fresh_abs)

section \<open>Dumping\<close>

lemma enum_scan_stop:
  "r \<le> unat (d_size d) \<Longrightarrow> rank \<le> r \<Longrightarrow> (\<And>i. rank \<le> i \<Longrightarrow> i < r \<Longrightarrow> slot_key_at past d i \<in> {KNull, KDummy}) \<Longrightarrow>
     r = unat (d_size d) \<or> slot_key_at past d r \<notin> {KNull, KDummy} \<Longrightarrow> enum_scan past d rank = r"
proof (induction "r - rank" arbitrary: rank)
  case 0
  then show ?case by (auto simp: enum_scan.simps [of past d rank])
next
  case (Suc n)
  then have "enum_scan past d (Suc rank) = r" by simp
  moreover have "slot_key_at past d rank \<in> {KNull, KDummy}" using Suc.prems(3) [of rank] Suc.hyps(2) by simp
  ultimately show ?case using Suc.prems Suc.hyps(2) by (simp add: enum_scan.simps [of past d rank])
qed

text \<open>The lines of the entries in the slots from \<open>i\<close> on.\<close>
definition entry_lines :: "keypair list \<Rightarrow> string list" where
  "entry_lines eps = map (\<lambda>(k, v). dump_line (KStr k) v) (entries eps)"

lemma entry_lines_simps [simp]:
  "entry_lines [] = []"
  "entry_lines (ep # eps) =
     (case kp_key ep of KStr k \<Rightarrow> dump_line (KStr k) (kp_val ep) # entry_lines eps | _ \<Rightarrow> entry_lines eps)"
  by (auto simp: entry_lines_def split: slotkey.splits)

lemma entry_lines_skip:
  "rank \<le> r \<Longrightarrow> r \<le> length eps \<Longrightarrow> (\<And>i. rank \<le> i \<Longrightarrow> i < r \<Longrightarrow> kp_key (eps ! i) \<in> {KNull, KDummy}) \<Longrightarrow>
     entry_lines (drop rank eps) = entry_lines (drop r eps)"
proof (induction "r - rank" arbitrary: rank)
  case (Suc n)
  then have "drop rank eps = eps ! rank # drop (Suc rank) eps" by (intro Cons_nth_drop_Suc [symmetric]) simp
  moreover have "kp_key (eps ! rank) \<in> {KNull, KDummy}" using Suc.prems(3) [of rank] Suc.hyps(2) by simp
  ultimately have "entry_lines (drop rank eps) = entry_lines (drop (Suc rank) eps)" by auto
  then show ?case using Suc.hyps(1) [of "Suc rank"] Suc.hyps(2) Suc.prems by simp
qed simp

lemma dict_enumerate_scan:
  assumes ok: "table_ok d" and rank: "rank \<le> length (d_table d)"
  obtains (finished) "dict_enumerate past (Some d) (int rank) = (- 1, KNull, None, None)"
      "entry_lines (drop rank (d_table d)) = []"
    | (found) r k where "rank \<le> r" "r < length (d_table d)" "kp_key (d_table d ! r) = KStr k"
      "dict_enumerate past (Some d) (int rank) =
         (int (Suc r), KStr k, kp_val (d_table d ! r), Some (kp_ts (d_table d ! r)))"
      "entry_lines (drop rank (d_table d)) =
         dump_line (KStr k) (kp_val (d_table d ! r)) # entry_lines (drop (Suc r) (d_table d))"
proof -
  let ?n = "length (d_table d)"
  have sz: "unat (d_size d) = ?n" by (rule size_unat [OF ok])
  let ?P = "\<lambda>i. rank \<le> i \<and> (i = ?n \<or> kp_key (d_table d ! i) \<notin> {KNull, KDummy})"
  define r where "r = (LEAST i. ?P i)"
  have r: "?P r" unfolding r_def by (rule LeastI [of ?P ?n]) (use rank in simp)
  have r_le: "r \<le> ?n" unfolding r_def by (rule Least_le) (use rank in simp)
  have before: "kp_key (d_table d ! i) \<in> {KNull, KDummy}" if "rank \<le> i" "i < r" for i
    using not_less_Least [of i ?P] that r_le unfolding r_def [symmetric] by auto
  have scan: "enum_scan past d rank = r"
    by (rule enum_scan_stop) (use r r_le before sz in \<open>auto simp: slot_key_at_def\<close>)
  have skip: "entry_lines (drop rank (d_table d)) = entry_lines (drop r (d_table d))"
    by (rule entry_lines_skip) (use r r_le before in auto)
  show ?thesis
  proof (cases "r = ?n")
    case True
    then show ?thesis using finished scan skip sz by (simp add: dict_enumerate_def)
  next
    case False
    then have lt: "r < ?n" using r_le by simp
    have "slot_ok d r" using ok lt by (simp add: table_ok_def)
    then obtain k where k: "kp_key (d_table d ! r) = KStr k"
      using r False by (auto simp: slot_ok_def split: slotkey.splits)
    have "drop r (d_table d) = d_table d ! r # drop (Suc r) (d_table d)"
      by (rule Cons_nth_drop_Suc [symmetric]) (rule lt)
    then show ?thesis using found [of r k] lt r k scan skip sz by (simp add: dict_enumerate_def Let_def)
  qed
qed

lemma dump_loop_run:
  assumes ok: "table_ok d"
  shows "rank \<le> length (d_table d) \<Longrightarrow> length (d_table d) - rank < n \<Longrightarrow>
     dump_loop n put past d (int rank) e =
       Some (filter put (entry_lines (drop rank (d_table d))),
             e + length (filter (\<lambda>l. \<not> put l) (entry_lines (drop rank (d_table d)))))"
proof (induction n arbitrary: rank e)
  case (Suc n)
  from ok Suc.prems(1) show ?case
  proof (cases rule: dict_enumerate_scan [where past = past])
    case finished
    then show ?thesis by simp
  next
    case (found r k)
    have "dump_loop n put past d (int (Suc r)) e' =
       Some (filter put (entry_lines (drop (Suc r) (d_table d))),
             e' + length (filter (\<lambda>l. \<not> put l) (entry_lines (drop (Suc r) (d_table d)))))" for e'
      using Suc.IH [of "Suc r"] found(1,2) Suc.prems by auto
    then show ?thesis using found(4,5) by (simp add: Let_def del: of_nat_Suc)
  qed
qed simp

text \<open>
  \<open>dict_dump\<close> on a well-formed table ends, whatever lies in memory behind the table, and prints
  one line for each entry, in slot order; a line \<open>fprintf\<close> fails to print is counted as an error, and
  every entry of the dictionary is printed or counted.
\<close>
theorem dict_dump_lists_entries:
  assumes "table_ok d"
  shows "dict_dump put past (Some d) =
      Some (filter put (entry_lines (d_table d)), length (filter (\<lambda>l. \<not> put l) (entry_lines (d_table d)))) \<and>
    set (entry_lines (d_table d)) = {dump_line (KStr k) v | k v. dict_abs d k = Some v} \<and>
    length (entry_lines (d_table d)) = card (dom (dict_abs d))"
proof -
  have dist: "distinct (map fst (entries (d_table d)))" by (rule entries_distinct [OF assms])
  have "dict_dump put past (Some d) =
      Some (filter put (entry_lines (d_table d)), length (filter (\<lambda>l. \<not> put l) (entry_lines (d_table d))))"
    using dump_loop_run [OF assms, of 0 "unat (d_size d) + 1" put past 0] size_unat [OF assms]
    by (simp add: dict_dump_def)
  moreover have "set (entry_lines (d_table d)) = {dump_line (KStr k) v | k v. dict_abs d k = Some v}"
    using dist by (force simp: entry_lines_def dict_abs_entries)
  moreover have "card (dom (dict_abs d)) = length (entry_lines (d_table d))"
    using dist by (simp add: dict_abs_entries dom_map_of_conv_image_fst entry_lines_def
        distinct_card [of "map fst (entries (d_table d))", simplified])
  ultimately show ?thesis by simp
qed

theorem dict_dump_lists_entries_witness:
  "set (entry_lines (d_table one_key)) = {''k=v'' @ [c_nl]} \<and>
   length (entry_lines (d_table one_key)) = 1"
  using dict_dump_lists_entries [OF one_key_ok(1), of "\<lambda>_. True" KNull]
  by (auto simp: one_key_ok(2) dump_line_def split: if_splits)

section \<open>Blobs\<close>

text \<open>
  The pointer given to \<open>dict_add_blob\<close> is not what the dictionary keeps: the resulting table is the
  same for any two pointers, and when the insertion does not resize it, \<open>dict_get_blob\<close> of the key
  returns the address of a parameter in a stack frame that is gone.
\<close>
theorem dict_blob_lost:
  assumes "env_ok m" "table_ok d" "dict_abs d k \<noteq> None \<or> null_slots d \<noteq> {}"
    "d_size d * 2 > 3 * (d_fill d + 1)"
  shows "\<exists>d'. dict_add_blob m (Some d) (Some k) p = Some (0, Some d') \<and>
    dict_add_blob m (Some d) (Some k) q = Some (0, Some d') \<and>
    dict_get_blob (Some d') (Some k) def = Some (Some DeadFrame)"
proof -
  obtain s where s: "dict_lookup d k (dict_hash k) = Some s" "target d k s"
    using lookup_target [OF assms(2,3)] .
  let ?ep = "fill_slot m (d_table d ! s) k None True (now m) True"
  let ?d = "set_counts (set_slot d s ?ep) (d_used d + 1) (d_fill d + 1)"
  have pl: "placeable d k s ?ep" using assms(2) s(2) by (simp add: placeable_def fill_slot_def)
  have nl: "\<not> d_size d * 2 \<le> 3 * (d_fill d + 1)" using assms(4) by (simp add: not_le)
  have add: "dict_add_p RESIZE_DEPTH m d k None True (now m) True = Some (0, ?d)"
    using s(1) assms(1) nl unfolding RESIZE_DEPTH_Suc dict_add_p.simps(2) [of "Suc 31"] Let_def
    by (simp add: env_ok_def set_counts_def set_slot_def)
  have len: "s < length (d_table d)" using s(2) by (simp add: target_def)
  have "d_table ?d ! s = ?ep" using len by (simp add: set_slot_nth)
  moreover have "dict_lookup ?d k (dict_hash k) = Some s"
    by (rule lookup_present) (use set_slot_table_ok [OF pl] len calculation in \<open>auto simp: fill_slot_def\<close>)
  ultimately have "dict_get_blob (Some ?d) (Some k) def = Some (Some DeadFrame)"
    by (simp add: dict_get_blob_def fill_slot_def)
  then show ?thesis using add by (simp add: dict_add_blob_def dict_add_args_def)
qed

theorem dict_blob_lost_witness:
  "\<exists>d'. dict_add_blob (env0 1) (Some fresh_dict) (Some ''k'') (Some 4096) = Some (0, Some d') \<and>
    dict_get_blob (Some d') (Some ''k'') None = Some (Some DeadFrame)"
proof -
  have "d_size fresh_dict * 2 > 3 * (d_fill fresh_dict + 1)" by (simp add: fresh_dict_def)
  from dict_blob_lost [OF _ fresh_table_ok _ this, where k = "''k''" and p = "Some 4096" and def = None and m = "env0 1"]
  show ?thesis by auto
qed

end
