(* ===== verification/Dlink.thy ===== *)
theory Dlink
  imports Prelude
begin

text \<open>
  The doubly linked lists of lsd/dlink.c and lsd/dlink.h over an explicit store: a \<open>nheap\<close> maps the
  addresses of the allocated nodes to their fields, so that two lists, or a list and a stale
  pointer, can share nodes as they can in C. Every operation is written as the sequence of loads and
  stores of the source; \<open>None\<close> is a load or store through NULL or through an address that holds no
  node. The lists the nodes belong to (\<open>dlink_list\<close> records) are passed and returned.
\<close>

section \<open>Nodes, lists and the store\<close>

record dnode =
  n_data :: ptr
  n_next :: ptr
  n_prev :: ptr

record dlink_list =
  l_head :: ptr
  l_tail :: ptr
  l_length :: u64

type_synonym nheap = "nat \<rightharpoonup> dnode"

definition empty_list :: dlink_list where
  "empty_list = \<lparr>l_head = None, l_tail = None, l_length = 0\<rparr>"

text \<open>A node in zeroed memory.\<close>
definition free_node :: dnode where
  "free_node = \<lparr>n_data = None, n_next = None, n_prev = None\<rparr>"

text \<open>\<open>p->f\<close> and \<open>p->f = v\<close>.\<close>

definition load :: "nheap \<Rightarrow> ptr \<Rightarrow> dnode option" where
  "load h p = (case p of None \<Rightarrow> None | Some a \<Rightarrow> h a)"

definition store :: "nheap \<Rightarrow> ptr \<Rightarrow> (dnode \<Rightarrow> dnode) \<Rightarrow> nheap option" where
  "store h p f =
     (case p of None \<Rightarrow> None | Some a \<Rightarrow>
       (case h a of None \<Rightarrow> None | Some nd \<Rightarrow> Some (h(a \<mapsto> f nd))))"

definition set_data :: "ptr \<Rightarrow> dnode \<Rightarrow> dnode" where "set_data v nd = nd\<lparr>n_data := v\<rparr>"
definition set_next :: "ptr \<Rightarrow> dnode \<Rightarrow> dnode" where "set_next v nd = nd\<lparr>n_next := v\<rparr>"
definition set_prev :: "ptr \<Rightarrow> dnode \<Rightarrow> dnode" where "set_prev v nd = nd\<lparr>n_prev := v\<rparr>"

section \<open>The operations\<close>

text \<open>Linking \<open>m\<close> in front of the head: the common end of \<open>dlink_add\<close> and \<open>dlink_move\<close>.\<close>
definition link_head :: "nat \<Rightarrow> nheap \<Rightarrow> dlink_list \<Rightarrow> (nheap \<times> dlink_list) option" where
  "link_head m h l =
     do { (h', l') \<leftarrow>
            (if l_head l \<noteq> None
             then map_option (\<lambda>h'. (h', l)) (store h (l_head l) (set_prev (Some m)))
             else if l_tail l = None then Some (h, l\<lparr>l_tail := Some m\<rparr>)
             else Some (h, l));
          Some (h', l'\<lparr>l_head := Some m, l_length := l_length l' + 1\<rparr>) }"

definition dlink_add :: "ptr \<Rightarrow> nat \<Rightarrow> nheap \<Rightarrow> dlink_list \<Rightarrow> (nheap \<times> dlink_list) option" where
  "dlink_add data m h l =
     do { h1 \<leftarrow> store h (Some m) (set_data data);
          h2 \<leftarrow> store h1 (Some m) (set_next (l_head l));
          h3 \<leftarrow> store h2 (Some m) (set_prev None);
          link_head m h3 l }"

definition dlink_add_before ::
  "nat \<Rightarrow> ptr \<Rightarrow> nat \<Rightarrow> nheap \<Rightarrow> dlink_list \<Rightarrow> (nheap \<times> dlink_list) option" where
  "dlink_add_before b data m h l =
     (if Some b = l_head l then dlink_add data m h l
      else do { h1 \<leftarrow> store h (Some m) (set_data data);
                nb \<leftarrow> load h1 (Some b);
                h2 \<leftarrow> store h1 (n_prev nb) (set_next (Some m));
                nb2 \<leftarrow> load h2 (Some b);
                h3 \<leftarrow> store h2 (Some m) (set_prev (n_prev nb2));
                h4 \<leftarrow> store h3 (Some b) (set_prev (Some m));
                h5 \<leftarrow> store h4 (Some m) (set_next (Some b));
                Some (h5, l\<lparr>l_length := l_length l + 1\<rparr>) })"

definition dlink_add_tail :: "ptr \<Rightarrow> nat \<Rightarrow> nheap \<Rightarrow> dlink_list \<Rightarrow> (nheap \<times> dlink_list) option" where
  "dlink_add_tail data m h l =
     do { h1 \<leftarrow> store h (Some m) (set_data data);
          h2 \<leftarrow> store h1 (Some m) (set_next None);
          h3 \<leftarrow> store h2 (Some m) (set_prev (l_tail l));
          (h4, l1) \<leftarrow>
            (if l_head l = None then Some (h3, l\<lparr>l_head := Some m\<rparr>)
             else if l_tail l \<noteq> None
             then map_option (\<lambda>h4. (h4, l)) (store h3 (l_tail l) (set_next (Some m)))
             else Some (h3, l));
          Some (h4, l1\<lparr>l_tail := Some m, l_length := l_length l1 + 1\<rparr>) }"

definition dlink_delete :: "nat \<Rightarrow> nheap \<Rightarrow> dlink_list \<Rightarrow> (nheap \<times> dlink_list) option" where
  "dlink_delete m h l =
     do { nd \<leftarrow> load h (Some m);
          (h1, l1) \<leftarrow>
            (if n_prev nd = None then Some (h, l\<lparr>l_head := n_next nd\<rparr>)
             else map_option (\<lambda>h1. (h1, l)) (store h (n_prev nd) (set_next (n_next nd))));
          nd1 \<leftarrow> load h1 (Some m);
          (h2, l2) \<leftarrow>
            (if n_next nd1 = None then Some (h1, l1\<lparr>l_tail := n_prev nd1\<rparr>)
             else map_option (\<lambda>h2. (h2, l1)) (store h1 (n_next nd1) (set_prev (n_prev nd1))));
          Some (h2, l2\<lparr>l_length := l_length l2 - 1\<rparr>) }"

text \<open>\<open>DLINK_FOREACH\<close> from \<open>p\<close> until the data is found; a cyclic chain without it never ends.\<close>
partial_function (option) dlink_scan :: "ptr \<Rightarrow> nheap \<Rightarrow> ptr \<Rightarrow> ptr option" where
  "dlink_scan data h p =
     (case p of
        None \<Rightarrow> Some None
      | Some a \<Rightarrow>
          (case h a of
             None \<Rightarrow> None
           | Some nd \<Rightarrow> if n_data nd = data then Some p else dlink_scan data h (n_next nd)))"

declare dlink_scan.simps [code]

definition dlink_find :: "ptr \<Rightarrow> nheap \<Rightarrow> dlink_list \<Rightarrow> ptr option" where
  "dlink_find data h l = dlink_scan data h (l_head l)"

text \<open>The unlinking of \<open>dlink_find_delete\<close> and \<open>dlink_move\<close>: first the successor, then the predecessor.\<close>
definition unlink :: "nat \<Rightarrow> nheap \<Rightarrow> dlink_list \<Rightarrow> (nheap \<times> dlink_list) option" where
  "unlink m h l =
     do { nd \<leftarrow> load h (Some m);
          (h1, l1) \<leftarrow>
            (if n_next nd \<noteq> None
             then map_option (\<lambda>h1. (h1, l)) (store h (n_next nd) (set_prev (n_prev nd)))
             else Some (h, l\<lparr>l_tail := n_prev nd\<rparr>));
          nd1 \<leftarrow> load h1 (Some m);
          (if n_prev nd1 \<noteq> None
           then map_option (\<lambda>h2. (h2, l1)) (store h1 (n_prev nd1) (set_next (n_next nd1)))
           else Some (h1, l1\<lparr>l_head := n_next nd1\<rparr>)) }"

text \<open>The result is the node found (NULL when the data is in no node), the store and the list.\<close>
definition dlink_find_delete :: "ptr \<Rightarrow> nheap \<Rightarrow> dlink_list \<Rightarrow> (ptr \<times> nheap \<times> dlink_list) option" where
  "dlink_find_delete data h l =
     do { p \<leftarrow> dlink_scan data h (l_head l);
          (case p of
             None \<Rightarrow> Some (None, h, l)
           | Some m \<Rightarrow>
               do { (h1, l1) \<leftarrow> unlink m h l;
                    h2 \<leftarrow> store h1 p (set_prev None);
                    h3 \<leftarrow> store h2 p (set_next None);
                    Some (p, h3, l1\<lparr>l_length := l_length l1 - 1\<rparr>) }) }"

text \<open>\<open>dlink_length\<close> returns the \<open>unsigned long\<close> as an \<open>int\<close>.\<close>
definition dlink_length :: "dlink_list \<Rightarrow> int" where
  "dlink_length l = int_of_long (uint (l_length l))"

text \<open>
  \<open>dlink_move\<close>; the lists are NULL pointers or records, and are different. The result: the store, the
  old list, the new list.
\<close>
definition dlink_move ::
  "ptr \<Rightarrow> nheap \<Rightarrow> dlink_list option \<Rightarrow> dlink_list option \<Rightarrow>
     (nheap \<times> dlink_list option \<times> dlink_list option) option" where
  "dlink_move m h oldlist newlist =
     (case (m, oldlist, newlist) of
        (Some a, Some l, Some n) \<Rightarrow>
          do { (h1, l1) \<leftarrow> unlink a h l;
               h2 \<leftarrow> store h1 m (set_prev None);
               h3 \<leftarrow> store h2 m (set_next (l_head n));
               (h4, n1) \<leftarrow> link_head a h3 n;
               Some (h4, Some (l1\<lparr>l_length := l_length l1 - 1\<rparr>), Some n1) }
      | _ \<Rightarrow> Some (h, oldlist, newlist))"

end
