(* ===== verification/DlinkSeq.thy ===== *)
theory DlinkSeq
  imports Dlink
begin

text \<open>
  What the operations of lsd/dlink.c do to the sequence a list stands for. \<open>dl_rep h l s\<close>: in the
  store \<open>h\<close> the list \<open>l\<close> is the sequence \<open>s\<close> of nodes with their data. Each operation is shown to
  refine its operation on sequences and to leave every other node as it was.
\<close>

section \<open>Representation\<close>

definition first_ptr :: "(nat \<times> ptr) list \<Rightarrow> ptr \<Rightarrow> ptr" where
  "first_ptr s q = (case s of [] \<Rightarrow> q | (a, d) # _ \<Rightarrow> Some a)"

definition last_ptr :: "ptr \<Rightarrow> (nat \<times> ptr) list \<Rightarrow> ptr" where
  "last_ptr p s = (if s = [] then p else Some (fst (last s)))"

lemma first_ptr_simps [simp]:
  "first_ptr [] q = q" "first_ptr ((a, d) # s) q = Some a"
  "first_ptr (s @ t) q = first_ptr s (first_ptr t q)"
  by (auto simp: first_ptr_def split: list.split)

lemma last_ptr_simps [simp]:
  "last_ptr p [] = p" "last_ptr p ((a, d) # s) = last_ptr (Some a) s"
  "last_ptr p (s @ t) = last_ptr (last_ptr p s) t"
  by (auto simp: last_ptr_def)

lemma ptr_None [simp]: "first_ptr s None = None \<longleftrightarrow> s = []" "last_ptr None s = None \<longleftrightarrow> s = []"
  by (auto simp: first_ptr_def last_ptr_def split: list.split)

lemma ptr_not_None [simp]: "first_ptr s (Some a) \<noteq> None" "last_ptr (Some a) s \<noteq> None"
  by (auto simp: first_ptr_def last_ptr_def split: list.split)

lemma first_ptr_Some: "s \<noteq> [] \<Longrightarrow> first_ptr s p = Some a \<Longrightarrow> a \<in> fst ` set s"
  by (cases s) auto

text \<open>The nodes of \<open>s\<close> are linked in this order, between \<open>p\<close> and \<open>q\<close>.\<close>
fun dchain :: "nheap \<Rightarrow> ptr \<Rightarrow> (nat \<times> ptr) list \<Rightarrow> ptr \<Rightarrow> bool" where
  "dchain h p [] q \<longleftrightarrow> True"
| "dchain h p ((a, d) # s) q \<longleftrightarrow>
     h a = Some \<lparr>n_data = d, n_next = first_ptr s q, n_prev = p\<rparr> \<and> dchain h (Some a) s q"

definition dl_rep :: "nheap \<Rightarrow> dlink_list \<Rightarrow> (nat \<times> ptr) list \<Rightarrow> bool" where
  "dl_rep h l s \<longleftrightarrow> distinct (map fst s) \<and> dchain h None s None \<and>
     l = \<lparr>l_head = first_ptr s None, l_tail = last_ptr None s, l_length = of_nat (length s)\<rparr>"

abbreviation nodes :: "(nat \<times> ptr) list \<Rightarrow> nat set" where
  "nodes s \<equiv> fst ` set s"

lemma dchain_append [simp]:
  "dchain h p (s @ t) q \<longleftrightarrow> dchain h p s (first_ptr t q) \<and> dchain h (last_ptr p s) t q"
proof (induction s arbitrary: p)
  case (Cons x s)
  then show ?case by (cases x; cases s) auto
qed simp

lemma dchain_frame [simp]: "a \<notin> nodes s \<Longrightarrow> dchain (h(a := x)) p s q = dchain h p s q"
  by (induction s arbitrary: p) auto

lemma dchain_dom: "dchain h p s q \<Longrightarrow> a \<in> nodes s \<Longrightarrow> \<exists>nd. h a = Some nd"
  by (induction s arbitrary: p) fastforce+

lemma dl_rep_empty: "dl_rep h empty_list []"
  by (simp add: dl_rep_def empty_list_def)

lemma dl_repD:
  assumes "dl_rep h l s"
  shows "distinct (map fst s)" "dchain h None s None" "l_head l = first_ptr s None"
    "l_tail l = last_ptr None s" "l_length l = of_nat (length s)"
  using assms by (auto simp: dl_rep_def)

lemma dnode_update_all [simp]:
  "nd\<lparr>n_data := d, n_next := x, n_prev := y\<rparr> = \<lparr>n_data = d, n_next = x, n_prev = y\<rparr>"
  by (cases nd) simp

lemmas heap_ops = load_def store_def set_data_def set_next_def set_prev_def

text \<open>The two stores differ only at the given addresses.\<close>
definition same_but :: "nat set \<Rightarrow> nheap \<Rightarrow> nheap \<Rightarrow> bool" where
  "same_but A h h' \<longleftrightarrow> (\<forall>a. a \<notin> A \<longrightarrow> h' a = h a)"

lemma same_but_chain: "same_but A h h' \<Longrightarrow> nodes s \<inter> A = {} \<Longrightarrow> dchain h' p s q = dchain h p s q"
  by (induction s arbitrary: p) (auto simp: same_but_def)

lemma same_but_rep: "same_but A h h' \<Longrightarrow> nodes s \<inter> A = {} \<Longrightarrow> dl_rep h' l s = dl_rep h l s"
  by (simp add: dl_rep_def same_but_chain)

section \<open>Insertion\<close>

lemma dlink_add_rep:
  assumes "dl_rep h l s" "h m = Some nd" "m \<notin> nodes s"
  shows "\<exists>h' l'. dlink_add d m h l = Some (h', l') \<and> dl_rep h' l' ((m, d) # s) \<and>
    same_but (insert m (nodes s)) h h'"
proof (cases s)
  case Nil
  then show ?thesis using assms
    by (auto simp: dlink_add_def link_head_def heap_ops dl_rep_def same_but_def)
next
  case (Cons x s')
  then show ?thesis using assms
    by (cases x) (auto simp: dlink_add_def link_head_def heap_ops dl_rep_def same_but_def add.commute)
qed

lemma split_last:
  assumes "s \<noteq> []"
  obtains t a d where "s = t @ [(a, d)]"
  using assms by (cases s rule: rev_cases) auto

text \<open>The neighbours of a node in a chain.\<close>

lemma dl_rep_at:
  assumes "dl_rep h l (s @ (a, d) # t)"
  shows "h a = Some \<lparr>n_data = d, n_next = first_ptr t None, n_prev = last_ptr None s\<rparr>"
    "a \<notin> nodes s" "a \<notin> nodes t" "nodes s \<inter> nodes t = {}"
    "dchain h None s (Some a)" "dchain h (Some a) t None"
    "l_length l = of_nat (length s + length t) + 1"
  using assms by (auto simp: dl_rep_def)

lemma dlink_add_tail_rep:
  assumes "dl_rep h l s" "h m = Some nd" "m \<notin> nodes s"
  shows "\<exists>h' l'. dlink_add_tail d m h l = Some (h', l') \<and> dl_rep h' l' (s @ [(m, d)]) \<and>
    same_but (insert m (nodes s)) h h'"
proof (cases "s = []")
  case True
  then show ?thesis using assms
    by (auto simp: dlink_add_tail_def heap_ops dl_rep_def same_but_def)
next
  case False
  then obtain t a e where s: "s = t @ [(a, e)]" by (rule split_last)
  have l: "l_head l \<noteq> None" "l_tail l = Some a" using dl_repD [OF assms(1)] s by auto
  have a: "h a = Some \<lparr>n_data = e, n_next = None, n_prev = last_ptr None t\<rparr>" "a \<notin> nodes t" "a \<noteq> m"
    using dl_rep_at [of h l t a e "[]"] assms(1,3) s by auto
  let ?h = "h(m \<mapsto> \<lparr>n_data = d, n_next = None, n_prev = Some a\<rparr>,
              a \<mapsto> \<lparr>n_data = e, n_next = Some m, n_prev = last_ptr None t\<rparr>)"
  have "dlink_add_tail d m h l = Some (?h, l\<lparr>l_tail := Some m, l_length := l_length l + 1\<rparr>)"
    using l a assms(2) by (auto simp: dlink_add_tail_def heap_ops)
  moreover have "dl_rep ?h (l\<lparr>l_tail := Some m, l_length := l_length l + 1\<rparr>) (s @ [(m, d)])"
    using assms a unfolding s by (auto simp: dl_rep_def add.commute image_Un)
  moreover have "same_but (insert m (nodes s)) h ?h" by (auto simp: same_but_def s)
  ultimately show ?thesis by blast
qed

lemma dlink_add_before_rep:
  assumes "dl_rep h l (s @ (b, e) # t)" "h m = Some nd" "m \<notin> nodes (s @ (b, e) # t)"
  shows "\<exists>h' l'. dlink_add_before b d m h l = Some (h', l') \<and>
    dl_rep h' l' (s @ (m, d) # (b, e) # t) \<and> same_but (insert m (nodes (s @ (b, e) # t))) h h'"
proof (cases "s = []")
  case True
  then show ?thesis using dlink_add_rep [OF assms, of d] dl_repD(3) [OF assms(1)]
    by (simp add: dlink_add_before_def)
next
  case False
  then obtain u a c where s: "s = u @ [(a, c)]" by (rule split_last)
  note b = dl_rep_at [OF assms(1)]
  have a: "h a = Some \<lparr>n_data = c, n_next = Some b, n_prev = last_ptr None u\<rparr>" "a \<notin> nodes u" "a \<noteq> m"
    "a \<notin> nodes t" "a \<noteq> b" "b \<noteq> m"
    using dl_rep_at [of h l u a c "(b, e) # t"] assms(1,3) s by auto
  have head: "l_head l \<noteq> Some b"
    using dl_repD(3) [OF assms(1)] first_ptr_Some [OF False, of "Some b" b] b(2) by auto
  let ?l = "l\<lparr>l_length := l_length l + 1\<rparr>"
  let ?h = "h(a \<mapsto> \<lparr>n_data = c, n_next = Some m, n_prev = last_ptr None u\<rparr>,
              b \<mapsto> \<lparr>n_data = e, n_next = first_ptr t None, n_prev = Some m\<rparr>,
              m \<mapsto> \<lparr>n_data = d, n_next = Some b, n_prev = Some a\<rparr>)"
  have "dlink_add_before b d m h l = Some (?h, ?l)"
    using head a b(1) assms(2) s by (auto simp: dlink_add_before_def heap_ops fun_upd_twist)
  moreover have "dl_rep ?h ?l (s @ (m, d) # (b, e) # t)"
    using assms(1,3) a b(2,3) unfolding s by (auto simp: dl_rep_def add.commute image_Un)
  moreover have "same_but (insert m (nodes (s @ (b, e) # t))) h ?h" by (auto simp: same_but_def s)
  ultimately show ?thesis by blast
qed

section \<open>Removal\<close>

text \<open>
  Both removals relink the neighbours in the same way; the removed node keeps its old pointers in
  \<open>dlink_delete\<close>.
\<close>

definition relink :: "(nat \<times> ptr) list \<Rightarrow> (nat \<times> ptr) list \<Rightarrow> nheap \<Rightarrow> nheap" where
  "relink s t h =
     (let h1 = (case last_ptr None s of None \<Rightarrow> h
                | Some a \<Rightarrow> h(a := map_option (set_next (first_ptr t None)) (h a)))
      in (case first_ptr t None of None \<Rightarrow> h1
          | Some b \<Rightarrow> h1(b := map_option (set_prev (last_ptr None s)) (h1 b))))"

lemma relink_same: "same_but (nodes s \<union> nodes t) h (relink s t h)"
  by (cases s rule: rev_cases; cases t) (auto simp: relink_def same_but_def)

lemma relink_chain:
  assumes "dl_rep h l (s @ (m, d) # t)"
  shows "dchain (relink s t h) None (s @ t) None"
proof (cases s rule: rev_cases)
  case Nil
  then show ?thesis using assms by (cases t) (auto simp: relink_def dl_rep_def set_prev_def)
next
  case (snoc u x)
  then show ?thesis using assms
    by (cases x; cases t) (auto simp: relink_def dl_rep_def set_prev_def set_next_def)
qed

lemma dlink_delete_rep:
  assumes "dl_rep h l (s @ (m, d) # t)"
  shows "\<exists>l'. dlink_delete m h l = Some (relink s t h, l') \<and> dl_rep (relink s t h) l' (s @ t)"
proof -
  note m = dl_rep_at [OF assms]
  let ?l = "\<lparr>l_head = first_ptr (s @ t) None, l_tail = last_ptr None (s @ t), l_length = of_nat (length (s @ t))\<rparr>"
  have "dlink_delete m h l = Some (relink s t h, ?l)"
  proof (cases s rule: rev_cases)
    case Nil
    then show ?thesis using assms m
      by (cases t) (auto simp: dlink_delete_def relink_def heap_ops dl_rep_def)
  next
    case (snoc u x)
    then show ?thesis using assms m
      by (cases x; cases t) (auto simp: dlink_delete_def relink_def heap_ops dl_rep_def)
  qed
  then show ?thesis using relink_chain [OF assms] dl_repD(1) [OF assms] by (auto simp: dl_rep_def)
qed

lemma unlink_rep:
  assumes "dl_rep h l (s @ (m, d) # t)"
  shows "unlink m h l = Some (relink s t h,
    \<lparr>l_head = first_ptr (s @ t) None, l_tail = last_ptr None (s @ t), l_length = l_length l\<rparr>)"
proof (cases s rule: rev_cases)
  case Nil
  then show ?thesis using assms dl_rep_at [OF assms]
    by (cases t) (auto simp: unlink_def relink_def heap_ops dl_rep_def)
next
  case (snoc u x)
  then show ?thesis using assms dl_rep_at [OF assms]
    by (cases x; cases t) (auto simp: unlink_def relink_def heap_ops dl_rep_def fun_upd_twist)
qed

lemma relink_at:
  assumes "dl_rep h l (s @ (m, d) # t)"
  shows "relink s t h m = h m"
  using relink_same [of s t h] dl_rep_at(2,3) [OF assms] by (simp add: same_but_def)

section \<open>Search\<close>

definition find_node :: "ptr \<Rightarrow> (nat \<times> ptr) list \<Rightarrow> ptr" where
  "find_node d s = map_option fst (List.find (\<lambda>x. snd x = d) s)"

lemma find_node_simps [simp]:
  "find_node d [] = None" "find_node d ((a, e) # s) = (if e = d then Some a else find_node d s)"
  by (simp_all add: find_node_def)

lemma dlink_scan_chain: "dchain h p s None \<Longrightarrow> dlink_scan d h (first_ptr s None) = Some (find_node d s)"
proof (induction s arbitrary: p)
  case Nil
  then show ?case by (simp add: dlink_scan.simps)
next
  case (Cons x s)
  obtain a e where x: "x = (a, e)" by (cases x)
  have "dlink_scan d h (first_ptr s None) = Some (find_node d s)"
    by (rule Cons.IH [of "Some a"]) (use Cons.prems x in simp)
  then show ?case using Cons.prems by (simp add: dlink_scan.simps [of d h "Some a"] x)
qed

lemma dlink_find_rep: "dl_rep h l s \<Longrightarrow> dlink_find d h l = Some (find_node d s)"
  by (auto simp: dlink_find_def dl_rep_def intro: dlink_scan_chain)

lemma find_node_split:
  assumes "find_node d s = Some m"
  obtains u t where "s = u @ (m, d) # t" "\<forall>x \<in> set u. snd x \<noteq> d"
proof -
  obtain e where e: "List.find (\<lambda>x. snd x = d) s = Some (m, e)"
    using assms by (auto simp: find_node_def)
  then obtain i where i: "i < length s" "s ! i = (m, e)" "e = d" "\<forall>j < i. snd (s ! j) \<noteq> d"
    by (auto simp: find_Some_iff) (metis snd_conv)
  then have "s = take i s @ (m, d) # drop (Suc i) s" using id_take_nth_drop [OF i(1)] by simp
  moreover have "\<forall>x \<in> set (take i s). snd x \<noteq> d" using i(1,3,4) by (auto simp: in_set_conv_nth) (metis snd_conv)
  ultimately show ?thesis by (rule that)
qed

lemma dlink_find_delete_absent:
  assumes "dl_rep h l s" "find_node d s = None"
  shows "dlink_find_delete d h l = Some (None, h, l)"
  using dlink_find_rep [OF assms(1), of d] assms(2)
  by (simp add: dlink_find_delete_def dlink_find_def)

lemma dlink_find_delete_rep:
  assumes "dl_rep h l (s @ (m, d) # t)" "find_node d (s @ (m, d) # t) = Some m"
  shows "\<exists>h' l'. dlink_find_delete d h l = Some (Some m, h', l') \<and> dl_rep h' l' (s @ t) \<and>
    same_but (nodes (s @ (m, d) # t)) h h' \<and> h' m = Some \<lparr>n_data = d, n_next = None, n_prev = None\<rparr>"
proof -
  note m = dl_rep_at [OF assms(1)]
  let ?h = "(relink s t h)(m \<mapsto> \<lparr>n_data = d, n_next = None, n_prev = None\<rparr>)"
  let ?l = "\<lparr>l_head = first_ptr (s @ t) None, l_tail = last_ptr None (s @ t), l_length = of_nat (length (s @ t))\<rparr>"
  have "dlink_find_delete d h l = Some (Some m, ?h, ?l)"
    using dlink_find_rep [OF assms(1), of d] assms(2) unlink_rep [OF assms(1)] relink_at [OF assms(1)] m(1,7)
    by (simp add: dlink_find_delete_def dlink_find_def heap_ops)
  moreover have "dl_rep ?h ?l (s @ t)"
    using relink_chain [OF assms(1)] dl_repD(1) [OF assms(1)] m(2,3) by (auto simp: dl_rep_def)
  moreover have "same_but (nodes (s @ (m, d) # t)) h ?h"
    using relink_same [of s t h] by (auto simp: same_but_def)
  ultimately show ?thesis by (intro exI [of _ ?h] exI [of _ ?l]) simp
qed

section \<open>Moving a node\<close>

lemma dlink_move_rep:
  assumes "dl_rep h l (s @ (m, d) # t)" "dl_rep h n u" "nodes (s @ (m, d) # t) \<inter> nodes u = {}"
  shows "\<exists>h' l' n'. dlink_move (Some m) h (Some l) (Some n) = Some (h', Some l', Some n') \<and>
    dl_rep h' l' (s @ t) \<and> dl_rep h' n' ((m, d) # u) \<and>
    same_but (nodes (s @ (m, d) # t) \<union> nodes u) h h'"
proof -
  note m = dl_rep_at [OF assms(1)]
  let ?h = "(relink s t h)(m \<mapsto> \<lparr>n_data = d, n_next = first_ptr u None, n_prev = None\<rparr>)"
  let ?l = "\<lparr>l_head = first_ptr (s @ t) None, l_tail = last_ptr None (s @ t), l_length = of_nat (length (s @ t))\<rparr>"
  have same: "same_but (insert m (nodes s \<union> nodes t)) h ?h"
    using relink_same [of s t h] by (auto simp: same_but_def)
  have u: "dl_rep ?h n u" using same_but_rep [OF same, of u n] assms(2,3) by (auto simp: image_Un)
  have st: "dl_rep ?h ?l (s @ t)"
    using relink_chain [OF assms(1)] dl_repD(1) [OF assms(1)] m(2,3) by (auto simp: dl_rep_def)
  have add: "dlink_add d m (?h) n = link_head m ?h n"
    using dl_repD(3) [OF u] by (simp add: dlink_add_def heap_ops fun_upd_idem)
  have mu: "m \<notin> nodes u" using assms(3) by auto
  obtain h' n' where link: "link_head m ?h n = Some (h', n')" "dl_rep h' n' ((m, d) # u)"
    "same_but (insert m (nodes u)) ?h h'"
    using dlink_add_rep [OF u _ mu, of _ d] add by fastforce
  have "dl_rep h' ?l (s @ t)" using same_but_rep [OF link(3), of "s @ t" ?l] st m(2,3) assms(3) by (auto simp: image_Un)
  moreover have "dlink_move (Some m) h (Some l) (Some n) = Some (h', Some ?l, Some n')"
    using unlink_rep [OF assms(1)] relink_at [OF assms(1)] m(1,7) link(1) dl_repD(3) [OF u]
    by (simp add: dlink_move_def heap_ops)
  moreover have "same_but (nodes (s @ (m, d) # t) \<union> nodes u) h h'"
    using same link(3) by (auto simp: same_but_def)
  ultimately show ?thesis using link(2) by blast
qed

end
