(* ===== verification/DlinkOps.thy ===== *)
theory DlinkOps
  imports DlinkSeq
begin

text \<open>
  The interface of the linked lists to the code that keeps its objects on them (a locale,
  interpreted on the operations of Dlink), and the two properties of the module: any script of
  operations runs as it does on sequences, and moving a node between lists.
\<close>

section \<open>The interface\<close>

text \<open>
  \<open>rep h l s\<close>: in the store \<open>h\<close> the list \<open>l\<close> stands for \<open>s\<close>. Nodes are the caller's: an operation
  links a node that exists and is on no list.
\<close>
locale node_list =
  fixes rep :: "nheap \<Rightarrow> 'l \<Rightarrow> (nat \<times> ptr) list \<Rightarrow> bool"
    and push append_tail :: "ptr \<Rightarrow> nat \<Rightarrow> nheap \<Rightarrow> 'l \<Rightarrow> (nheap \<times> 'l) option"
    and remove :: "nat \<Rightarrow> nheap \<Rightarrow> 'l \<Rightarrow> (nheap \<times> 'l) option"
  assumes rep_dom: "rep h l s \<Longrightarrow> nodes s \<subseteq> dom h"
    and rep_distinct: "rep h l s \<Longrightarrow> distinct (map fst s)"
    and push_law: "rep h l s \<Longrightarrow> m \<in> dom h \<Longrightarrow> m \<notin> nodes s \<Longrightarrow>
      \<exists>h' l'. push d m h l = Some (h', l') \<and> rep h' l' ((m, d) # s) \<and> same_but (insert m (nodes s)) h h'"
    and append_law: "rep h l s \<Longrightarrow> m \<in> dom h \<Longrightarrow> m \<notin> nodes s \<Longrightarrow>
      \<exists>h' l'. append_tail d m h l = Some (h', l') \<and> rep h' l' (s @ [(m, d)]) \<and>
        same_but (insert m (nodes s)) h h'"
    and remove_law: "rep h l (s @ (m, d) # t) \<Longrightarrow>
      \<exists>h' l'. remove m h l = Some (h', l') \<and> rep h' l' (s @ t) \<and> same_but (nodes (s @ t)) h h'"
begin

lemma push_removed:
  assumes "rep h l s" "m \<in> dom h" "m \<notin> nodes s"
  shows "\<exists>h1 l1 h2 l2. push d m h l = Some (h1, l1) \<and> remove m h1 l1 = Some (h2, l2) \<and> rep h2 l2 s"
  using push_law [OF assms, of d] remove_law [of _ _ "[]" m d s] by (metis append_Nil)

lemma append_all:
  "rep h l s \<Longrightarrow> distinct (map fst xs) \<Longrightarrow> nodes xs \<subseteq> dom h \<Longrightarrow> nodes xs \<inter> nodes s = {} \<Longrightarrow>
     \<exists>h' l'. fold_opt (\<lambda>(m, d) (h, l). append_tail d m h l) xs (h, l) = Some (h', l') \<and> rep h' l' (s @ xs)"
proof (induction xs arbitrary: h l s)
  case Nil
  then show ?case by auto
next
  case (Cons x xs)
  obtain m d where x: "x = (m, d)" by (cases x)
  obtain h1 l1 where 1: "append_tail d m h l = Some (h1, l1)" "rep h1 l1 (s @ [(m, d)])"
    "same_but (insert m (nodes s)) h h1"
    using append_law [OF Cons.prems(1), of m d] Cons.prems x by auto
  have "nodes xs \<subseteq> dom h1"
    using Cons.prems(2-4) 1(3) x by (auto simp: same_but_def) (metis (no_types, lifting) disjoint_iff domD
        fst_conv image_eqI insertE subset_iff)
  then have "\<exists>h' l'. fold_opt (\<lambda>(m, d) (h, l). append_tail d m h l) xs (h1, l1) = Some (h', l') \<and>
      rep h' l' ((s @ [(m, d)]) @ xs)"
    by (intro Cons.IH [OF 1(2)]) (use Cons.prems x in \<open>auto simp: image_Un\<close>)
  then show ?case using 1(1) x by simp
qed

end

lemma dl_rep_dom: "dl_rep h l s \<Longrightarrow> nodes s \<subseteq> dom h"
  using dchain_dom [of h None s None] by (auto simp: dl_rep_def)

interpretation dll: node_list dl_rep dlink_add dlink_add_tail dlink_delete
proof unfold_locales
  fix h l s m d t
  assume "dl_rep h l (s @ (m, d) # t)"
  from dlink_delete_rep [OF this] relink_same [of s t h]
  show "\<exists>h' l'. dlink_delete m h l = Some (h', l') \<and> dl_rep h' l' (s @ t) \<and> same_but (nodes (s @ t)) h h'"
    by (auto simp: image_Un)
qed (use dl_rep_dom dl_repD(1) dlink_add_rep dlink_add_tail_rep in auto)

section \<open>Scripts of operations\<close>

text \<open>The operations on one list, with nodes given by their addresses.\<close>
datatype dl_op = Add ptr nat | AddTail ptr nat | AddBefore nat ptr nat | Delete nat | FindDelete ptr

definition run_op :: "dl_op \<Rightarrow> nheap \<times> dlink_list \<Rightarrow> (nheap \<times> dlink_list) option" where
  "run_op x st = (case st of (h, l) \<Rightarrow>
     (case x of
        Add d m \<Rightarrow> dlink_add d m h l
      | AddTail d m \<Rightarrow> dlink_add_tail d m h l
      | AddBefore b d m \<Rightarrow> dlink_add_before b d m h l
      | Delete m \<Rightarrow> dlink_delete m h l
      | FindDelete d \<Rightarrow> map_option snd (dlink_find_delete d h l)))"

text \<open>The same operations on a sequence; \<open>None\<close> where the caller breaks the contract.\<close>
definition seq_op :: "dl_op \<Rightarrow> (nat \<times> ptr) list \<Rightarrow> (nat \<times> ptr) list option" where
  "seq_op x s = (case x of
     Add d m \<Rightarrow> (if m \<in> nodes s then None else Some ((m, d) # s))
   | AddTail d m \<Rightarrow> (if m \<in> nodes s then None else Some (s @ [(m, d)]))
   | AddBefore b d m \<Rightarrow>
       (if m \<in> nodes s \<or> b \<notin> nodes s then None
        else Some (takeWhile (\<lambda>y. fst y \<noteq> b) s @ (m, d) # dropWhile (\<lambda>y. fst y \<noteq> b) s))
   | Delete m \<Rightarrow> (if m \<in> nodes s then Some (filter (\<lambda>y. fst y \<noteq> m) s) else None)
   | FindDelete d \<Rightarrow> Some (case find_node d s of None \<Rightarrow> s | Some m \<Rightarrow> filter (\<lambda>y. fst y \<noteq> m) s))"

definition op_node :: "dl_op \<Rightarrow> nat set" where
  "op_node x = (case x of Add d m \<Rightarrow> {m} | AddTail d m \<Rightarrow> {m} | AddBefore b d m \<Rightarrow> {m} | _ \<Rightarrow> {})"

lemma nodes_split:
  assumes "m \<in> nodes s"
  obtains u d t where "s = u @ (m, d) # t"
  using assms by (force simp: in_set_conv_decomp)

lemma distinct_around:
  assumes "distinct (map fst (u @ (m, d) # t))"
  shows "filter (\<lambda>y. fst y \<noteq> m) (u @ (m, d) # t) = u @ t"
    "takeWhile (\<lambda>y. fst y \<noteq> m) (u @ (m, d) # t) = u"
    "dropWhile (\<lambda>y. fst y \<noteq> m) (u @ (m, d) # t) = (m, d) # t"
proof -
  have n: "\<forall>y \<in> set u. fst y \<noteq> m" "\<forall>y \<in> set t. fst y \<noteq> m" using assms by force+
  then have "filter (\<lambda>y. fst y \<noteq> m) u = u" "filter (\<lambda>y. fst y \<noteq> m) t = t" by (simp_all add: filter_id_conv)
  then show "filter (\<lambda>y. fst y \<noteq> m) (u @ (m, d) # t) = u @ t" by simp
  show "takeWhile (\<lambda>y. fst y \<noteq> m) (u @ (m, d) # t) = u"
    "dropWhile (\<lambda>y. fst y \<noteq> m) (u @ (m, d) # t) = (m, d) # t"
    using n(1) by (simp_all add: takeWhile_append2 dropWhile_append2)
qed

lemma dom_grows:
  assumes "dl_rep h' l' s'" "same_but A h h'" "A \<subseteq> nodes s' \<union> dom h'"
  shows "dom h \<subseteq> dom h'"
proof
  fix a assume a: "a \<in> dom h"
  show "a \<in> dom h'"
  proof (cases "a \<in> A")
    case True
    then show ?thesis using assms(3) dl_rep_dom [OF assms(1)] by blast
  next
    case False
    then show ?thesis using a assms(2) by (auto simp: same_but_def)
  qed
qed

lemma run_insert:
  assumes r: "\<exists>h' l'. f h l = Some (h', l') \<and> dl_rep h' l' s' \<and> same_but A h h'" and A: "A \<subseteq> nodes s'"
  shows "\<exists>h' l'. f h l = Some (h', l') \<and> dl_rep h' l' s' \<and> dom h \<subseteq> dom h'"
  using r dom_grows [of _ _ s' A h] A by blast

lemma run_op_step:
  assumes rep: "dl_rep h l s" and op: "seq_op x s = Some s'" and dom: "op_node x \<subseteq> dom h"
  shows "\<exists>h' l'. run_op x (h, l) = Some (h', l') \<and> dl_rep h' l' s' \<and> dom h \<subseteq> dom h'"
proof -
  note dist = dl_repD(1) [OF rep]
  show ?thesis
  proof (cases x)
    case (Add d m)
    then have m: "m \<notin> nodes s" "m \<in> dom h" "s' = (m, d) # s"
      using op dom by (auto simp: seq_op_def op_node_def split: if_splits)
    show ?thesis
      using run_insert [where f = "dlink_add d m", OF dll.push_law [OF rep m(2,1), of d]] m(3) Add
      by (simp add: run_op_def subset_insertI)
  next
    case (AddTail d m)
    then have m: "m \<notin> nodes s" "m \<in> dom h" "s' = s @ [(m, d)]"
      using op dom by (auto simp: seq_op_def op_node_def split: if_splits)
    show ?thesis
      using run_insert [where f = "dlink_add_tail d m", OF dll.append_law [OF rep m(2,1), of d]] m(3) AddTail
      by (simp add: run_op_def image_Un)
  next
    case (AddBefore b d m)
    then have m: "m \<notin> nodes s" "m \<in> dom h" "b \<in> nodes s"
      "s' = takeWhile (\<lambda>y. fst y \<noteq> b) s @ (m, d) # dropWhile (\<lambda>y. fst y \<noteq> b) s"
      using op dom by (auto simp: seq_op_def op_node_def split: if_splits)
    obtain u e t where s: "s = u @ (b, e) # t" using m(3) by (rule nodes_split)
    have s': "s' = u @ (m, d) # (b, e) # t" using m(4) distinct_around [of u b e t] dist s by simp
    obtain nd where "h m = Some nd" using m(2) by blast
    from run_insert [where f = "dlink_add_before b d m", OF dlink_add_before_rep [OF rep [unfolded s] this m(1) [unfolded s], of d]]
    show ?thesis using AddBefore s' by (auto simp: run_op_def image_Un)
  next
    case (Delete m)
    then have m: "m \<in> nodes s" "s' = filter (\<lambda>y. fst y \<noteq> m) s"
      using op by (auto simp: seq_op_def split: if_splits)
    obtain u e t where s: "s = u @ (m, e) # t" using m(1) by (rule nodes_split)
    have s': "s' = u @ t" using m(2) distinct_around(1) [of u m e t] dist s by simp
    show ?thesis using run_insert [where f = "dlink_delete m", OF dll.remove_law [OF rep [unfolded s]]] s' Delete
      by (simp add: run_op_def)
  next
    case (FindDelete d)
    show ?thesis
    proof (cases "find_node d s")
      case None
      then show ?thesis using FindDelete op rep dlink_find_delete_absent [OF rep None]
        by (auto simp: seq_op_def run_op_def)
    next
      case (Some m)
      then obtain u t where s: "s = u @ (m, d) # t" by (rule find_node_split)
      have s': "s' = u @ t" using FindDelete op Some distinct_around(1) [of u m d t] dist s
        by (simp add: seq_op_def)
      obtain h' l' where r: "dlink_find_delete d h l = Some (Some m, h', l')" "dl_rep h' l' (u @ t)"
        "same_but (nodes (u @ (m, d) # t)) h h'" "h' m = Some \<lparr>n_data = d, n_next = None, n_prev = None\<rparr>"
        using dlink_find_delete_rep [of h l u m d t] rep Some s by auto
      have "dom h \<subseteq> dom h'" by (rule dom_grows [OF r(2,3)]) (use r(4) in auto)
      then show ?thesis using r(1,2) FindDelete s' by (simp add: run_op_def)
    qed
  qed
qed

text \<open>
  C13. Every script of list operations that keeps to the contract (a node added exists and is not on
  the list, the node inserted before or deleted is on it) runs without touching an invalid pointer
  and has the effect it has on the sequence of nodes; afterwards \<open>dlink_find\<close> returns the first node
  with the data, and \<open>dlink_length\<close> the number of nodes.
\<close>
theorem dlink_refines_sequence:
  assumes "dl_rep h l s" "fold_opt seq_op ops s = Some s'" "(\<Union>x \<in> set ops. op_node x) \<subseteq> dom h"
    "length s' < 2 ^ 31"
  shows "\<exists>h' l'. fold_opt run_op ops (h, l) = Some (h', l') \<and> dl_rep h' l' s' \<and>
    (\<forall>d. dlink_find d h' l' = Some (find_node d s')) \<and> dlink_length l' = int (length s')"
proof -
  have "\<exists>h' l'. fold_opt run_op ops (h, l) = Some (h', l') \<and> dl_rep h' l' s'"
    using assms(1-3)
  proof (induction ops arbitrary: h l s)
    case (Cons x ops)
    then obtain s1 where s1: "seq_op x s = Some s1" "fold_opt seq_op ops s1 = Some s'"
      by (auto split: option.splits)
    have "op_node x \<subseteq> dom h" using Cons.prems(3) by simp
    from run_op_step [OF Cons.prems(1) s1(1) this] obtain h1 l1 where
      1: "run_op x (h, l) = Some (h1, l1)" "dl_rep h1 l1 s1" "dom h \<subseteq> dom h1" by blast
    have "(\<Union>y \<in> set ops. op_node y) \<subseteq> dom h1"
      by (rule subset_trans [OF _ 1(3)]) (use Cons.prems(3) in simp)
    from Cons.IH [OF 1(2) s1(2) this] show ?case using 1(1) by simp
  qed auto
  then obtain h' l' where r: "fold_opt run_op ops (h, l) = Some (h', l')" "dl_rep h' l' s'" by blast
  have "uint (l_length l') = int (length s')"
    using dl_repD(5) [OF r(2)] assms(4) by (simp add: unsigned_of_nat take_bit_nat_eq_self)
  then have "dlink_length l' = int (length s')"
    using assms(4) by (simp add: dlink_length_def int_of_long_id)
  then show ?thesis using r dlink_find_rep [OF r(2)] by blast
qed

theorem dlink_refines_sequence_witness:
  "\<exists>h' l'. fold_opt run_op [Add (Some 7) 100, AddTail (Some 8) 200, AddBefore 200 (Some 9) 300, Delete 100, FindDelete (Some 8)]
       ([100 \<mapsto> free_node, 200 \<mapsto> free_node, 300 \<mapsto> free_node], empty_list) = Some (h', l') \<and>
     dl_rep h' l' [(300, Some 9)] \<and> dlink_length l' = 1"
  using dlink_refines_sequence [OF dl_rep_empty, of
      "[Add (Some 7) 100, AddTail (Some 8) 200, AddBefore 200 (Some 9) 300, Delete 100, FindDelete (Some 8)]"
      "[(300, Some 9)]" "[100 \<mapsto> free_node, 200 \<mapsto> free_node, 300 \<mapsto> free_node]"]
  by (simp add: seq_op_def op_node_def) blast

text \<open>
  \<open>dlink_move\<close> takes a node out of one list, wherever it stands there, and puts it at the head of
  the other with its data; both lists stay well linked, their lengths are right, and every other node
  of the store is left alone.
\<close>
theorem dlink_move_refines:
  assumes "dl_rep h l (s @ (m, d) # t)" "dl_rep h n u" "nodes (s @ (m, d) # t) \<inter> nodes u = {}"
  shows "\<exists>h' l' n'. dlink_move (Some m) h (Some l) (Some n) = Some (h', Some l', Some n') \<and>
    dl_rep h' l' (s @ t) \<and> dl_rep h' n' ((m, d) # u) \<and>
    (\<forall>a. a \<notin> nodes (s @ (m, d) # t) \<union> nodes u \<longrightarrow> h' a = h a)"
  using dlink_move_rep [OF assms] unfolding same_but_def by blast

lemma two_lists:
  "\<exists>h l n. dl_rep h l [(100, Some 1), (200, Some 2)] \<and> dl_rep h n [(300, Some 3)]"
  by (rule exI [of _ "[100 \<mapsto> \<lparr>n_data = Some 1, n_next = Some 200, n_prev = None\<rparr>,
      200 \<mapsto> \<lparr>n_data = Some 2, n_next = None, n_prev = Some 100\<rparr>,
      300 \<mapsto> \<lparr>n_data = Some 3, n_next = None, n_prev = None\<rparr>]"]) (simp add: dl_rep_def)

theorem dlink_move_refines_witness:
  "\<exists>h l n h' l' n'. dl_rep h l [(100, Some 1), (200, Some 2)] \<and>
     dlink_move (Some 200) h (Some l) (Some n) = Some (h', Some l', Some n') \<and>
     dl_rep h' l' [(100, Some 1)] \<and> dl_rep h' n' [(200, Some 2), (300, Some 3)]"
proof -
  obtain h l n where hl: "dl_rep h l ([(100, Some 1)] @ (200, Some 2) # [])" and n: "dl_rep h n [(300, Some 3)]"
    using two_lists by auto
  from dlink_move_refines [OF hl n] hl show ?thesis by simp blast
qed

end
