(* ===== verification/Balloc.thy ===== *)
theory Balloc
  imports Dlink
begin

text \<open>
  The block allocator of lsd/balloc.c and lsd/balloc.h. A heap hands out elements of one size, cut
  out of blocks obtained with \<open>mmap\<close>; in front of every element lies its \<open>MemBlock\<close>, whose list node is
  on the free or the used list of the block. The store is a \<open>bworld\<close>: the list nodes and the block
  pointers of the \<open>MemBlock\<close>s by address, the \<open>Block\<close> and \<open>BlockHeap\<close> structs by address, and the list of
  all heaps. Addresses are unbounded (an mmapped range does not wrap round the address space); the
  bytes of the elements (which \<open>memset\<close> clears) are not part of the model.

  The environment \<open>benv\<close> answers \<open>calloc\<close> and \<open>mmap\<close>. \<open>None\<close> as a result: an access to memory that is not
  there, or a failed \<open>assert\<close>; \<open>Exits\<close>: the process ends with \<open>exit(1)\<close>.
\<close>

record block =
  b_alloc_size :: u64
  b_next :: ptr
  b_elems :: ptr
  b_free :: dlink_list
  b_used :: dlink_list

record bheap =
  bh_name :: string
  bh_elemSize :: u64
  bh_elemsPerBlock :: u64
  bh_blocksAllocated :: u64
  bh_freeElems :: u64
  bh_base :: ptr

record bworld =
  w_nodes :: nheap
  w_owner :: "nat \<rightharpoonup> ptr"
  w_blocks :: "nat \<rightharpoonup> block"
  w_bh :: "nat \<rightharpoonup> bheap"
  w_hnodes :: nheap
  w_heaps :: dlink_list

record benv =
  be_mmap :: "bworld \<Rightarrow> u64 \<Rightarrow> ptr"
  be_block :: "bworld \<Rightarrow> ptr"
  be_heap :: "bworld \<Rightarrow> ptr"

text \<open>\<open>sizeof(MemBlock)\<close>: three node pointers and the block pointer.\<close>
definition MEMBLOCK_SIZE :: nat where "MEMBLOCK_SIZE = 32"

section \<open>Blocks\<close>

definition set_bh :: "nat \<Rightarrow> (bheap \<Rightarrow> bheap) \<Rightarrow> bworld \<Rightarrow> bworld option" where
  "set_bh a f w = (case w_bh w a of None \<Rightarrow> None | Some H \<Rightarrow> Some (w\<lparr>w_bh := (w_bh w)(a \<mapsto> f H)\<rparr>))"

text \<open>The loop that cuts a new mapping into elements; the mapping is zeroed memory.\<close>
fun carve ::
  "nat \<Rightarrow> nat \<Rightarrow> nat \<Rightarrow> nat \<Rightarrow> nheap \<Rightarrow> (nat \<rightharpoonup> ptr) \<Rightarrow> dlink_list \<Rightarrow>
     (nheap \<times> (nat \<rightharpoonup> ptr) \<times> dlink_list) option" where
  "carve 0 offset stride b h own l = Some (h, own, l)"
| "carve (Suc n) offset stride b h own l =
     do { (h1, l1) \<leftarrow> dlink_add (Some (offset + MEMBLOCK_SIZE)) offset (h(offset \<mapsto> free_node)) l;
          carve n (offset + stride) stride b h1 (own(offset \<mapsto> Some b)) l1 }"

definition blockheap_block_new :: "benv \<Rightarrow> nat \<Rightarrow> bworld \<Rightarrow> (int \<times> bworld) option" where
  "blockheap_block_new e bh w =
     do { H \<leftarrow> w_bh w bh;
          (case be_block e w of
             None \<Rightarrow> Some (1, w)
           | Some b \<Rightarrow>
               let sz = (bh_elemsPerBlock H + 1) * (bh_elemSize H + of_nat MEMBLOCK_SIZE);
                   B = \<lparr>b_alloc_size = sz, b_next = bh_base H, b_elems = be_mmap e w sz,
                        b_free = empty_list, b_used = empty_list\<rparr>
               in (case b_elems B of
                     None \<Rightarrow> Some (1, w\<lparr>w_blocks := (w_blocks w)(b \<mapsto> B)\<rparr>)
                   | Some m \<Rightarrow>
                       do { (h, own, l) \<leftarrow> carve (unat (bh_elemsPerBlock H)) m
                              (unat (bh_elemSize H + of_nat MEMBLOCK_SIZE)) b (w_nodes w) (w_owner w) empty_list;
                            w' \<leftarrow> set_bh bh (\<lambda>H. H\<lparr>bh_blocksAllocated := bh_blocksAllocated H + 1,
                                     bh_freeElems := bh_freeElems H + bh_elemsPerBlock H, bh_base := Some b\<rparr>) w;
                            Some (0, w'\<lparr>w_nodes := h, w_owner := own,
                                        w_blocks := (w_blocks w)(b \<mapsto> B\<lparr>b_free := l\<rparr>)\<rparr>) })) }"

text \<open>\<open>munmap\<close> of the elements of a block.\<close>
definition unmap :: "block \<Rightarrow> bworld \<Rightarrow> bworld" where
  "unmap B w =
     (case b_elems B of None \<Rightarrow> w
      | Some m \<Rightarrow>
          let gone = {m..<m + unat (b_alloc_size B)} in
          w\<lparr>w_nodes := (\<lambda>x. if x \<in> gone then None else w_nodes w x),
            w_owner := (\<lambda>x. if x \<in> gone then None else w_owner w x)\<rparr>)"

section \<open>Garbage collection\<close>

text \<open>One block is taken out of the chain: the body of the loop for a block that is all free.\<close>
definition gc_drop :: "nat \<Rightarrow> ptr \<Rightarrow> nat \<Rightarrow> bworld \<Rightarrow> bworld option" where
  "gc_drop bh lst walker w =
     do { B \<leftarrow> w_blocks w walker;
          w2 \<leftarrow> (case lst of
                   Some l \<Rightarrow>
                     do { L \<leftarrow> w_blocks w l;
                          Some ((unmap B w)\<lparr>w_blocks :=
                            (w_blocks w)(l \<mapsto> L\<lparr>b_next := b_next B\<rparr>, walker := None)\<rparr>) }
                 | None \<Rightarrow>
                     map_option (\<lambda>w1. w1\<lparr>w_blocks := (w_blocks w)(walker := None)\<rparr>)
                       (set_bh bh (\<lambda>H. H\<lparr>bh_base := b_next B\<rparr>) (unmap B w)));
          set_bh bh (\<lambda>H. H\<lparr>bh_blocksAllocated := bh_blocksAllocated H - 1,
                           bh_freeElems := bh_freeElems H - bh_elemsPerBlock H\<rparr>) w2 }"

partial_function (option) gc_loop :: "nat \<Rightarrow> ptr \<Rightarrow> ptr \<Rightarrow> bworld \<Rightarrow> bworld option" where
  "gc_loop bh lst walker w =
     (case walker of
        None \<Rightarrow> Some w
      | Some b \<Rightarrow>
          (case (w_blocks w b, w_bh w bh) of
             (Some B, Some H) \<Rightarrow>
               if l_length (b_free B) = bh_elemsPerBlock H
               then (case gc_drop bh lst b w of None \<Rightarrow> None
                     | Some w' \<Rightarrow> gc_loop bh lst (b_next B) w')
               else gc_loop bh (Some b) (b_next B) w
           | _ \<Rightarrow> None))"

definition blockheap_garbagecollect :: "ptr \<Rightarrow> bworld \<Rightarrow> (int \<times> bworld) option" where
  "blockheap_garbagecollect bh w =
     (case bh of
        None \<Rightarrow> Some (1, w)
      | Some a \<Rightarrow>
          do { H \<leftarrow> w_bh w a;
               if bh_freeElems H < bh_elemsPerBlock H \<or> bh_blocksAllocated H = 1 then Some (0, w)
               else map_option (Pair 0) (gc_loop a None (bh_base H) w) })"

text \<open>The collection of all heaps, by \<open>DLINK_FOREACH_SAFE\<close> over the list of heaps.\<close>
partial_function (option) gc_heaps :: "ptr \<Rightarrow> bworld \<Rightarrow> bworld option" where
  "gc_heaps p w =
     (case p of
        None \<Rightarrow> Some w
      | Some a \<Rightarrow>
          (case w_hnodes w a of
             None \<Rightarrow> None
           | Some nd \<Rightarrow>
               (case blockheap_garbagecollect (n_data nd) w of
                  None \<Rightarrow> None | Some (rv, w') \<Rightarrow> gc_heaps (n_next nd) w')))"

definition blockheap_gc :: "bworld \<Rightarrow> bworld option" where
  "blockheap_gc w = gc_heaps (l_head (w_heaps w)) w"

section \<open>Heaps\<close>

text \<open>
  \<open>blockheap_create\<close>; \<open>memcpy\<close> of 63 bytes leaves the first 63 characters of the name as the string
  in \<open>bh->name\<close> (for a shorter name it also reads what follows the name in memory).
\<close>
definition blockheap_create ::
  "benv \<Rightarrow> u64 \<Rightarrow> int \<Rightarrow> string option \<Rightarrow> bworld \<Rightarrow> (nat \<times> bworld) proc option" where
  "blockheap_create e elemsize elemsperblock name w =
     (if elemsize = 0 \<or> elemsperblock \<le> 0 then Some Exits
      else (case be_heap e w of
        None \<Rightarrow> Some Exits
      | Some a \<Rightarrow>
          let sz = (if elemsize mod 8 \<noteq> 0 then (elemsize + 8) AND NOT 7 else elemsize);
              H = \<lparr>bh_name = [], bh_elemSize = sz, bh_elemsPerBlock = word_of_int elemsperblock,
                   bh_blocksAllocated = 0, bh_freeElems = 0, bh_base = None\<rparr>
          in do { (rv, w1) \<leftarrow> blockheap_block_new e a (w\<lparr>w_bh := (w_bh w)(a \<mapsto> H)\<rparr>);
                  if rv \<noteq> 0 then Some Exits
                  else do { w2 \<leftarrow> set_bh a (\<lambda>H. H\<lparr>bh_name := (case name of None \<Rightarrow> [] | Some s \<Rightarrow> take 63 s)\<rparr>) w1;
                            (hn, hl) \<leftarrow> dlink_add (Some a) a ((w_hnodes w2)(a \<mapsto> free_node)) (w_heaps w2);
                            Some (Return (a, w2\<lparr>w_hnodes := hn, w_heaps := hl\<rparr>)) } }))"

partial_function (option) find_free :: "bworld \<Rightarrow> ptr \<Rightarrow> ptr option" where
  "find_free w walker =
     (case walker of
        None \<Rightarrow> Some None
      | Some b \<Rightarrow>
          (case w_blocks w b of
             None \<Rightarrow> None
           | Some B \<Rightarrow> if 0 < l_length (b_free B) then Some walker else find_free w (b_next B)))"

text \<open>The search of \<open>blockheap_alloc\<close> once there is a free element, and the move of its node.\<close>
definition take_elem :: "nat \<Rightarrow> bworld \<Rightarrow> (ptr \<times> bworld) proc option" where
  "take_elem bh w =
     do { H \<leftarrow> w_bh w bh;
          p \<leftarrow> find_free w (bh_base H);
          (case p of
             None \<Rightarrow> Some Exits
           | Some b \<Rightarrow>
               do { B \<leftarrow> w_blocks w b;
                    w1 \<leftarrow> set_bh bh (\<lambda>H. H\<lparr>bh_freeElems := bh_freeElems H - 1\<rparr>) w;
                    (case dlink_move (l_head (b_free B)) (w_nodes w) (Some (b_free B)) (Some (b_used B)) of
                       Some (h, Some fl, Some ul) \<Rightarrow>
                         do { nd \<leftarrow> load h (l_head (b_free B));
                              if n_data nd = None then Some Exits
                              else Some (Return (n_data nd,
                                w1\<lparr>w_nodes := h, w_blocks := (w_blocks w)(b \<mapsto> B\<lparr>b_free := fl, b_used := ul\<rparr>)\<rparr>)) }
                     | _ \<Rightarrow> None) }) }"

definition blockheap_alloc :: "benv \<Rightarrow> ptr \<Rightarrow> bworld \<Rightarrow> (ptr \<times> bworld) proc option" where
  "blockheap_alloc e bh w =
     (case bh of
        None \<Rightarrow> Some Exits
      | Some a \<Rightarrow>
          do { H \<leftarrow> w_bh w a;
               if bh_freeElems H \<noteq> 0 then take_elem a w
               else do { (rv, w1) \<leftarrow> blockheap_block_new e a w;
                         if rv = 0 then take_elem a w1
                         else do { (rv2, w2) \<leftarrow> blockheap_garbagecollect bh w1;
                                   H2 \<leftarrow> w_bh w2 a;
                                   if bh_freeElems H2 = 0 then Some Exits else take_elem a w2 } } })"

definition blockheap_free :: "ptr \<Rightarrow> ptr \<Rightarrow> bworld \<Rightarrow> (int \<times> bworld) proc option" where
  "blockheap_free bh p w =
     (case (bh, p) of
        (Some a, Some q) \<Rightarrow>
          if q < MEMBLOCK_SIZE then None
          else let memblock = q - MEMBLOCK_SIZE in
            (case w_owner w memblock of
               None \<Rightarrow> None
             | Some None \<Rightarrow> Some Exits
             | Some (Some b) \<Rightarrow>
                 do { B \<leftarrow> w_blocks w b;
                      w1 \<leftarrow> set_bh a (\<lambda>H. H\<lparr>bh_freeElems := bh_freeElems H + 1\<rparr>) w;
                      (case dlink_move (Some memblock) (w_nodes w) (Some (b_used B)) (Some (b_free B)) of
                         Some (h, Some ul, Some fl) \<Rightarrow>
                           Some (Return (0, w1\<lparr>w_nodes := h,
                             w_blocks := (w_blocks w)(b \<mapsto> B\<lparr>b_free := fl, b_used := ul\<rparr>)\<rparr>))
                       | _ \<Rightarrow> None) })
      | _ \<Rightarrow> Some (Return (1, w)))"

partial_function (option) destroy_blocks :: "ptr \<Rightarrow> bworld \<Rightarrow> bworld option" where
  "destroy_blocks walker w =
     (case walker of
        None \<Rightarrow> Some w
      | Some b \<Rightarrow>
          (case w_blocks w b of
             None \<Rightarrow> None
           | Some B \<Rightarrow> destroy_blocks (b_next B) ((unmap B w)\<lparr>w_blocks := (w_blocks w)(b := None)\<rparr>)))"

definition blockheap_destroy :: "ptr \<Rightarrow> bworld \<Rightarrow> (int \<times> bworld) option" where
  "blockheap_destroy bh w =
     (case bh of
        None \<Rightarrow> Some (1, w)
      | Some a \<Rightarrow>
          do { H \<leftarrow> w_bh w a;
               w1 \<leftarrow> destroy_blocks (bh_base H) w;
               (hn, hl) \<leftarrow> dlink_delete a (w_hnodes w1) (w_heaps w1);
               Some (0, w1\<lparr>w_hnodes := hn(a := None), w_heaps := hl, w_bh := (w_bh w1)(a := None)\<rparr>) })"

text \<open>Used and free elements and the bytes in use.\<close>
definition blockheap_usage :: "ptr \<Rightarrow> bworld \<Rightarrow> (u64 \<times> u64 \<times> u64) option" where
  "blockheap_usage bh w =
     (case bh of
        None \<Rightarrow> None
      | Some a \<Rightarrow>
          map_option (\<lambda>H. let used = bh_blocksAllocated H * bh_elemsPerBlock H - bh_freeElems H in
              (used, bh_freeElems H, used * (bh_elemSize H + of_nat MEMBLOCK_SIZE))) (w_bh w a))"

declare gc_loop.simps [code] gc_heaps.simps [code] find_free.simps [code] destroy_blocks.simps [code]

end
