(* ===== verification/BallocInv.thy ===== *)
theory BallocInv
  imports Balloc DlinkSeq
begin

text \<open>
  The invariant of a block heap and its preservation. \<open>heap_rep w a bs\<close>: in the store \<open>w\<close> the heap at
  address \<open>a\<close> consists of the chain of blocks \<open>bs\<close>, each given with the sequences of its free and its
  used elements.
\<close>

type_synonym cblock = "nat \<times> (nat \<times> ptr) list \<times> (nat \<times> ptr) list"

section \<open>The chain of blocks\<close>

definition first_id :: "nat list \<Rightarrow> ptr \<Rightarrow> ptr" where
  "first_id bs q = (case bs of [] \<Rightarrow> q | b # _ \<Rightarrow> Some b)"

lemma first_id_simps [simp]:
  "first_id [] q = q" "first_id (b # bs) q = Some b" "first_id (xs @ ys) q = first_id xs (first_id ys q)"
  by (auto simp: first_id_def split: list.split)

fun lseg :: "(nat \<rightharpoonup> block) \<Rightarrow> nat list \<Rightarrow> ptr \<Rightarrow> bool" where
  "lseg f [] q \<longleftrightarrow> True"
| "lseg f (b # bs) q \<longleftrightarrow> (\<exists>B. f b = Some B \<and> b_next B = first_id bs q) \<and> lseg f bs q"

lemma lseg_append [simp]: "lseg f (xs @ ys) q \<longleftrightarrow> lseg f xs (first_id ys q) \<and> lseg f ys q"
  by (induction xs) auto

lemma lseg_cong:
  "lseg f bs q \<Longrightarrow> (\<And>b. b \<in> set bs \<Longrightarrow> map_option b_next (g b) = map_option b_next (f b)) \<Longrightarrow> lseg g bs q"
proof (induction bs)
  case (Cons b bs)
  then obtain B where "f b = Some B" "b_next B = first_id bs q" by auto
  moreover have "map_option b_next (g b) = map_option b_next (f b)" using Cons.prems(2) by simp
  ultimately have "\<exists>B. g b = Some B \<and> b_next B = first_id bs q" by auto
  moreover have "lseg g bs q" by (rule Cons.IH) (use Cons.prems in auto)
  ultimately show ?case by simp
qed simp

section \<open>The invariant\<close>

definition region :: "(nat \<rightharpoonup> block) \<Rightarrow> nat \<Rightarrow> nat set" where
  "region f b = (case f b of None \<Rightarrow> {} | Some B \<Rightarrow>
     (case b_elems B of None \<Rightarrow> {} | Some m \<Rightarrow> {m..<m + unat (b_alloc_size B)}))"

definition elem_ok :: "bworld \<Rightarrow> nat \<Rightarrow> nat \<times> ptr \<Rightarrow> bool" where
  "elem_ok w b x \<longleftrightarrow> snd x = Some (fst x + MEMBLOCK_SIZE) \<and> w_owner w (fst x) = Some (Some b) \<and>
     fst x \<in> region (w_blocks w) b"

definition blk_ok :: "bworld \<Rightarrow> nat \<Rightarrow> cblock \<Rightarrow> bool" where
  "blk_ok w n x \<longleftrightarrow> (case x of (b, fr, us) \<Rightarrow>
     (\<exists>B. w_blocks w b = Some B \<and> dl_rep (w_nodes w) (b_free B) fr \<and> dl_rep (w_nodes w) (b_used B) us) \<and>
     nodes fr \<inter> nodes us = {} \<and> length fr + length us = n \<and> (\<forall>x \<in> set fr \<union> set us. elem_ok w b x))"

definition apart :: "(nat \<rightharpoonup> block) \<Rightarrow> nat list \<Rightarrow> bool" where
  "apart f ids \<longleftrightarrow> (\<forall>i \<in> set ids. \<forall>j \<in> set ids. i \<noteq> j \<longrightarrow> region f i \<inter> region f j = {})"

definition heap_fits :: "bheap \<Rightarrow> bool" where
  "heap_fits H \<longleftrightarrow> 0 < unat (bh_elemsPerBlock H) \<and>
     (unat (bh_elemsPerBlock H) + 1) * (unat (bh_elemSize H) + MEMBLOCK_SIZE) < 2 ^ 64"

definition free_count :: "cblock list \<Rightarrow> nat" where
  "free_count bs = (\<Sum>(b, fr, us) \<leftarrow> bs. length fr)"

lemma free_count_simps [simp]:
  "free_count [] = 0" "free_count ((b, fr, us) # bs) = length fr + free_count bs"
  "free_count (xs @ ys) = free_count xs + free_count ys"
  by (simp_all add: free_count_def)

definition counts_ok :: "bheap \<Rightarrow> cblock list \<Rightarrow> bool" where
  "counts_ok H bs \<longleftrightarrow> heap_fits H \<and> bh_base H = first_id (map fst bs) None \<and>
     bh_blocksAllocated H = of_nat (length bs) \<and> bh_freeElems H = of_nat (free_count bs)"

definition blocks_ok :: "bworld \<Rightarrow> nat \<Rightarrow> cblock list \<Rightarrow> bool" where
  "blocks_ok w n bs \<longleftrightarrow> lseg (w_blocks w) (map fst bs) None \<and> distinct (map fst bs) \<and>
     (\<forall>x \<in> set bs. blk_ok w n x) \<and> apart (w_blocks w) (map fst bs)"

definition heap_rep :: "bworld \<Rightarrow> nat \<Rightarrow> cblock list \<Rightarrow> bool" where
  "heap_rep w a bs \<longleftrightarrow>
     (\<exists>H. w_bh w a = Some H \<and> counts_ok H bs \<and> blocks_ok w (unat (bh_elemsPerBlock H)) bs)"

text \<open>The addresses handed out, and those that can be.\<close>

definition live :: "cblock list \<Rightarrow> nat set" where
  "live bs = (\<Union>(b, fr, us) \<in> set bs. (\<lambda>x. x + MEMBLOCK_SIZE) ` nodes us)"

lemma live_simps [simp]:
  "live [] = {}" "live ((b, fr, us) # bs) = (\<lambda>x. x + MEMBLOCK_SIZE) ` nodes us \<union> live bs"
  "live (xs @ ys) = live xs \<union> live ys"
  by (auto simp: live_def)

lemma live_iff: "m + MEMBLOCK_SIZE \<in> live bs \<longleftrightarrow> (\<exists>c f u. (c, f, u) \<in> set bs \<and> m \<in> nodes u)"
proof (induction bs)
  case (Cons x bs)
  obtain c f u where x: "x = (c, f, u)" by (cases x)
  have "m + MEMBLOCK_SIZE \<in> (\<lambda>x. x + MEMBLOCK_SIZE) ` nodes u \<longleftrightarrow> m \<in> nodes u" by auto
  then show ?case unfolding x live_simps using Cons.IH by (metis Un_iff list.set_intros(1,2) prod.inject set_ConsD)
qed simp

lemma set_bh_Some: "w_bh w a = Some H \<Longrightarrow> set_bh a f w = Some (w\<lparr>w_bh := (w_bh w)(a \<mapsto> f H)\<rparr>)"
  by (simp add: set_bh_def)

section \<open>Framing\<close>

lemma blk_ok_region:
  assumes "blk_ok w n (b, fr, us)"
  shows "nodes fr \<union> nodes us \<subseteq> region (w_blocks w) b"
  using assms by (auto simp: blk_ok_def elem_ok_def)

lemma blk_ok_frame_next:
  assumes ok: "blk_ok w n (b, fr, us)"
    and blk: "\<And>B. w_blocks w b = Some B \<Longrightarrow> \<exists>q. w_blocks w' b = Some (B\<lparr>b_next := q\<rparr>)"
    and same: "\<And>x. x \<in> nodes fr \<union> nodes us \<Longrightarrow> w_nodes w' x = w_nodes w x \<and> w_owner w' x = w_owner w x"
  shows "blk_ok w' n (b, fr, us)"
proof -
  let ?A = "- (nodes fr \<union> nodes us)"
  have sb: "same_but ?A (w_nodes w) (w_nodes w')" using same by (auto simp: same_but_def)
  have rep: "dl_rep (w_nodes w') l fr = dl_rep (w_nodes w) l fr" "dl_rep (w_nodes w') l us = dl_rep (w_nodes w) l us" for l
    by (rule same_but_rep [OF sb]; auto)+
  obtain B where B: "w_blocks w b = Some B" "dl_rep (w_nodes w) (b_free B) fr" "dl_rep (w_nodes w) (b_used B) us"
    using ok by (auto simp: blk_ok_def)
  obtain q where q: "w_blocks w' b = Some (B\<lparr>b_next := q\<rparr>)" using blk [OF B(1)] by blast
  then have "region (w_blocks w') b = region (w_blocks w) b" using B(1) by (auto simp: region_def split: option.split)
  then have "elem_ok w' b x = elem_ok w b x" if "x \<in> set fr \<union> set us" for x
    using that same [of "fst x"] by (auto simp: elem_ok_def)
  then show ?thesis using ok q B rep by (auto simp: blk_ok_def)
qed

lemma blk_ok_frame:
  assumes "blk_ok w n (b, fr, us)" and "w_blocks w' b = w_blocks w b"
    and "\<And>x. x \<in> nodes fr \<union> nodes us \<Longrightarrow> w_nodes w' x = w_nodes w x \<and> w_owner w' x = w_owner w x"
  shows "blk_ok w' n (b, fr, us)"
proof (rule blk_ok_frame_next [OF assms(1) _ assms(3)])
  fix B assume "w_blocks w b = Some B"
  then have "w_blocks w' b = Some (B\<lparr>b_next := b_next B\<rparr>)" using assms(2) by simp
  then show "\<exists>q. w_blocks w' b = Some (B\<lparr>b_next := q\<rparr>)" by blast
qed

lemma apart_cong:
  "apart f ids \<Longrightarrow> (\<And>i. i \<in> set ids \<Longrightarrow> region g i = region f i) \<Longrightarrow> apart g ids"
  by (simp add: apart_def)

lemma blocks_ok_block: "blocks_ok w n bs \<Longrightarrow> c \<in> fst ` set bs \<Longrightarrow> \<exists>C. w_blocks w c = Some C"
  by (auto simp: blocks_ok_def blk_ok_def)

text \<open>Rearranging the lists of one block, with the new count of free elements.\<close>

lemma update_block:
  assumes blks: "blocks_ok w n (xs @ (b, fr, us) # ys)" and B: "w_blocks w b = Some B"
    and rep: "dl_rep h fl fr'" "dl_rep h ul us'" and disj: "nodes fr' \<inter> nodes us' = {}"
    and set: "set fr' \<union> set us' = set fr \<union> set us" and len: "length fr' + length us' = length fr + length us"
    and same: "same_but (nodes fr \<union> nodes us) (w_nodes w) h"
    and w': "w_nodes w' = h" "w_owner w' = w_owner w"
      "w_blocks w' = (w_blocks w)(b \<mapsto> B\<lparr>b_free := fl, b_used := ul\<rparr>)"
  shows "blocks_ok w' n (xs @ (b, fr', us') # ys)"
proof -
  have reg: "region (w_blocks w') i = region (w_blocks w) i" for i
    using B w'(3) by (auto simp: region_def split: option.split)
  have ok: "blk_ok w n (b, fr, us)" and dist: "b \<notin> fst ` set xs" "b \<notin> fst ` set ys"
    and ap: "apart (w_blocks w) (map fst (xs @ (b, fr, us) # ys))"
    and seg: "lseg (w_blocks w) (map fst (xs @ (b, fr, us) # ys)) None"
    using blks by (auto simp: blocks_ok_def)
  have "blk_ok w' n x" if x: "x \<in> set xs \<union> set ys" for x
  proof -
    obtain c f u where c: "x = (c, f, u)" by (cases x)
    have "c \<noteq> b" using x dist c by force
    have okc: "blk_ok w n (c, f, u)" using blks x c by (auto simp: blocks_ok_def)
    have "c \<in> set (map fst (xs @ (b, fr, us) # ys))" using x c by force
    then have "region (w_blocks w) c \<inter> region (w_blocks w) b = {}"
      using ap \<open>c \<noteq> b\<close> by (simp add: apart_def)
    then have "x \<notin> nodes fr \<union> nodes us" if "x \<in> nodes f \<union> nodes u" for x
      using that blk_ok_region [OF okc] blk_ok_region [OF ok] by blast
    then show ?thesis unfolding c
      by (intro blk_ok_frame [OF okc]) (use same w' \<open>c \<noteq> b\<close> in \<open>auto simp: same_but_def\<close>)
  qed
  moreover have "blk_ok w' n (b, fr', us')"
  proof -
    have "elem_ok w' b x" if "x \<in> set fr' \<union> set us'" for x
    proof -
      have "elem_ok w b x" using ok that set by (auto simp: blk_ok_def)
      then show ?thesis using reg w'(2) by (simp add: elem_ok_def)
    qed
    moreover have "length fr' + length us' = n" using ok len by (simp add: blk_ok_def)
    ultimately show ?thesis using rep disj w' by (auto simp: blk_ok_def)
  qed
  moreover have "lseg (w_blocks w') (map fst (xs @ (b, fr', us') # ys)) None"
    by (rule lseg_cong [where f = "w_blocks w"]) (use seg w'(3) B in auto)
  moreover have "apart (w_blocks w') (map fst (xs @ (b, fr', us') # ys))"
    using apart_cong [OF ap, of "w_blocks w'"] reg by simp
  ultimately show ?thesis using blks by (auto simp: blocks_ok_def)
qed

section \<open>Taking and returning an element\<close>

lemma find_free_skip:
  "lseg f (map fst xs @ ids) None \<Longrightarrow> f = w_blocks w \<Longrightarrow>
     (\<And>x. x \<in> set xs \<Longrightarrow> fst (snd x) = [] \<and> blk_ok w n x) \<Longrightarrow>
     find_free w (first_id (map fst xs @ ids) None) = find_free w (first_id ids None)"
proof (induction xs)
  case (Cons x xs)
  obtain b fr us where x: "x = (b, fr, us)" by (cases x)
  have ok: "blk_ok w n x" "fst (snd x) = []" using Cons.prems(3) by auto
  then obtain B where B: "w_blocks w b = Some B" "dl_rep (w_nodes w) (b_free B) []"
    by (auto simp: blk_ok_def x)
  have "b_next B = first_id (map fst xs @ ids) None" using Cons.prems(1,2) B(1) x by auto
  moreover have "find_free w (first_id (map fst xs @ ids) None) = find_free w (first_id ids None)"
    by (rule Cons.IH) (use Cons.prems x in auto)
  ultimately show ?case using B x
    by (simp add: find_free.simps [of w "Some b"] dl_rep_def)
qed simp

lemma u64_pos: "k < 2 ^ 64 \<Longrightarrow> 0 < (of_nat k :: u64) \<longleftrightarrow> 0 < k"
  by (simp add: word_less_nat_alt unsigned_of_nat take_bit_nat_eq_self)

lemma fits_len: "heap_fits H \<Longrightarrow> k \<le> unat (bh_elemsPerBlock H) \<Longrightarrow> k < 2 ^ 64"
  using unsigned_less [of "bh_elemsPerBlock H", where ?'a = nat] by simp

lemma take_elem_ok:
  assumes rep: "heap_rep w a bs" and some: "0 < free_count bs"
  shows "\<exists>p w' bs'. take_elem a w = Some (Return (Some p, w')) \<and> heap_rep w' a bs' \<and>
    p \<notin> live bs \<and> live bs' = insert p (live bs) \<and> Suc (free_count bs') = free_count bs"
proof -
  obtain H where H: "w_bh w a = Some H" "counts_ok H bs" "blocks_ok w (unat (bh_elemsPerBlock H)) bs"
    using rep by (auto simp: heap_rep_def)
  let ?n = "unat (bh_elemsPerBlock H)"
  have "\<exists>x \<in> set bs. fst (snd x) \<noteq> []" using some
    by (rule contrapos_pp) (auto simp: free_count_def sum_list_eq_0_iff)
  then obtain xs z ys where s: "bs = xs @ z # ys" "fst (snd z) \<noteq> []" "\<forall>x \<in> set xs. fst (snd x) = []"
    using split_list_first_prop [of bs "\<lambda>x. fst (snd x) \<noteq> []"] by blast
  then obtain b m d fr us where z: "z = (b, (m, d) # fr, us)"
    by (cases z; cases "fst (snd z)") auto
  have ok: "blk_ok w ?n (b, (m, d) # fr, us)" using H(3) s z by (auto simp: blocks_ok_def)
  then obtain B where B: "w_blocks w b = Some B" "dl_rep (w_nodes w) (b_free B) ((m, d) # fr)"
    "dl_rep (w_nodes w) (b_used B) us" by (auto simp: blk_ok_def)
  have disj: "nodes ((m, d) # fr) \<inter> nodes us = {}" and d: "d = Some (m + MEMBLOCK_SIZE)"
    and len: "Suc (length fr) + length us = ?n"
    using ok by (auto simp: blk_ok_def elem_ok_def)
  have seg: "lseg (w_blocks w) (map fst xs @ b # map fst ys) None" using H(3) s z by (simp add: blocks_ok_def)
  have skip: "find_free w (bh_base H) = find_free w (Some b)"
  proof -
    have "bh_base H = first_id (map fst xs @ b # map fst ys) None"
      using H(2) s(1) z by (simp add: counts_ok_def)
    moreover have "find_free w (first_id (map fst xs @ b # map fst ys) None) = find_free w (first_id (b # map fst ys) None)"
      by (rule find_free_skip [OF seg refl, of ?n]) (use H(3) s in \<open>auto simp: blocks_ok_def\<close>)
    ultimately show ?thesis by simp
  qed
  have pos: "0 < l_length (b_free B)"
    using dl_repD(5) [OF B(2)] u64_pos [of "Suc (length fr)"] fits_len [of H "Suc (length fr)"] len H(2)
    by (simp add: counts_ok_def)
  obtain h fl ul where mv: "dlink_move (Some m) (w_nodes w) (Some (b_free B)) (Some (b_used B)) = Some (h, Some fl, Some ul)"
    "dl_rep h fl fr" "dl_rep h ul ((m, d) # us)" "same_but (nodes ((m, d) # fr) \<union> nodes us) (w_nodes w) h"
    using dlink_move_rep [of "w_nodes w" "b_free B" "[]" m d fr "b_used B" us] B(2,3) disj by auto
  let ?w' = "w\<lparr>w_bh := (w_bh w)(a \<mapsto> H\<lparr>bh_freeElems := bh_freeElems H - 1\<rparr>), w_nodes := h,
    w_blocks := (w_blocks w)(b \<mapsto> B\<lparr>b_free := fl, b_used := ul\<rparr>)\<rparr>"
  let ?bs' = "xs @ (b, fr, (m, d) # us) # ys"
  have "take_elem a w = Some (Return (Some (m + MEMBLOCK_SIZE), ?w'))"
    using H(1) skip pos B(1) mv(1) dl_repD(3) [OF B(2)] dl_rep_at(1) [of h ul "[]" m d us] mv(3) d
    by (simp add: take_elem_def set_bh_Some [OF H(1)] find_free.simps [of w "Some b"] load_def)
  moreover have "blocks_ok ?w' ?n ?bs'"
    by (rule update_block [OF _ B(1) mv(2,3) _ _ _ mv(4)])
       (use H(3) s z disj dl_repD(1) [OF B(2)] in auto)
  then have "heap_rep ?w' a ?bs'"
    using H(2) s(1) z by (auto simp: heap_rep_def counts_ok_def heap_fits_def)
  moreover have "live ?bs' = insert (m + MEMBLOCK_SIZE) (live bs)" using s(1) z by auto
  moreover have "Suc (free_count ?bs') = free_count bs" using s(1) z by simp
  moreover have "m + MEMBLOCK_SIZE \<notin> live bs"
  proof
    assume "m + MEMBLOCK_SIZE \<in> live bs"
    then obtain c f u where c: "(c, f, u) \<in> set bs" "m \<in> nodes u" unfolding live_iff by blast
    have okc: "blk_ok w ?n (c, f, u)" using H(3) c(1) by (auto simp: blocks_ok_def)
    have mc: "m \<in> region (w_blocks w) c" and mb: "m \<in> region (w_blocks w) b"
      using blk_ok_region [OF okc] blk_ok_region [OF ok] c(2) by auto
    have "c = b"
    proof (rule ccontr)
      assume "c \<noteq> b"
      moreover have "c \<in> set (map fst bs)" "b \<in> set (map fst bs)" using c(1) s(1) z by force+
      ultimately show False using mc mb H(3) by (auto simp: blocks_ok_def apart_def)
    qed
    then have "(c, f, u) = (b, (m, d) # fr, us)"
      using c(1) H(3) s(1) z by (auto simp: blocks_ok_def)
    then show False using c(2) disj by auto
  qed
  ultimately show ?thesis by blast
qed

lemma live_block:
  assumes "p \<in> live bs"
  obtains xs b fr s m d t ys where "bs = xs @ (b, fr, s @ (m, d) # t) # ys" "p = m + MEMBLOCK_SIZE"
proof -
  obtain b fr us m d where "(b, fr, us) \<in> set bs" "(m, d) \<in> set us" "p = m + MEMBLOCK_SIZE"
    using assms by (auto simp: live_def)
  then show ?thesis using that by (metis split_list)
qed

lemma blockheap_free_ok:
  assumes rep: "heap_rep w a bs" and p: "p \<in> live bs"
  shows "\<exists>w' bs'. blockheap_free (Some a) (Some p) w = Some (Return (0, w')) \<and> heap_rep w' a bs' \<and>
    live bs' = live bs - {p} \<and> map fst bs' = map fst bs"
proof -
  obtain H where H: "w_bh w a = Some H" "counts_ok H bs" "blocks_ok w (unat (bh_elemsPerBlock H)) bs"
    using rep by (auto simp: heap_rep_def)
  let ?n = "unat (bh_elemsPerBlock H)"
  obtain xs b fr s m d t ys where bs: "bs = xs @ (b, fr, s @ (m, d) # t) # ys" and pm: "p = m + MEMBLOCK_SIZE"
    using p by (rule live_block)
  have ok: "blk_ok w ?n (b, fr, s @ (m, d) # t)" using H(3) bs by (auto simp: blocks_ok_def)
  then obtain B where B: "w_blocks w b = Some B" "dl_rep (w_nodes w) (b_free B) fr"
    "dl_rep (w_nodes w) (b_used B) (s @ (m, d) # t)" by (auto simp: blk_ok_def)
  have disj: "nodes (s @ (m, d) # t) \<inter> nodes fr = {}" and own: "w_owner w m = Some (Some b)"
    using ok by (auto simp: blk_ok_def elem_ok_def)
  obtain h ul fl where mv: "dlink_move (Some m) (w_nodes w) (Some (b_used B)) (Some (b_free B)) = Some (h, Some ul, Some fl)"
    "dl_rep h ul (s @ t)" "dl_rep h fl ((m, d) # fr)" "same_but (nodes (s @ (m, d) # t) \<union> nodes fr) (w_nodes w) h"
    using dlink_move_rep [OF B(3,2) disj] by auto
  let ?w' = "w\<lparr>w_bh := (w_bh w)(a \<mapsto> H\<lparr>bh_freeElems := bh_freeElems H + 1\<rparr>), w_nodes := h,
    w_blocks := (w_blocks w)(b \<mapsto> B\<lparr>b_free := fl, b_used := ul\<rparr>)\<rparr>"
  let ?bs' = "xs @ (b, (m, d) # fr, s @ t) # ys"
  have "blockheap_free (Some a) (Some p) w = Some (Return (0, ?w'))"
    using H(1) B(1) mv(1) own pm by (simp add: blockheap_free_def set_bh_Some [OF H(1)])
  moreover have "blocks_ok ?w' ?n ?bs'"
    by (rule update_block [where fr = fr and us = "s @ (m, d) # t", OF _ B(1) mv(3,2)])
       (use H(3) bs disj dl_repD(1) [OF B(3)] mv(4) in \<open>auto simp: Un_commute\<close>)
  then have "heap_rep ?w' a ?bs'"
    using H(2) bs by (auto simp: heap_rep_def counts_ok_def heap_fits_def)
  moreover have "live ?bs' = live bs - {p}"
  proof -
    have "m \<notin> nodes u" if "(c, f, u) \<in> set xs \<union> set ys" for c f u
    proof
      assume mu: "m \<in> nodes u"
      have okc: "blk_ok w ?n (c, f, u)" using H(3) that bs by (auto simp: blocks_ok_def)
      have "c \<noteq> b" using H(3) that bs by (auto simp: blocks_ok_def)
      moreover have "c \<in> set (map fst bs)" "b \<in> set (map fst bs)" using that bs by force+
      ultimately have "region (w_blocks w) c \<inter> region (w_blocks w) b = {}"
        using H(3) by (auto simp: blocks_ok_def apart_def)
      then show False using blk_ok_region [OF okc] blk_ok_region [OF ok] mu by auto
    qed
    then have "p \<notin> live xs" "p \<notin> live ys" using pm live_iff by (metis Un_iff)+
    moreover have "m \<notin> nodes s" "m \<notin> nodes t" using dl_rep_at(2,3) [OF B(3)] by auto
    ultimately show ?thesis unfolding bs pm by auto
  qed
  moreover have "map fst ?bs' = map fst bs" using bs by simp
  ultimately show ?thesis by blast
qed

section \<open>New blocks\<close>

text \<open>
  What the code relies on: \<open>calloc\<close> returns memory that is not in use, and so does \<open>mmap\<close>.
\<close>
definition balloc_env_ok :: "benv \<Rightarrow> bool" where
  "balloc_env_ok e \<longleftrightarrow>
     (\<forall>w b. be_block e w = Some b \<longrightarrow> w_blocks w b = None) \<and>
     (\<forall>w a. be_heap e w = Some a \<longrightarrow> w_bh w a = None) \<and>
     (\<forall>w n m b. be_mmap e w n = Some m \<longrightarrow> {m..<m + unat n} \<inter> region (w_blocks w) b = {})"

fun elem_nodes :: "nat \<Rightarrow> nat \<Rightarrow> nat \<Rightarrow> (nat \<times> ptr) list" where
  "elem_nodes off st 0 = []"
| "elem_nodes off st (Suc n) = (off, Some (off + MEMBLOCK_SIZE)) # elem_nodes (off + st) st n"

lemma elem_nodes_range:
  "0 < st \<Longrightarrow> x \<in> nodes (elem_nodes off st n) \<Longrightarrow> off \<le> x \<and> x < off + n * st"
proof (induction off st n rule: elem_nodes.induct)
  case (2 off st n)
  have "x = off \<or> x \<in> nodes (elem_nodes (off + st) st n)" using "2.prems"(2) by auto
  then show ?case
  proof
    assume "x \<in> nodes (elem_nodes (off + st) st n)"
    then show ?case using "2.IH" [OF "2.prems"(1)] by simp
  qed (use "2.prems"(1) in simp)
qed simp

lemma elem_nodes_len [simp]: "length (elem_nodes off st n) = n"
  by (induction off st n rule: elem_nodes.induct) auto

lemma elem_nodes_data: "x \<in> set (elem_nodes off st n) \<Longrightarrow> snd x = Some (fst x + MEMBLOCK_SIZE)"
  by (induction off st n rule: elem_nodes.induct) auto

lemma carve_ok:
  "dl_rep h l s \<Longrightarrow> 0 < st \<Longrightarrow> (\<And>x. x \<in> nodes s \<Longrightarrow> x < off) \<Longrightarrow>
   \<exists>h' own' l'. carve n off st b h own l = Some (h', own', l') \<and>
     dl_rep h' l' (rev (elem_nodes off st n) @ s) \<and>
     same_but ({off..<off + n * st} \<union> nodes s) h h' \<and>
     (\<forall>x \<in> nodes (elem_nodes off st n). own' x = Some (Some b)) \<and>
     (\<forall>x. x \<notin> {off..<off + n * st} \<longrightarrow> own' x = own x)"
proof (induction n arbitrary: off h own l s)
  case 0
  then show ?case by (auto simp: same_but_def)
next
  case (Suc n)
  have off: "off \<notin> nodes s" using Suc.prems(3) [of off] by auto
  have "same_but {off} h (h(off \<mapsto> free_node))" by (simp add: same_but_def)
  then have rep0: "dl_rep (h(off \<mapsto> free_node)) l s"
    using same_but_rep [of "{off}" h "h(off \<mapsto> free_node)" s l] Suc.prems(1) off by auto
  obtain h1 l1 where 1: "dlink_add (Some (off + MEMBLOCK_SIZE)) off (h(off \<mapsto> free_node)) l = Some (h1, l1)"
    "dl_rep h1 l1 ((off, Some (off + MEMBLOCK_SIZE)) # s)" "same_but (insert off (nodes s)) (h(off \<mapsto> free_node)) h1"
    using dlink_add_rep [OF rep0 _ off] by fastforce
  have "\<And>x. x \<in> nodes ((off, Some (off + MEMBLOCK_SIZE)) # s) \<Longrightarrow> x < off + st"
    using Suc.prems(2,3) by (auto intro: trans_less_add1)
  from Suc.IH [OF 1(2) Suc.prems(2) this, of "own(off \<mapsto> Some b)"] obtain h' own' l' where
    2: "carve n (off + st) st b h1 (own(off \<mapsto> Some b)) l1 = Some (h', own', l')"
    "dl_rep h' l' (rev (elem_nodes (off + st) st n) @ (off, Some (off + MEMBLOCK_SIZE)) # s)"
    "same_but ({off + st..<off + st + n * st} \<union> nodes ((off, Some (off + MEMBLOCK_SIZE)) # s)) h1 h'"
    "\<forall>x \<in> nodes (elem_nodes (off + st) st n). own' x = Some (Some b)"
    "\<forall>x. x \<notin> {off + st..<off + st + n * st} \<longrightarrow> own' x = (own(off \<mapsto> Some b)) x"
    by blast
  have "same_but ({off..<off + Suc n * st} \<union> nodes s) h h'"
    using 1(3) 2(3) Suc.prems(2) by (auto simp: same_but_def)
  moreover have "own' off = Some (Some b)" using 2(5) Suc.prems(2) by simp
  moreover have "own' x = own x" if "x \<notin> {off..<off + Suc n * st}" for x
    using 2(5) that Suc.prems(2) by auto
  ultimately show ?case using 1(1) 2 by auto
qed

lemma alloc_size_nat:
  assumes "heap_fits H"
  shows "unat ((bh_elemsPerBlock H + 1) * (bh_elemSize H + of_nat MEMBLOCK_SIZE)) =
      (unat (bh_elemsPerBlock H) + 1) * (unat (bh_elemSize H) + MEMBLOCK_SIZE)"
    "unat (bh_elemSize H + of_nat MEMBLOCK_SIZE) = unat (bh_elemSize H) + MEMBLOCK_SIZE"
proof -
  let ?n = "unat (bh_elemsPerBlock H)" and ?s = "unat (bh_elemSize H)"
  have f: "(?n + 1) * (?s + 32) < 2 ^ 64" "0 < ?n" using assms by (auto simp: heap_fits_def MEMBLOCK_SIZE_def)
  have "(?n + 1) * 1 \<le> (?n + 1) * (?s + 32)" by (rule mult_le_mono2) simp
  then have "?s + 32 \<le> (?n + 1) * (?s + 32)" "?n + 1 \<le> (?n + 1) * (?s + 32)"
    by (simp, simp only: mult_1_right)
  then have "?s + 32 < 2 ^ 64" "?n + 1 < 2 ^ 64" using f(1) by linarith+
  then have u: "unat (bh_elemSize H + 32) = ?s + 32" "unat (bh_elemsPerBlock H + 1) = ?n + 1"
    by (simp_all add: unat_word_ariths)
  then show "unat (bh_elemSize H + of_nat MEMBLOCK_SIZE) = ?s + MEMBLOCK_SIZE"
    by (simp add: MEMBLOCK_SIZE_def)
  show "unat ((bh_elemsPerBlock H + 1) * (bh_elemSize H + of_nat MEMBLOCK_SIZE)) = (?n + 1) * (?s + MEMBLOCK_SIZE)"
    using f(1) u by (simp add: MEMBLOCK_SIZE_def unat_mult_lem [THEN iffD1])
qed

lemma blockheap_block_new_ok:
  assumes env: "balloc_env_ok e" and rep: "heap_rep w a bs"
  shows "(\<exists>w'. blockheap_block_new e a w = Some (1, w') \<and> heap_rep w' a bs) \<or>
    (\<exists>w' b fr. blockheap_block_new e a w = Some (0, w') \<and> heap_rep w' a ((b, fr, []) # bs) \<and> fr \<noteq> [])"
proof -
  obtain H where H: "w_bh w a = Some H" "counts_ok H bs" "blocks_ok w (unat (bh_elemsPerBlock H)) bs"
    using rep by (auto simp: heap_rep_def)
  let ?n = "unat (bh_elemsPerBlock H)" and ?st = "unat (bh_elemSize H) + MEMBLOCK_SIZE"
  let ?sz = "(bh_elemsPerBlock H + 1) * (bh_elemSize H + of_nat MEMBLOCK_SIZE)"
  have fits: "heap_fits H" using H(2) by (simp add: counts_ok_def)
  have in_blocks: "\<exists>B. w_blocks w c = Some B" if "c \<in> fst ` set bs" for c
    by (rule blocks_ok_block [OF H(3) that])
  show ?thesis
  proof (cases "be_block e w")
    case None
    then show ?thesis using rep H(1) by (simp add: blockheap_block_new_def)
  next
    case (Some b)
    then have fresh: "w_blocks w b = None" using env by (simp add: balloc_env_ok_def)
    then have nb: "b \<notin> fst ` set bs" using in_blocks [of b] by auto
    let ?B = "\<lparr>b_alloc_size = ?sz, b_next = bh_base H, b_elems = be_mmap e w ?sz,
       b_free = empty_list, b_used = empty_list\<rparr>"
    have others: "blocks_ok w' ?n bs" if upd: "w_blocks w' = (w_blocks w)(b \<mapsto> B')"
      and eq: "\<And>x. x \<notin> region (w_blocks w') b \<Longrightarrow> w_nodes w' x = w_nodes w x \<and> w_owner w' x = w_owner w x"
      and gap: "\<And>c. c \<in> fst ` set bs \<Longrightarrow> region (w_blocks w) c \<inter> region (w_blocks w') b = {}" for w' B'
    proof -
      have same: "w_blocks w' c = w_blocks w c" if "c \<in> fst ` set bs" for c
        using that nb upd by auto
      have "blk_ok w' ?n x" if x: "x \<in> set bs" for x
      proof -
        obtain c f u where c: "x = (c, f, u)" by (cases x)
        have ok: "blk_ok w ?n (c, f, u)" using H(3) x c by (auto simp: blocks_ok_def)
        have "c \<in> fst ` set bs" using x c by force
        then show ?thesis unfolding c
          by (intro blk_ok_frame [OF ok same])
             (use blk_ok_region [OF ok] eq gap in blast)+
      qed
      moreover have "lseg (w_blocks w') (map fst bs) None"
        by (rule lseg_cong [where f = "w_blocks w"]) (use H(3) same in \<open>auto simp: blocks_ok_def\<close>)
      moreover have "apart (w_blocks w') (map fst bs)"
        by (rule apart_cong [where f = "w_blocks w"]) (use H(3) same in \<open>auto simp: blocks_ok_def region_def\<close>)
      ultimately show ?thesis using H(3) by (simp add: blocks_ok_def)
    qed
    show ?thesis
    proof (cases "be_mmap e w ?sz")
      case None
      let ?w' = "w\<lparr>w_blocks := (w_blocks w)(b \<mapsto> ?B)\<rparr>"
      have "blocks_ok ?w' ?n bs" by (rule others [of _ ?B]) (simp_all add: region_def None)
      then have "heap_rep ?w' a bs" using H(1,2) by (auto simp: heap_rep_def)
      moreover have "blockheap_block_new e a w = Some (1, ?w')"
        using H(1) Some None by (simp add: blockheap_block_new_def)
      ultimately show ?thesis by blast
    next
      case mm: (Some m)
      have gap: "{m..<m + unat ?sz} \<inter> region (w_blocks w) c = {}" for c
        using env mm unfolding balloc_env_ok_def by blast
      have "dl_rep (w_nodes w) empty_list []" by (rule dl_rep_empty)
      from carve_ok [OF this, of ?st m ?n b "w_owner w"] obtain h own l where
        c: "carve ?n m ?st b (w_nodes w) (w_owner w) empty_list = Some (h, own, l)"
        "dl_rep h l (rev (elem_nodes m ?st ?n))" "same_but {m..<m + ?n * ?st} (w_nodes w) h"
        "\<forall>x \<in> nodes (elem_nodes m ?st ?n). own x = Some (Some b)"
        "\<forall>x. x \<notin> {m..<m + ?n * ?st} \<longrightarrow> own x = w_owner w x"
        by (auto simp: MEMBLOCK_SIZE_def)
      let ?fr = "rev (elem_nodes m ?st ?n)"
      let ?w' = "w\<lparr>w_bh := (w_bh w)(a \<mapsto> H\<lparr>bh_blocksAllocated := bh_blocksAllocated H + 1,
          bh_freeElems := bh_freeElems H + bh_elemsPerBlock H, bh_base := Some b\<rparr>),
        w_nodes := h, w_owner := own, w_blocks := (w_blocks w)(b \<mapsto> ?B\<lparr>b_free := l\<rparr>)\<rparr>"
      have run: "blockheap_block_new e a w = Some (0, ?w')"
        using H(1) Some mm c(1) alloc_size_nat(2) [OF fits]
        by (simp add: blockheap_block_new_def set_bh_Some [OF H(1)])
      have reg: "region (w_blocks ?w') b = {m..<m + unat ?sz}"
        by (simp add: region_def mm)
      have inside: "m + ?n * ?st \<le> m + unat ?sz" using alloc_size_nat(1) [OF fits] by simp
      have old: "blocks_ok ?w' ?n bs"
      proof (rule others)
        show "w_nodes ?w' x = w_nodes w x \<and> w_owner ?w' x = w_owner w x" if "x \<notin> region (w_blocks ?w') b" for x
          using that c(3,5) inside unfolding reg by (auto simp: same_but_def)
        show "region (w_blocks w) c \<inter> region (w_blocks ?w') b = {}" for c using gap [of c] unfolding reg by blast
      qed simp
      have "elem_ok ?w' b x" if "x \<in> set ?fr" for x
      proof -
        have xn: "fst x \<in> nodes (elem_nodes m ?st ?n)" and xs: "x \<in> set (elem_nodes m ?st ?n)" using that by auto
        have "fst x \<in> region (w_blocks ?w') b"
          using elem_nodes_range [OF _ xn] inside unfolding reg by (auto simp: MEMBLOCK_SIZE_def)
        then show ?thesis using elem_nodes_data [OF xs] c(4) xs by (simp add: elem_ok_def)
      qed
      then have new: "blk_ok ?w' ?n (b, ?fr, [])" using c(2) by (simp add: blk_ok_def dl_rep_empty)
      have "blocks_ok ?w' ?n ((b, ?fr, []) # bs)"
      proof -
        have "region (w_blocks ?w') i = region (w_blocks w) i" if "i \<noteq> b" for i
          using that by (simp add: region_def)
        then have "apart (w_blocks ?w') (b # map fst bs)"
          using old gap nb reg unfolding blocks_ok_def apart_def by (auto simp: Int_commute)
        then show ?thesis using old new nb H(2) by (auto simp: blocks_ok_def counts_ok_def)
      qed
      then have "heap_rep ?w' a ((b, ?fr, []) # bs)"
        using H(2) by (auto simp: heap_rep_def counts_ok_def heap_fits_def add.commute)
      moreover have "?fr \<noteq> []"
      proof -
        have "length ?fr \<noteq> 0" using fits by (simp add: heap_fits_def)
        then show ?thesis by force
      qed
      ultimately show ?thesis using run by blast
    qed
  qed
qed

section \<open>Garbage collection\<close>

definition last_id :: "cblock list \<Rightarrow> ptr" where
  "last_id xs = (if xs = [] then None else Some (fst (last xs)))"

lemma last_id_simps [simp]: "last_id [] = None" "last_id (xs @ [y]) = Some (fst y)"
  by (simp_all add: last_id_def)

text \<open>The chain once block \<open>b\<close> is skipped.\<close>
definition drop_block :: "(nat \<rightharpoonup> block) \<Rightarrow> ptr \<Rightarrow> nat \<Rightarrow> block \<Rightarrow> (nat \<rightharpoonup> block)" where
  "drop_block f lst b B =
     (case lst of None \<Rightarrow> f(b := None)
      | Some l \<Rightarrow> (case f l of None \<Rightarrow> f(b := None) | Some L \<Rightarrow> f(l \<mapsto> L\<lparr>b_next := b_next B\<rparr>, b := None)))"

lemma drop_block_other:
  "c \<noteq> b \<Longrightarrow> f c = Some C \<Longrightarrow> \<exists>q. drop_block f lst b B c = Some (C\<lparr>b_next := q\<rparr>)"
proof -
  assume "c \<noteq> b" "f c = Some C"
  moreover have "C = C\<lparr>b_next := b_next C\<rparr>" by simp
  ultimately show ?thesis by (auto simp: drop_block_def split: option.split intro: exI [of _ "b_next C"])
qed

lemma lseg_drop:
  assumes "lseg f (map fst xs @ b # ids) None" "distinct (map fst xs @ b # ids)" "f b = Some B"
  shows "lseg (drop_block f (last_id xs) b B) (map fst xs @ ids) None"
proof -
  let ?g = "drop_block f (last_id xs) b B"
  have nb: "b_next B = first_id ids None" and ids: "lseg f ids None" using assms by auto
  have last_in: "fst (last xs) \<notin> set ids" if "xs \<noteq> []"
  proof -
    have "fst (last xs) \<in> set (map fst xs)" using that by simp
    then show ?thesis using assms(2) by auto
  qed
  have g_ids: "lseg ?g ids None"
    by (rule lseg_cong [OF ids])
       (use assms(2) last_in in \<open>auto simp: drop_block_def last_id_def split: option.split\<close>)
  show ?thesis
  proof (cases xs rule: rev_cases)
    case Nil
    then show ?thesis using g_ids by simp
  next
    case (snoc us x)
    have l: "\<exists>L. f (fst x) = Some L" and us: "lseg f (map fst us) (Some (fst x))"
      using assms(1) snoc by auto
    have "lseg ?g (map fst us) (Some (fst x))"
      by (rule lseg_cong [OF us])
         (use assms(2) snoc in \<open>auto simp: drop_block_def last_id_def split: option.split\<close>)
    moreover have "\<exists>L. ?g (fst x) = Some L \<and> b_next L = first_id ids None"
      using l nb assms(2) snoc by (auto simp: drop_block_def last_id_def)
    ultimately show ?thesis using g_ids snoc by simp
  qed
qed

lemma gc_drop_ok:
  assumes rep: "heap_rep w a (xs @ (b, fr, []) # ys)" and B: "w_blocks w b = Some B"
  shows "\<exists>w'. gc_drop a (last_id xs) b w = Some w' \<and> heap_rep w' a (xs @ ys) \<and>
    map_option bh_elemsPerBlock (w_bh w' a) = map_option bh_elemsPerBlock (w_bh w a)"
proof -
  let ?bs = "xs @ (b, fr, []) # ys"
  obtain H where H: "w_bh w a = Some H" "counts_ok H ?bs" "blocks_ok w (unat (bh_elemsPerBlock H)) ?bs"
    using rep by (auto simp: heap_rep_def)
  let ?n = "unat (bh_elemsPerBlock H)"
  let ?g = "drop_block (w_blocks w) (last_id xs) b B"
  have seg: "lseg (w_blocks w) (map fst xs @ b # map fst ys) None"
    and dist: "distinct (map fst xs @ b # map fst ys)"
    and ap: "apart (w_blocks w) (map fst xs @ b # map fst ys)"
    using H(3) by (auto simp: blocks_ok_def)
  have nb: "b_next B = first_id (map fst ys) None" using seg B by auto
  let ?base = "if xs = [] then b_next B else bh_base H"
  let ?H' = "H\<lparr>bh_base := ?base, bh_blocksAllocated := bh_blocksAllocated H - 1,
    bh_freeElems := bh_freeElems H - bh_elemsPerBlock H\<rparr>"
  let ?w' = "(unmap B w)\<lparr>w_blocks := ?g, w_bh := (w_bh w)(a \<mapsto> ?H')\<rparr>"
  have unm: "w_bh (unmap B w) = w_bh w" "w_blocks (unmap B w) = w_blocks w"
    by (simp_all add: unmap_def Let_def split: option.split)
  have run: "gc_drop a (last_id xs) b w = Some ?w'"
  proof (cases xs rule: rev_cases)
    case Nil
    then show ?thesis using B H(1) unm by (simp add: gc_drop_def last_id_def set_bh_def drop_block_def)
  next
    case (snoc us x)
    have "\<exists>L. w_blocks w (fst x) = Some L" using seg snoc by auto
    then show ?thesis using B H(1) unm snoc
      by (auto simp: gc_drop_def last_id_def set_bh_def drop_block_def)
  qed
  have "blk_ok ?w' ?n x" if x: "x \<in> set xs \<union> set ys" for x
  proof -
    obtain c f u where c: "x = (c, f, u)" by (cases x)
    have ok: "blk_ok w ?n (c, f, u)" using H(3) x c by (auto simp: blocks_ok_def)
    have mem: "c \<in> set (map fst xs) \<union> set (map fst ys)" using x c by force
    then have cb: "c \<noteq> b" using dist by auto
    have apc: "region (w_blocks w) c \<inter> region (w_blocks w) b = {}"
      using ap mem cb by (auto simp: apart_def)
    have same: "w_nodes (unmap B w) x = w_nodes w x \<and> w_owner (unmap B w) x = w_owner w x"
      if "x \<in> nodes f \<union> nodes u" for x
    proof -
      have "x \<notin> region (w_blocks w) b" using that blk_ok_region [OF ok] apc by blast
      then show ?thesis using B by (auto simp: unmap_def region_def split: option.split)
    qed
    show ?thesis unfolding c
      by (rule blk_ok_frame_next [OF ok]) (use drop_block_other [OF cb] same in auto)
  qed
  moreover have "lseg (w_blocks ?w') (map fst (xs @ ys)) None"
    using lseg_drop [OF seg dist B] by simp
  moreover have "apart ?g (map fst (xs @ ys))"
  proof -
    have "region ?g c = region (w_blocks w) c" if c: "c \<in> set (map fst (xs @ ys))" for c
    proof -
      have "c \<noteq> b" using dist c by auto
      moreover obtain C where "w_blocks w c = Some C"
        using blocks_ok_block [OF H(3), of c] c by auto
      ultimately obtain q where "?g c = Some (C\<lparr>b_next := q\<rparr>)" using drop_block_other by blast
      then show ?thesis using \<open>w_blocks w c = Some C\<close> by (auto simp: region_def split: option.split)
    qed
    then show ?thesis by (rule apart_cong [rotated]) (use ap in \<open>auto simp: apart_def\<close>)
  qed
  ultimately have "blocks_ok ?w' ?n (xs @ ys)" using dist by (auto simp: blocks_ok_def)
  moreover have "length fr = ?n" using H(3) by (auto simp: blocks_ok_def blk_ok_def)
  then have "of_nat (length fr) = bh_elemsPerBlock H" by simp
  then have "counts_ok ?H' (xs @ ys)"
    using H(2) nb by (cases xs) (auto simp: counts_ok_def heap_fits_def)
  ultimately have "heap_rep ?w' a (xs @ ys)" by (simp add: heap_rep_def)
  then show ?thesis using run H(1) by (intro exI [of _ ?w']) simp
qed

lemma gc_loop_step:
  assumes rep: "heap_rep w a (xs @ (b, fr, us) # ys)"
  shows "\<exists>B. w_blocks w b = Some B \<and> gc_loop a (last_id xs) (Some b) w =
    (if us = [] then do { w' \<leftarrow> gc_drop a (last_id xs) b w; gc_loop a (last_id xs) (first_id (map fst ys) None) w' }
     else gc_loop a (Some b) (first_id (map fst ys) None) w)"
proof -
  obtain H where H: "w_bh w a = Some H" "counts_ok H (xs @ (b, fr, us) # ys)"
    "blocks_ok w (unat (bh_elemsPerBlock H)) (xs @ (b, fr, us) # ys)"
    using rep by (auto simp: heap_rep_def)
  have ok: "blk_ok w (unat (bh_elemsPerBlock H)) (b, fr, us)" using H(3) by (auto simp: blocks_ok_def)
  then obtain B where B: "w_blocks w b = Some B" "dl_rep (w_nodes w) (b_free B) fr"
    by (auto simp: blk_ok_def)
  have len: "length fr + length us = unat (bh_elemsPerBlock H)" using ok by (simp add: blk_ok_def)
  have fits: "length fr < 2 ^ 64" using fits_len [of H "length fr"] len H(2) by (simp add: counts_ok_def)
  have "unat (l_length (b_free B)) = length fr"
    using dl_repD(5) [OF B(2)] fits by (simp add: unsigned_of_nat take_bit_nat_eq_self)
  then have "l_length (b_free B) = bh_elemsPerBlock H \<longleftrightarrow> length fr = unat (bh_elemsPerBlock H)"
    by (metis word_unat_eq_iff)
  then have "l_length (b_free B) = bh_elemsPerBlock H \<longleftrightarrow> us = []" using len by auto
  moreover have "b_next B = first_id (map fst ys) None" using H(3) B(1) by (auto simp: blocks_ok_def)
  ultimately show ?thesis using H(1) B(1)
    by (simp add: gc_loop.simps [of a "last_id xs" "Some b"] split: option.split)
qed

lemma last_id_snoc [simp]: "last_id (xs @ [(b, fr, us)]) = Some b"
  by (simp add: last_id_def)

lemma gc_loop_ok:
  "heap_rep w a (xs @ ys) \<Longrightarrow>
     \<exists>w'. gc_loop a (last_id xs) (first_id (map fst ys) None) w = Some w' \<and>
       heap_rep w' a (xs @ filter (\<lambda>x. snd (snd x) \<noteq> []) ys)"
proof (induction ys arbitrary: xs w)
  case Nil
  then show ?case by (simp add: gc_loop.simps)
next
  case (Cons y ys)
  obtain b fr us where y: "y = (b, fr, us)" by (cases y)
  from gc_loop_step [of w a xs b fr us ys] Cons.prems y obtain B where B: "w_blocks w b = Some B" and
    step: "gc_loop a (last_id xs) (Some b) w =
      (if us = [] then do { w' \<leftarrow> gc_drop a (last_id xs) b w; gc_loop a (last_id xs) (first_id (map fst ys) None) w' }
       else gc_loop a (Some b) (first_id (map fst ys) None) w)" by auto
  show ?case
  proof (cases "us = []")
    case True
    have rep: "heap_rep w a (xs @ (b, fr, []) # ys)" using Cons.prems y True by simp
    from gc_drop_ok [OF rep B] obtain w1 where
      1: "gc_drop a (last_id xs) b w = Some w1" "heap_rep w1 a (xs @ ys)" by blast
    from Cons.IH [OF 1(2)] show ?thesis using 1(1) step True y by simp
  next
    case False
    have "heap_rep w a ((xs @ [y]) @ ys)" using Cons.prems by simp
    from Cons.IH [OF this] show ?thesis using step False y by simp
  qed
qed

lemma live_filter: "live (filter (\<lambda>x. snd (snd x) \<noteq> []) bs) = live bs"
proof (induction bs)
  case (Cons x bs)
  obtain b fr us where "x = (b, fr, us)" by (cases x)
  then show ?case using Cons.IH by (cases us) simp_all
qed simp

lemma garbagecollect_ok:
  assumes rep: "heap_rep w a bs"
  shows "\<exists>w' bs'. blockheap_garbagecollect (Some a) w = Some (0, w') \<and> heap_rep w' a bs' \<and>
    live bs' = live bs \<and> (bs' = bs \<or> bs' = filter (\<lambda>x. snd (snd x) \<noteq> []) bs)"
proof -
  obtain H where H: "w_bh w a = Some H" "counts_ok H bs"
    using rep by (auto simp: heap_rep_def)
  show ?thesis
  proof (cases "bh_freeElems H < bh_elemsPerBlock H \<or> bh_blocksAllocated H = 1")
    case True
    then show ?thesis using rep H(1) by (auto simp: blockheap_garbagecollect_def)
  next
    case False
    have "bh_base H = first_id (map fst bs) None" using H(2) by (simp add: counts_ok_def)
    then show ?thesis using gc_loop_ok [of w a "[]" bs] rep False H(1) live_filter [of bs]
      by (auto simp: blockheap_garbagecollect_def last_id_def)
  qed
qed

end
