(* ===== verification/BallocOps.thy ===== *)
theory BallocOps
  imports BallocInv "HOL-Library.Multiset"
begin

text \<open>
  What a block heap promises its clients: the elements handed out and not yet freed form a set that
  \<open>blockheap_alloc\<close> extends by an element outside it, \<open>blockheap_free\<close> shrinks and garbage collection
  leaves alone. The contract is a locale, interpreted on the functions of Balloc.
\<close>

section \<open>The contract\<close>

text \<open>
  \<open>inv s L\<close>: in state \<open>s\<close> the live elements are \<open>L\<close>. \<open>alloc\<close> may fail, \<open>release\<close> of a live element
  does not.
\<close>
locale allocator =
  fixes inv :: "'s \<Rightarrow> nat set \<Rightarrow> bool"
    and alloc :: "'s \<Rightarrow> (nat \<times> 's) option"
    and release :: "nat \<Rightarrow> 's \<Rightarrow> 's option"
    and collect :: "'s \<Rightarrow> 's option"
  assumes alloc_law: "inv s L \<Longrightarrow> alloc s = Some (p, s') \<Longrightarrow> p \<notin> L \<and> inv s' (insert p L)"
    and release_law: "inv s L \<Longrightarrow> p \<in> L \<Longrightarrow> \<exists>s'. release p s = Some s' \<and> inv s' (L - {p})"
    and collect_law: "inv s L \<Longrightarrow> \<exists>s'. collect s = Some s' \<and> inv s' L"
begin

fun alloc_many :: "nat \<Rightarrow> 's \<Rightarrow> (nat list \<times> 's) option" where
  "alloc_many 0 s = Some ([], s)"
| "alloc_many (Suc n) s =
     (case alloc s of
        None \<Rightarrow> None
      | Some (p, s1) \<Rightarrow> map_option (\<lambda>(ps, s2). (p # ps, s2)) (alloc_many n s1))"

lemma alloc_many_distinct:
  "inv s L \<Longrightarrow> alloc_many n s = Some (ps, s') \<Longrightarrow>
     distinct ps \<and> set ps \<inter> L = {} \<and> length ps = n \<and> inv s' (set ps \<union> L)"
proof (induction n arbitrary: s L ps)
  case (Suc n)
  then obtain p s1 qs where 1: "alloc s = Some (p, s1)" "alloc_many n s1 = Some (qs, s')" "ps = p # qs"
    by (auto split: option.splits)
  have 2: "p \<notin> L" "inv s1 (insert p L)" using alloc_law [OF Suc.prems(1) 1(1)] by auto
  from Suc.IH [OF 2(2) 1(2)] 2(1) 1(3) show ?case by auto
qed simp

lemma release_all:
  "inv s L \<Longrightarrow> distinct ps \<Longrightarrow> set ps \<subseteq> L \<Longrightarrow>
     \<exists>s'. fold_opt release ps s = Some s' \<and> inv s' (L - set ps)"
proof (induction ps arbitrary: s L)
  case (Cons p ps)
  have "p \<in> L" using Cons.prems(3) by simp
  from release_law [OF Cons.prems(1) this] obtain s1 where
    1: "release p s = Some s1" "inv s1 (L - {p})" by blast
  have "set ps \<subseteq> L - {p}" "distinct ps" using Cons.prems by auto
  from Cons.IH [OF 1(2) this(2,1)] obtain s' where
    2: "fold_opt release ps s1 = Some s'" "inv s' (L - {p} - set ps)" by blast
  have "L - {p} - set ps = L - set (p # ps)" by auto
  then show ?case using 1(1) 2 by auto
qed simp

end

section \<open>The heap as an allocator\<close>

definition heap_live :: "nat \<Rightarrow> bworld \<Rightarrow> nat set \<Rightarrow> bool" where
  "heap_live a w L \<longleftrightarrow> (\<exists>bs. heap_rep w a bs \<and> live bs = L)"

definition heap_alloc :: "benv \<Rightarrow> nat \<Rightarrow> bworld \<Rightarrow> (nat \<times> bworld) option" where
  "heap_alloc e a w =
     (case blockheap_alloc e (Some a) w of Some (Return (Some p, w')) \<Rightarrow> Some (p, w') | _ \<Rightarrow> None)"

definition heap_release :: "nat \<Rightarrow> nat \<Rightarrow> bworld \<Rightarrow> bworld option" where
  "heap_release a p w =
     (case blockheap_free (Some a) (Some p) w of Some (Return (rv, w')) \<Rightarrow> if rv = 0 then Some w' else None | _ \<Rightarrow> None)"

definition heap_collect :: "nat \<Rightarrow> bworld \<Rightarrow> bworld option" where
  "heap_collect a w = map_option snd (blockheap_garbagecollect (Some a) w)"

text \<open>The outcome of an allocation: an element that was not live, or the end of the process.\<close>

lemma free_pos: "heap_rep w a bs \<Longrightarrow> w_bh w a = Some H \<Longrightarrow> bh_freeElems H \<noteq> 0 \<Longrightarrow> 0 < free_count bs"
  by (cases "free_count bs") (auto simp: heap_rep_def counts_ok_def)

lemma blockheap_alloc_cases:
  assumes env: "balloc_env_ok e" and rep: "heap_rep w a bs"
  shows "blockheap_alloc e (Some a) w = Some Exits \<or>
    (\<exists>p w' bs'. blockheap_alloc e (Some a) w = Some (Return (Some p, w')) \<and> heap_rep w' a bs' \<and>
       p \<notin> live bs \<and> live bs' = insert p (live bs))"
proof -
  obtain H where H: "w_bh w a = Some H" using rep by (auto simp: heap_rep_def)
  show ?thesis
  proof (cases "bh_freeElems H = 0")
    case False
    then show ?thesis using take_elem_ok [OF rep free_pos [OF rep H False]] H
      by (auto simp: blockheap_alloc_def)
  next
    case True
    from blockheap_block_new_ok [OF env rep] show ?thesis
    proof (elim disjE exE conjE)
      fix w1 assume w1: "blockheap_block_new e a w = Some (1, w1)" "heap_rep w1 a bs"
      obtain w2 bs2 where w2: "blockheap_garbagecollect (Some a) w1 = Some (0, w2)" "heap_rep w2 a bs2" "live bs2 = live bs"
        using garbagecollect_ok [OF w1(2)] by blast
      obtain H2 where H2: "w_bh w2 a = Some H2" using w2(2) by (auto simp: heap_rep_def)
      show ?thesis
      proof (cases "bh_freeElems H2 = 0")
        case True
        then show ?thesis using H H2 w1(1) w2(1) \<open>bh_freeElems H = 0\<close> by (simp add: blockheap_alloc_def)
      next
        case False
        from take_elem_ok [OF w2(2) free_pos [OF w2(2) H2 False]] show ?thesis
          using H H2 w1(1) w2(1,3) \<open>bh_freeElems H = 0\<close> False by (auto simp: blockheap_alloc_def)
      qed
    next
      fix w1 b fr assume w1: "blockheap_block_new e a w = Some (0, w1)" "heap_rep w1 a ((b, fr, []) # bs)" "fr \<noteq> []"
      have "0 < free_count ((b, fr, []) # bs)" using w1(3) by simp
      from take_elem_ok [OF w1(2) this] show ?thesis using H w1(1) True by (auto simp: blockheap_alloc_def)
    qed
  qed
qed

text \<open>The heap is an allocator in every environment whose \<open>calloc\<close> and \<open>mmap\<close> keep to their contract.\<close>

definition heap_inv :: "benv \<Rightarrow> nat \<Rightarrow> bworld \<Rightarrow> nat set \<Rightarrow> bool" where
  "heap_inv e a w L \<longleftrightarrow> balloc_env_ok e \<and> heap_live a w L"

interpretation bal: allocator "heap_inv e a" "heap_alloc e a" "heap_release a" "heap_collect a" for e a
proof unfold_locales
  fix s L p s'
  assume i: "heap_inv e a s L" "heap_alloc e a s = Some (p, s')"
  then obtain bs where bs: "heap_rep s a bs" "live bs = L" "balloc_env_ok e"
    by (auto simp: heap_live_def heap_inv_def)
  from blockheap_alloc_cases [OF bs(3,1)] show "p \<notin> L \<and> heap_inv e a s' (insert p L)"
    using i(2) bs by (auto simp: heap_live_def heap_inv_def heap_alloc_def split: option.splits proc.splits)
next
  fix s L p assume i: "heap_inv e a s L" "p \<in> L"
  then obtain bs where "heap_rep s a bs" "live bs = L" by (auto simp: heap_live_def heap_inv_def)
  then show "\<exists>s'. heap_release a p s = Some s' \<and> heap_inv e a s' (L - {p})"
    using blockheap_free_ok [of s a bs p] i by (auto simp: heap_live_def heap_release_def heap_inv_def)
next
  fix s L assume i: "heap_inv e a s L"
  then obtain bs where "heap_rep s a bs" "live bs = L" by (auto simp: heap_live_def heap_inv_def)
  then show "\<exists>s'. heap_collect a s = Some s' \<and> heap_inv e a s' L"
    using garbagecollect_ok [of s a bs] i by (auto simp: heap_live_def heap_collect_def heap_inv_def)
qed

section \<open>Creating a heap\<close>

text \<open>Padding to a multiple of the pointer size.\<close>
definition pad8 :: "u64 \<Rightarrow> u64" where
  "pad8 n = (if n mod 8 \<noteq> 0 then (n + 8) AND NOT 7 else n)"

definition empty_heap :: "u64 \<Rightarrow> int \<Rightarrow> bheap" where
  "empty_heap sz n = \<lparr>bh_name = [], bh_elemSize = pad8 sz, bh_elemsPerBlock = word_of_int n,
     bh_blocksAllocated = 0, bh_freeElems = 0, bh_base = None\<rparr>"

lemma heap_rep_set_bh:
  assumes "heap_rep w a bs" "w_bh w a = Some H"
  shows "heap_rep (w\<lparr>w_bh := (w_bh w)(a \<mapsto> H\<lparr>bh_name := nm\<rparr>)\<rparr>) a bs"
proof -
  have "blk_ok (w\<lparr>w_bh := f\<rparr>) n x = blk_ok w n x" for f n x
    by (auto simp: blk_ok_def elem_ok_def)
  then show ?thesis using assms
    by (auto simp: heap_rep_def counts_ok_def heap_fits_def blocks_ok_def)
qed

lemma heap_rep_hnodes: "heap_rep (w\<lparr>w_hnodes := x, w_heaps := y\<rparr>) a bs = heap_rep w a bs"
proof -
  have "blk_ok (w\<lparr>w_hnodes := x, w_heaps := y\<rparr>) n z = blk_ok w n z" for n z
    by (auto simp: blk_ok_def elem_ok_def)
  then show ?thesis by (auto simp: heap_rep_def blocks_ok_def)
qed

lemma blockheap_block_new_heaps:
  "blockheap_block_new e a w = Some (rv, w') \<Longrightarrow>
     w_hnodes w' = w_hnodes w \<and> w_heaps w' = w_heaps w \<and> dom (w_bh w') = dom (w_bh w)"
  by (auto simp: blockheap_block_new_def set_bh_def Let_def split: option.splits bind_splits if_splits)

lemma pad8_def': "(if n mod 8 \<noteq> 0 then (n + 8) AND NOT 7 else n) = pad8 n"
  by (simp add: pad8_def)

text \<open>The heaps are all on the list of heaps.\<close>
definition heaps_listed :: "bworld \<Rightarrow> bool" where
  "heaps_listed w \<longleftrightarrow> (\<exists>hs. dl_rep (w_hnodes w) (w_heaps w) hs \<and> nodes hs = dom (w_bh w) \<and>
     (\<forall>x \<in> set hs. snd x = Some (fst x)))"

lemma create_ok:
  assumes env: "balloc_env_ok e" and lst: "heaps_listed w" and sz: "sz \<noteq> 0" and n: "0 < n" "n < 2 ^ 31"
    and fits: "(nat n + 1) * (unat (pad8 sz) + MEMBLOCK_SIZE) < 2 ^ 64"
  shows "blockheap_create e sz n name w = Some Exits \<or>
    (\<exists>a w' b fr. blockheap_create e sz n name w = Some (Return (a, w')) \<and> w_bh w a = None \<and>
       heap_rep w' a [(b, fr, [])] \<and> heaps_listed w')"
proof (cases "be_heap e w")
  case None
  then show ?thesis by (simp add: blockheap_create_def)
next
  case (Some a)
  then have fresh: "w_bh w a = None" using env by (simp add: balloc_env_ok_def)
  let ?H = "empty_heap sz n" and ?w0 = "w\<lparr>w_bh := (w_bh w)(a \<mapsto> empty_heap sz n)\<rparr>"
  have un: "unat (word_of_int n :: u64) = nat n" using n by (simp add: unsigned_of_int take_bit_int_eq_self)
  have "blocks_ok ?w0 k []" for k by (simp add: blocks_ok_def apart_def)
  moreover have "counts_ok ?H []"
    using n fits un by (simp add: counts_ok_def heap_fits_def empty_heap_def)
  ultimately have "heap_rep ?w0 a []" by (simp add: heap_rep_def)
  from blockheap_block_new_ok [OF env this]
  show ?thesis
  proof (elim disjE exE conjE)
    fix w1 assume "blockheap_block_new e a ?w0 = Some (1, w1)"
    then show ?thesis using Some sz n
      by (simp add: blockheap_create_def pad8_def' empty_heap_def)
  next
    fix w1 b fr
    assume w1: "blockheap_block_new e a ?w0 = Some (0, w1)" "heap_rep w1 a [(b, fr, [])]"
    obtain H1 where H1: "w_bh w1 a = Some H1" using w1(2) by (auto simp: heap_rep_def)
    note hn = blockheap_block_new_heaps [OF w1(1)]
    let ?nm = "case name of None \<Rightarrow> [] | Some s \<Rightarrow> take 63 s"
    let ?w2 = "w1\<lparr>w_bh := (w_bh w1)(a \<mapsto> H1\<lparr>bh_name := ?nm\<rparr>)\<rparr>"
    obtain hs where hs: "dl_rep (w_hnodes w) (w_heaps w) hs" "nodes hs = dom (w_bh w)"
      "\<forall>x \<in> set hs. snd x = Some (fst x)" using lst by (auto simp: heaps_listed_def)
    have na: "a \<notin> nodes hs" using hs(2) fresh by auto
    let ?hn = "(w_hnodes w)(a \<mapsto> free_node)"
    have "same_but {a} (w_hnodes w) ?hn" by (simp add: same_but_def)
    then have "dl_rep ?hn (w_heaps w) hs" using same_but_rep [of "{a}" _ ?hn hs] hs(1) na by auto
    from dlink_add_rep [OF this _ na] obtain h' l' where
      add: "dlink_add (Some a) a ?hn (w_heaps w) = Some (h', l')" "dl_rep h' l' ((a, Some a) # hs)"
      by fastforce
    let ?w' = "?w2\<lparr>w_hnodes := h', w_heaps := l'\<rparr>"
    have "blockheap_create e sz n name w = Some (Return (a, ?w'))"
      using Some sz n w1(1) hn add(1) H1
      by (simp add: blockheap_create_def pad8_def' empty_heap_def set_bh_def)
    moreover have "heap_rep ?w' a [(b, fr, [])]"
      using heap_rep_set_bh [OF w1(2) H1] by (simp add: heap_rep_hnodes)
    moreover have "heaps_listed ?w'"
    proof -
      have "dom (w_bh ?w') = insert a (dom (w_bh w))" using hn H1 by auto
      then show ?thesis unfolding heaps_listed_def
        using add(2) hs(2,3) by (intro exI [of _ "(a, Some a) # hs"]) simp
    qed
    ultimately show ?thesis using fresh by blast
  qed
qed

section \<open>Properties\<close>

text \<open>An environment that can grant one block, and an empty store.\<close>

definition benv0 :: benv where
  "benv0 = \<lparr>be_mmap = (\<lambda>w n. if w_blocks w = Map.empty then Some 4096 else None),
     be_block = (\<lambda>w. if w_blocks w 64 = None then Some 64 else None),
     be_heap = (\<lambda>w. if w_bh w 32 = None then Some 32 else None)\<rparr>"

definition bworld0 :: bworld where
  "bworld0 = \<lparr>w_nodes = Map.empty, w_owner = Map.empty, w_blocks = Map.empty, w_bh = Map.empty,
     w_hnodes = Map.empty, w_heaps = empty_list\<rparr>"

lemma benv0_ok: "balloc_env_ok benv0"
  by (auto simp: balloc_env_ok_def benv0_def region_def split: if_splits)

lemma bworld0_listed: "heaps_listed bworld0"
  unfolding heaps_listed_def by (intro exI [of _ "[]"]) (simp add: bworld0_def dl_rep_empty)

definition heap1 :: bworld where
  "heap1 = (case blockheap_create benv0 16 2 (Some ''t'') bworld0 of Some (Return (a, w)) \<Rightarrow> w | _ \<Rightarrow> bworld0)"

lemma carve_numeral:
  "carve (numeral k) offset stride b h own l =
     do { (h1, l1) \<leftarrow> dlink_add (Some (offset + MEMBLOCK_SIZE)) offset (h(offset \<mapsto> free_node)) l;
          carve (pred_numeral k) (offset + stride) stride b h1 (own(offset \<mapsto> Some b)) l1 }"
  by (simp add: numeral_eq_Suc)

lemma heap1_create: "blockheap_create benv0 16 2 (Some ''t'') bworld0 = Some (Return (32, heap1))"
  by (simp add: heap1_def blockheap_create_def benv0_def bworld0_def blockheap_block_new_def set_bh_def
      carve_numeral MEMBLOCK_SIZE_def dlink_add_def link_head_def heap_ops empty_list_def free_node_def Let_def)

lemma pad8_16: "pad8 16 = 16" by (simp add: pad8_def)

lemma heap1_rep: "\<exists>b fr. heap_rep heap1 32 [(b, fr, [])] \<and> length fr = 2"
proof -
  have "(nat 2 + 1) * (unat (pad8 16) + MEMBLOCK_SIZE) < 2 ^ 64" by (simp add: pad8_16 MEMBLOCK_SIZE_def)
  from create_ok [OF benv0_ok bworld0_listed _ _ _ this, of "Some ''t''"] heap1_create
  obtain b fr where r: "heap_rep heap1 32 [(b, fr, [])]" by auto
  then have "length fr = 2"
    by (auto simp: heap_rep_def blocks_ok_def blk_ok_def heap1_def blockheap_create_def benv0_def bworld0_def blockheap_block_new_def set_bh_def
      carve_numeral MEMBLOCK_SIZE_def dlink_add_def link_head_def heap_ops empty_list_def free_node_def Let_def)
  then show ?thesis using r by blast
qed

lemma heap1_step:
  assumes "heap_rep w 32 bs" "0 < free_count bs" "free_count bs < 2 ^ 64"
  shows "\<exists>p w' bs'. heap_alloc benv0 32 w = Some (p, w') \<and> heap_rep w' 32 bs' \<and> live bs' = insert p (live bs) \<and>
    p \<notin> live bs \<and> Suc (free_count bs') = free_count bs"
proof -
  obtain H where H: "w_bh w 32 = Some H" "counts_ok H bs" using assms(1) by (auto simp: heap_rep_def)
  have "bh_freeElems H \<noteq> 0"
    using assms(2,3) H(2) by (auto simp: counts_ok_def word_of_nat_eq_0_iff dest: nat_dvd_not_less)
  then show ?thesis using take_elem_ok [OF assms(1,2)] H(1) by (auto simp: heap_alloc_def blockheap_alloc_def)
qed

lemma heap1_used: "\<exists>p w bs. heap_rep w 32 bs \<and> live bs = {p}"
proof -
  obtain bs where r: "heap_rep heap1 32 bs" "free_count bs = 2" "live bs = {}" using heap1_rep by fastforce
  then have "0 < free_count bs" "free_count bs < 2 ^ 64" by simp_all
  from heap1_step [OF r(1) this] r(3) show ?thesis by auto
qed

lemma heap1_two: "\<exists>ps w. bal.alloc_many benv0 32 2 heap1 = Some (ps, w)"
proof -
  obtain bs where r: "heap_rep heap1 32 bs" "free_count bs = 2" using heap1_rep by fastforce
  then have "0 < free_count bs" "free_count bs < 2 ^ 64" by simp_all
  from heap1_step [OF r(1) this] obtain p w1 bs1 where
    1: "heap_alloc benv0 32 heap1 = Some (p, w1)" "heap_rep w1 32 bs1" "Suc (free_count bs1) = 2" using r(2) by auto
  then have "0 < free_count bs1" "free_count bs1 < 2 ^ 64" by simp_all
  from heap1_step [OF 1(2) this] obtain q w2 where "heap_alloc benv0 32 w1 = Some (q, w2)" by blast
  then show ?thesis using 1(1) by (simp add: numeral_2_eq_2)
qed

text \<open>
  C14. A heap refines a set of live elements. In an environment whose \<open>calloc\<close> and \<open>mmap\<close> return unused
  memory, \<open>blockheap_alloc\<close> on a well-formed heap either ends the process or returns an element that
  was not live, is live afterwards, and leaves every other live element live; the heap stays well-formed.
  It never touches memory it does not own and never gives up while a free element
  exists. It never returns NULL: when no memory is to be had the process ends, where the comment in front of the function promises NULL.
\<close>
theorem blockheap_alloc_refines:
  assumes "balloc_env_ok e" "heap_rep w a bs"
  shows "(blockheap_alloc e (Some a) w = Some Exits \<and> free_count bs mod 2 ^ 64 = 0) \<or>
    (\<exists>p w' bs'. blockheap_alloc e (Some a) w = Some (Return (Some p, w')) \<and> heap_rep w' a bs' \<and>
       p \<notin> live bs \<and> live bs' = insert p (live bs))"
proof -
  obtain H where H: "w_bh w a = Some H" "counts_ok H bs" using assms(2) by (auto simp: heap_rep_def)
  show ?thesis
  proof (cases "bh_freeElems H = 0")
    case True
    then have "(of_nat (free_count bs) :: u64) = 0" using H(2) by (simp add: counts_ok_def)
    then have "2 ^ 64 dvd free_count bs" by (simp add: word_of_nat_eq_0_iff)
    then have "free_count bs mod 2 ^ 64 = 0" by (rule dvd_imp_mod_0)
    then show ?thesis using blockheap_alloc_cases [OF assms] by blast
  next
    case False
    from take_elem_ok [OF assms(2) free_pos [OF assms(2) H(1) False]] show ?thesis
      using H(1) False by (auto simp: blockheap_alloc_def)
  qed
qed

theorem blockheap_alloc_refines_witness:
  "\<exists>p w' bs'. blockheap_alloc benv0 (Some 32) heap1 = Some (Return (Some p, w')) \<and>
     heap_rep w' 32 bs' \<and> live bs' = {p}"
proof -
  obtain b fr where r: "heap_rep heap1 32 [(b, fr, [])]" "length fr = 2" using heap1_rep by blast
  from blockheap_alloc_refines [OF benv0_ok r(1)] r(2) show ?thesis by auto
qed

text \<open>
  C16. \<open>blockheap_free\<close> of a live element returns 0, and \<open>blockheap_garbagecollect\<close> returns 0 and keeps
  exactly the blocks with a live element when it collects at all; both keep the heap well-formed, and the
  live elements are the old ones without the freed element, or the same.
\<close>
theorem blockheap_free_gc_refines:
  assumes "heap_rep w a bs" "p \<in> live bs"
  shows "\<exists>w' bs' w'' bs''. blockheap_free (Some a) (Some p) w = Some (Return (0, w')) \<and> heap_rep w' a bs' \<and>
    live bs' = live bs - {p} \<and>
    blockheap_garbagecollect (Some a) w' = Some (0, w'') \<and> heap_rep w'' a bs'' \<and> live bs'' = live bs - {p} \<and>
    (bs'' = bs' \<or> bs'' = filter (\<lambda>x. snd (snd x) \<noteq> []) bs')"
proof -
  obtain w' bs' where 1: "blockheap_free (Some a) (Some p) w = Some (Return (0, w'))" "heap_rep w' a bs'"
    "live bs' = live bs - {p}" using blockheap_free_ok [OF assms] by blast
  moreover obtain w'' bs'' where "blockheap_garbagecollect (Some a) w' = Some (0, w'')" "heap_rep w'' a bs''"
    "live bs'' = live bs'" "bs'' = bs' \<or> bs'' = filter (\<lambda>x. snd (snd x) \<noteq> []) bs'"
    using garbagecollect_ok [OF 1(2)] by blast
  ultimately show ?thesis by (intro exI [of _ w'] exI [of _ bs'] exI [of _ w''] exI [of _ bs'']) simp
qed

theorem blockheap_free_gc_refines_witness:
  "\<exists>p w w'. heap_live 32 w {p} \<and> blockheap_free (Some 32) (Some p) w = Some (Return (0, w')) \<and> heap_live 32 w' {}"
proof -
  obtain p w bs where w: "heap_rep w 32 bs" "live bs = {p}" using heap1_used by blast
  then have "p \<in> live bs" by simp
  from blockheap_free_gc_refines [OF w(1) this] w(2) obtain w' bs' where
    "blockheap_free (Some 32) (Some p) w = Some (Return (0, w'))" "heap_rep w' 32 bs'" "live bs' = {}"
    by auto
  then show ?thesis using w unfolding heap_live_def by blast
qed

text \<open>
  C17. From the creation of a heap on, any number of elements allocated one after the other are pairwise
  different; freeing all of them, in any order, succeeds and leaves no element live.
\<close>
theorem heap_lifecycle:
  assumes "balloc_env_ok e" "heaps_listed w" "blockheap_create e sz n name w = Some (Return (a, w1))"
    "n < 2 ^ 31" "(nat n + 1) * (unat (pad8 sz) + MEMBLOCK_SIZE) < 2 ^ 64"
    "bal.alloc_many e a k w1 = Some (ps, w2)" "mset qs = mset ps"
  shows "distinct ps \<and> length ps = k \<and>
    (\<exists>w3. fold_opt (heap_release a) qs w2 = Some w3 \<and> heap_live a w3 {})"
proof -
  have "sz \<noteq> 0" "0 < n" using assms(3) by (auto simp: blockheap_create_def split: if_splits)
  from create_ok [OF assms(1,2) this(1) this(2) assms(4,5), of name] obtain b fr where
    "heap_rep w1 a [(b, fr, [])]" using assms(3) by auto
  then have "heap_inv e a w1 {}" using assms(1)
    by (auto simp: heap_inv_def heap_live_def intro!: exI [of _ "[(b, fr, [])]"])
  from bal.alloc_many_distinct [OF this assms(6)]
  have ps: "distinct ps" "length ps = k" "heap_inv e a w2 (set ps)" by auto
  have "distinct qs" "set qs = set ps" using assms(7) ps(1)
    by (metis mset_eq_imp_distinct_iff, metis mset_eq_setD)
  then show ?thesis using bal.release_all [OF ps(3), of qs] ps by (auto simp: heap_inv_def)
qed

theorem heap_lifecycle_witness:
  "\<exists>ps w2 w3. bal.alloc_many benv0 32 2 heap1 = Some (ps, w2) \<and> distinct ps \<and> length ps = 2 \<and>
     fold_opt (heap_release 32) (rev ps) w2 = Some w3 \<and> heap_live 32 w3 {}"
proof -
  obtain ps w2 where a: "bal.alloc_many benv0 32 2 heap1 = Some (ps, w2)" using heap1_two by blast
  have fits: "(nat 2 + 1) * (unat (pad8 16) + MEMBLOCK_SIZE) < 2 ^ 64" by (simp add: pad8_16 MEMBLOCK_SIZE_def)
  from heap_lifecycle [OF benv0_ok bworld0_listed heap1_create _ fits a, of "rev ps"] show ?thesis
    using a by auto
qed

end
