(* ===== verification/DlinkAlloc.thy ===== *)
theory DlinkAlloc
  imports DlinkOps BallocOps
begin

text \<open>
  The part of lsd/dlink.c that takes list nodes from a block heap: \<open>dlink_init\<close>, \<open>dlink_fini\<close>,
  \<open>dlink_create\<close>, \<open>dlink_free\<close>, and the macros of lsd/dlink.h that combine them with the list operations.
  The nodes are the elements of the heap \<open>dlink_node_heap\<close>; \<open>dw_nodes\<close> holds their contents by the address of
  the element. The value of the setting tuning.heap.node is an argument of \<open>dlink_init\<close>.
\<close>

record dlworld =
  dw_bw :: bworld
  dw_nodes :: nheap
  dw_heap :: ptr
  dw_count :: int

definition dlink_init :: "benv \<Rightarrow> int \<Rightarrow> dlworld \<Rightarrow> dlworld proc option" where
  "dlink_init e epb w =
     (case blockheap_create e 24 epb (Some ''dlink_node'') (dw_bw w) of
        None \<Rightarrow> None
      | Some Exits \<Rightarrow> Some Exits
      | Some (Return (a, bw)) \<Rightarrow> Some (Return (w\<lparr>dw_bw := bw, dw_heap := Some a\<rparr>)))"

definition dlink_fini :: "dlworld \<Rightarrow> dlworld option" where
  "dlink_fini w = map_option (\<lambda>(rv, bw). w\<lparr>dw_bw := bw\<rparr>) (blockheap_destroy (dw_heap w) (dw_bw w))"

definition dlink_create :: "benv \<Rightarrow> dlworld \<Rightarrow> (nat \<times> dlworld) proc option" where
  "dlink_create e w =
     (case blockheap_alloc e (dw_heap w) (dw_bw w) of
        Some (Return (Some m, bw)) \<Rightarrow>
          Some (Return (m, w\<lparr>dw_bw := bw, dw_nodes := (dw_nodes w)(m \<mapsto> free_node), dw_count := dw_count w + 1\<rparr>))
      | Some Exits \<Rightarrow> Some Exits
      | _ \<Rightarrow> None)"

text \<open>\<open>blockheap_free\<close> clears the bytes of the element.\<close>
definition dlink_free :: "nat \<Rightarrow> dlworld \<Rightarrow> dlworld proc option" where
  "dlink_free m w =
     (case blockheap_free (dw_heap w) (Some m) (dw_bw w) of
        Some (Return (rv, bw)) \<Rightarrow>
          Some (Return (w\<lparr>dw_bw := bw, dw_nodes := (dw_nodes w)(m \<mapsto> free_node), dw_count := dw_count w - 1\<rparr>))
      | Some Exits \<Rightarrow> Some Exits
      | None \<Rightarrow> None)"

definition with_nodes :: "(nheap \<times> dlink_list) option \<Rightarrow> dlworld \<Rightarrow> (dlworld \<times> dlink_list) proc option" where
  "with_nodes r w = map_option (\<lambda>(h, l). Return (w\<lparr>dw_nodes := h\<rparr>, l)) r"

definition dlink_add_alloc :: "benv \<Rightarrow> ptr \<Rightarrow> dlworld \<Rightarrow> dlink_list \<Rightarrow> (dlworld \<times> dlink_list) proc option" where
  "dlink_add_alloc e data w l =
     (case dlink_create e w of
        None \<Rightarrow> None | Some Exits \<Rightarrow> Some Exits
      | Some (Return (m, w1)) \<Rightarrow> with_nodes (dlink_add data m (dw_nodes w1) l) w1)"

definition dlink_add_tail_alloc :: "benv \<Rightarrow> ptr \<Rightarrow> dlworld \<Rightarrow> dlink_list \<Rightarrow> (dlworld \<times> dlink_list) proc option" where
  "dlink_add_tail_alloc e data w l =
     (case dlink_create e w of
        None \<Rightarrow> None | Some Exits \<Rightarrow> Some Exits
      | Some (Return (m, w1)) \<Rightarrow> with_nodes (dlink_add_tail data m (dw_nodes w1) l) w1)"

definition dlink_destroy :: "nat \<Rightarrow> dlworld \<Rightarrow> dlink_list \<Rightarrow> (dlworld \<times> dlink_list) proc option" where
  "dlink_destroy m w l =
     (case dlink_delete m (dw_nodes w) l of
        None \<Rightarrow> None
      | Some (h, l') \<Rightarrow>
          (case dlink_free m (w\<lparr>dw_nodes := h\<rparr>) of
             None \<Rightarrow> None | Some Exits \<Rightarrow> Some Exits | Some (Return w') \<Rightarrow> Some (Return (w', l'))))"

section \<open>Lists of heap nodes\<close>

text \<open>The list \<open>l\<close> stands for \<open>s\<close> and its nodes are exactly the live elements of the node heap.\<close>
definition dlw_rep :: "benv \<Rightarrow> dlworld \<Rightarrow> dlink_list \<Rightarrow> (nat \<times> ptr) list \<Rightarrow> bool" where
  "dlw_rep e w l s \<longleftrightarrow> (\<exists>a. dw_heap w = Some a \<and> balloc_env_ok e \<and> heap_live a (dw_bw w) (nodes s)) \<and>
     dl_rep (dw_nodes w) l s"

lemma dlink_create_rep:
  assumes "dlw_rep e w l s"
  shows "dlink_create e w = Some Exits \<or>
    (\<exists>m w'. dlink_create e w = Some (Return (m, w')) \<and> m \<notin> nodes s \<and> m \<in> dom (dw_nodes w') \<and>
       dw_heap w' = dw_heap w \<and> heap_live (the (dw_heap w)) (dw_bw w') (insert m (nodes s)) \<and>
       dl_rep (dw_nodes w') l s)"
proof -
  obtain a bs where a: "dw_heap w = Some a" "balloc_env_ok e" "heap_rep (dw_bw w) a bs" "live bs = nodes s"
    and l: "dl_rep (dw_nodes w) l s"
    using assms by (auto simp: dlw_rep_def heap_live_def)
  show ?thesis
  proof (cases "blockheap_alloc e (Some a) (dw_bw w) = Some Exits")
    case False
    then obtain p bw bs' where p: "blockheap_alloc e (Some a) (dw_bw w) = Some (Return (Some p, bw))"
      "heap_rep bw a bs'" "p \<notin> nodes s" "live bs' = insert p (nodes s)"
      using blockheap_alloc_cases [OF a(2,3)] a(4) by auto
    have "same_but {p} (dw_nodes w) ((dw_nodes w)(p \<mapsto> free_node))" by (simp add: same_but_def)
    then have "dl_rep ((dw_nodes w)(p \<mapsto> free_node)) l s"
      using same_but_rep [of "{p}" "dw_nodes w" "(dw_nodes w)(p \<mapsto> free_node)" s l] l p(3) by auto
    then show ?thesis using a(1) p by (auto simp: dlink_create_def heap_live_def)
  qed (simp add: dlink_create_def a(1))
qed

text \<open>
  Nodes from the heap on a list: when the nodes of a list are exactly the live elements of the node
  heap, \<open>dlink_add_alloc\<close> and \<open>dlink_add_tail_alloc\<close> either end the process or put the data in front of or
  behind the sequence, in a node that was not on it; \<open>dlink_destroy\<close> of a node of the list takes it out
  and gives it back to the heap. In each case the nodes of the list are again the live elements.
\<close>
theorem dlink_alloc_refines:
  assumes "dlw_rep e w l s"
  shows "(dlink_add_alloc e d w l = Some Exits \<or>
      (\<exists>m w' l'. dlink_add_alloc e d w l = Some (Return (w', l')) \<and> dlw_rep e w' l' ((m, d) # s))) \<and>
    (dlink_add_tail_alloc e d w l = Some Exits \<or>
      (\<exists>m w' l'. dlink_add_tail_alloc e d w l = Some (Return (w', l')) \<and> dlw_rep e w' l' (s @ [(m, d)]))) \<and>
    (\<forall>t m c u. s = t @ (m, c) # u \<longrightarrow>
      (\<exists>w' l'. dlink_destroy m w l = Some (Return (w', l')) \<and> dlw_rep e w' l' (t @ u)))"
proof (intro conjI allI impI)
  obtain a where a: "dw_heap w = Some a" "balloc_env_ok e" "heap_live a (dw_bw w) (nodes s)"
    and l: "dl_rep (dw_nodes w) l s"
    using assms by (auto simp: dlw_rep_def)
  note cr = dlink_create_rep [OF assms]
  show "dlink_add_alloc e d w l = Some Exits \<or>
      (\<exists>m w' l'. dlink_add_alloc e d w l = Some (Return (w', l')) \<and> dlw_rep e w' l' ((m, d) # s))"
    using cr
  proof (elim disjE exE conjE)
    fix m w1 assume m: "dlink_create e w = Some (Return (m, w1))" "m \<notin> nodes s" "m \<in> dom (dw_nodes w1)"
      "dw_heap w1 = dw_heap w" "heap_live (the (dw_heap w)) (dw_bw w1) (insert m (nodes s))" "dl_rep (dw_nodes w1) l s"
    from dll.push_law [OF m(6,3,2), of d] show ?thesis
      using m(1,4,5) a by (auto simp: dlink_add_alloc_def with_nodes_def dlw_rep_def)
  qed (simp add: dlink_add_alloc_def)
  show "dlink_add_tail_alloc e d w l = Some Exits \<or>
      (\<exists>m w' l'. dlink_add_tail_alloc e d w l = Some (Return (w', l')) \<and> dlw_rep e w' l' (s @ [(m, d)]))"
    using cr
  proof (elim disjE exE conjE)
    fix m w1 assume m: "dlink_create e w = Some (Return (m, w1))" "m \<notin> nodes s" "m \<in> dom (dw_nodes w1)"
      "dw_heap w1 = dw_heap w" "heap_live (the (dw_heap w)) (dw_bw w1) (insert m (nodes s))" "dl_rep (dw_nodes w1) l s"
    from dll.append_law [OF m(6,3,2), of d] show ?thesis
      using m(1,4,5) a by (auto simp: dlink_add_tail_alloc_def with_nodes_def dlw_rep_def)
  qed (simp add: dlink_add_tail_alloc_def)
  fix t m c u assume s: "s = t @ (m, c) # u"
  obtain h l' where del: "dlink_delete m (dw_nodes w) l = Some (h, l')" "dl_rep h l' (t @ u)"
    using dll.remove_law [of "dw_nodes w" l t m c u] l s by auto
  have mn: "m \<notin> nodes (t @ u)" using dl_rep_at(2,3) [of "dw_nodes w" l t m c u] l s by auto
  obtain bw where rel: "heap_release a m (dw_bw w) = Some bw" "heap_inv e a bw (nodes s - {m})"
    using bal.release_law [of e a "dw_bw w" "nodes s" m] a s by (auto simp: heap_inv_def)
  have "nodes s - {m} = nodes (t @ u)" using mn s by auto
  moreover have "blockheap_free (Some a) (Some m) (dw_bw w) = Some (Return (0, bw))"
    using rel(1) by (auto simp: heap_release_def split: option.splits proc.splits if_splits)
  moreover have "same_but {m} h (h(m \<mapsto> free_node))" by (simp add: same_but_def)
  then have "dl_rep (h(m \<mapsto> free_node)) l' (t @ u)"
    using same_but_rep [of "{m}" h "h(m \<mapsto> free_node)" "t @ u" l'] del(2) mn by auto
  ultimately show "\<exists>w' l'. dlink_destroy m w l = Some (Return (w', l')) \<and> dlw_rep e w' l' (t @ u)"
    using del(1) a rel(2) by (auto simp: dlink_destroy_def dlink_free_def dlw_rep_def heap_inv_def)
qed

definition dlworld1 :: dlworld where
  "dlworld1 = \<lparr>dw_bw = heap1, dw_nodes = Map.empty, dw_heap = Some 32, dw_count = 0\<rparr>"

lemma dlworld1_rep: "dlw_rep benv0 dlworld1 empty_list []"
  using heap1_rep by (auto simp: dlw_rep_def dlworld1_def heap_live_def benv0_ok dl_rep_empty)

theorem dlink_alloc_refines_witness:
  "\<exists>m w' l'. dlink_add_alloc benv0 (Some 5) dlworld1 empty_list = Some (Return (w', l')) \<and>
     dlw_rep benv0 w' l' [(m, Some 5)]"
proof -
  have "dlink_add_alloc benv0 (Some 5) dlworld1 empty_list \<noteq> Some Exits"
  proof -
    obtain p w1 where "heap_alloc benv0 32 heap1 = Some (p, w1)" using heap1_two
      by (auto simp: numeral_2_eq_2 split: option.splits)
    then show ?thesis
      by (auto simp: dlink_add_alloc_def dlink_create_def dlworld1_def heap_alloc_def with_nodes_def
          split: option.splits proc.splits)
  qed
  then show ?thesis using dlink_alloc_refines [OF dlworld1_rep, of "Some 5"] by auto
qed

end
