(* ===== verification/Timestr.thy ===== *)
theory Timestr
  imports Prelude "HOL-Library.Signed_Division"
begin

text \<open>
  The time strings of lsd/timestr.c ("1d2h3m4s"). \<open>time_t\<close> and \<open>long\<close> are signed 64-bit integers, kept
  as \<open>int\<close>; an arithmetic overflow, undefined in C, makes the result \<open>None\<close>. C division truncates
  (\<open>sdiv\<close>, \<open>smod\<close>).
\<close>

definition in_i64 :: "int \<Rightarrow> bool" where
  "in_i64 v \<longleftrightarrow> - (2 ^ 63) \<le> v \<and> v < 2 ^ 63"

text \<open>\<open>ret += strtol(s, NULL, 0) * mult\<close>.\<close>
definition add_time :: "string \<Rightarrow> int \<Rightarrow> int \<Rightarrow> int option" where
  "add_time s mult ret =
     (let p = strtol_val s * mult in if in_i64 p \<and> in_i64 (ret + p) then Some (ret + p) else None)"

text \<open>The treatment of one unit letter: the rest of the string and the time so far.\<close>
definition unit_step :: "char \<Rightarrow> int \<Rightarrow> string \<times> int \<Rightarrow> (string \<times> int) option" where
  "unit_step c mult st = (case st of (s, ret) \<Rightarrow>
     (case strchr s c of
        None \<Rightarrow> Some (s, ret)
      | Some k \<Rightarrow> map_option (Pair (drop (Suc k) s)) (add_time (take k s) mult ret)))"

definition timestr_to_time :: "string option \<Rightarrow> int \<Rightarrow> int option" where
  "timestr_to_time str def =
     (case str of
        None \<Rightarrow> Some def
      | Some s0 \<Rightarrow>
          do { s1 \<leftarrow> unit_step (CHR ''d'') 86400 (map c_tolower s0, 0);
               s2 \<leftarrow> unit_step (CHR ''h'') 3600 s1;
               (s, ret) \<leftarrow> unit_step (CHR ''m'') 60 s2;
               add_time s 1 ret })"

text \<open>\<open>if (v) snprintf("%dX", v)\<close>.\<close>
definition show_unit :: "int \<Rightarrow> char \<Rightarrow> string" where
  "show_unit v c = (if v = 0 then [] else show_int v @ [c])"

definition time_to_timestr :: "int \<Rightarrow> string" where
  "time_to_timestr itime =
     (let d = int_of_long (itime sdiv 86400); t1 = itime smod 86400;
          h = int_of_long (t1 sdiv 3600); t2 = t1 smod 3600;
          m = int_of_long (t2 sdiv 60); s = int_of_long (t2 smod 60);
          buf = show_unit d (CHR ''d'') @ show_unit h (CHR ''h'') @ show_unit m (CHR ''m'') @ show_unit s (CHR ''s'')
      in if buf = [] then ''0s'' else buf)"

lemma sdiv_nonneg: "0 \<le> (a :: int) \<Longrightarrow> 0 < b \<Longrightarrow> a sdiv b = a div b \<and> a smod b = a mod b"
  by (cases "a = 0") (auto simp: signed_divide_int_def signed_modulo_int_def sgn_if)

section \<open>Reading back what was printed\<close>

lemma decimal_char: "is_digit 10 c \<Longrightarrow> 48 \<le> (of_char c :: nat) \<and> (of_char c :: nat) \<le> 57"
  by (auto simp: is_digit_def digit_val_def Let_def split: if_splits)

lemma decimal_not:
  assumes "is_digit 10 c"
  shows "c \<noteq> CHR ''d''" "c \<noteq> CHR ''h''" "c \<noteq> CHR ''m''" "c \<noteq> CHR ''s''" "c_tolower c = c"
    "\<not> c_isspace c" "c \<noteq> CHR ''-''" "c \<noteq> CHR ''+''"
  using decimal_char [OF assms] by (auto simp: c_tolower_def c_isupper_def c_isspace_def)

lemma show_nat_chars:
  "CHR ''d'' \<notin> set (show_nat n)" "CHR ''h'' \<notin> set (show_nat n)" "CHR ''m'' \<notin> set (show_nat n)"
  "CHR ''s'' \<notin> set (show_nat n)" "map c_tolower (show_nat n) = show_nat n"
proof -
  have d: "is_digit 10 c" if "c \<in> set (show_nat n)" for c using show_nat_digits that by blast
  show "CHR ''d'' \<notin> set (show_nat n)" "CHR ''h'' \<notin> set (show_nat n)" "CHR ''m'' \<notin> set (show_nat n)"
    "CHR ''s'' \<notin> set (show_nat n)" using d decimal_not(1-4) by blast+
  show "map c_tolower (show_nat n) = show_nat n" by (rule map_idI) (use d decimal_not(5) in blast)
qed

lemma strtol_val_show_nat:
  assumes "0 < n" "int n < 2 ^ 63" "r = [] \<or> \<not> is_digit 10 (hd r)"
  shows "strtol_val (show_nat n @ r) = int n"
proof -
  obtain d where d: "hd (show_nat n) = digit_char d" "0 < d" "d < 10"
    using hd_show_nat [OF assms(1)] by blast
  then obtain ds where s: "show_nat n = digit_char d # ds" by (cases "show_nat n") auto
  have dig: "is_digit 10 (digit_char d)" using d(3) by simp
  have ne0: "digit_char d \<noteq> CHR ''0''"
  proof
    assume "digit_char d = CHR ''0''"
    then have "(of_char (digit_char d) :: nat) = 48" by simp
    then show False using of_char_digit_char [OF d(3)] d(2) by simp
  qed
  have sign: "strtol_sign (dropWhile c_isspace (show_nat n @ r)) = (False, show_nat n @ r)"
    using decimal_not [OF dig] by (simp add: s strtol_sign_def)
  have base: "strtol_base (show_nat n @ r) = (10, show_nat n @ r)"
    using ne0 by (simp add: s strtol_base_def)
  have "takeWhile (is_digit 10) (show_nat n @ r) = show_nat n"
    using show_nat_digits [of n] assms(3) by (cases r) (auto simp: takeWhile_append)
  then show ?thesis using assms(2) sign base
    by (simp add: strtol_val_def strtol0_def digits_value_show_nat)
qed

lemma i64_small: "0 \<le> p \<Longrightarrow> p \<le> 185542587187200 \<Longrightarrow> 0 \<le> ret \<Longrightarrow> ret < 2 ^ 62 \<Longrightarrow> in_i64 p \<and> in_i64 (ret + p)"
  by (simp add: in_i64_def)

lemma add_time_show:
  assumes "0 \<le> v" "v < 2 ^ 31" "0 \<le> ret" "ret < 2 ^ 62" "0 < mult" "mult \<le> 86400"
    "r = [] \<or> \<not> is_digit 10 (hd r)" "v = 0 \<Longrightarrow> r = []"
  shows "add_time ((if v = 0 then [] else show_int v) @ r) mult ret = Some (ret + v * mult)"
proof -
  have "v * mult \<le> 2 ^ 31 * 86400" using assms by (intro mult_mono) auto
  then have "v * mult \<le> 185542587187200" by simp
  moreover have "0 \<le> v * mult" using assms(1,5) by (rule mult_nonneg_nonneg [OF _ less_imp_le])
  ultimately have "in_i64 (v * mult) \<and> in_i64 (ret + v * mult)"
    using assms(3,4) by (intro i64_small)
  moreover have "strtol_val ((if v = 0 then [] else show_int v) @ r) = v"
    using assms strtol_val_show_nat [of "nat v" r] by (auto simp: show_int_def)
  ultimately show ?thesis by (simp add: add_time_def Let_def)
qed

text \<open>One unit: present with its letter, or absent.\<close>

lemma unit_step_show:
  assumes "0 \<le> v" "v < 2 ^ 31" "0 \<le> ret" "ret < 2 ^ 62" "0 < mult" "mult \<le> 86400" "c \<notin> set r"
    "c \<in> {CHR ''d'', CHR ''h'', CHR ''m''}"
  shows "unit_step c mult (show_unit v c @ r, ret) = Some (r, ret + v * mult)"
proof (cases "v = 0")
  case True
  have "strchr r c = None" using assms(7) by (simp add: strchr_None)
  then show ?thesis
    by (simp add: unit_step_def show_unit_def True)
next
  case False
  have "c \<notin> set (show_int v)" using assms(1,8) show_nat_chars by (auto simp: show_int_def)
  then have "strchr (show_int v @ c # r) c = Some (length (show_int v))" by simp
  then show ?thesis using False add_time_show [OF assms(1-6), of "[]"]
    by (simp add: unit_step_def show_unit_def)
qed

lemma show_unit_notin:
  "0 \<le> v \<Longrightarrow> x \<in> {CHR ''d'', CHR ''h'', CHR ''m''} \<Longrightarrow> x \<noteq> c \<Longrightarrow> x \<notin> set (show_unit v c)"
  using show_nat_chars [of "nat v"] by (auto simp: show_unit_def show_int_def)

lemma show_unit_lower: "0 \<le> v \<Longrightarrow> c_tolower c = c \<Longrightarrow> map c_tolower (show_unit v c) = show_unit v c"
  using show_nat_chars(5) by (simp add: show_unit_def show_int_def)

lemma time_string_inverse:
  assumes "0 \<le> t" "t < 86400 * 2 ^ 31"
  shows "timestr_to_time (Some (time_to_timestr t)) def = Some t"
proof -
  define d h m s where "d = t div 86400" and "h = t mod 86400 div 3600"
    and "m = t mod 86400 mod 3600 div 60" and "s = t mod 86400 mod 3600 mod 60"
  have b: "0 \<le> d" "d < 2 ^ 31" "0 \<le> h" "h < 24" "0 \<le> m" "m < 60" "0 \<le> s" "s < 60"
    using assms by (auto simp: d_def h_def m_def s_def)
  have t: "t = d * 86400 + h * 3600 + m * 60 + s"
    by (simp add: d_def h_def m_def s_def)
  let ?buf = "show_unit d (CHR ''d'') @ show_unit h (CHR ''h'') @ show_unit m (CHR ''m'') @ show_unit s (CHR ''s'')"
  have c: "t sdiv 86400 = t div 86400" "t smod 86400 = t mod 86400"
    "t mod 86400 sdiv 3600 = t mod 86400 div 3600" "t mod 86400 smod 3600 = t mod 86400 mod 3600"
    "t mod 86400 mod 3600 sdiv 60 = t mod 86400 mod 3600 div 60" "t mod 86400 mod 3600 smod 60 = t mod 86400 mod 3600 mod 60"
    using assms(1) by (simp_all add: sdiv_nonneg)
  have ids: "int_of_long d = d" "int_of_long h = h" "int_of_long m = m" "int_of_long s = s"
    using b by (simp_all add: int_of_long_id)
  have str: "time_to_timestr t = (if ?buf = [] then ''0s'' else ?buf)"
    unfolding time_to_timestr_def Let_def c d_def [symmetric] h_def [symmetric] m_def [symmetric] s_def [symmetric]
    by (simp only: ids)
  show ?thesis
  proof (cases "?buf = []")
    case True
    then have "d = 0" "h = 0" "m = 0" "s = 0" by (auto simp: show_unit_def split: if_splits)
    then have "t = 0" using t by simp
    moreover have "timestr_to_time (Some ''0s'') def = Some 0" by code_simp
    ultimately show ?thesis using str True by simp
  next
    case False
    have low: "map c_tolower ?buf = ?buf"
      using b by (simp add: show_unit_lower c_tolower_def c_isupper_def)
    have 1: "unit_step (CHR ''d'') 86400 (?buf, 0) =
        Some (show_unit h (CHR ''h'') @ show_unit m (CHR ''m'') @ show_unit s (CHR ''s''), d * 86400)"
      using unit_step_show [of d 0 86400 "CHR ''d''" "show_unit h (CHR ''h'') @ show_unit m (CHR ''m'') @ show_unit s (CHR ''s'')"]
        b show_unit_notin by simp
    have 2: "unit_step (CHR ''h'') 3600 (show_unit h (CHR ''h'') @ show_unit m (CHR ''m'') @ show_unit s (CHR ''s''), d * 86400) =
        Some (show_unit m (CHR ''m'') @ show_unit s (CHR ''s''), d * 86400 + h * 3600)"
      using unit_step_show [of h "d * 86400" 3600 "CHR ''h''" "show_unit m (CHR ''m'') @ show_unit s (CHR ''s'')"]
        b show_unit_notin by simp
    have 3: "unit_step (CHR ''m'') 60 (show_unit m (CHR ''m'') @ show_unit s (CHR ''s''), d * 86400 + h * 3600) =
        Some (show_unit s (CHR ''s''), d * 86400 + h * 3600 + m * 60)"
      using unit_step_show [of m "d * 86400 + h * 3600" 60 "CHR ''m''" "show_unit s (CHR ''s'')"]
        b show_unit_notin by simp
    have "\<not> is_digit 10 (CHR ''s'')" by code_simp
    then have 4: "add_time (show_unit s (CHR ''s'')) 1 (d * 86400 + h * 3600 + m * 60) = Some t"
      using add_time_show [of s "d * 86400 + h * 3600 + m * 60" 1 "if s = 0 then [] else ''s''"] b t
      by (cases "s = 0") (simp_all add: show_unit_def)
    have "timestr_to_time (Some ?buf) def = Some t"
      using low 1 2 3 4 by (simp add: timestr_to_time_def del: map_append)
    then show ?thesis using str False by (simp only: if_False)
  qed
qed

text \<open>
  C34. Printing a time with \<open>time_to_timestr\<close> and reading the string back with \<open>timestr_to_time\<close> gives
  the time, for every non-negative time whose number of days fits an \<open>int\<close>.
\<close>
theorem timestr_roundtrip:
  assumes "0 \<le> t" "t < 86400 * 2 ^ 31"
  shows "timestr_to_time (Some (time_to_timestr t)) def = Some t"
  by (rule time_string_inverse [OF assms])

theorem timestr_roundtrip_witness:
  "timestr_to_time (Some (time_to_timestr 93784)) 60 = Some 93784 \<and> time_to_timestr 93784 = ''1d2h3m4s''"
proof
  show "timestr_to_time (Some (time_to_timestr 93784)) 60 = Some 93784"
    using timestr_roundtrip [of 93784 60] by simp
  show "time_to_timestr 93784 = ''1d2h3m4s''" by code_simp
qed

end
