(* ===== verification/Str.thy ===== *)
theory Str
  imports Prelude
begin

text \<open>
  The string functions of lsd/str.c. Functions that cut up their argument in place are written on the
  resulting strings: a parameter in \<open>parv\<close> is the text from where it points up to the next NUL the function
  has left in the buffer. \<open>None\<close> as an argument is NULL; as the result of a function that does not return a
  pointer, it means that a NULL pointer is read.
\<close>

definition MAXPARA :: nat where "MAXPARA = 15"

section \<open>Simple conversions\<close>

definition str_dup :: "(string \<Rightarrow> bool) \<Rightarrow> string option \<Rightarrow> string option" where
  "str_dup ok s = (case s of None \<Rightarrow> None | Some t \<Rightarrow> if ok t then Some t else None)"

definition hex_digits :: string where "hex_digits = ''0123456789abcdef''"

text \<open>\<open>hex[(c & 0xf0) >> 4]\<close> and \<open>hex[c & 0x0f]\<close>; \<open>c\<close> is promoted to a non-negative value by the mask.\<close>
definition hex_byte :: "u8 \<Rightarrow> string" where
  "hex_byte b = [hex_digits ! unat (drop_bit 4 (b AND 0xF0)), hex_digits ! unat (b AND 0x0F)]"

definition str_tohex :: "u8 list \<Rightarrow> nat \<Rightarrow> string option" where
  "str_tohex src len = (if length src < len then None else Some (concat (map hex_byte (take len src))))"

definition str_tolower :: "string \<Rightarrow> string" where "str_tolower s = map c_tolower s"

definition is_lower :: "string option \<Rightarrow> bool" where
  "is_lower s = (case s of None \<Rightarrow> True | Some t \<Rightarrow> \<forall>c \<in> set t. c_islower c)"

definition str_strip :: "string \<Rightarrow> string" where
  "str_strip line =
     (case strchr line c_cr of Some k \<Rightarrow> take k line
      | None \<Rightarrow> (case strchr line c_nl of Some k \<Rightarrow> take k line | None \<Rightarrow> line))"

definition str_unquote :: "string option \<Rightarrow> string option" where
  "str_unquote s =
     (case s of
        None \<Rightarrow> None
      | Some t \<Rightarrow>
          let u = (if take 1 t = [CHR 0x22] then drop 1 t else t) in
          Some (case strchr u (CHR 0x22) of None \<Rightarrow> u | Some k \<Rightarrow> take k u))"

definition str_whitespace_skip :: "string \<Rightarrow> string" where
  "str_whitespace_skip s = dropWhile (\<lambda>c. c = CHR '' '' \<or> c = c_tab) s"

section \<open>Tokens\<close>

text \<open>
  The loop over the message: \<open>n\<close> parameters have been started, \<open>cur\<close> holds (reversed) what was read of
  the last one. At the limit the last parameter is left with the rest of the message, and the result
  is marked.
\<close>
function tok_loop :: "char \<Rightarrow> int \<Rightarrow> nat \<Rightarrow> string \<Rightarrow> string \<Rightarrow> string list \<times> bool" where
  "tok_loop d lim n cur [] = ([rev cur], False)"
| "tok_loop d lim n cur (c # s) =
     (if int n = lim then ([rev cur @ c # s], True)
      else if c = d
      then (if dropWhile (\<lambda>x. x = d) s = [] then ([rev cur], False)
            else let (ts, full) = tok_loop d lim (Suc n) [] (dropWhile (\<lambda>x. x = d) s) in (rev cur # ts, full))
      else tok_loop d lim n (c # cur) s)"
  by pat_completeness auto
termination
  by (relation "measure (\<lambda>(d, lim, n, cur, s). length s)") (auto simp: le_imp_less_Suc length_dropWhile_le)

text \<open>
  The search for a colon after a space, from index \<open>i\<close>; in front of the message lies the character
  \<open>before\<close>, which is read when the message begins with a colon.
\<close>
function colon_pos :: "char \<Rightarrow> string \<Rightarrow> nat \<Rightarrow> nat option" where
  "colon_pos before m i =
     (case strchr (drop i m) (CHR '':'') of
        None \<Rightarrow> None
      | Some k \<Rightarrow>
          let j = i + k in
          if (if j = 0 then before else m ! (j - 1)) = CHR '' '' then Some j
          else colon_pos before m (Suc j))"
  by pat_completeness auto
termination
  by (relation "measure (\<lambda>(before, m, i). length m - i)") (auto dest!: strchr_SomeD)

declare colon_pos.simps [simp del]

text \<open>The return value and the parameters.\<close>
definition str_tokenize :: "char \<Rightarrow> string option \<Rightarrow> int \<times> string list" where
  "str_tokenize before message =
     (case message of
        None \<Rightarrow> (- 1, [])
      | Some m \<Rightarrow>
          let pos = colon_pos before m 0;
              head = (case pos of None \<Rightarrow> m | Some j \<Rightarrow> take (j - 1) m);
              (ts, full) = tok_loop (CHR '' '') (int MAXPARA - 1) 1 [] head;
              ps = (if full then ts else case pos of None \<Rightarrow> ts | Some j \<Rightarrow> ts @ [drop (Suc j) m])
          in (int (length ps), ps))"

definition str_tokenize_generic :: "char \<Rightarrow> int \<Rightarrow> string option \<Rightarrow> int \<times> string list" where
  "str_tokenize_generic delim sz message =
     (case message of
        None \<Rightarrow> (0, [])
      | Some m \<Rightarrow> let ts = fst (tok_loop delim sz 1 [] m) in (int (length ts), ts))"

section \<open>Joining parameters\<close>

definition strlcpy :: "string \<Rightarrow> nat \<Rightarrow> string \<Rightarrow> string" where
  "strlcpy dest mx s = (if mx = 0 then dest else take (mx - 1) s)"

definition strlcat :: "string \<Rightarrow> nat \<Rightarrow> string \<Rightarrow> string" where
  "strlcat dest mx s = (if mx \<le> length dest then dest else dest @ take (mx - 1 - length dest) s)"

text \<open>\<open>parv\<close> as the array of the first \<open>parc\<close> parameters, NULL allowed.\<close>
fun cat_params :: "nat \<Rightarrow> string option list \<Rightarrow> string \<Rightarrow> string option" where
  "cat_params mx [] dest = Some dest"
| "cat_params mx (None # ps) dest = None"
| "cat_params mx (Some p # ps) dest = cat_params mx ps (strlcat (strlcat dest mx '' '') mx p)"

definition str_parv_expand :: "string \<Rightarrow> nat \<Rightarrow> nat \<Rightarrow> string option list \<Rightarrow> string option" where
  "str_parv_expand dest mx initial parv =
     (case nth_opt parv initial of
        None \<Rightarrow> None
      | Some p \<Rightarrow>
          cat_params mx (drop (Suc initial) parv) (case p of None \<Rightarrow> dest | Some s \<Rightarrow> strlcpy dest mx s))"

section \<open>Splitting what was joined\<close>

text \<open>The parameters with single delimiters between them.\<close>
fun join :: "char \<Rightarrow> string list \<Rightarrow> string" where
  "join d [] = []"
| "join d [w] = w"
| "join d (w # v # ws) = w @ d # join d (v # ws)"

text \<open>The words a message can be made of: non-empty, without the delimiter.\<close>
definition word_ok :: "char \<Rightarrow> string \<Rightarrow> bool" where
  "word_ok d w \<longleftrightarrow> w \<noteq> [] \<and> d \<notin> set w"

lemma tok_loop_word:
  "d \<notin> set w \<Longrightarrow> int n \<noteq> lim \<Longrightarrow> tok_loop d lim n cur (w @ s) = tok_loop d lim n (rev w @ cur) s"
  by (induction w arbitrary: cur) auto

lemma join_start: "word_ok d v \<Longrightarrow> \<exists>c r. join d (v # ws) = c # r \<and> c \<noteq> d"
  by (cases v; cases ws) (auto simp: word_ok_def)

lemma tok_loop_join:
  "\<forall>w \<in> set ws. word_ok d w \<Longrightarrow> ws \<noteq> [] \<Longrightarrow> int n + int (length ws) \<le> lim \<or> lim < int n \<Longrightarrow>
     tok_loop d lim n [] (join d ws) = (ws, False)"
proof (induction ws arbitrary: n)
  case (Cons w ws)
  have w: "d \<notin> set w" "int n \<noteq> lim" using Cons.prems by (auto simp: word_ok_def)
  show ?case
  proof (cases ws)
    case Nil
    then show ?thesis using tok_loop_word [OF w, of "[]" "[]"] by simp
  next
    case (Cons v vs)
    obtain c r where cr: "join d (v # vs) = c # r" "c \<noteq> d"
      using join_start [of d v vs] Cons.prems(1) Cons by auto
    have "tok_loop d lim (Suc n) [] (join d ws) = (ws, False)"
      by (rule Cons.IH) (use Cons.prems Cons in auto)
    then show ?thesis using tok_loop_word [OF w, of "[]" "d # join d (v # vs)"] w(2) cr Cons
      by simp
  qed
qed simp

section \<open>The trailing parameter\<close>

text \<open>The first colon with a space in front of it, by one scan.\<close>
fun colon_scan :: "char \<Rightarrow> string \<Rightarrow> nat option" where
  "colon_scan p [] = None"
| "colon_scan p (c # s) =
     (if c = CHR '':'' \<and> p = CHR '' '' then Some 0 else map_option Suc (colon_scan c s))"

definition shift_opt :: "nat \<Rightarrow> nat option \<Rightarrow> nat option" where
  "shift_opt n x = map_option (\<lambda>k. n + k) x"

lemma shift_opt_simps [simp]:
  "shift_opt n None = None" "shift_opt n (Some k) = Some (n + k)" "shift_opt 0 x = x"
  "shift_opt a (shift_opt b x) = shift_opt (a + b) x" "map_option Suc x = shift_opt (Suc 0) x"
  by (cases x; simp add: shift_opt_def)+

lemma colon_scan_next:
  "colon_scan p s =
     (case strchr s (CHR '':'') of
        None \<Rightarrow> None
      | Some k \<Rightarrow> if (if k = 0 then p else s ! (k - 1)) = CHR '' '' then Some k
                  else shift_opt (Suc k) (colon_scan (CHR '':'') (drop (Suc k) s)))"
proof (induction s arbitrary: p)
  case (Cons c s)
  show ?case
  proof (cases "c = CHR '':''")
    case False
    show ?thesis
    proof (cases "strchr s (CHR '':'')")
      case None
      then show ?thesis using Cons.IH [of c] False by simp
    next
      case (Some k)
      then show ?thesis using Cons.IH [of c] False
        by (simp add: nth_Cons')
    qed
  qed auto
qed simp

lemma colon_pos_scan:
  "i \<le> length m \<Longrightarrow> colon_pos before m i =
     shift_opt (i) (colon_scan (if i = 0 then before else m ! (i - 1)) (drop i m))"
proof (induction before m i rule: colon_pos.induct)
  case (1 before m i)
  let ?p = "if i = 0 then before else m ! (i - 1)"
  show ?case
  proof (cases "strchr (drop i m) (CHR '':'')")
    case None
    then show ?thesis by (simp add: colon_pos.simps [of before m i] colon_scan_next [of ?p])
  next
    case (Some k)
    note k = strchr_SomeD [OF Some]
    have lt: "i + k < length m" and mk: "m ! (i + k) = CHR '':''" using k "1.prems" by auto
    have prev: "(if i + k = 0 then before else m ! (i + k - 1)) = (if k = 0 then ?p else drop i m ! (k - 1))"
      using lt by auto
    have "drop (Suc k) (drop i m) = drop (Suc (i + k)) m" by (simp add: add.commute)
    then show ?thesis
      using "1.IH" [OF Some refl] lt mk prev Some
      by (simp add: colon_pos.simps [of before m i] colon_scan_next [of ?p "drop i m"] Let_def add.assoc)
  qed
qed

lemma colon_scan_word:
  "w \<noteq> [] \<Longrightarrow> hd w \<noteq> CHR '':'' \<or> p \<noteq> CHR '' '' \<Longrightarrow> CHR '' '' \<notin> set w \<Longrightarrow>
     colon_scan p (w @ s) = shift_opt (length w) (colon_scan (last w) s)"
proof (induction w arbitrary: p)
  case (Cons c w)
  have "c \<noteq> CHR '' ''" using Cons.prems(3) by auto
  then have "colon_scan c (w @ s) = shift_opt (length w) (colon_scan (last w) s)" if "w \<noteq> []"
    using Cons.IH [of c] Cons.prems(3) that by simp
  moreover have "colon_scan p ((c # w) @ s) = shift_opt 1 (colon_scan c (w @ s))"
    using Cons.prems(2) by auto
  ultimately show ?case by (cases "w = []") simp_all
qed simp

text \<open>The words of a message: without spaces, and not starting with a colon.\<close>
definition param_ok :: "string \<Rightarrow> bool" where
  "param_ok w \<longleftrightarrow> word_ok (CHR '' '') w \<and> hd w \<noteq> CHR '':''"

lemma colon_scan_join:
  "\<forall>w \<in> set ws. param_ok w \<Longrightarrow> ws \<noteq> [] \<Longrightarrow>
     \<exists>q. q \<noteq> CHR '' '' \<and> (\<forall>s. colon_scan p (join (CHR '' '') ws @ s) =
       shift_opt (length (join (CHR '' '') ws)) (colon_scan q s))"
proof (induction "CHR '' ''" ws arbitrary: p rule: join.induct)
  case (2 w)
  then have "w \<noteq> []" "CHR '' '' \<notin> set w" "hd w \<noteq> CHR '':''" by (auto simp: param_ok_def word_ok_def)
  then show ?case using colon_scan_word [of w p] by (intro exI [of _ "last w"]) (auto dest: last_in_set)
next
  case (3 w v ws)
  then have w: "w \<noteq> []" "CHR '' '' \<notin> set w" "hd w \<noteq> CHR '':''" by (auto simp: param_ok_def word_ok_def)
  obtain q where q: "q \<noteq> CHR '' ''" "\<And>s. colon_scan (CHR '' '') (join (CHR '' '') (v # ws) @ s) =
       shift_opt (length (join (CHR '' '') (v # ws))) (colon_scan q s)"
    using "3.hyps" [of "CHR '' ''"] "3.prems" by auto
  show ?case using colon_scan_word [of w p] w q
    by (intro exI [of _ q]) auto
qed simp

text \<open>
  A message made of up to 13 words with single spaces between them, and optionally a space, a colon
  and a trailing parameter with any characters, is taken apart by \<open>str_tokenize\<close> into exactly these
  parameters, in order, whatever lies in memory in front of the message.
\<close>
theorem str_tokenize_roundtrip:
  assumes "ws \<noteq> []" "\<forall>w \<in> set ws. param_ok w" "length ws \<le> 13"
  shows "str_tokenize before (Some (join (CHR '' '') ws)) = (int (length ws), ws) \<and>
    str_tokenize before (Some (join (CHR '' '') ws @ '' :'' @ trail)) =
      (int (length ws) + 1, ws @ [trail])"
proof -
  let ?j = "join (CHR '' '') ws"
  have tok: "tok_loop (CHR '' '') (int MAXPARA - 1) 1 [] ?j = (ws, False)"
    using assms by (intro tok_loop_join) (auto simp: param_ok_def MAXPARA_def)
  obtain q where q: "q \<noteq> CHR '' ''" "\<And>s. colon_scan before (?j @ s) = shift_opt (length ?j) (colon_scan q s)"
    using colon_scan_join [OF assms(2,1), of before] by auto
  have "colon_pos before ?j 0 = None" using colon_pos_scan [of 0 ?j before] q(2) [of "[]"] by simp
  moreover have "colon_pos before (?j @ '' :'' @ trail) 0 = Some (Suc (length ?j))"
    using colon_pos_scan [of 0 "?j @ '' :'' @ trail" before] q(2) [of "'' :'' @ trail"] by simp
  ultimately show ?thesis using tok by (simp add: str_tokenize_def Let_def)
qed

theorem str_tokenize_roundtrip_witness:
  "str_tokenize (CHR ''x'') (Some ''PRIVMSG a:b :hi there'') = (3, [''PRIVMSG'', ''a:b'', ''hi there''])"
proof -
  have "\<forall>w \<in> set [''PRIVMSG'', ''a:b'']. param_ok w" by (simp add: param_ok_def word_ok_def)
  from str_tokenize_roundtrip [of "[''PRIVMSG'', ''a:b'']" "CHR ''x''" "''hi there''", OF _ this] show ?thesis by simp
qed

lemma strlcat_take: "0 < mx \<Longrightarrow> strlcat (take (mx - 1) x) mx s = take (mx - 1) (x @ s)"
  by (auto simp: strlcat_def min_def)

lemma cat_params_take:
  "0 < mx \<Longrightarrow> cat_params mx (map Some ps) (take (mx - 1) x) =
     Some (take (mx - 1) (x @ concat (map (\<lambda>p. CHR '' '' # p) ps)))"
proof (induction ps arbitrary: x)
  case (Cons p ps)
  have "cat_params mx (map Some (p # ps)) (take (mx - 1) x) = cat_params mx (map Some ps) (take (mx - 1) ((x @ '' '') @ p))"
    unfolding list.map cat_params.simps strlcat_take [OF Cons.prems] ..
  then show ?case using Cons.IH [OF Cons.prems, of "(x @ '' '') @ p"] by simp
qed simp

lemma join_concat: "join d (w # ws) = w @ concat (map (\<lambda>p. d # p) ws)"
  by (induction ws arbitrary: w) auto

text \<open>
  \<open>str_tokenize_generic\<close> and \<open>str_parv_expand\<close> are inverse: a message of words with single spaces
  between them, split with a limit that exceeds the number of words, has these words as its parameters,
  and joining them into a buffer of \<open>mx\<close> bytes gives the message back, cut at \<open>mx - 1\<close> characters.
\<close>
theorem str_split_expand:
  assumes "ws \<noteq> []" "\<forall>w \<in> set ws. word_ok (CHR '' '') w" "int (length ws) < sz" "0 < mx"
  shows "str_tokenize_generic (CHR '' '') sz (Some (join (CHR '' '') ws)) = (int (length ws), ws) \<and>
    str_parv_expand dest mx 0 (map Some ws) = Some (take (mx - 1) (join (CHR '' '') ws))"
proof
  have "tok_loop (CHR '' '') sz 1 [] (join (CHR '' '') ws) = (ws, False)"
    using assms by (intro tok_loop_join) auto
  then show "str_tokenize_generic (CHR '' '') sz (Some (join (CHR '' '') ws)) = (int (length ws), ws)"
    by (simp add: str_tokenize_generic_def)
  obtain w vs where ws: "ws = w # vs" using assms(1) by (cases ws) auto
  from cat_params_take [OF assms(4), of vs w]
  show "str_parv_expand dest mx 0 (map Some ws) = Some (take (mx - 1) (join (CHR '' '') ws))"
    using assms(4) by (simp add: ws str_parv_expand_def strlcpy_def join_concat)
qed

theorem str_split_expand_witness:
  "str_tokenize_generic (CHR '' '') 8 (Some ''ls -l /etc'') = (3, [''ls'', ''-l'', ''/etc'']) \<and>
   str_parv_expand [] 6 0 (map Some [''ls'', ''-l'', ''/etc'']) = Some ''ls -l''"
proof -
  have "\<forall>w \<in> set [''ls'', ''-l'', ''/etc'']. word_ok (CHR '' '') w" by (simp add: word_ok_def)
  from str_split_expand [of "[''ls'', ''-l'', ''/etc'']" 8 6 "[]", OF _ this] show ?thesis by simp
qed

end
