(* ===== verification/Conf.thy ===== *)
theory Conf
  imports Dict Timestr KVStore
begin

text \<open>
  The configuration files of src/conf.c: the line parser, the writer, and the getters over the
  dictionary \<open>conf.dict\<close>. A file is the list of its characters. \<open>cm\<close> says whether CONFIG_MODULES is
  defined, \<open>modload\<close> is \<open>module_load\<close>. The parser looks one byte in front of its line buffer when a line
  is blank; \<open>before\<close> is this byte. \<open>None\<close> as a result: a NULL pointer is used, memory outside a buffer is
  written, or a dictionary lookup never returns. What is logged is counted, not printed.
\<close>

section \<open>Reading lines\<close>

text \<open>\<open>fgets(buf, sizeof(buf) - 1, fp)\<close> reads at most 766 characters, up to and with a newline.\<close>
definition FGETS_MAX :: nat where "FGETS_MAX = 766"

definition fgets_chunk :: "string \<Rightarrow> string" where
  "fgets_chunk s =
     (let l = takeWhile (\<lambda>c. c \<noteq> c_nl) s; l' = (if length l < length s then l @ [c_nl] else l)
      in take FGETS_MAX l')"

lemma fgets_chunk_Nil [simp]: "fgets_chunk s = [] \<longleftrightarrow> s = []"
  by (cases s) (auto simp: fgets_chunk_def Let_def FGETS_MAX_def)

text \<open>
  What the loop \<open>do { fgets } while (!feof(fp))\<close> finds in its buffer, in turn. The end of the file is noticed
  by a read that hits it, so a file that ends with a newline is followed by one empty line.
\<close>
function file_lines :: "string \<Rightarrow> string list" where
  "file_lines s =
     (let l = fgets_chunk s in
      if l = [] \<or> (length l < FGETS_MAX \<and> last l \<noteq> c_nl) then [l]
      else l # file_lines (drop (length l) s))"
  by pat_completeness auto
termination
proof (relation "measure length")
  fix s l
  assume l: "l = fgets_chunk s" "\<not> (l = [] \<or> (length l < FGETS_MAX \<and> last l \<noteq> c_nl))"
  then have "s \<noteq> []" "0 < length l" by auto
  then show "(drop (length l) s, s) \<in> measure length" by (cases s) auto
qed simp

declare file_lines.simps [simp del]

section \<open>Parsing one line\<close>

definition is_trailer :: "char \<Rightarrow> bool" where
  "is_trailer c \<longleftrightarrow> c = c_cr \<or> c = c_nl \<or> c = CHR '' ''"

text \<open>
  Leading spaces are skipped and trailing white space is cut off. \<open>Some None\<close>: the line is dropped, as
  nothing or one character is left (\<open>end - skip <= 0\<close>).
\<close>
definition conf_strip :: "char \<Rightarrow> string \<Rightarrow> string option option" where
  "conf_strip before buf =
     (let s = takeWhile (\<lambda>c. c \<noteq> c_nul) buf;
          skip = length (takeWhile (\<lambda>c. c = CHR '' '') s);
          t = rev (dropWhile is_trailer (rev s))
      in if t = [] \<and> is_trailer before then None
         else if length t - 1 \<le> skip then Some None
         else Some (Some (drop skip t)))"

record cload =
  cl_dict :: "dict option"
  cl_section :: "string option"
  cl_comment :: bool
  cl_errors :: int
  cl_warnings :: int
  cl_modules :: "string list"

definition CONF_DELIMS :: string where "CONF_DELIMS = ''= '' @ [c_nl]"

text \<open>\<open>strtok(NULL, ...)\<close> after a first \<open>strtok\<close>.\<close>
definition strtok_next :: "(string \<times> string) option \<Rightarrow> string option" where
  "strtok_next r = (case r of None \<Rightarrow> None | Some (t, rest) \<Rightarrow> map_option fst (strtok CONF_DELIMS rest))"

definition warn :: "cload \<Rightarrow> cload" where
  "warn st = st\<lparr>cl_warnings := cl_warnings st + 1\<rparr>"

text \<open>A line inside a section.\<close>
definition conf_entry :: "denv \<Rightarrow> bool \<Rightarrow> (string \<Rightarrow> int) \<Rightarrow> string \<Rightarrow> string \<Rightarrow> cload \<Rightarrow> cload option" where
  "conf_entry m cm modload section skip st =
     (if strncaseeq section ''general'' 7
      then let key = strtok CONF_DELIMS skip; val = strtok_next key in
        map_option (\<lambda>(rv, d). st\<lparr>cl_dict := d\<rparr>) (dict_add m (cl_dict st) (map_option fst key) val)
      else if cm \<and> strncaseeq section ''modules'' 8
      then Some (st\<lparr>cl_modules := cl_modules st @ [skip],
                    cl_errors := cl_errors st + (if modload skip \<noteq> 0 then 1 else 0)\<rparr>)
      else if strncaseeq section ''jail'' 4 then Some st
      else if strncaseeq section ''language'' 8
      then (case strtok CONF_DELIMS skip of None \<Rightarrow> None | Some key \<Rightarrow> Some st)
      else if strncaseeq section ''acl'' 3 \<or> strncaseeq section ''strings'' 7 then Some st
      else Some (warn st))"

text \<open>The classification of a stripped line (of two characters or more) in the order of the code.\<close>
definition conf_text :: "denv \<Rightarrow> bool \<Rightarrow> (string \<Rightarrow> int) \<Rightarrow> string \<Rightarrow> cload \<Rightarrow> cload option" where
  "conf_text m cm modload skip st =
     (if take 2 skip = ''*/'' then Some (st\<lparr>cl_comment := False\<rparr>)
      else if hd skip = CHR '';'' \<or> hd skip = CHR ''#'' \<or> take 2 skip = ''//'' then Some st
      else let st1 = (if take 2 skip = ''/*'' then st\<lparr>cl_comment := True\<rparr> else st) in
        if cl_comment st1 then Some st1
        else if hd skip = CHR ''['' \<and> last skip = CHR '']''
        then Some (st1\<lparr>cl_section := Some (butlast (drop 1 skip))\<rparr>)
        else (case cl_section st1 of
          None \<Rightarrow> Some (warn st1)
        | Some section \<Rightarrow>
            if strncaseeq skip ''@END'' 4 then Some (st1\<lparr>cl_section := None\<rparr>)
            else conf_entry m cm modload section skip st1))"

definition conf_line :: "denv \<Rightarrow> bool \<Rightarrow> (string \<Rightarrow> int) \<Rightarrow> char \<Rightarrow> string \<Rightarrow> cload \<Rightarrow> cload option" where
  "conf_line m cm modload before buf st =
     (case conf_strip before buf of
        None \<Rightarrow> None
      | Some None \<Rightarrow> Some st
      | Some (Some skip) \<Rightarrow> conf_text m cm modload skip st)"

section \<open>Loading\<close>

text \<open>\<open>content\<close> is what the file holds, \<open>None\<close> when \<open>fopen\<close> fails; then \<open>fclose(NULL)\<close> is called.\<close>
definition dconf_load ::
  "denv \<Rightarrow> bool \<Rightarrow> (string \<Rightarrow> int) \<Rightarrow> char \<Rightarrow> string option \<Rightarrow> cload option" where
  "dconf_load m cm modload before content =
     (case content of
        None \<Rightarrow> None
      | Some s \<Rightarrow>
          fold_opt (conf_line m cm modload before) (file_lines s)
            \<lparr>cl_dict = dict_new m, cl_section = None, cl_comment = False, cl_errors = 0, cl_warnings = 0,
             cl_modules = []\<rparr>)"

section \<open>Writing\<close>

text \<open>
  The environment of \<open>dconf_write\<close>: whether \<open>fopen\<close> succeeds, whether \<open>errno\<close> is then non-zero, which
  \<open>fprintf\<close> calls succeed, and the text of \<open>ctime\<close>.
\<close>
record wenv =
  we_fopen :: bool
  we_errno :: bool
  we_put :: "string \<Rightarrow> bool"
  we_ctime :: string

text \<open>What is left on disk: the text written to FILE.auto, and whether it was renamed to FILE.\<close>
record wfile =
  wf_text :: string
  wf_renamed :: bool

definition conf_header :: "string \<Rightarrow> string" where
  "conf_header t = ''# This configuration file automatically saved on '' @ t @ [c_nl]"

definition conf_errors_line :: "nat \<Rightarrow> string" where
  "conf_errors_line n = ''# Saved with '' @ show_nat n @
     '' errors, please review before using, autorename disabled'' @ [c_nl]"

text \<open>\<open>mods\<close>: whether the global \<open>Modules\<close> is non-NULL; then \<open>mp->name\<close> is read with \<open>mp\<close> NULL.\<close>
definition dconf_write ::
  "bool \<Rightarrow> bool \<Rightarrow> wenv \<Rightarrow> slotkey \<Rightarrow> dict option \<Rightarrow> (bool \<times> wfile option) option" where
  "dconf_write cm mods e past cp =
     (if \<not> we_fopen e \<or> we_errno e then Some (False, None)
      else let head = [conf_header (we_ctime e), ''[general]'' @ [c_nl]];
               errors = length (filter (\<lambda>l. \<not> we_put e l) head)
        in (case dict_dump (we_put e) past cp of
              None \<Rightarrow> None
            | Some (ls, errs) \<Rightarrow>
                if cm \<and> mods then None
                else let text = concat (filter (we_put e) head) @ concat ls in
                  Some (True, Some \<lparr>wf_text = text @ (if 0 < errors \<and> we_put e (conf_errors_line errors)
                                                   then conf_errors_line errors else []),
                                    wf_renamed = (errors = 0)\<rparr>)))"

section \<open>Getters and setters\<close>

definition dconf_get_str :: "dict option \<Rightarrow> string option \<Rightarrow> string option \<Rightarrow> string option option" where
  "dconf_get_str cd key def = (if cd = None \<or> key = None then Some None else dict_get cd key def)"

definition dconf_get_bool :: "dict option \<Rightarrow> string option \<Rightarrow> int \<Rightarrow> int option" where
  "dconf_get_bool cd key def =
     (case dconf_get_str cd key None of
        None \<Rightarrow> None
      | Some None \<Rightarrow> Some def
      | Some (Some s) \<Rightarrow>
          Some (if strcaseeq s ''true'' \<or> strcaseeq s ''on'' \<or> strcaseeq s ''yes'' \<or> int_of_long (strtol_val s) = 1
                then 1 else 0))"

definition dconf_get_int :: "dict option \<Rightarrow> string option \<Rightarrow> int \<Rightarrow> int option" where
  "dconf_get_int cd key def =
     (case dconf_get_str cd key None of
        None \<Rightarrow> None
      | Some None \<Rightarrow> Some def
      | Some (Some s) \<Rightarrow> Some (int_of_long (strtol_val s)))"

definition dconf_get_time :: "dict option \<Rightarrow> string option \<Rightarrow> int \<Rightarrow> int option" where
  "dconf_get_time cd key def =
     (case dconf_get_str cd key None of None \<Rightarrow> None | Some s \<Rightarrow> timestr_to_time s def)"

definition dconf_set :: "denv \<Rightarrow> dict option \<Rightarrow> string option \<Rightarrow> string option \<Rightarrow> (int \<times> dict option) option" where
  "dconf_set m cd key val = dict_add m cd key val"

definition dconf_unset :: "dict option \<Rightarrow> string option \<Rightarrow> dict option option" where
  "dconf_unset cd key = map_option snd (dict_del cd key)"

definition dconf_init :: "denv \<Rightarrow> bool \<Rightarrow> (string \<Rightarrow> int) \<Rightarrow> char \<Rightarrow> string option \<Rightarrow> dict option option" where
  "dconf_init m cm modload before content = map_option cl_dict (dconf_load m cm modload before content)"

text \<open>\<open>dconf_fini\<close>: the strings freed, and \<open>conf.dict\<close> set to NULL.\<close>
definition dconf_fini :: "dict option \<Rightarrow> (string list \<times> dict option) option" where
  "dconf_fini cd = map_option (\<lambda>freed. (freed, None)) (dict_free cd)"

end
