(* ===== verification/ConfOps.thy ===== *)
theory ConfOps
  imports Conf DictOps
begin

text \<open>
  Properties of the configuration files: what the parser makes of a file, the round trip through
  \<open>dconf_write\<close> and \<open>dconf_load\<close>, and the typed getters. The loader fills its dictionary through the key/value
  interface of KVStore.
\<close>

section \<open>Lines\<close>

lemma file_lines_nl:
  assumes "c_nl \<notin> set l" "length l < FGETS_MAX"
  shows "file_lines (l @ c_nl # s) = (l @ [c_nl]) # file_lines s"
proof -
  have "takeWhile (\<lambda>c. c \<noteq> c_nl) (l @ c_nl # s) = l" using assms(1) by (simp add: takeWhile_append)
  then have "fgets_chunk (l @ c_nl # s) = l @ [c_nl]"
    using assms(2) by (simp add: fgets_chunk_def Let_def)
  then show ?thesis by (simp add: file_lines.simps [of "l @ c_nl # s"] Let_def)
qed

lemma file_lines_Nil [simp]: "file_lines [] = [[]]"
  by (simp add: file_lines.simps)

lemma file_lines_concat:
  "\<forall>l \<in> set ls. c_nl \<notin> set l \<and> length l < FGETS_MAX \<Longrightarrow>
     file_lines (concat (map (\<lambda>l. l @ [c_nl]) ls)) = map (\<lambda>l. l @ [c_nl]) ls @ [[]]"
  by (induction ls) (simp_all add: file_lines_nl)

section \<open>Stripping\<close>

definition trim :: "string \<Rightarrow> string" where
  "trim s = rev (dropWhile is_trailer (rev s))"

lemma trim_keep: "\<not> is_trailer c \<Longrightarrow> trim (a @ c # b) = a @ c # trim b"
proof -
  assume "\<not> is_trailer c"
  then show ?thesis
    by (cases "\<forall>x \<in> set (rev b). is_trailer x") (auto simp: trim_def dropWhile_append1 dropWhile_append3)
qed

lemma trim_Nil [simp]: "trim [] = []"
  by (simp add: trim_def)

lemma trim_trailer: "is_trailer c \<Longrightarrow> trim (s @ [c]) = trim s"
  by (simp add: trim_def)

lemma conf_strip_trim:
  "c_nul \<notin> set buf \<Longrightarrow> conf_strip before buf =
     (let skip = length (takeWhile (\<lambda>c. c = CHR '' '') buf) in
      if trim buf = [] \<and> is_trailer before then None
      else if length (trim buf) - 1 \<le> skip then Some None else Some (Some (drop skip (trim buf))))"
proof -
  assume "c_nul \<notin> set buf"
  then have "takeWhile (\<lambda>c. c \<noteq> c_nul) buf = buf" by (auto simp: takeWhile_eq_all_conv)
  then show ?thesis by (simp only: conf_strip_def trim_def Let_def)
qed

text \<open>A line that starts and ends with visible characters is left as it is, without its newline.\<close>

lemma conf_strip_line:
  assumes "c_nul \<notin> set (a # l)" "a \<noteq> CHR '' ''" "l \<noteq> []" "\<not> is_trailer (last l)"
  shows "conf_strip before (a # l @ [c_nl]) = Some (Some (a # l))"
proof -
  have "is_trailer c_nl" by (simp add: is_trailer_def)
  moreover have "trim (a # l) = a # l"
  proof -
    have "a # l = (a # butlast l) @ last l # []" using assms(3) by simp
    then show ?thesis using trim_keep [OF assms(4), of "a # butlast l" "[]"] by simp
  qed
  ultimately have "trim (a # l @ [c_nl]) = a # l" using trim_trailer [of c_nl "a # l"] by simp
  moreover have "c_nul \<notin> set (a # l @ [c_nl])" using assms(1) by (simp add: c_nul_def c_nl_def)
  ultimately show ?thesis using assms(2,3) by (simp add: conf_strip_trim Let_def not_less_eq_eq)
qed

lemma conf_line_blank: "\<not> is_trailer before \<Longrightarrow> conf_line m cm f before [c_nl] st = Some st"
  "\<not> is_trailer before \<Longrightarrow> conf_line m cm f before [] st = Some st"
  by (simp_all add: conf_line_def conf_strip_def Let_def is_trailer_def c_nl_def c_nul_def)

lemma conf_line_comment:
  assumes "c_nul \<notin> set l" "l \<noteq> []" "\<not> is_trailer (last l)"
  shows "conf_line m cm f before (CHR ''#'' # l @ [c_nl]) st = Some st"
proof -
  have "c_nul \<notin> set (CHR ''#'' # l)" using assms(1) by (simp add: c_nul_def)
  from conf_strip_line [OF this _ assms(2,3), of before] show ?thesis
    using assms(2) by (cases l) (auto simp: conf_line_def conf_text_def)
qed

section \<open>Entries\<close>

text \<open>What a key and a value may be made of, to be read back.\<close>

definition conf_char :: "char \<Rightarrow> bool" where
  "conf_char c \<longleftrightarrow> c \<notin> {CHR '' '', CHR ''='', c_nl, c_cr, c_nul}"

definition conf_word :: "string \<Rightarrow> bool" where
  "conf_word w \<longleftrightarrow> w \<noteq> [] \<and> (\<forall>c \<in> set w. conf_char c)"

definition conf_key :: "string \<Rightarrow> bool" where
  "conf_key w \<longleftrightarrow> conf_word w \<and> hd w \<notin> set '';#[@/*''"

definition conf_pair :: "string \<times> string option \<Rightarrow> bool" where
  "conf_pair kv \<longleftrightarrow> (case kv of (k, None) \<Rightarrow> False
     | (k, Some v) \<Rightarrow> conf_key k \<and> conf_word v \<and> length k + length v < 765)"

definition pair_text :: "string \<times> string option \<Rightarrow> string" where
  "pair_text kv = fst kv @ ''='' @ (case snd kv of None \<Rightarrow> ''UNDEF'' | Some v \<Rightarrow> v)"

lemma strtok_word:
  assumes "w \<noteq> []" "\<forall>c \<in> set w. c \<notin> set ds" "r = [] \<or> hd r \<in> set ds"
  shows "strtok ds (w @ r) = Some (w, drop 1 r)"
proof -
  have "dropWhile (\<lambda>c. c \<in> set ds) (w @ r) = w @ r" using assms(1,2) by (cases w) auto
  moreover have "takeWhile (\<lambda>c. c \<notin> set ds) (w @ r) = w" "dropWhile (\<lambda>c. c \<notin> set ds) (w @ r) = r"
    using assms(2,3) by (cases r; simp add: takeWhile_append dropWhile_append)+
  ultimately show ?thesis using assms(1) by (simp add: strtok_def Let_def)
qed

lemma conf_word_delims: "conf_word w \<Longrightarrow> c \<in> set w \<Longrightarrow> c \<notin> set CONF_DELIMS"
  by (auto simp: conf_word_def conf_char_def CONF_DELIMS_def)

lemma strtok_pair:
  assumes "conf_word k" "conf_word v"
  shows "strtok CONF_DELIMS (k @ CHR ''='' # v) = Some (k, v)"
    "strtok_next (Some (k, v)) = Some v"
proof -
  have ne: "k \<noteq> []" "v \<noteq> []" using assms by (auto simp: conf_word_def)
  show "strtok CONF_DELIMS (k @ CHR ''='' # v) = Some (k, v)"
    using strtok_word [OF ne(1), of CONF_DELIMS "CHR ''='' # v"] conf_word_delims [OF assms(1)]
    by (simp add: CONF_DELIMS_def)
  show "strtok_next (Some (k, v)) = Some v"
    using strtok_word [OF ne(2), of CONF_DELIMS "[]"] conf_word_delims [OF assms(2)]
    by (simp add: strtok_next_def)
qed

lemma conf_line_pair:
  assumes kv: "conf_pair kv" and st: "cl_section st = Some ''general''" "\<not> cl_comment st" "cl_dict st = Some d"
    and put: "dict_put m kv d = Some d'"
  shows "conf_line m cm f before (pair_text kv @ [c_nl]) st = Some (st\<lparr>cl_dict := Some d'\<rparr>)"
proof -
  obtain k v where k: "kv = (k, Some v)" "conf_key k" "conf_word v"
    using kv by (auto simp: conf_pair_def split: prod.splits option.splits)
  then obtain a k' where a: "k = a # k'" "conf_char a" "a \<notin> set '';#[@/*''" "conf_word k"
    by (cases k) (auto simp: conf_key_def conf_word_def)
  let ?l = "k' @ CHR ''='' # v"
  have v: "v \<noteq> []" "conf_char (last v)" using k(3) by (auto simp: conf_word_def)
  have "c_nul \<notin> set (a # ?l)" using a k(3) by (auto simp: conf_word_def conf_char_def c_nul_def)
  moreover have "\<not> is_trailer (last ?l)" using v by (simp add: conf_char_def is_trailer_def)
  ultimately have strip: "conf_strip before (pair_text kv @ [c_nl]) = Some (Some (a # ?l))"
    using conf_strip_line [of a ?l before] a(2) k(1) a(1) by (simp add: pair_text_def conf_char_def)
  obtain b l where bl: "?l = b # l" by (cases ?l) auto
  have hd: "a \<noteq> CHR '';''" "a \<noteq> CHR ''#''" "a \<noteq> CHR ''[''" "a \<noteq> CHR ''@''" "a \<noteq> CHR ''/''" "a \<noteq> CHR ''*''"
    using a(3) by auto
  have "c_tolower a \<noteq> CHR ''@''"
  proof
    assume "c_tolower a = CHR ''@''"
    then show False using hd(4) by (auto simp: c_tolower_def c_isupper_def split: if_splits dest: arg_cong [of _ _ "of_char :: char \<Rightarrow> nat"])
  qed
  then have "\<not> strncaseeq (a # ?l) ''@END'' 4"
    by (simp add: strncaseeq_def c_tolower_def [of "CHR ''@''"] c_isupper_def)
  moreover have "dict_add m (Some d) (Some k) (Some v) = Some (0, Some d')"
    using put k(1) by (auto simp: dict_put_def split: option.splits prod.splits if_splits)
  moreover have "strtok CONF_DELIMS (a # ?l) = Some (k, v)" using strtok_pair(1) [OF a(4) k(3)] a(1) by simp
  moreover have "strncaseeq ''general'' ''general'' 7" by (simp add: strncaseeq_def)
  ultimately show ?thesis
    using strip st strtok_pair(2) [OF a(4) k(3)] hd bl
    by (simp add: conf_line_def conf_text_def conf_entry_def)
qed

text \<open>The lines of a [general] section go into the dictionary one after the other.\<close>

lemma conf_general_fold:
  "\<forall>kv \<in> set kvs. conf_pair kv \<Longrightarrow> cl_section st = Some ''general'' \<Longrightarrow> \<not> cl_comment st \<Longrightarrow>
   cl_dict st = Some d \<Longrightarrow> fold_opt (dict_put m) kvs d = Some d' \<Longrightarrow>
     fold_opt (conf_line m cm f before) (map (\<lambda>kv. pair_text kv @ [c_nl]) kvs) st = Some (st\<lparr>cl_dict := Some d'\<rparr>)"
proof (induction kvs arbitrary: st d)
  case Nil
  then show ?case by (cases st) simp
next
  case (Cons kv kvs)
  then obtain d1 where d1: "dict_put m kv d = Some d1" "fold_opt (dict_put m) kvs d1 = Some d'"
    by (auto split: option.splits)
  have "conf_line m cm f before (pair_text kv @ [c_nl]) st = Some (st\<lparr>cl_dict := Some d1\<rparr>)"
    by (rule conf_line_pair) (use Cons.prems d1 in auto)
  moreover have "fold_opt (conf_line m cm f before) (map (\<lambda>kv. pair_text kv @ [c_nl]) kvs) (st\<lparr>cl_dict := Some d1\<rparr>) =
      Some (st\<lparr>cl_dict := Some d1\<rparr>\<lparr>cl_dict := Some d'\<rparr>)"
    by (rule Cons.IH) (use Cons.prems d1 in auto)
  ultimately show ?case by simp
qed

definition clean_load :: "dict \<Rightarrow> cload \<Rightarrow> bool" where
  "clean_load d st \<longleftrightarrow> cl_dict st = Some d \<and> cl_warnings st = 0 \<and> cl_errors st = 0"

text \<open>The first line of a written file: the comment with the time.\<close>
definition ctime_ok :: "string \<Rightarrow> bool" where
  "ctime_ok t \<longleftrightarrow> t \<noteq> [] \<and> (\<forall>c \<in> set t. c \<noteq> c_nul \<and> c \<noteq> c_nl) \<and> \<not> is_trailer (last t) \<and> length t \<le> 100"

text \<open>The lines of the file \<open>dconf_write\<close> leaves; \<open>ctime\<close> ends its text with a newline of its own.\<close>
definition conf_lines :: "string \<Rightarrow> (string \<times> string option) list \<Rightarrow> string list" where
  "conf_lines t kvs = [''# This configuration file automatically saved on '' @ t, [], ''[general]''] @ map pair_text kvs"

lemma pair_text_line: "conf_pair kv \<Longrightarrow> c_nl \<notin> set (pair_text kv) \<and> length (pair_text kv) < FGETS_MAX"
  by (auto simp: conf_pair_def pair_text_def conf_key_def conf_word_def conf_char_def c_nl_def FGETS_MAX_def
      split: prod.splits option.splits)

lemma dconf_load_lines:
  assumes t: "ctime_ok t" and kvs: "\<forall>kv \<in> set kvs. conf_pair kv" and before: "\<not> is_trailer before"
    and fill: "fold_opt (dict_put m) kvs fresh_dict = Some d" and new: "dict_new m = Some fresh_dict"
  shows "\<exists>st. dconf_load m cm f before (Some (concat (map (\<lambda>l. l @ [c_nl]) (conf_lines t kvs)))) = Some st \<and> clean_load d st"
proof -
  let ?hdr = "''# This configuration file automatically saved on '' @ t"
  let ?ini = "\<lparr>cl_dict = Some fresh_dict, cl_section = None, cl_comment = False, cl_errors = 0, cl_warnings = 0, cl_modules = []\<rparr>"
  let ?st = "?ini\<lparr>cl_section := Some ''general''\<rparr>"
  have "\<forall>l \<in> set (conf_lines t kvs). c_nl \<notin> set l \<and> length l < FGETS_MAX"
    using t kvs pair_text_line by (auto simp: conf_lines_def ctime_ok_def FGETS_MAX_def c_nl_def)
  then have lines: "file_lines (concat (map (\<lambda>l. l @ [c_nl]) (conf_lines t kvs))) =
      map (\<lambda>l. l @ [c_nl]) (conf_lines t kvs) @ [[]]" by (rule file_lines_concat)
  have 1: "conf_line m cm f before (?hdr @ [c_nl]) st = Some st" for st
  proof -
    let ?l = "'' This configuration file automatically saved on '' @ t"
    have "c_nul \<notin> set ?l" "?l \<noteq> []" "\<not> is_trailer (last ?l)" using t by (auto simp: ctime_ok_def c_nul_def)
    from conf_line_comment [OF this] show ?thesis by simp
  qed
  have strip: "conf_strip before (''[general]'' @ [c_nl]) = Some (Some ''[general]'')"
    using conf_strip_line [of "CHR ''[''" "''general]''" before] by (simp add: c_nul_def is_trailer_def c_nl_def c_cr_def)
  have 2: "conf_line m cm f before (''[general]'' @ [c_nl]) ?ini = Some ?st"
    unfolding conf_line_def strip by (simp add: conf_text_def)
  have 3: "fold_opt (conf_line m cm f before) (map (\<lambda>kv. pair_text kv @ [c_nl]) kvs) ?st = Some (?st\<lparr>cl_dict := Some d\<rparr>)"
    by (rule conf_general_fold [OF kvs _ _ _ fill]) simp_all
  have "dconf_load m cm f before (Some (concat (map (\<lambda>l. l @ [c_nl]) (conf_lines t kvs)))) = Some (?st\<lparr>cl_dict := Some d\<rparr>)"
  proof -
    have "fold_opt (conf_line m cm f before) (map (\<lambda>l. l @ [c_nl]) (conf_lines t kvs) @ [[]]) ?ini = Some (?st\<lparr>cl_dict := Some d\<rparr>)"
      unfolding conf_lines_def map_append list.map fold_opt_append fold_opt.simps 1 2 option.case append_Nil
        conf_line_blank [OF before] map_map comp_def 3 by simp
    then show ?thesis unfolding dconf_load_def option.case lines new .
  qed
  then show ?thesis by (simp add: clean_load_def)
qed

section \<open>Writing and reading back\<close>

lemma foldl_map_put_distinct:
  "distinct (map fst kvs) \<Longrightarrow> foldl map_put f kvs k = (case map_of kvs k of Some (Some v) \<Rightarrow> Some v | _ \<Rightarrow> f k)"
proof (induction kvs arbitrary: f)
  case (Cons kv kvs)
  obtain k' v where kv: "kv = (k', v)" by (cases kv)
  show ?case
  proof (cases "k = k'")
    case True
    then have "k \<notin> fst ` set kvs" using Cons.prems kv by auto
    then show ?thesis using foldl_map_put_other [of k kvs "map_put f kv"] kv True
      by (cases v) (simp_all add: kv)
  next
    case False
    then have "map_put f (k', v) k = f k" by (cases v) auto
    then show ?thesis using Cons.IH [of "map_put f (k', v)"] Cons.prems False unfolding kv
      by (simp split: option.split)
  qed
qed simp

text \<open>
  C1. Writing a configuration and loading it again gives the same configuration: for a well-formed
  dictionary with values, whose keys and values are free of the characters the format uses, \<open>dconf_write\<close>
  (all output succeeding) reports success, renames the file into place, and \<open>dconf_load\<close> of what was written
  ends without errors or warnings in a dictionary in which \<open>dconf_get_str\<close> finds exactly the old values.
\<close>
theorem conf_roundtrip:
  assumes "table_ok d" "\<forall>kv \<in> set (entries (d_table d)). conf_pair kv" "length (entries (d_table d)) \<le> DICT_CAP"
    "ctime_ok t" "\<not> is_trailer before"
  shows "\<exists>text d' st.
    dconf_write cm False \<lparr>we_fopen = True, we_errno = False, we_put = (\<lambda>_. True), we_ctime = t @ [c_nl]\<rparr> past (Some d) =
      Some (True, Some \<lparr>wf_text = text, wf_renamed = True\<rparr>) \<and>
    dconf_load (env0 tm) cm f before (Some text) = Some st \<and> clean_load d' st \<and>
    (\<forall>k def. dconf_get_str (Some d') (Some k) def = Some (dict_val d k))"
proof -
  let ?kvs = "entries (d_table d)"
  let ?text = "concat (map (\<lambda>l. l @ [c_nl]) (conf_lines t ?kvs))"
  have "dict_room (length ?kvs + 0) fresh_dict" using assms(3) by (simp add: fresh_room)
  from dkv.ins_all [OF this, of tm] obtain d' where fill: "fold_opt (dict_put (env0 tm)) ?kvs fresh_dict = Some d'"
    and room: "dict_room 0 d'" and val: "dict_val d' = foldl map_put Map.empty ?kvs" by (auto simp: fresh_val)
  from dconf_load_lines [OF assms(4,2,5) fill dict_new_ok [OF env0_ok], of cm f] obtain st where
    st: "dconf_load (env0 tm) cm f before (Some ?text) = Some st" "clean_load d' st" by blast
  have dump: "dict_dump (\<lambda>_. True) past (Some d) = Some (entry_lines (d_table d), 0)"
    using dump_loop_run [OF assms(1), of 0 "unat (d_size d) + 1" "\<lambda>_. True" past 0] size_unat [OF assms(1)]
    by (simp add: dict_dump_def)
  have "entry_lines (d_table d) = map (\<lambda>kv. pair_text kv @ [c_nl]) ?kvs"
    using assms(2) unfolding entry_lines_def
    by (intro map_cong refl) (auto simp: pair_text_def dump_line_def split: option.split)
  then have "dconf_write cm False \<lparr>we_fopen = True, we_errno = False, we_put = (\<lambda>_. True), we_ctime = t @ [c_nl]\<rparr> past (Some d) =
      Some (True, Some \<lparr>wf_text = ?text, wf_renamed = True\<rparr>)"
    by (simp add: dconf_write_def dump conf_lines_def conf_header_def comp_def Let_def)
  moreover have "dict_val d' k = dict_val d k" for k
  proof -
    have "v \<noteq> None" if "map_of ?kvs k = Some v" for v
      using assms(2) map_of_SomeD [OF that] by (cases v) (auto simp: conf_pair_def)
    then show ?thesis
      using foldl_map_put_distinct [OF entries_distinct [OF assms(1)], of Map.empty k] val
      by (auto simp: dict_val_def dict_abs_entries split: option.splits)
  qed
  then have "\<forall>k def. dconf_get_str (Some d') (Some k) def = Some (dict_val d k)"
    using dict_room_get [OF room] by (simp add: dconf_get_str_def)
  ultimately show ?thesis using st by blast
qed

lemma one_key_entries: "entries (d_table one_key) = [(''k'', Some ''v'')]"
proof -
  let ?e = "entries (d_table one_key)"
  have "fst ` set ?e = dom (map_of ?e)" by (simp add: dom_map_of_conv_image_fst)
  then have "set (map fst ?e) = {''k''}" using one_key_ok(2) by (simp add: dict_abs_entries)
  then have "card (set (map fst ?e)) = 1" by simp
  then have "length ?e = 1" using distinct_card [OF entries_distinct [OF one_key_ok(1)]] by simp
  then obtain k v where e: "entries (d_table one_key) = [(k, v)]" by (cases "entries (d_table one_key)") auto
  then have "[k \<mapsto> v] = [''k'' \<mapsto> Some ''v'']" using one_key_ok(2) by (simp add: dict_abs_entries)
  then have "k = ''k'' \<and> v = Some ''v''" by (metis fun_upd_apply option.distinct(1) option.inject)
  then show ?thesis using e by simp
qed

theorem conf_roundtrip_witness:
  "\<exists>text d' st.
    dconf_write True False \<lparr>we_fopen = True, we_errno = False, we_put = (\<lambda>_. True), we_ctime = ''Mon'' @ [c_nl]\<rparr> KNull (Some one_key) =
      Some (True, Some \<lparr>wf_text = text, wf_renamed = True\<rparr>) \<and>
    dconf_load (env0 1) True (\<lambda>_. 0) (CHR ''x'') (Some text) = Some st \<and> clean_load d' st \<and>
    dconf_get_str (Some d') (Some ''k'') None = Some (Some ''v'')"
proof -
  have 1: "\<forall>kv \<in> set (entries (d_table one_key)). conf_pair kv"
    by (simp add: one_key_entries conf_pair_def conf_key_def conf_word_def conf_char_def c_nl_def c_cr_def c_nul_def)
  have 2: "length (entries (d_table one_key)) \<le> DICT_CAP" by (simp add: one_key_entries DICT_CAP_def)
  have 3: "ctime_ok ''Mon''" by (simp add: ctime_ok_def is_trailer_def c_nl_def c_cr_def c_nul_def)
  have 4: "\<not> is_trailer (CHR ''x'')" by (simp add: is_trailer_def c_nl_def c_cr_def)
  have "dict_val one_key ''k'' = Some ''v''" by (simp add: dict_val_def one_key_ok(2))
  with conf_roundtrip [OF one_key_ok(1) 1 2 3 4, of True KNull 1 "\<lambda>_. 0"] show ?thesis by fastforce
qed

section \<open>Loading any file\<close>

lemma dict_room_less:
  assumes "dict_room (Suc n) d"
  shows "dict_room n d"
proof -
  obtain c a where "grown d c" "c \<le> a" "length (d_table d) \<le> max 8 (8 * a)" "a + Suc n \<le> DICT_CAP"
    using assms by (auto simp: dict_room_def)
  then show ?thesis unfolding dict_room_def by (intro exI [of _ c] exI [of _ a]) simp
qed

lemma dict_put_add:
  "dict_put m (k, v) d = Some d' \<Longrightarrow> dict_add m (Some d) (Some k) v = Some (0, Some d')"
  by (auto simp: dict_put_def split: option.splits prod.splits if_splits)

text \<open>What every line keeps: a dictionary with room for the lines to come.\<close>
definition load_inv :: "nat \<Rightarrow> cload \<Rightarrow> bool" where
  "load_inv n st \<longleftrightarrow> (\<exists>d. cl_dict st = Some d \<and> dict_room n d)"

lemma load_inv_other [simp]:
  "load_inv n (st\<lparr>cl_section := s\<rparr>) = load_inv n st" "load_inv n (st\<lparr>cl_comment := b\<rparr>) = load_inv n st"
  "load_inv n (st\<lparr>cl_modules := ms, cl_errors := i\<rparr>) = load_inv n st" "load_inv n (warn st) = load_inv n st"
  by (simp_all add: load_inv_def warn_def)

lemma load_inv_less: "load_inv (Suc n) st \<Longrightarrow> load_inv n st"
  using dict_room_less by (auto simp: load_inv_def)

text \<open>A key is used without a test in a language section only.\<close>
definition in_language :: "string option \<Rightarrow> bool" where
  "in_language sec \<longleftrightarrow> (case sec of None \<Rightarrow> False | Some s \<Rightarrow> strncaseeq s ''language'' 8)"

lemma in_language_None [simp]: "\<not> in_language None"
  by (simp add: in_language_def)

lemma cl_section_warn [simp]: "cl_section (warn st) = cl_section st"
  by (simp add: warn_def)

definition opens_language :: "string \<Rightarrow> bool" where
  "opens_language t \<longleftrightarrow> hd t = CHR ''['' \<and> last t = CHR '']'' \<and> in_language (Some (butlast (drop 1 t)))"

lemma conf_entry_total:
  assumes "load_inv (Suc n) st" "strtok CONF_DELIMS skip \<noteq> None \<or> \<not> in_language (Some sec)"
  shows "\<exists>st'. conf_entry (env0 tm) cm f sec skip st = Some st' \<and> load_inv n st' \<and> cl_section st' = cl_section st"
proof (cases "strncaseeq sec ''general'' 7")
  case True
  obtain d where d: "cl_dict st = Some d" "dict_room (Suc n) d" using assms by (auto simp: load_inv_def)
  show ?thesis
  proof (cases "strtok CONF_DELIMS skip")
    case None
    then show ?thesis using True d dict_room_less [OF d(2)]
      by (simp add: conf_entry_def dict_add_def dict_add_args_def load_inv_def)
  next
    case (Some kr)
    then obtain k r where kr: "strtok CONF_DELIMS skip = Some (k, r)" by (cases kr) auto
    obtain d' where "dict_put (env0 tm) (k, strtok_next (Some (k, r))) d = Some d'" "dict_room n d'"
      using dict_put_room [OF env0_ok d(2)] by blast
    then show ?thesis using True d kr dict_put_add by (auto simp: conf_entry_def load_inv_def)
  qed
next
  case False
  then show ?thesis using load_inv_less [OF assms(1)] assms(2)
    by (auto simp: conf_entry_def in_language_def split: option.split)
qed

lemma conf_line_total:
  assumes "load_inv (Suc n) st" "conf_strip before l \<noteq> None"
    "\<And>t. conf_strip before l = Some (Some t) \<Longrightarrow> strtok CONF_DELIMS t \<noteq> None \<or> \<not> in_language (cl_section st)"
  shows "\<exists>st'. conf_line (env0 tm) cm f before l st = Some st' \<and> load_inv n st' \<and>
    (in_language (cl_section st') \<longrightarrow> in_language (cl_section st) \<or> (\<exists>t. conf_strip before l = Some (Some t) \<and> opens_language t))"
proof -
  obtain t where Some: "conf_strip before l = Some t" using assms(2) by auto
  show ?thesis
  proof (cases t)
    case None
    then show ?thesis using Some load_inv_less [OF assms(1)] by (simp add: conf_line_def)
  next
    case t: (Some skip)
    let ?st1 = "if take 2 skip = ''/*'' then st\<lparr>cl_comment := True\<rparr> else st"
    have "\<exists>st'. conf_entry (env0 tm) cm f sec skip ?st1 = Some st' \<and> load_inv n st' \<and> cl_section st' = cl_section ?st1"
      if "cl_section st = Some sec" for sec
      by (rule conf_entry_total) (use assms Some t that in auto)
    then show ?thesis using Some t load_inv_less [OF assms(1)]
      by (auto simp: conf_line_def conf_text_def Let_def opens_language_def split: option.split)
  qed
qed

text \<open>
  C9. With memory available, loading a file that can be opened ends with a usable dictionary: whatever it holds (sections, comments, lines
  outside sections, broken lines, lines longer than the buffer), \<open>dconf_load\<close> returns, and every later \<open>dconf_get_str\<close> on the
  dictionary returns. The file has at most 2^23 lines; the scan for white space at the end of a line, which for a blank line reads the byte before the buffer,
  stays in the buffer; and it does not have both a language section and a line of only spaces and equal signs, whose key is NULL
  (see \<open>conf_language_crash\<close>).
\<close>
theorem conf_load_total:
  assumes "length (file_lines s) \<le> DICT_CAP" "\<forall>l \<in> set (file_lines s). conf_strip before l \<noteq> None"
    "(\<forall>l \<in> set (file_lines s). \<forall>t. conf_strip before l = Some (Some t) \<longrightarrow> strtok CONF_DELIMS t \<noteq> None) \<or>
     (\<forall>l \<in> set (file_lines s). \<forall>t. conf_strip before l = Some (Some t) \<longrightarrow> \<not> opens_language t)"
  shows "\<exists>st d. dconf_load (env0 tm) cm f before (Some s) = Some st \<and> cl_dict st = Some d \<and>
    (\<forall>k def. \<exists>v. dconf_get_str (Some d) (Some k) def = Some v)"
proof -
  let ?keys = "\<forall>l \<in> set (file_lines s). \<forall>t. conf_strip before l = Some (Some t) \<longrightarrow> strtok CONF_DELIMS t \<noteq> None"
  have run: "\<exists>st'. fold_opt (conf_line (env0 tm) cm f before) ls st = Some st' \<and> load_inv 0 st'"
    if "load_inv (length ls) st" "set ls \<subseteq> set (file_lines s)" "?keys \<or> \<not> in_language (cl_section st)" for ls st
    using that
  proof (induction ls arbitrary: st)
    case (Cons l ls)
    have "\<exists>st'. conf_line (env0 tm) cm f before l st = Some st' \<and> load_inv (length ls) st' \<and>
      (in_language (cl_section st') \<longrightarrow> in_language (cl_section st) \<or> (\<exists>t. conf_strip before l = Some (Some t) \<and> opens_language t))"
      by (rule conf_line_total) (use Cons.prems assms in auto)
    then obtain st' where st': "conf_line (env0 tm) cm f before l st = Some st'" "load_inv (length ls) st'"
      "in_language (cl_section st') \<longrightarrow> in_language (cl_section st) \<or> (\<exists>t. conf_strip before l = Some (Some t) \<and> opens_language t)"
      by blast
    have "?keys \<or> \<not> in_language (cl_section st')" using st'(3) Cons.prems assms(3) by (meson list.set_intros(1) subsetD)
    then show ?case using Cons.IH [OF st'(2)] Cons.prems(2) st'(1) by auto
  qed simp
  have "load_inv (length (file_lines s)) \<lparr>cl_dict = dict_new (env0 tm), cl_section = None, cl_comment = False,
      cl_errors = 0, cl_warnings = 0, cl_modules = []\<rparr>"
    using fresh_room [OF assms(1)] by (simp add: load_inv_def dict_new_ok)
  from run [OF this] obtain st d where "dconf_load (env0 tm) cm f before (Some s) = Some st"
    "cl_dict st = Some d" "dict_room 0 d" by (auto simp: dconf_load_def load_inv_def in_language_def)
  then show ?thesis using dict_room_get by (auto simp: dconf_get_str_def)
qed

theorem conf_load_total_witness:
  "\<exists>st d. dconf_load (env0 1) True (\<lambda>_. 2) (CHR ''x'') (Some (''[general]'' @ [c_nl] @ ''=='' @ [c_nl] @ ''a=b'')) = Some st \<and>
     cl_dict st = Some d \<and> (\<exists>v. dconf_get_str (Some d) (Some ''a'') None = Some v)"
proof -
  let ?s = "''[general]'' @ [c_nl] @ ''=='' @ [c_nl] @ ''a=b''"
  have fl: "file_lines ?s = [''[general]'' @ [c_nl], ''=='' @ [c_nl], ''a=b'']" by code_simp
  have st: "conf_strip (CHR ''x'') (''[general]'' @ [c_nl]) = Some (Some ''[general]'')"
    "conf_strip (CHR ''x'') (''=='' @ [c_nl]) = Some (Some ''=='')" "conf_strip (CHR ''x'') ''a=b'' = Some (Some ''a=b'')"
    by code_simp+
  have no: "\<not> opens_language ''[general]''" "\<not> opens_language ''==''" "\<not> opens_language ''a=b''" by code_simp+
  have "length (file_lines ?s) \<le> DICT_CAP" by (simp only: fl) (simp add: DICT_CAP_def)
  moreover have "\<forall>l \<in> set (file_lines ?s). conf_strip (CHR ''x'') l \<noteq> None" unfolding fl using st by auto
  moreover have "\<forall>l \<in> set (file_lines ?s). \<forall>t. conf_strip (CHR ''x'') l = Some (Some t) \<longrightarrow> \<not> opens_language t"
    unfolding fl using st no by auto
  ultimately show ?thesis using conf_load_total [of ?s "CHR ''x''" 1 True "\<lambda>_. 2"] by blast
qed

text \<open>In a language section such a line hands NULL to \<open>strncasecmp\<close>.\<close>
lemma conf_language_crash:
  "dconf_load (env0 1) True (\<lambda>_. 2) (CHR ''x'') (Some (''[language]'' @ [c_nl] @ ''=='' @ [c_nl])) = None"
  by code_simp

section \<open>Typed values\<close>

lemma strtol_val_show_int:
  assumes "- (2 ^ 63) < i" "i < 2 ^ 63"
  shows "strtol_val (show_int i) = i"
proof -
  consider "i = 0" | "0 < i" | "i < 0" by linarith
  then show ?thesis
  proof cases
    case 1
    moreover have "strtol_val (show_int 0) = 0" by code_simp
    ultimately show ?thesis by simp
  next
    case 2
    then show ?thesis using strtol_val_show_nat [of "nat i" "[]"] assms by (simp add: show_int_def)
  next
    case 3
    have pos: "strtol_val (show_nat (nat (- i))) = - i"
      using strtol_val_show_nat [of "nat (- i)" "[]"] 3 assms by simp
    let ?n = "nat (- i)"
    obtain d ds where s: "show_nat ?n = digit_char d # ds" "0 < d" "d < 10"
      using hd_show_nat [of ?n] 3 by (cases "show_nat ?n") auto
    have dig: "is_digit 10 (digit_char d)" using s(3) by simp
    have ne0: "digit_char d \<noteq> CHR ''0''"
    proof
      assume "digit_char d = CHR ''0''"
      then have "(of_char (digit_char d) :: nat) = 48" by simp
      then show False using of_char_digit_char [OF s(3)] s(2) by simp
    qed
    have tw: "takeWhile (is_digit 10) (show_nat ?n) = show_nat ?n"
      using show_nat_digits [of ?n] by (simp add: takeWhile_eq_all_conv)
    have base: "strtol_base (show_nat ?n) = (10, show_nat ?n)" using ne0 by (simp add: s strtol_base_def)
    have sign: "strtol_sign (dropWhile c_isspace (CHR ''-'' # show_nat ?n)) = (True, show_nat ?n)"
      by (simp add: c_isspace_def strtol_sign_def)
    have "strtol0 (CHR ''-'' # show_nat ?n) = (i, dropWhile (is_digit 10) (show_nat ?n), False)"
      unfolding strtol0_def sign prod.case base tw Let_def digits_value_show_nat using 3 assms by simp
    then show ?thesis using 3 by (simp add: show_int_def strtol_val_def)
  qed
qed

lemma dconf_set_get:
  assumes "dict_room (Suc n) d"
  obtains d' where "dconf_set (env0 tm) (Some d) (Some k) (Some s) = Some (0, Some d')"
    "dconf_get_str (Some d') (Some k) None = Some (Some s)"
proof -
  obtain d' where d': "dict_put (env0 tm) (k, Some s) d = Some d'" "dict_room n d'" "dict_val d' = map_put (dict_val d) (k, Some s)"
    using dict_put_room [OF env0_ok assms] by blast
  then show ?thesis using dict_put_add [OF d'(1)] dict_room_get [OF d'(2), of k None] that
    by (auto simp: dconf_set_def dconf_get_str_def)
qed

text \<open>
  Values go through the configuration by type: on a dictionary with room, after \<open>dconf_set\<close> of a
  key to the decimal text of a 32-bit integer, to a time string, or to a truth value, the getter of
  that type returns the integer, the time, or the truth value; a key that is not set gives the default.
\<close>
theorem conf_typed_values:
  assumes "dict_room (Suc n) d"
  shows "(\<forall>i def. - (2 ^ 31) \<le> i \<and> i < 2 ^ 31 \<longrightarrow>
      (\<exists>d'. dconf_set (env0 tm) (Some d) (Some k) (Some (show_int i)) = Some (0, Some d') \<and>
        dconf_get_int (Some d') (Some k) def = Some i)) \<and>
    (\<forall>t def. 0 \<le> t \<and> t < 86400 * 2 ^ 31 \<longrightarrow>
      (\<exists>d'. dconf_set (env0 tm) (Some d) (Some k) (Some (time_to_timestr t)) = Some (0, Some d') \<and>
        dconf_get_time (Some d') (Some k) def = Some t)) \<and>
    (\<forall>s def. strcaseeq s ''true'' \<or> strcaseeq s ''on'' \<or> strcaseeq s ''yes'' \<longrightarrow>
      (\<exists>d'. dconf_set (env0 tm) (Some d) (Some k) (Some s) = Some (0, Some d') \<and>
        dconf_get_bool (Some d') (Some k) def = Some 1)) \<and>
    (dict_val d k = None \<longrightarrow> dconf_get_int (Some d) (Some k) j = Some j \<and>
      dconf_get_bool (Some d) (Some k) j = Some j \<and> dconf_get_time (Some d) (Some k) j = Some j)"
proof (intro conjI allI impI)
  note set = dconf_set_get [OF assms, of tm k]
  show "\<exists>d'. dconf_set (env0 tm) (Some d) (Some k) (Some (show_int i)) = Some (0, Some d') \<and>
        dconf_get_int (Some d') (Some k) def = Some i" if i: "- (2 ^ 31) \<le> i \<and> i < 2 ^ 31" for i def
  proof -
    obtain d' where "dconf_set (env0 tm) (Some d) (Some k) (Some (show_int i)) = Some (0, Some d')"
      "dconf_get_str (Some d') (Some k) None = Some (Some (show_int i))" by (rule set)
    moreover have "int_of_long (strtol_val (show_int i)) = i" using i by (simp add: strtol_val_show_int int_of_long_id)
    ultimately show ?thesis by (auto simp: dconf_get_int_def)
  qed
  show "\<exists>d'. dconf_set (env0 tm) (Some d) (Some k) (Some (time_to_timestr t)) = Some (0, Some d') \<and>
        dconf_get_time (Some d') (Some k) def = Some t" if t: "0 \<le> t \<and> t < 86400 * 2 ^ 31" for t def
  proof -
    obtain d' where "dconf_set (env0 tm) (Some d) (Some k) (Some (time_to_timestr t)) = Some (0, Some d')"
      "dconf_get_str (Some d') (Some k) None = Some (Some (time_to_timestr t))" by (rule set)
    then show ?thesis using time_string_inverse [of t def] t by (auto simp: dconf_get_time_def)
  qed
  show "\<exists>d'. dconf_set (env0 tm) (Some d) (Some k) (Some s) = Some (0, Some d') \<and>
        dconf_get_bool (Some d') (Some k) def = Some 1"
    if s: "strcaseeq s ''true'' \<or> strcaseeq s ''on'' \<or> strcaseeq s ''yes''" for s def
  proof -
    obtain d' where "dconf_set (env0 tm) (Some d) (Some k) (Some s) = Some (0, Some d')"
      "dconf_get_str (Some d') (Some k) None = Some (Some s)" by (rule set)
    then show ?thesis using s by (auto simp: dconf_get_bool_def)
  qed
  assume "dict_val d k = None"
  then have "dconf_get_str (Some d) (Some k) None = Some None"
    using dict_room_get [OF assms, of k None] by (simp add: dconf_get_str_def)
  then show "dconf_get_int (Some d) (Some k) j = Some j" "dconf_get_bool (Some d) (Some k) j = Some j"
    "dconf_get_time (Some d) (Some k) j = Some j"
    by (simp_all add: dconf_get_int_def dconf_get_bool_def dconf_get_time_def timestr_to_time_def)
qed

theorem conf_typed_values_witness:
  "\<exists>d'. dconf_set (env0 1) (Some fresh_dict) (Some ''tuning.timer.global_gc'') (Some (time_to_timestr 90)) = Some (0, Some d') \<and>
     dconf_get_time (Some d') (Some ''tuning.timer.global_gc'') 60 = Some 90"
proof -
  have "dict_room (Suc 0) fresh_dict" by (rule fresh_room) (simp add: DICT_CAP_def)
  from conf_typed_values [OF this, of 1 "''tuning.timer.global_gc''"] show ?thesis by simp
qed

end
