(* ===== verification/Llist.thy ===== *)
theory Llist
  imports DlinkSeq
begin

text \<open>
  The list of lsd/list.c and lsd/list.h, and the module registry of src/module.c that is kept on one. A
  \<open>linked_node\<close> has the three pointers of a \<open>dlink_node\<close>, so the store of Dlink is used again; \<open>free\<close> takes the
  node out of the store. \<open>list_add\<close> copies the data into new memory: \<open>node\<close> and \<open>copy\<close> are the two addresses
  \<open>mem_alloc\<close> returns. \<open>None\<close> as a result: a NULL pointer is used (\<open>mem_alloc\<close> clears the memory
  it failed to get, and asserts that what it frees is not NULL).
\<close>

section \<open>Lists and iterators\<close>

record llist =
  ll_length :: int
  ll_first :: ptr
  ll_last :: ptr

record list_iter =
  it_current :: ptr
  it_started :: bool

definition LIST_FRONT :: int where "LIST_FRONT = 0"
definition LIST_BACK :: int where "LIST_BACK = 1"

definition create_list :: "ptr \<Rightarrow> llist option" where
  "create_list mem =
     (case mem of None \<Rightarrow> None | Some a \<Rightarrow> Some \<lparr>ll_length = 0, ll_first = None, ll_last = None\<rparr>)"

text \<open>The iterator; NULL when \<open>init\<close> is neither FRONT nor BACK.\<close>
definition list_iterator :: "ptr \<Rightarrow> llist \<Rightarrow> int \<Rightarrow> list_iter option option" where
  "list_iterator mem l init =
     (case mem of
        None \<Rightarrow> None
      | Some a \<Rightarrow>
          if init = LIST_FRONT then Some (Some \<lparr>it_current = ll_first l, it_started = False\<rparr>)
          else if init = LIST_BACK then Some (Some \<lparr>it_current = ll_last l, it_started = False\<rparr>)
          else Some None)"

definition list_add :: "ptr \<Rightarrow> ptr \<Rightarrow> nheap \<Rightarrow> llist \<Rightarrow> (nheap \<times> llist) option" where
  "list_add node copy h l =
     (case (node, copy) of
        (Some n, Some c) \<Rightarrow>
          let h1 = h(n \<mapsto> \<lparr>n_data = copy, n_next = None, n_prev = None\<rparr>) in
          if ll_first l = None
          then Some (h1, l\<lparr>ll_first := node, ll_last := node, ll_length := ll_length l + 1\<rparr>)
          else do { h2 \<leftarrow> store h1 (ll_last l) (set_next node);
                    h3 \<leftarrow> store h2 node (set_prev (ll_last l));
                    h4 \<leftarrow> store h3 node (set_next None);
                    Some (h4, l\<lparr>ll_last := node, ll_length := ll_length l + 1\<rparr>) }
      | _ \<Rightarrow> None)"

definition list_current :: "nheap \<Rightarrow> list_iter \<Rightarrow> ptr option" where
  "list_current h it =
     (if it_started it \<and> it_current it \<noteq> None then map_option n_data (load h (it_current it)) else Some None)"

definition list_next :: "nheap \<Rightarrow> list_iter \<Rightarrow> (ptr \<times> list_iter) option" where
  "list_next h it =
     (if it_current it = None then Some (None, it)
      else do { nd \<leftarrow> load h (it_current it);
                if \<not> it_started it then Some (n_data nd, it\<lparr>it_started := True\<rparr>)
                else let it' = it\<lparr>it_current := n_next nd\<rparr> in map_option (\<lambda>d. (d, it')) (list_current h it') })"

definition list_prev :: "nheap \<Rightarrow> list_iter \<Rightarrow> (ptr \<times> list_iter) option" where
  "list_prev h it =
     (if it_current it = None then Some (None, it)
      else do { nd \<leftarrow> load h (it_current it);
                if \<not> it_started it then Some (n_data nd, it\<lparr>it_started := True\<rparr>)
                else let it' = it\<lparr>it_current := n_prev nd\<rparr> in map_option (\<lambda>d. (d, it')) (list_current h it') })"

definition list_first :: "nheap \<Rightarrow> llist \<Rightarrow> ptr option" where
  "list_first h l = map_option n_data (load h (ll_first l))"

definition list_last :: "nheap \<Rightarrow> llist \<Rightarrow> ptr option" where
  "list_last h l = map_option n_data (load h (ll_last l))"

definition free_node_at :: "nat \<Rightarrow> nheap \<Rightarrow> nheap" where
  "free_node_at a h = h(a := None)"

definition list_pop :: "nheap \<Rightarrow> llist \<Rightarrow> (ptr \<times> nheap \<times> llist) option" where
  "list_pop h l =
     (case ll_last l of
        None \<Rightarrow> Some (None, h, l)
      | Some a \<Rightarrow>
          do { nd \<leftarrow> h a;
               h1 \<leftarrow> store h (n_prev nd) (set_next None);
               Some (n_data nd, free_node_at a h1, l\<lparr>ll_last := n_prev nd\<rparr>) })"

definition list_poll :: "nheap \<Rightarrow> llist \<Rightarrow> (ptr \<times> nheap \<times> llist) option" where
  "list_poll h l =
     (case ll_first l of
        None \<Rightarrow> Some (None, h, l)
      | Some a \<Rightarrow>
          do { nd \<leftarrow> h a;
               h1 \<leftarrow> store h (n_next nd) (set_prev None);
               Some (n_data nd, free_node_at a h1, l\<lparr>ll_first := n_next nd\<rparr>) })"

text \<open>The result also says which data was freed; freeing NULL fails an \<open>assert\<close>.\<close>
definition list_remove :: "int \<Rightarrow> nheap \<Rightarrow> llist \<Rightarrow> (ptr \<times> nheap \<times> llist) option" where
  "list_remove end h l =
     (if end = LIST_FRONT \<or> end = LIST_BACK
      then do { (d, h1, l1) \<leftarrow> (if end = LIST_FRONT then list_poll h l else list_pop h l);
                if d = None then None else Some (d, h1, l1) }
      else Some (None, h, l))"

text \<open>The data freed by \<open>destroy_list\<close>, in order; the loop from a node on.\<close>
partial_function (option) destroy_nodes :: "nheap \<Rightarrow> ptr \<Rightarrow> (nat list \<times> nheap) option" where
  "destroy_nodes h cur =
     (case cur of
        None \<Rightarrow> Some ([], h)
      | Some a \<Rightarrow>
          (case h a of
             None \<Rightarrow> None
           | Some nd \<Rightarrow>
               (case n_data nd of
                  None \<Rightarrow> None
                | Some d \<Rightarrow>
                    do { (ds, h') \<leftarrow> destroy_nodes (free_node_at a h) (n_next nd); Some (d # ds, h') })))"

definition destroy_list :: "nheap \<Rightarrow> llist \<Rightarrow> (nat list \<times> nheap) option" where
  "destroy_list h l = destroy_nodes h (ll_first l)"

section \<open>The module registry\<close>

text \<open>\<open>strcasecmp(mp->name, name) == 0\<close>; \<open>names\<close> gives the string a module record's first word points to.\<close>
definition name_eq :: "(nat \<rightharpoonup> string) \<Rightarrow> string \<Rightarrow> nat \<Rightarrow> bool option" where
  "name_eq names name mp = map_option (\<lambda>s. strcaseeq s name) (names mp)"

partial_function (option) find_loop ::
  "(nat \<rightharpoonup> string) \<Rightarrow> string \<Rightarrow> nheap \<Rightarrow> list_iter \<Rightarrow> ptr \<Rightarrow> ptr option" where
  "find_loop names name h it mp =
     (case (case mp of None \<Rightarrow> Some False | Some a \<Rightarrow> name_eq names name a) of
        None \<Rightarrow> None
      | Some b \<Rightarrow>
          if b then Some mp
          else (case list_next h it of
                  None \<Rightarrow> None
                | Some (d, it') \<Rightarrow> if d = None then Some None else find_loop names name h it' d))"

definition module_find :: "ptr \<Rightarrow> (nat \<rightharpoonup> string) \<Rightarrow> nheap \<Rightarrow> llist \<Rightarrow> string \<Rightarrow> ptr option" where
  "module_find mem names h l name =
     (case list_iterator mem l LIST_FRONT of
        Some (Some it) \<Rightarrow> find_loop names name h it None
      | _ \<Rightarrow> None)"

definition ENOENT :: int where "ENOENT = 2"
definition EBADF :: int where "EBADF = 9"

text \<open>
  \<open>module_load\<close>: the file test, \<open>dlopen\<close> and \<open>dlsym\<close> are parameters; the result is the return value, whether
  the module's \<open>init\<close> was called, and the store and the list. The list keeps a copy of \<open>sizeof(tmp)\<close> bytes, the
  size of a pointer, of the module record: \<open>copy\<close> holds its first word.
\<close>
record modenv =
  me_is_file :: "string \<Rightarrow> bool"
  me_dlopen :: "string \<Rightarrow> ptr"
  me_dlsym :: "nat \<Rightarrow> ptr"
  me_has_init :: "nat \<Rightarrow> bool"

definition module_load ::
  "modenv \<Rightarrow> string \<Rightarrow> ptr \<Rightarrow> ptr \<Rightarrow> nheap \<Rightarrow> llist \<Rightarrow> (int \<times> bool \<times> nheap \<times> llist) option" where
  "module_load e path node copy h l =
     (if \<not> me_is_file e path then Some (ENOENT, False, h, l)
      else (case me_dlopen e path of
        None \<Rightarrow> Some (EBADF, False, h, l)
      | Some dl \<Rightarrow>
          (case me_dlsym e dl of
             None \<Rightarrow> Some (EBADF, False, h, l)
           | Some mp \<Rightarrow> map_option (\<lambda>(h', l'). (0, me_has_init e mp, h', l')) (list_add node copy h l))))"

record cmodule =
  mo_has_fini :: bool
  mo_dlptr :: ptr
  mo_path :: "string option"

text \<open>The calls of \<open>module_unload\<close>, in order.\<close>
datatype unload_step = CallFini | DlClose nat | FreePath string

definition module_unload :: "cmodule option \<Rightarrow> int \<times> unload_step list" where
  "module_unload mp =
     (case mp of
        None \<Rightarrow> (1, [])
      | Some mo \<Rightarrow>
          (0, (if mo_has_fini mo then [CallFini] else []) @
              (case mo_dlptr mo of None \<Rightarrow> [] | Some d \<Rightarrow> [DlClose d]) @
              (case mo_path mo of None \<Rightarrow> [] | Some p \<Rightarrow> [FreePath p])))"

section \<open>Sequences\<close>

text \<open>The list stands for \<open>s\<close>; its data pointers are not NULL, the length is whatever was counted.\<close>
definition ll_rep :: "nheap \<Rightarrow> llist \<Rightarrow> (nat \<times> ptr) list \<Rightarrow> bool" where
  "ll_rep h l s \<longleftrightarrow> distinct (map fst s) \<and> dchain h None s None \<and> ll_first l = first_ptr s None \<and>
     ll_last l = last_ptr None s \<and> (\<forall>x \<in> set s. snd x \<noteq> None)"

lemma list_add_rep:
  assumes "ll_rep h l s" "n \<notin> nodes s"
  shows "\<exists>h' l'. list_add (Some n) (Some c) h l = Some (h', l') \<and> ll_rep h' l' (s @ [(n, Some c)]) \<and>
    ll_length l' = ll_length l + 1"
proof (cases "s = []")
  case True
  then show ?thesis using assms by (simp add: ll_rep_def list_add_def Let_def)
next
  case False
  then obtain t a d where s: "s = t @ [(a, d)]" by (rule split_last)
  have l: "ll_first l \<noteq> None" "ll_last l = Some a" using assms(1) s by (auto simp: ll_rep_def)
  have a: "h a = Some \<lparr>n_data = d, n_next = None, n_prev = last_ptr None t\<rparr>" "a \<notin> nodes t" "a \<noteq> n"
    using assms s by (auto simp: ll_rep_def)
  let ?h = "h(a \<mapsto> \<lparr>n_data = d, n_next = Some n, n_prev = last_ptr None t\<rparr>,
              n \<mapsto> \<lparr>n_data = Some c, n_next = None, n_prev = Some a\<rparr>)"
  let ?l = "l\<lparr>ll_last := Some n, ll_length := ll_length l + 1\<rparr>"
  have "list_add (Some n) (Some c) h l = Some (?h, ?l)"
    using l a by (auto simp: list_add_def heap_ops fun_upd_twist Let_def)
  moreover have "ll_rep ?h ?l (s @ [(n, Some c)])"
    using assms a unfolding s by (auto simp: ll_rep_def image_Un)
  ultimately show ?thesis by simp
qed

text \<open>The data an iterator still has to deliver.\<close>
fun iter_walk :: "nat \<Rightarrow> nheap \<Rightarrow> list_iter \<Rightarrow> ptr list option" where
  "iter_walk 0 h it = Some []"
| "iter_walk (Suc n) h it =
     (case list_next h it of None \<Rightarrow> None
      | Some (d, it') \<Rightarrow> if d = None then Some [] else map_option (Cons d) (iter_walk n h it'))"

lemma list_next_started:
  "dchain h p ((a, d) # s) None \<Longrightarrow> list_next h \<lparr>it_current = Some a, it_started = True\<rparr> =
     Some (case s of [] \<Rightarrow> None | (b, e) # _ \<Rightarrow> e, \<lparr>it_current = first_ptr s None, it_started = True\<rparr>)"
  by (cases s) (auto simp: list_next_def list_current_def load_def Let_def)

lemma find_loop_started:
  "dchain h p ((a, d) # s) None \<Longrightarrow> \<forall>x \<in> set s. snd x \<noteq> None \<Longrightarrow> \<forall>x \<in> set s. \<forall>mp. snd x = Some mp \<longrightarrow> names mp \<noteq> None \<Longrightarrow>
     mp = Some mp' \<Longrightarrow> names mp' = Some nm \<Longrightarrow>
     find_loop names name h \<lparr>it_current = Some a, it_started = True\<rparr> mp =
       Some (if strcaseeq nm name then mp
             else (case List.find (\<lambda>x. strcaseeq (the (names (the (snd x)))) name) s of None \<Rightarrow> None | Some x \<Rightarrow> snd x))"
proof (induction s arbitrary: p a d mp mp' nm)
  case Nil
  then show ?case
    using list_next_started [OF Nil(1)] by (simp add: find_loop.simps [of names name h _ "Some mp'"] name_eq_def)
next
  case (Cons x s)
  obtain b e where x: "x = (b, e)" by (cases x)
  obtain mq nq where e: "e = Some mq" "names mq = Some nq" using Cons.prems(2,3) x by auto
  have "find_loop names name h \<lparr>it_current = Some b, it_started = True\<rparr> e =
     Some (if strcaseeq nq name then e
           else (case List.find (\<lambda>x. strcaseeq (the (names (the (snd x)))) name) s of None \<Rightarrow> None | Some x \<Rightarrow> snd x))"
    by (rule Cons.IH) (use Cons.prems x e in auto)
  then show ?case using list_next_started [OF Cons.prems(1)] Cons.prems(4,5) x e
    by (simp add: find_loop.simps [of names name h _ "Some mp'"] name_eq_def)
qed

lemma ll_rep_nil: "ll_rep h \<lparr>ll_length = 0, ll_first = None, ll_last = None\<rparr> []"
  by (simp add: ll_rep_def)

text \<open>
  Module lookup: on a list built by \<open>list_add\<close>, whose elements are modules with names, \<open>module_find\<close>
  returns the first one in insertion order whose name agrees without regard to case, and NULL
  when there is none (in particular for the empty list).
\<close>
theorem module_find_first:
  assumes "ll_rep h l s" "\<forall>x \<in> set s. names (the (snd x)) \<noteq> None"
  shows "module_find (Some mem) names h l name =
    Some (case List.find (\<lambda>x. strcaseeq (the (names (the (snd x)))) name) s of None \<Rightarrow> None | Some x \<Rightarrow> snd x)"
proof (cases s)
  case Nil
  then show ?thesis using assms(1)
    by (simp add: module_find_def list_iterator_def ll_rep_def find_loop.simps [of names name h _ None] list_next_def)
next
  case (Cons x t)
  obtain a e where x: "x = (a, e)" by (cases x)
  obtain mq nq where e: "e = Some mq" "names mq = Some nq" using assms Cons x by (auto simp: ll_rep_def)
  have ch: "dchain h None ((a, e) # t) None" and first: "ll_first l = Some a"
    using assms(1) Cons x by (auto simp: ll_rep_def)
  have n: "list_next h \<lparr>it_current = Some a, it_started = False\<rparr> = Some (e, \<lparr>it_current = Some a, it_started = True\<rparr>)"
    using ch by (simp add: list_next_def load_def)
  have "find_loop names name h \<lparr>it_current = Some a, it_started = True\<rparr> e =
     Some (if strcaseeq nq name then e
           else (case List.find (\<lambda>x. strcaseeq (the (names (the (snd x)))) name) t of None \<Rightarrow> None | Some x \<Rightarrow> snd x))"
    by (rule find_loop_started [OF ch]) (use assms Cons e in \<open>auto simp: ll_rep_def\<close>)
  then show ?thesis using n e first Cons x
    by (simp add: module_find_def list_iterator_def LIST_FRONT_def find_loop.simps [of names name h _ None])
qed

lemma two_modules:
  "\<exists>h l. ll_rep h l [(100, Some 7), (200, Some 8)]"
proof -
  let ?l = "\<lparr>ll_length = 0, ll_first = None, ll_last = None\<rparr>"
  have n: "(100 :: nat) \<notin> nodes []" by simp
  obtain h1 l1 where 1: "ll_rep h1 l1 ([] @ [(100, Some 7)])"
    using list_add_rep [OF ll_rep_nil n] by blast
  have "200 \<notin> nodes ([] @ [(100 :: nat, Some (7 :: nat))])" by simp
  from list_add_rep [OF 1 this, of 8] show ?thesis by auto
qed

theorem module_find_first_witness:
  "\<exists>h l. ll_rep h l [(100, Some 7), (200, Some 8)] \<and>
     module_find (Some 1) [7 \<mapsto> ''fs'', 8 \<mapsto> ''Auth''] h l ''AUTH'' = Some (Some 8)"
proof -
  obtain h l where r: "ll_rep h l [(100, Some 7), (200, Some 8)]" using two_modules by blast
  let ?names = "[7 \<mapsto> ''fs'', 8 \<mapsto> ''Auth''] :: nat \<Rightarrow> string option"
  have names: "\<forall>x \<in> set [(100 :: nat, Some (7 :: nat)), (200, Some 8)]. ?names (the (snd x)) \<noteq> None" by simp
  have eq: "\<not> strcaseeq ''fs'' ''AUTH''" "strcaseeq ''Auth'' ''AUTH''" by code_simp+
  have "List.find (\<lambda>x. strcaseeq (the (?names (the (snd x)))) ''AUTH'') [(100 :: nat, Some 7), (200, Some 8)] = Some (200, Some 8)"
    using eq by simp
  then have "module_find (Some 1) ?names h l ''AUTH'' = Some (Some 8)"
    unfolding module_find_first [OF r names] by (simp only: option.case snd_conv)
  then show ?thesis using r by blast
qed

section \<open>Removing elements\<close>

lemma list_pop_rep:
  assumes "ll_rep h l (t @ [x, y])"
  shows "\<exists>h' l'. list_pop h l = Some (snd y, h', l') \<and> ll_rep h' l' (t @ [x]) \<and> ll_length l' = ll_length l"
proof -
  obtain a d b e where x: "x = (a, d)" and y: "y = (b, e)" by (cases x; cases y)
  have h: "h b = Some \<lparr>n_data = e, n_next = None, n_prev = Some a\<rparr>" "a \<noteq> b" "a \<notin> nodes t" "b \<notin> nodes t"
    "h a = Some \<lparr>n_data = d, n_next = Some b, n_prev = last_ptr None t\<rparr>" "ll_last l = Some b"
    using assms x y by (auto simp: ll_rep_def)
  let ?h = "h(a \<mapsto> \<lparr>n_data = d, n_next = None, n_prev = last_ptr None t\<rparr>, b := None)"
  have "list_pop h l = Some (e, ?h, l\<lparr>ll_last := Some a\<rparr>)"
    using h by (simp add: list_pop_def store_def set_next_def free_node_at_def)
  moreover have "ll_rep ?h (l\<lparr>ll_last := Some a\<rparr>) (t @ [(a, d)])"
    using assms h unfolding x y by (auto simp: ll_rep_def)
  ultimately show ?thesis using x y by (intro exI [of _ ?h] exI [of _ "l\<lparr>ll_last := Some a\<rparr>"]) simp
qed

lemma list_poll_rep:
  assumes "ll_rep h l (x # y # t)"
  shows "\<exists>h' l'. list_poll h l = Some (snd x, h', l') \<and> ll_rep h' l' (y # t) \<and> ll_length l' = ll_length l"
proof -
  obtain a d b e where x: "x = (a, d)" and y: "y = (b, e)" by (cases x; cases y)
  have h: "h a = Some \<lparr>n_data = d, n_next = Some b, n_prev = None\<rparr>" "a \<noteq> b" "a \<notin> nodes t" "b \<notin> nodes t"
    "h b = Some \<lparr>n_data = e, n_next = first_ptr t None, n_prev = Some a\<rparr>" "ll_first l = Some a"
    using assms x y by (auto simp: ll_rep_def)
  let ?h = "h(b \<mapsto> \<lparr>n_data = e, n_next = first_ptr t None, n_prev = None\<rparr>, a := None)"
  have "list_poll h l = Some (d, ?h, l\<lparr>ll_first := Some b\<rparr>)"
    using h by (simp add: list_poll_def store_def set_prev_def free_node_at_def)
  moreover have "ll_rep ?h (l\<lparr>ll_first := Some b\<rparr>) ((b, e) # t)"
    using assms h unfolding x y by (auto simp: ll_rep_def)
  ultimately show ?thesis using x y by (intro exI [of _ ?h] exI [of _ "l\<lparr>ll_first := Some b\<rparr>"]) simp
qed

lemma list_only_element:
  assumes "ll_rep h l [x]"
  shows "list_pop h l = None \<and> list_poll h l = None"
proof -
  obtain a d where x: "x = (a, d)" by (cases x)
  then have "h a = Some \<lparr>n_data = d, n_next = None, n_prev = None\<rparr>" "ll_first l = Some a" "ll_last l = Some a"
    using assms by (auto simp: ll_rep_def)
  then show ?thesis by (simp_all add: list_pop_def list_poll_def store_def)
qed

text \<open>
  Removing from either end of a list with two or more elements returns the data of that end and leaves
  the list of the others, but not its length, which is still that of the longer list; removing
  the only element uses a NULL pointer, on either end.
\<close>
theorem list_pop_poll:
  assumes "ll_rep h l s"
  shows "(\<forall>t x y. s = t @ [x, y] \<longrightarrow>
      (\<exists>h' l'. list_pop h l = Some (snd y, h', l') \<and> ll_rep h' l' (t @ [x]) \<and> ll_length l' = ll_length l)) \<and>
    (\<forall>t x y. s = x # y # t \<longrightarrow>
      (\<exists>h' l'. list_poll h l = Some (snd x, h', l') \<and> ll_rep h' l' (y # t) \<and> ll_length l' = ll_length l)) \<and>
    (length s = 1 \<longrightarrow> list_pop h l = None \<and> list_poll h l = None)"
proof (intro conjI allI impI)
  show "list_pop h l = None" "list_poll h l = None" if "length s = 1"
    using that list_only_element assms by (cases s; auto)+
qed (use assms list_pop_rep list_poll_rep in blast)+

theorem list_pop_poll_witness:
  "\<exists>h l h' l'. ll_rep h l [(100, Some 7), (200, Some 8)] \<and> list_pop h l = Some (Some 8, h', l') \<and>
     ll_rep h' l' [(100, Some 7)] \<and> ll_length l' = ll_length l"
proof -
  obtain h l where r: "ll_rep h l [(100, Some 7), (200, Some 8)]" using two_modules by blast
  from list_pop_poll [OF r] have "\<exists>h' l'. list_pop h l = Some (snd (200 :: nat, Some (8 :: nat)), h', l') \<and>
      ll_rep h' l' ([] @ [(100, Some 7)]) \<and> ll_length l' = ll_length l"
    by (elim conjE allE [of _ "[]"] allE [of _ "(100, Some 7)"] allE [of _ "(200, Some 8)"]) simp
  then show ?thesis using r by auto
qed

end
