(* ===== verification/Trees.thy ===== *)
theory Trees
  imports Prelude
begin

text \<open>
  The binary search trees and red-black trees of lsd/tree.c and lsd/tree.h over an explicit store of nodes with
  parent pointers: \<open>'a theap\<close> maps the addresses of the allocated nodes to their fields. A node's data is the
  object its \<open>data\<close> points to, \<open>None\<close> once the pointer is NULL. Operations are the loads and stores of the source;
  \<open>None\<close> is a load or store through NULL or a freed address, or a loop that does not end. The comparison
  function is a field of the tree, as in the source. In \<open>tree_insert\<close> and \<open>rb_insert\<close> the address \<open>mem_alloc\<close>
  returns for the node is an argument, NULL when it fails.
\<close>

section \<open>Nodes and the store\<close>

datatype color = RED | BLACK

record 'a tree_node =
  t_left :: ptr
  t_right :: ptr
  t_parent :: ptr
  t_data :: "'a option"
  t_color :: color

record 'a tree =
  tr_root :: ptr
  tr_cmp :: "'a \<Rightarrow> 'a \<Rightarrow> int"

type_synonym 'a theap = "nat \<rightharpoonup> 'a tree_node"

definition tload :: "'a theap \<Rightarrow> ptr \<Rightarrow> 'a tree_node option" where
  "tload h p = (case p of None \<Rightarrow> None | Some a \<Rightarrow> h a)"

definition tstore :: "'a theap \<Rightarrow> ptr \<Rightarrow> ('a tree_node \<Rightarrow> 'a tree_node) \<Rightarrow> 'a theap option" where
  "tstore h p f = (case p of None \<Rightarrow> None | Some a \<Rightarrow> (case h a of None \<Rightarrow> None | Some nd \<Rightarrow> Some (h(a \<mapsto> f nd))))"

definition set_left :: "ptr \<Rightarrow> 'a tree_node \<Rightarrow> 'a tree_node" where "set_left p nd = nd\<lparr>t_left := p\<rparr>"
definition set_right :: "ptr \<Rightarrow> 'a tree_node \<Rightarrow> 'a tree_node" where "set_right p nd = nd\<lparr>t_right := p\<rparr>"
definition set_parent :: "ptr \<Rightarrow> 'a tree_node \<Rightarrow> 'a tree_node" where "set_parent p nd = nd\<lparr>t_parent := p\<rparr>"
definition set_tdata :: "'a option \<Rightarrow> 'a tree_node \<Rightarrow> 'a tree_node" where "set_tdata d nd = nd\<lparr>t_data := d\<rparr>"
definition set_color :: "color \<Rightarrow> 'a tree_node \<Rightarrow> 'a tree_node" where "set_color c nd = nd\<lparr>t_color := c\<rparr>"

text \<open>The memory of a new node is cleared, so its colour is the enumerator with value 0.\<close>
definition make_node :: "'a theap \<Rightarrow> ptr \<Rightarrow> 'a \<Rightarrow> 'a theap option" where
  "make_node h mem x =
     (case mem of
        None \<Rightarrow> None
      | Some a \<Rightarrow> Some (h(a \<mapsto> \<lparr>t_left = None, t_right = None, t_parent = None, t_data = Some x, t_color = RED\<rparr>)))"

text \<open>\<open>cmpfunc(x, node->data)\<close>.\<close>
definition cmp_with :: "'a tree \<Rightarrow> 'a \<Rightarrow> 'a tree_node \<Rightarrow> int option" where
  "cmp_with tr x nd = map_option (tr_cmp tr x) (t_data nd)"

section \<open>Insertion, neighbours, search\<close>

text \<open>The loop that looks for the new node's parent.\<close>
partial_function (option) insert_walk :: "'a theap \<Rightarrow> 'a tree \<Rightarrow> 'a \<Rightarrow> ptr \<Rightarrow> ptr \<Rightarrow> ptr option" where
  "insert_walk h tr x parent current =
     (if current = None then Some parent
      else do { nd \<leftarrow> tload h current;
                r \<leftarrow> cmp_with tr x nd;
                if r < 0 then insert_walk h tr x current (t_left nd) else insert_walk h tr x current (t_right nd) })"

definition tree_insert :: "ptr \<Rightarrow> 'a \<Rightarrow> 'a theap \<Rightarrow> 'a tree \<Rightarrow> ('a theap \<times> 'a tree) option" where
  "tree_insert mem x h tr =
     do { h1 \<leftarrow> make_node h mem x;
          parent \<leftarrow> insert_walk h1 tr x None (tr_root tr);
          h2 \<leftarrow> tstore h1 mem (set_parent parent);
          if parent = None then Some (h2, tr\<lparr>tr_root := mem\<rparr>)
          else do { pn \<leftarrow> tload h2 parent;
                    r \<leftarrow> cmp_with tr x pn;
                    h3 \<leftarrow> tstore h2 parent (if r < 0 then set_left mem else set_right mem);
                    Some (h3, tr) } }"

partial_function (option) tree_minimum :: "'a theap \<Rightarrow> ptr \<Rightarrow> ptr option" where
  "tree_minimum h node =
     do { nd \<leftarrow> tload h node; if t_left nd \<noteq> None then tree_minimum h (t_left nd) else Some node }"

partial_function (option) tree_maximum :: "'a theap \<Rightarrow> ptr \<Rightarrow> ptr option" where
  "tree_maximum h node =
     do { nd \<leftarrow> tload h node; if t_right nd \<noteq> None then tree_maximum h (t_right nd) else Some node }"

text \<open>The loops that climb while the node is a left (right) child.\<close>

partial_function (option) pred_climb :: "'a theap \<Rightarrow> ptr \<Rightarrow> ptr \<Rightarrow> ptr option" where
  "pred_climb h node up =
     (if up = None then Some None
      else do { un \<leftarrow> tload h up;
                if node = t_left un then pred_climb h up (t_parent un) else Some up })"

partial_function (option) succ_climb :: "'a theap \<Rightarrow> ptr \<Rightarrow> ptr \<Rightarrow> ptr option" where
  "succ_climb h node up =
     (if up = None then Some None
      else do { un \<leftarrow> tload h up;
                if node = t_right un then succ_climb h up (t_parent un) else Some up })"

definition tree_predecessor :: "'a theap \<Rightarrow> ptr \<Rightarrow> ptr option" where
  "tree_predecessor h node =
     do { nd \<leftarrow> tload h node;
          if t_left nd \<noteq> None then tree_maximum h (t_left nd) else pred_climb h node (t_parent nd) }"

definition tree_successor :: "'a theap \<Rightarrow> ptr \<Rightarrow> ptr option" where
  "tree_successor h node =
     do { nd \<leftarrow> tload h node;
          if t_right nd \<noteq> None then tree_minimum h (t_right nd) else succ_climb h node (t_parent nd) }"

partial_function (option) search_r :: "'a theap \<Rightarrow> 'a tree \<Rightarrow> ptr \<Rightarrow> 'a \<Rightarrow> ptr option" where
  "search_r h tr node key =
     (if node = None then Some None
      else do { nd \<leftarrow> tload h node;
                res \<leftarrow> cmp_with tr key nd;
                if res = 0 then Some node
                else if res < 0 then search_r h tr (t_left nd) key
                else search_r h tr (t_right nd) key })"

definition tree_search :: "'a theap \<Rightarrow> 'a tree \<Rightarrow> 'a \<Rightarrow> ptr option" where
  "tree_search h tr key = search_r h tr (tr_root tr) key"

text \<open>The data the callback is called with, in order.\<close>
partial_function (option) traverse :: "'a theap \<Rightarrow> ptr \<Rightarrow> 'a option list option" where
  "traverse h node =
     (if node = None then Some []
      else do { nd \<leftarrow> tload h node;
                l \<leftarrow> traverse h (t_left nd);
                r \<leftarrow> traverse h (t_right nd);
                Some (t_data nd # l @ r) })"

declare insert_walk.simps [code] tree_minimum.simps [code] tree_maximum.simps [code]
  pred_climb.simps [code] succ_climb.simps [code] search_r.simps [code] traverse.simps [code]

section \<open>Deletion\<close>

text \<open>
  Takes \<open>node\<close>, or its successor when it has two children, out of the links; the data of a successor moves
  into \<open>node\<close>. The result is the node that left the tree.
\<close>
definition relink :: "'a theap \<Rightarrow> 'a tree \<Rightarrow> ptr \<Rightarrow> ptr \<Rightarrow> ptr \<Rightarrow> ('a theap \<times> 'a tree) option" where
  "relink h tr parent current nxt =
     (if parent = None then Some (h, tr\<lparr>tr_root := nxt\<rparr>)
      else do { pn \<leftarrow> tload h parent;
                h' \<leftarrow> tstore h parent (if current = t_left pn then set_left nxt else set_right nxt);
                Some (h', tr) })"

definition pull_out :: "'a theap \<Rightarrow> 'a tree \<Rightarrow> ptr \<Rightarrow> ('a theap \<times> 'a tree \<times> ptr) option" where
  "pull_out h tr node =
     do { nd \<leftarrow> tload h node;
          current \<leftarrow> (if t_left nd = None \<or> t_right nd = None then Some node else tree_successor h node);
          cn \<leftarrow> tload h current;
          let parent = t_parent cn; nxt = (if t_left cn \<noteq> None then t_left cn else t_right cn) in
          do { h1 \<leftarrow> (if nxt \<noteq> None then tstore h nxt (set_parent parent) else Some h);
               (h2, tr2) \<leftarrow> relink h1 tr parent current nxt;
               nd2 \<leftarrow> tload h2 node;
               if t_data nd2 = None then None
               else do { cn2 \<leftarrow> tload h2 current;
                         h3 \<leftarrow> (if node \<noteq> current then tstore h2 node (set_tdata (t_data cn2)) else Some h2);
                         h4 \<leftarrow> tstore h3 current (set_tdata None);
                         Some (h4, tr2, current) } } }"

text \<open>\<open>mem_free(current)\<close>.\<close>
definition tfree :: "'a theap \<Rightarrow> ptr \<Rightarrow> 'a theap option" where
  "tfree h p = (case p of None \<Rightarrow> None | Some a \<Rightarrow> (if h a = None then None else Some (h(a := None))))"

definition tree_delete :: "'a theap \<Rightarrow> 'a tree \<Rightarrow> ptr \<Rightarrow> ('a theap \<times> 'a tree) option" where
  "tree_delete h tr node =
     do { (h1, tr1, current) \<leftarrow> pull_out h tr node;
          h2 \<leftarrow> tfree h1 current;
          Some (h2, tr1) }"

partial_function (option) destroy_node :: "'a theap \<Rightarrow> ptr \<Rightarrow> 'a theap option" where
  "destroy_node h node =
     do { nd \<leftarrow> tload h node;
          h1 \<leftarrow> (if t_left nd \<noteq> None then destroy_node h (t_left nd) else Some h);
          nd1 \<leftarrow> tload h1 node;
          h2 \<leftarrow> (if t_right nd1 \<noteq> None then destroy_node h1 (t_right nd1) else Some h1);
          nd2 \<leftarrow> tload h2 node;
          if t_data nd2 = None then None else tfree h2 node }"

declare destroy_node.simps [code]

section \<open>Rotations\<close>

text \<open>Puts \<open>new\<close> in the place of \<open>node\<close> below the node's parent.\<close>
definition replace_child :: "'a theap \<Rightarrow> 'a tree \<Rightarrow> ptr \<Rightarrow> ptr \<Rightarrow> ptr \<Rightarrow> ('a theap \<times> 'a tree) option" where
  "replace_child h tr parent node new =
     (if parent = None then Some (h, tr\<lparr>tr_root := new\<rparr>)
      else do { pn \<leftarrow> tload h parent;
                h' \<leftarrow> tstore h parent (if t_left pn = node then set_left new else set_right new);
                Some (h', tr) })"

definition left_rotate :: "'a theap \<Rightarrow> 'a tree \<Rightarrow> ptr \<Rightarrow> ('a theap \<times> 'a tree) option" where
  "left_rotate h tr node =
     do { nd \<leftarrow> tload h node;
          let right = t_right nd in
          if right = None then Some (h, tr)
          else do { rn \<leftarrow> tload h right;
                    h1 \<leftarrow> tstore h node (set_right (t_left rn));
                    h2 \<leftarrow> (if t_left rn \<noteq> None then tstore h1 (t_left rn) (set_parent node) else Some h1);
                    h3 \<leftarrow> tstore h2 right (set_parent (t_parent nd));
                    (h4, tr4) \<leftarrow> replace_child h3 tr (t_parent nd) node right;
                    h5 \<leftarrow> tstore h4 right (set_left node);
                    h6 \<leftarrow> tstore h5 node (set_parent right);
                    Some (h6, tr4) } }"

definition right_rotate :: "'a theap \<Rightarrow> 'a tree \<Rightarrow> ptr \<Rightarrow> ('a theap \<times> 'a tree) option" where
  "right_rotate h tr node =
     do { nd \<leftarrow> tload h node;
          let left = t_left nd in
          if left = None then Some (h, tr)
          else do { ln \<leftarrow> tload h left;
                    h1 \<leftarrow> tstore h node (set_left (t_right ln));
                    h2 \<leftarrow> (if t_right ln \<noteq> None then tstore h1 (t_right ln) (set_parent node) else Some h1);
                    h3 \<leftarrow> tstore h2 left (set_parent (t_parent nd));
                    (h4, tr4) \<leftarrow> replace_child h3 tr (t_parent nd) node left;
                    h5 \<leftarrow> tstore h4 left (set_right node);
                    h6 \<leftarrow> tstore h5 node (set_parent left);
                    Some (h6, tr4) } }"

section \<open>Red-black trees\<close>

definition rb_color :: "'a theap \<Rightarrow> ptr \<Rightarrow> color option" where
  "rb_color h node = (case node of None \<Rightarrow> Some BLACK | Some a \<Rightarrow> map_option t_color (h a))"

text \<open>The three cases of the insertion loop below a left child of the grandparent, and below a right one.\<close>

definition insert_left_case ::
    "'a theap \<Rightarrow> 'a tree \<Rightarrow> ptr \<Rightarrow> ptr \<Rightarrow> 'a tree_node \<Rightarrow> 'a tree_node \<Rightarrow> ('a theap \<times> 'a tree \<times> ptr) option" where
  "insert_left_case h tr current parent pn gn =
     do { uc \<leftarrow> rb_color h (t_right gn);
          if uc = RED
          then do { h1 \<leftarrow> tstore h parent (set_color BLACK);
                    h2 \<leftarrow> tstore h1 (t_right gn) (set_color BLACK);
                    h3 \<leftarrow> tstore h2 (t_parent pn) (set_color RED);
                    Some (h3, tr, t_parent pn) }
          else if current = t_right pn
          then do { (h1, tr1) \<leftarrow> left_rotate h tr parent; Some (h1, tr1, parent) }
          else do { h1 \<leftarrow> tstore h parent (set_color BLACK);
                    h2 \<leftarrow> tstore h1 (t_parent pn) (set_color RED);
                    (h3, tr3) \<leftarrow> right_rotate h2 tr (t_parent pn);
                    Some (h3, tr3, current) } }"

definition insert_right_case ::
    "'a theap \<Rightarrow> 'a tree \<Rightarrow> ptr \<Rightarrow> ptr \<Rightarrow> 'a tree_node \<Rightarrow> 'a tree_node \<Rightarrow> ('a theap \<times> 'a tree \<times> ptr) option" where
  "insert_right_case h tr current parent pn gn =
     do { uc \<leftarrow> rb_color h (t_left gn);
          if uc = RED
          then do { h1 \<leftarrow> tstore h parent (set_color BLACK);
                    h2 \<leftarrow> tstore h1 (t_left gn) (set_color BLACK);
                    h3 \<leftarrow> tstore h2 (t_parent pn) (set_color RED);
                    Some (h3, tr, t_parent pn) }
          else if current = t_left pn
          then do { (h1, tr1) \<leftarrow> right_rotate h tr parent; Some (h1, tr1, parent) }
          else do { h1 \<leftarrow> tstore h parent (set_color BLACK);
                    h2 \<leftarrow> tstore h1 (t_parent pn) (set_color RED);
                    (h3, tr3) \<leftarrow> left_rotate h2 tr (t_parent pn);
                    Some (h3, tr3, current) } }"

partial_function (option) rb_insert_loop :: "'a theap \<Rightarrow> 'a tree \<Rightarrow> ptr \<Rightarrow> ('a theap \<times> 'a tree) option" where
  "rb_insert_loop h tr current =
     (if current = tr_root tr then Some (h, tr)
      else do { cn \<leftarrow> tload h current;
                pc \<leftarrow> rb_color h (t_parent cn);
                if pc \<noteq> RED then Some (h, tr)
                else do { pn \<leftarrow> tload h (t_parent cn);
                          gn \<leftarrow> tload h (t_parent pn);
                          (h1, tr1, current1) \<leftarrow>
                            (if t_parent cn = t_left gn then insert_left_case h tr current (t_parent cn) pn gn
                             else insert_right_case h tr current (t_parent cn) pn gn);
                          rb_insert_loop h1 tr1 current1 } })"

definition rb_insert :: "ptr \<Rightarrow> 'a \<Rightarrow> 'a theap \<Rightarrow> 'a tree \<Rightarrow> ('a theap \<times> 'a tree) option" where
  "rb_insert mem x h tr =
     do { (h1, tr1) \<leftarrow> tree_insert mem x h tr;
          h2 \<leftarrow> tstore h1 mem (set_color RED);
          (h3, tr3) \<leftarrow> rb_insert_loop h2 tr1 mem;
          h4 \<leftarrow> tstore h3 (tr_root tr3) (set_color BLACK);
          Some (h4, tr3) }"

text \<open>The two halves of the deletion loop: the new store, tree, \<open>parent\<close> and \<open>node\<close>.\<close>

definition fixup_left ::
    "'a theap \<Rightarrow> 'a tree \<Rightarrow> ptr \<Rightarrow> ptr \<Rightarrow> ('a theap \<times> 'a tree \<times> ptr \<times> ptr) option" where
  "fixup_left h tr parent node =
     do { pn \<leftarrow> tload h parent;
          sc \<leftarrow> rb_color h (t_right pn);
          (h1, tr1) \<leftarrow>
            (if sc = RED
             then do { g1 \<leftarrow> tstore h (t_right pn) (set_color BLACK);
                       g2 \<leftarrow> tstore g1 parent (set_color RED);
                       left_rotate g2 tr parent }
             else Some (h, tr));
          pn1 \<leftarrow> tload h1 parent;
          let sibling = t_right pn1 in
          do { sn \<leftarrow> tload h1 sibling;
               lc \<leftarrow> rb_color h1 (t_left sn);
               rc \<leftarrow> rb_color h1 (t_right sn);
               if lc = BLACK \<and> rc = BLACK
               then do { h2 \<leftarrow> tstore h1 sibling (set_color RED);
                         Some (h2, tr1, t_parent pn1, parent) }
               else if rc = BLACK
               then do { h2 \<leftarrow> tstore h1 (t_left sn) (set_color RED);
                         (h3, tr3) \<leftarrow> right_rotate h2 tr1 sibling;
                         Some (h3, tr3, parent, node) }
               else do { h2 \<leftarrow> tstore h1 sibling (set_color (t_color pn1));
                         h3 \<leftarrow> tstore h2 parent (set_color BLACK);
                         h4 \<leftarrow> tstore h3 (t_right sn) (set_color BLACK);
                         (h5, tr5) \<leftarrow> left_rotate h4 tr1 parent;
                         Some (h5, tr5, None, tr_root tr5) } } }"

definition fixup_right ::
    "'a theap \<Rightarrow> 'a tree \<Rightarrow> ptr \<Rightarrow> ptr \<Rightarrow> ('a theap \<times> 'a tree \<times> ptr \<times> ptr) option" where
  "fixup_right h tr parent node =
     do { pn \<leftarrow> tload h parent;
          sc \<leftarrow> rb_color h (t_left pn);
          (h1, tr1) \<leftarrow>
            (if sc = RED
             then do { g1 \<leftarrow> tstore h (t_left pn) (set_color BLACK);
                       g2 \<leftarrow> tstore g1 parent (set_color RED);
                       right_rotate g2 tr parent }
             else Some (h, tr));
          pn1 \<leftarrow> tload h1 parent;
          let sibling = t_left pn1 in
          do { sn \<leftarrow> tload h1 sibling;
               lc \<leftarrow> rb_color h1 (t_left sn);
               rc \<leftarrow> rb_color h1 (t_right sn);
               if lc = BLACK \<and> rc = BLACK
               then do { h2 \<leftarrow> tstore h1 sibling (set_color RED);
                         Some (h2, tr1, t_parent pn1, parent) }
               else if lc = BLACK
               then do { h2 \<leftarrow> tstore h1 (t_right sn) (set_color RED);
                         (h3, tr3) \<leftarrow> left_rotate h2 tr1 sibling;
                         Some (h3, tr3, parent, node) }
               else do { h2 \<leftarrow> tstore h1 sibling (set_color (t_color pn1));
                         h3 \<leftarrow> tstore h2 parent (set_color BLACK);
                         h4 \<leftarrow> tstore h3 (t_left sn) (set_color BLACK);
                         (h5, tr5) \<leftarrow> right_rotate h4 tr1 parent;
                         Some (h5, tr5, None, tr_root tr5) } } }"

partial_function (option) rb_delete_fixup :: "'a theap \<Rightarrow> 'a tree \<Rightarrow> ptr \<Rightarrow> ptr \<Rightarrow> ('a theap \<times> 'a tree) option" where
  "rb_delete_fixup h tr parent node =
     do { nc \<leftarrow> (if node = tr_root tr then Some RED else rb_color h node);
          if node \<noteq> tr_root tr \<and> nc = BLACK
          then do { pn \<leftarrow> tload h parent;
                    (h1, tr1, parent1, node1) \<leftarrow>
                      (if node = t_left pn then fixup_left h tr parent node else fixup_right h tr parent node);
                    rb_delete_fixup h1 tr1 parent1 node1 }
          else if node \<noteq> None
          then do { h1 \<leftarrow> tstore h node (set_color BLACK); Some (h1, tr) }
          else Some (h, tr) }"

definition rb_delete :: "'a theap \<Rightarrow> 'a tree \<Rightarrow> ptr \<Rightarrow> ('a theap \<times> 'a tree) option" where
  "rb_delete h tr node =
     do { (h1, tr1, current) \<leftarrow> pull_out h tr node;
          cn \<leftarrow> tload h1 current;
          let nxt = (if t_left cn \<noteq> None then t_left cn else t_right cn) in
          do { (h2, tr2) \<leftarrow>
                 (if t_color cn = BLACK then rb_delete_fixup h1 tr1 (t_parent cn) nxt else Some (h1, tr1));
               h3 \<leftarrow> tfree h2 current;
               Some (h3, tr2) } }"

declare rb_insert_loop.simps [code] rb_delete_fixup.simps [code]

end
