(* ===== verification/TreeRep.thy ===== *)
theory TreeRep
  imports Trees
begin

text \<open>
  What the store of Trees represents: a tree of addresses, data and colours, and the path from a node up to the
  root. \<open>zrep\<close> relates a store, and the root pointer, to such a pair of subtree and path; the operations of
  lsd/tree.c are shown to act on it as functions on trees do.
\<close>

section \<open>Trees with addresses\<close>

datatype 'a atree = Tip | Bin "'a atree" nat 'a color "'a atree"

datatype 'a frame = LeftOf nat 'a color "'a atree" | RightOf "'a atree" nat 'a color

type_synonym 'a path = "'a frame list"

fun top_ptr :: "'a atree \<Rightarrow> ptr" where
  "top_ptr Tip = None"
| "top_ptr (Bin l a x c r) = Some a"

fun addrs :: "'a atree \<Rightarrow> nat set" where
  "addrs Tip = {}"
| "addrs (Bin l a x c r) = insert a (addrs l \<union> addrs r)"

fun inorder :: "'a atree \<Rightarrow> 'a list" where
  "inorder Tip = []"
| "inorder (Bin l a x c r) = inorder l @ x # inorder r"

fun preorder :: "'a atree \<Rightarrow> 'a list" where
  "preorder Tip = []"
| "preorder (Bin l a x c r) = x # preorder l @ preorder r"

fun at_rep :: "'a theap \<Rightarrow> ptr \<Rightarrow> 'a atree \<Rightarrow> bool" where
  "at_rep h p Tip \<longleftrightarrow> True"
| "at_rep h p (Bin l a x c r) \<longleftrightarrow>
     h a = Some \<lparr>t_left = top_ptr l, t_right = top_ptr r, t_parent = p, t_data = Some x, t_color = c\<rparr> \<and>
     a \<notin> addrs l \<and> a \<notin> addrs r \<and> addrs l \<inter> addrs r = {} \<and> at_rep h (Some a) l \<and> at_rep h (Some a) r"

fun frame_addr :: "'a frame \<Rightarrow> nat" where
  "frame_addr (LeftOf a x c r) = a"
| "frame_addr (RightOf l a x c) = a"

fun up :: "'a path \<Rightarrow> ptr" where
  "up [] = None"
| "up (f # fs) = Some (frame_addr f)"

fun frame_addrs :: "'a frame \<Rightarrow> nat set" where
  "frame_addrs (LeftOf a x c r) = insert a (addrs r)"
| "frame_addrs (RightOf l a x c) = insert a (addrs l)"

fun path_addrs :: "'a path \<Rightarrow> nat set" where
  "path_addrs [] = {}"
| "path_addrs (f # fs) = frame_addrs f \<union> path_addrs fs"

fun path_rep :: "'a theap \<Rightarrow> ptr \<Rightarrow> 'a path \<Rightarrow> ptr \<Rightarrow> bool" where
  "path_rep h p [] rt \<longleftrightarrow> rt = p"
| "path_rep h p (LeftOf a x c r # fs) rt \<longleftrightarrow>
     h a = Some \<lparr>t_left = p, t_right = top_ptr r, t_parent = up fs, t_data = Some x, t_color = c\<rparr> \<and>
     a \<notin> addrs r \<and> a \<notin> path_addrs fs \<and> addrs r \<inter> path_addrs fs = {} \<and>
     at_rep h (Some a) r \<and> path_rep h (Some a) fs rt"
| "path_rep h p (RightOf l a x c # fs) rt \<longleftrightarrow>
     h a = Some \<lparr>t_left = top_ptr l, t_right = p, t_parent = up fs, t_data = Some x, t_color = c\<rparr> \<and>
     a \<notin> addrs l \<and> a \<notin> path_addrs fs \<and> addrs l \<inter> path_addrs fs = {} \<and>
     at_rep h (Some a) l \<and> path_rep h (Some a) fs rt"

definition zrep :: "'a theap \<Rightarrow> 'a tree \<Rightarrow> 'a path \<Rightarrow> 'a atree \<Rightarrow> bool" where
  "zrep h tr fs t \<longleftrightarrow>
     at_rep h (up fs) t \<and> path_rep h (top_ptr t) fs (tr_root tr) \<and> addrs t \<inter> path_addrs fs = {}"

text \<open>The whole tree of a subtree and its path.\<close>
fun plug1 :: "'a frame \<Rightarrow> 'a atree \<Rightarrow> 'a atree" where
  "plug1 (LeftOf a x c r) t = Bin t a x c r"
| "plug1 (RightOf l a x c) t = Bin l a x c t"

fun plug :: "'a path \<Rightarrow> 'a atree \<Rightarrow> 'a atree" where
  "plug [] t = t"
| "plug (f # fs) t = plug fs (plug1 f t)"

definition tree_rep :: "'a theap \<Rightarrow> 'a tree \<Rightarrow> 'a atree \<Rightarrow> bool" where
  "tree_rep h tr t \<longleftrightarrow> zrep h tr [] t"

lemma finite_addrs [simp]: "finite (addrs t)"
  by (induction t) auto

lemma zrep_push_left:
  "zrep h tr fs (Bin l a x c r) \<longleftrightarrow> zrep h tr (LeftOf a x c r # fs) l"
  by (auto simp: zrep_def)

lemma zrep_push_right:
  "zrep h tr fs (Bin l a x c r) \<longleftrightarrow> zrep h tr (RightOf l a x c # fs) r"
  by (auto simp: zrep_def)

lemma zrep_plug1: "zrep h tr (f # fs) t \<longleftrightarrow> zrep h tr fs (plug1 f t)"
  by (cases f) (simp_all add: zrep_push_left [symmetric] zrep_push_right [symmetric])

lemma zrep_plug: "zrep h tr fs t \<longleftrightarrow> tree_rep h tr (plug fs t)"
  unfolding tree_rep_def by (induction fs arbitrary: t) (auto simp: zrep_plug1)

section \<open>Stores that agree\<close>

lemma at_rep_cong: "(\<And>a. a \<in> addrs t \<Longrightarrow> h' a = h a) \<Longrightarrow> at_rep h' p t \<longleftrightarrow> at_rep h p t"
  by (induction t arbitrary: p) auto

lemma at_rep_upd [simp]: "a \<notin> addrs t \<Longrightarrow> at_rep (h(a := v)) p t \<longleftrightarrow> at_rep h p t"
  by (rule at_rep_cong) auto

lemma path_rep_cong: "(\<And>a. a \<in> path_addrs fs \<Longrightarrow> h' a = h a) \<Longrightarrow> path_rep h' p fs rt \<longleftrightarrow> path_rep h p fs rt"
proof (induction fs arbitrary: p)
  case (Cons f fs)
  show ?case
  proof (cases f)
    case (LeftOf a x c r)
    moreover have "at_rep h' (Some a) r \<longleftrightarrow> at_rep h (Some a) r"
      using Cons.prems LeftOf by (intro at_rep_cong) auto
    moreover have "path_rep h' (Some a) fs rt \<longleftrightarrow> path_rep h (Some a) fs rt"
      using Cons.prems by (intro Cons.IH) auto
    ultimately show ?thesis using Cons.prems by simp
  next
    case (RightOf l a x c)
    moreover have "at_rep h' (Some a) l \<longleftrightarrow> at_rep h (Some a) l"
      using Cons.prems RightOf by (intro at_rep_cong) auto
    moreover have "path_rep h' (Some a) fs rt \<longleftrightarrow> path_rep h (Some a) fs rt"
      using Cons.prems by (intro Cons.IH) auto
    ultimately show ?thesis using Cons.prems by simp
  qed
qed simp

lemma path_rep_upd [simp]: "a \<notin> path_addrs fs \<Longrightarrow> path_rep (h(a := v)) p fs rt \<longleftrightarrow> path_rep h p fs rt"
  by (rule path_rep_cong) auto

text \<open>Changing the pointer of the parent to the subtree: what the code does at each relink.\<close>
lemma addrs_top: "top_ptr t = Some a \<Longrightarrow> a \<in> addrs t"
  by (cases t) auto

lemma frame_addr_in [simp]: "frame_addr f \<in> frame_addrs f"
  by (cases f) auto

lemma at_rep_parent:
  "at_rep h p t \<Longrightarrow>
     at_rep (case top_ptr t of None \<Rightarrow> h | Some a \<Rightarrow> h(a \<mapsto> the (h a)\<lparr>t_parent := q\<rparr>)) q t"
  by (cases t) auto

section \<open>In-order contents of a path\<close>

fun path_left :: "'a path \<Rightarrow> 'a list" where
  "path_left [] = []"
| "path_left (LeftOf a x c r # fs) = path_left fs"
| "path_left (RightOf l a x c # fs) = path_left fs @ inorder l @ [x]"

fun path_right :: "'a path \<Rightarrow> 'a list" where
  "path_right [] = []"
| "path_right (LeftOf a x c r # fs) = x # inorder r @ path_right fs"
| "path_right (RightOf l a x c # fs) = path_right fs"

lemma inorder_plug: "inorder (plug fs t) = path_left fs @ inorder t @ path_right fs"
proof (induction fs arbitrary: t)
  case (Cons f fs)
  then show ?case by (cases f) auto
qed simp

lemma addrs_plug: "addrs (plug fs t) = addrs t \<union> path_addrs fs"
proof (induction fs arbitrary: t)
  case (Cons f fs)
  then show ?case by (cases f) auto
qed simp

section \<open>Relinking\<close>

lemmas tree_step = tload_def tstore_def set_left_def set_right_def set_parent_def set_tdata_def set_color_def

lemma top_ne [simp]: "a \<notin> addrs t \<Longrightarrow> top_ptr t \<noteq> Some a" "a \<notin> addrs t \<Longrightarrow> Some a \<noteq> top_ptr t"
  by (cases t; auto)+

lemma dom_upd_same: "h a = Some v \<Longrightarrow> dom (h(a \<mapsto> w)) = dom h"
  by auto

lemma replace_child_rep:
  assumes "path_rep h (Some a) fs (tr_root tr)" "a \<notin> path_addrs fs"
  obtains h' rt' where "replace_child h tr (up fs) (Some a) q = Some (h', tr\<lparr>tr_root := rt'\<rparr>)"
    "path_rep h' q fs rt'" "\<forall>b. b \<notin> path_addrs fs \<longrightarrow> h' b = h b" "dom h' = dom h"
proof (cases fs)
  case Nil
  then show ?thesis using assms that [of h q] by (simp add: replace_child_def)
next
  case (Cons f fs')
  show ?thesis
  proof (cases f)
    case (LeftOf b y c r)
    let ?h' = "h(b \<mapsto> \<lparr>t_left = q, t_right = top_ptr r, t_parent = up fs', t_data = Some y, t_color = c\<rparr>)"
    show ?thesis using assms Cons LeftOf
      by (intro that [of ?h' "tr_root tr"]) (auto simp: replace_child_def tree_step)
  next
    case (RightOf l b y c)
    let ?h' = "h(b \<mapsto> \<lparr>t_left = top_ptr l, t_right = q, t_parent = up fs', t_data = Some y, t_color = c\<rparr>)"
    show ?thesis using assms Cons RightOf
      by (intro that [of ?h' "tr_root tr"]) (auto simp: replace_child_def tree_step)
  qed
qed

lemma set_parent_top:
  assumes "at_rep h p m"
  obtains h' where "(if top_ptr m \<noteq> None then tstore h (top_ptr m) (set_parent q) else Some h) = Some h'"
    "at_rep h' q m" "\<forall>b. b \<notin> addrs m \<longrightarrow> h' b = h b" "dom h' = dom h"
proof (cases m)
  case Tip
  then show ?thesis using that by simp
next
  case (Bin l a x c r)
  let ?h' = "h(a \<mapsto> \<lparr>t_left = top_ptr l, t_right = top_ptr r, t_parent = q, t_data = Some x, t_color = c\<rparr>)"
  show ?thesis using assms Bin by (intro that [of ?h']) (auto simp: tree_step)
qed

section \<open>Rotations\<close>

lemma left_rotate_rep:
  assumes z: "zrep h tr fs (Bin l a x c (Bin m b y d r))"
  obtains h' rt where "left_rotate h tr (Some a) = Some (h', tr\<lparr>tr_root := rt\<rparr>)"
    "zrep h' (tr\<lparr>tr_root := rt\<rparr>) fs (Bin (Bin l a x c m) b y d r)" "dom h' = dom h"
proof -
  let ?n = "\<lambda>p q r x c. \<lparr>t_left = p, t_right = q, t_parent = r, t_data = Some x, t_color = c\<rparr>"
  let ?h1 = "h(a \<mapsto> ?n (top_ptr l) (top_ptr m) (up fs) x c)"
  have h: "h a = Some (?n (top_ptr l) (Some b) (up fs) x c)" "h b = Some (?n (top_ptr m) (top_ptr r) (Some a) y d)"
    and dj: "a \<noteq> b" "a \<notin> addrs l" "a \<notin> addrs m" "a \<notin> addrs r" "b \<notin> addrs l" "b \<notin> addrs m" "b \<notin> addrs r"
      "addrs l \<inter> addrs m = {}" "addrs l \<inter> addrs r = {}" "addrs m \<inter> addrs r = {}"
      "a \<notin> path_addrs fs" "b \<notin> path_addrs fs" "addrs l \<inter> path_addrs fs = {}" "addrs m \<inter> path_addrs fs = {}"
      "addrs r \<inter> path_addrs fs = {}"
    and rep: "at_rep h (Some a) l" "at_rep h (Some b) m" "at_rep h (Some b) r" "path_rep h (Some a) fs (tr_root tr)"
    using z by (auto simp: zrep_def)
  have "at_rep ?h1 (Some b) m" using rep dj by simp
  then obtain h2 where e2: "(if top_ptr m \<noteq> None then tstore ?h1 (top_ptr m) (set_parent (Some a)) else Some ?h1) = Some h2"
    and r2: "at_rep h2 (Some a) m" and s2: "\<forall>e. e \<notin> addrs m \<longrightarrow> h2 e = ?h1 e" and d2: "dom h2 = dom ?h1"
    by (rule set_parent_top [where q = "Some a"])
  let ?h3 = "h2(b \<mapsto> ?n (top_ptr m) (top_ptr r) (up fs) y d)"
  have e3: "tstore h2 (Some b) (set_parent (up fs)) = Some ?h3"
    using s2 [rule_format, of b] dj h by (simp add: tree_step)
  have "path_rep ?h3 (Some a) fs (tr_root tr) = path_rep h (Some a) fs (tr_root tr)"
    using dj s2 by (intro path_rep_cong) auto
  then obtain h4 rt where e4: "replace_child ?h3 tr (up fs) (Some a) (Some b) = Some (h4, tr\<lparr>tr_root := rt\<rparr>)"
    and r4: "path_rep h4 (Some b) fs rt" and s4: "\<forall>e. e \<notin> path_addrs fs \<longrightarrow> h4 e = ?h3 e" and d4: "dom h4 = dom ?h3"
    using rep dj by (metis replace_child_rep)
  let ?h6 = "h4(b \<mapsto> ?n (Some a) (top_ptr r) (up fs) y d, a \<mapsto> ?n (top_ptr l) (top_ptr m) (Some b) x c)"
  have at4: "h4 a = Some (?n (top_ptr l) (top_ptr m) (up fs) x c)" "h4 b = Some (?n (top_ptr m) (top_ptr r) (up fs) y d)"
    using s4 s2 dj by auto
  have e0: "tload h (Some a) = Some (?n (top_ptr l) (Some b) (up fs) x c)"
    "tload h (Some b) = Some (?n (top_ptr m) (top_ptr r) (Some a) y d)"
    "tstore h (Some a) (set_right (top_ptr m)) = Some ?h1"
    "tstore h4 (Some b) (set_left (Some a)) = Some (h4(b \<mapsto> ?n (Some a) (top_ptr r) (up fs) y d))"
    "tstore (h4(b \<mapsto> ?n (Some a) (top_ptr r) (up fs) y d)) (Some a) (set_parent (Some b)) = Some ?h6"
    using h at4 dj by (simp_all add: tree_step)
  have "left_rotate h tr (Some a) = Some (?h6, tr\<lparr>tr_root := rt\<rparr>)"
    unfolding left_rotate_def
    by (simp only: e0 e2 e3 e4 Option.bind_lunit tree_node.simps Let_def option.distinct prod.case if_False)
  moreover have "zrep ?h6 (tr\<lparr>tr_root := rt\<rparr>) fs (Bin (Bin l a x c m) b y d r)"
  proof -
    have off: "e \<notin> addrs m \<Longrightarrow> e \<notin> path_addrs fs \<Longrightarrow> e \<noteq> a \<Longrightarrow> e \<noteq> b \<Longrightarrow> ?h6 e = h e" for e
      using s4 s2 by simp
    have offm: "e \<notin> path_addrs fs \<Longrightarrow> e \<noteq> a \<Longrightarrow> e \<noteq> b \<Longrightarrow> ?h6 e = h2 e" for e
      using s4 by simp
    have "at_rep ?h6 (Some a) l = at_rep h (Some a) l"
      by (rule at_rep_cong, rule off) (use dj in blast)+
    moreover have "at_rep ?h6 (Some b) r = at_rep h (Some b) r"
      by (rule at_rep_cong, rule off) (use dj in blast)+
    moreover have "at_rep ?h6 (Some a) m = at_rep h2 (Some a) m"
      by (rule at_rep_cong, rule offm) (use dj in blast)+
    moreover have "path_rep ?h6 (Some b) fs rt = path_rep h4 (Some b) fs rt"
      using dj by simp
    ultimately show ?thesis using dj rep r2 r4 by (auto simp: zrep_def)
  qed
  moreover have "dom ?h6 = dom h" using d4 d2 h by auto
  ultimately show ?thesis using that by blast
qed

lemma right_rotate_rep:
  assumes z: "zrep h tr fs (Bin (Bin r b y d m) a x c l)"
  obtains h' rt where "right_rotate h tr (Some a) = Some (h', tr\<lparr>tr_root := rt\<rparr>)"
    "zrep h' (tr\<lparr>tr_root := rt\<rparr>) fs (Bin r b y d (Bin m a x c l))" "dom h' = dom h"
proof -
  let ?n = "\<lambda>p q r x c. \<lparr>t_left = q, t_right = p, t_parent = r, t_data = Some x, t_color = c\<rparr>"
  let ?h1 = "h(a \<mapsto> ?n (top_ptr l) (top_ptr m) (up fs) x c)"
  have h: "h a = Some (?n (top_ptr l) (Some b) (up fs) x c)" "h b = Some (?n (top_ptr m) (top_ptr r) (Some a) y d)"
    and dj: "a \<noteq> b" "a \<notin> addrs l" "a \<notin> addrs m" "a \<notin> addrs r" "b \<notin> addrs l" "b \<notin> addrs m" "b \<notin> addrs r"
      "addrs l \<inter> addrs m = {}" "addrs l \<inter> addrs r = {}" "addrs m \<inter> addrs r = {}"
      "a \<notin> path_addrs fs" "b \<notin> path_addrs fs" "addrs l \<inter> path_addrs fs = {}" "addrs m \<inter> path_addrs fs = {}"
      "addrs r \<inter> path_addrs fs = {}"
    and rep: "at_rep h (Some a) l" "at_rep h (Some b) m" "at_rep h (Some b) r" "path_rep h (Some a) fs (tr_root tr)"
    using z by (auto simp: zrep_def)
  have "at_rep ?h1 (Some b) m" using rep dj by simp
  then obtain h2 where e2: "(if top_ptr m \<noteq> None then tstore ?h1 (top_ptr m) (set_parent (Some a)) else Some ?h1) = Some h2"
    and r2: "at_rep h2 (Some a) m" and s2: "\<forall>e. e \<notin> addrs m \<longrightarrow> h2 e = ?h1 e" and d2: "dom h2 = dom ?h1"
    by (rule set_parent_top [where q = "Some a"])
  let ?h3 = "h2(b \<mapsto> ?n (top_ptr m) (top_ptr r) (up fs) y d)"
  have e3: "tstore h2 (Some b) (set_parent (up fs)) = Some ?h3"
    using s2 [rule_format, of b] dj h by (simp add: tree_step)
  have "path_rep ?h3 (Some a) fs (tr_root tr) = path_rep h (Some a) fs (tr_root tr)"
    using dj s2 by (intro path_rep_cong) auto
  then obtain h4 rt where e4: "replace_child ?h3 tr (up fs) (Some a) (Some b) = Some (h4, tr\<lparr>tr_root := rt\<rparr>)"
    and r4: "path_rep h4 (Some b) fs rt" and s4: "\<forall>e. e \<notin> path_addrs fs \<longrightarrow> h4 e = ?h3 e" and d4: "dom h4 = dom ?h3"
    using rep dj by (metis replace_child_rep)
  let ?h6 = "h4(b \<mapsto> ?n (Some a) (top_ptr r) (up fs) y d, a \<mapsto> ?n (top_ptr l) (top_ptr m) (Some b) x c)"
  have at4: "h4 a = Some (?n (top_ptr l) (top_ptr m) (up fs) x c)" "h4 b = Some (?n (top_ptr m) (top_ptr r) (up fs) y d)"
    using s4 s2 dj by auto
  have e0: "tload h (Some a) = Some (?n (top_ptr l) (Some b) (up fs) x c)"
    "tload h (Some b) = Some (?n (top_ptr m) (top_ptr r) (Some a) y d)"
    "tstore h (Some a) (set_left (top_ptr m)) = Some ?h1"
    "tstore h4 (Some b) (set_right (Some a)) = Some (h4(b \<mapsto> ?n (Some a) (top_ptr r) (up fs) y d))"
    "tstore (h4(b \<mapsto> ?n (Some a) (top_ptr r) (up fs) y d)) (Some a) (set_parent (Some b)) = Some ?h6"
    using h at4 dj by (simp_all add: tree_step)
  have "right_rotate h tr (Some a) = Some (?h6, tr\<lparr>tr_root := rt\<rparr>)"
    unfolding right_rotate_def
    by (simp only: e0 e2 e3 e4 Option.bind_lunit tree_node.simps Let_def option.distinct prod.case if_False)
  moreover have "zrep ?h6 (tr\<lparr>tr_root := rt\<rparr>) fs (Bin r b y d (Bin m a x c l))"
  proof -
    have off: "e \<notin> addrs m \<Longrightarrow> e \<notin> path_addrs fs \<Longrightarrow> e \<noteq> a \<Longrightarrow> e \<noteq> b \<Longrightarrow> ?h6 e = h e" for e
      using s4 s2 by simp
    have offm: "e \<notin> path_addrs fs \<Longrightarrow> e \<noteq> a \<Longrightarrow> e \<noteq> b \<Longrightarrow> ?h6 e = h2 e" for e
      using s4 by simp
    have "at_rep ?h6 (Some a) l = at_rep h (Some a) l"
      by (rule at_rep_cong, rule off) (use dj in blast)+
    moreover have "at_rep ?h6 (Some b) r = at_rep h (Some b) r"
      by (rule at_rep_cong, rule off) (use dj in blast)+
    moreover have "at_rep ?h6 (Some a) m = at_rep h2 (Some a) m"
      by (rule at_rep_cong, rule offm) (use dj in blast)+
    moreover have "path_rep ?h6 (Some b) fs rt = path_rep h4 (Some b) fs rt"
      using dj by simp
    ultimately show ?thesis using dj rep r2 r4 by (auto simp: zrep_def)
  qed
  moreover have "dom ?h6 = dom h" using d4 d2 h by auto
  ultimately show ?thesis using that by blast
qed

end
