(* ===== verification/TreeOps.thy ===== *)
theory TreeOps
  imports TreeRep
begin

text \<open>
  Insertion, search, neighbours and traversal of lsd/tree.c on a store that represents a tree: the loops end and
  compute what the corresponding functions on trees compute. An order on the data is given by a key, which the
  comparison function of the tree has to agree with.
\<close>

section \<open>The comparison function\<close>

definition cmp_by :: "('a \<Rightarrow> 'a \<Rightarrow> int) \<Rightarrow> ('a \<Rightarrow> int) \<Rightarrow> bool" where
  "cmp_by cmp key \<longleftrightarrow> (\<forall>x y. (cmp x y < 0 \<longleftrightarrow> key x < key y) \<and> (cmp x y = 0 \<longleftrightarrow> key x = key y))"

definition ordered :: "('a \<Rightarrow> int) \<Rightarrow> 'a atree \<Rightarrow> bool" where
  "ordered key t \<longleftrightarrow> sorted (map key (inorder t))"

lemma ordered_Bin: "ordered key (Bin l a x c r) \<longleftrightarrow>
    ordered key l \<and> ordered key r \<and> (\<forall>y \<in> set (inorder l). key y \<le> key x) \<and> (\<forall>y \<in> set (inorder r). key x \<le> key y)"
  by (fastforce simp: ordered_def sorted_append)

section \<open>Insertion\<close>

text \<open>The path from the insertion point to the root.\<close>
fun descend :: "'a tree \<Rightarrow> 'a \<Rightarrow> 'a atree \<Rightarrow> 'a path \<Rightarrow> 'a path" where
  "descend tr x Tip fs = fs"
| "descend tr x (Bin l a y c r) fs =
     (if tr_cmp tr x y < 0 then descend tr x l (LeftOf a y c r # fs) else descend tr x r (RightOf l a y c # fs))"

lemma zrep_node:
  "zrep h tr fs (Bin l a x c r) \<Longrightarrow>
     h a = Some \<lparr>t_left = top_ptr l, t_right = top_ptr r, t_parent = up fs, t_data = Some x, t_color = c\<rparr>"
  by (simp add: zrep_def)

lemma insert_walk_descend:
  "zrep h tr fs t \<Longrightarrow> insert_walk h tr x (up fs) (top_ptr t) = Some (up (descend tr x t fs))"
proof (induction t arbitrary: fs)
  case Tip
  then show ?case by (subst insert_walk.simps) simp
next
  case (Bin l a y c r)
  have "insert_walk h tr x (Some a) (top_ptr l) = Some (up (descend tr x l (LeftOf a y c r # fs)))"
    using Bin.IH(1) [of "LeftOf a y c r # fs"] Bin.prems zrep_push_left [of h tr fs] by simp
  moreover have "insert_walk h tr x (Some a) (top_ptr r) = Some (up (descend tr x r (RightOf l a y c # fs)))"
    using Bin.IH(2) [of "RightOf l a y c # fs"] Bin.prems zrep_push_right [of h tr fs] by simp
  ultimately show ?case
    using zrep_node [OF Bin.prems] by (subst insert_walk.simps) (simp add: tload_def cmp_with_def)
qed

lemma zrep_descend: "zrep h tr fs t \<Longrightarrow> zrep h tr (descend tr x t fs) Tip"
  by (induction t arbitrary: fs) (auto simp: zrep_push_left [symmetric] zrep_push_right [symmetric])

lemma descend_app: "descend tr x t (gs @ fs) = descend tr x t gs @ fs"
  by (induction t arbitrary: gs) (simp, metis append_Cons descend.simps(2))

lemma descend_acc: "descend tr x t fs = descend tr x t [] @ fs"
  using descend_app [of tr x t "[]" fs] by simp

lemma at_rep_dom: "at_rep h p t \<Longrightarrow> addrs t \<subseteq> dom h"
proof (induction t arbitrary: p)
  case (Bin l a x c r)
  from Bin.prems Bin.IH(1) [of "Some a"] Bin.IH(2) [of "Some a"] show ?case by auto
qed simp

lemma path_rep_dom: "path_rep h p fs rt \<Longrightarrow> path_addrs fs \<subseteq> dom h"
proof (induction fs arbitrary: p)
  case (Cons f fs)
  then show ?case by (cases f) (auto dest!: at_rep_dom)
qed simp

lemma zrep_fresh:
  "zrep h tr fs t \<Longrightarrow> h a = None \<Longrightarrow> a \<notin> addrs t \<and> a \<notin> path_addrs fs"
  by (auto simp: zrep_def dest!: at_rep_dom path_rep_dom)

text \<open>The hole of the path lies on the side of the first frame that the comparison chose.\<close>
fun hole_side :: "'a tree \<Rightarrow> 'a \<Rightarrow> 'a path \<Rightarrow> bool" where
  "hole_side tr x [] \<longleftrightarrow> True"
| "hole_side tr x (LeftOf a y c r # fs) \<longleftrightarrow> tr_cmp tr x y < 0"
| "hole_side tr x (RightOf l a y c # fs) \<longleftrightarrow> \<not> tr_cmp tr x y < 0"

lemma hole_side_descend: "hole_side tr x fs \<Longrightarrow> hole_side tr x (descend tr x t fs)"
  by (induction t arbitrary: fs) auto

definition leaf :: "nat \<Rightarrow> 'a \<Rightarrow> color \<Rightarrow> 'a atree" where
  "leaf a x c = Bin Tip a x c Tip"

text \<open>Hanging a new node into the hole of a path.\<close>
lemma attach:
  assumes z: "zrep h tr fs Tip" and fresh: "h a = None" and side: "hole_side tr x fs"
    and h2: "h2 = h(a \<mapsto> \<lparr>t_left = None, t_right = None, t_parent = up fs, t_data = Some x, t_color = RED\<rparr>)"
  obtains h' rt where
    "(if up fs = None then Some (h2, tr\<lparr>tr_root := Some a\<rparr>)
      else do { pn \<leftarrow> tload h2 (up fs); r \<leftarrow> cmp_with tr x pn;
                h3 \<leftarrow> tstore h2 (up fs) (if r < 0 then set_left (Some a) else set_right (Some a));
                Some (h3, tr) }) = Some (h', tr\<lparr>tr_root := rt\<rparr>)"
    "zrep h' (tr\<lparr>tr_root := rt\<rparr>) fs (leaf a x RED)" "dom h' = insert a (dom h)"
proof (cases fs)
  case Nil
  then show ?thesis using z h2 by (intro that [of h2 "Some a"]) (auto simp: zrep_def leaf_def)
next
  case (Cons f gs)
  have na: "a \<notin> path_addrs fs" using zrep_fresh [OF z fresh] by simp
  show ?thesis
  proof (cases f)
    case (LeftOf b y c r)
    let ?h' = "h2(b \<mapsto> \<lparr>t_left = Some a, t_right = top_ptr r, t_parent = up gs, t_data = Some y, t_color = c\<rparr>)"
    show ?thesis using z h2 Cons LeftOf side na
      by (intro that [of ?h' "tr_root tr"]) (auto simp: zrep_def leaf_def tree_step cmp_with_def)
  next
    case (RightOf l b y c)
    let ?h' = "h2(b \<mapsto> \<lparr>t_left = top_ptr l, t_right = Some a, t_parent = up gs, t_data = Some y, t_color = c\<rparr>)"
    show ?thesis using z h2 Cons RightOf side na
      by (intro that [of ?h' "tr_root tr"]) (auto simp: zrep_def leaf_def tree_step cmp_with_def)
  qed
qed

lemma zrep_upd_fresh: "zrep h tr fs t \<Longrightarrow> h a = None \<Longrightarrow> zrep (h(a \<mapsto> v)) tr fs t"
  by (frule (1) zrep_fresh) (simp add: zrep_def)

lemma tree_insert_zrep:
  assumes t: "tree_rep h tr t" and fresh: "h a = None"
  obtains h' rt where "tree_insert (Some a) x h tr = Some (h', tr\<lparr>tr_root := rt\<rparr>)"
    "zrep h' (tr\<lparr>tr_root := rt\<rparr>) (descend tr x t []) (leaf a x RED)" "dom h' = insert a (dom h)"
proof -
  let ?fs = "descend tr x t []"
  let ?n = "\<lambda>p. \<lparr>t_left = None, t_right = None, t_parent = p, t_data = Some x, t_color = RED\<rparr>"
  have z: "zrep h tr [] t" using t by (simp add: tree_rep_def)
  have w: "insert_walk (h(a \<mapsto> ?n None)) tr x None (tr_root tr) = Some (up ?fs)"
    using insert_walk_descend [OF zrep_upd_fresh [OF z fresh]] z by (simp add: zrep_def)
  have e: "make_node h (Some a) x = Some (h(a \<mapsto> ?n None))"
    "tstore (h(a \<mapsto> ?n None)) (Some a) (set_parent (up ?fs)) = Some (h(a \<mapsto> ?n (up ?fs)))"
    by (simp_all add: make_node_def tree_step)
  obtain h' rt where
    "(if up ?fs = None then Some (h(a \<mapsto> ?n (up ?fs)), tr\<lparr>tr_root := Some a\<rparr>)
      else do { pn \<leftarrow> tload (h(a \<mapsto> ?n (up ?fs))) (up ?fs); r \<leftarrow> cmp_with tr x pn;
                h3 \<leftarrow> tstore (h(a \<mapsto> ?n (up ?fs))) (up ?fs) (if r < 0 then set_left (Some a) else set_right (Some a));
                Some (h3, tr) }) = Some (h', tr\<lparr>tr_root := rt\<rparr>)"
    and "zrep h' (tr\<lparr>tr_root := rt\<rparr>) ?fs (leaf a x RED)" "dom h' = insert a (dom h)"
    using attach [OF zrep_descend [OF z] fresh hole_side_descend refl] by (metis hole_side.simps(1))
  then show ?thesis
    by (intro that) (simp_all only: tree_insert_def e w Option.bind_lunit)
qed

section \<open>Contents and order after an insertion\<close>

lemma descend_parts:
  "path_left (descend tr x t fs) @ path_right (descend tr x t fs) = path_left fs @ inorder t @ path_right fs"
  by (induction t arbitrary: fs) auto

lemma descend_order:
  assumes c: "cmp_by (tr_cmp tr) key" and o: "ordered key t"
    and "\<forall>y \<in> set (path_left fs). key y \<le> key x" "\<forall>y \<in> set (path_right fs). key x < key y"
  shows "(\<forall>y \<in> set (path_left (descend tr x t fs)). key y \<le> key x) \<and>
    (\<forall>y \<in> set (path_right (descend tr x t fs)). key x < key y)"
  using o assms(3,4)
proof (induction t arbitrary: fs)
  case (Bin l a y d r)
  have k: "tr_cmp tr x y < 0 \<longleftrightarrow> key x < key y" using c by (simp add: cmp_by_def)
  show ?case
  proof (cases "key x < key y")
    case True
    then have "\<forall>z \<in> set (path_right (LeftOf a y d r # fs)). key x < key z"
      using Bin.prems by (force simp: ordered_Bin)
    then show ?thesis using Bin.IH(1) [of "LeftOf a y d r # fs"] Bin.prems True k by (simp add: ordered_Bin)
  next
    case False
    then have "\<forall>z \<in> set (path_left (RightOf l a y d # fs)). key z \<le> key x"
      using Bin.prems by (force simp: ordered_Bin)
    then show ?thesis using Bin.IH(2) [of "RightOf l a y d # fs"] Bin.prems False k by (simp add: ordered_Bin)
  qed
qed simp

text \<open>The new element comes after those whose key is not greater, before all others.\<close>
definition insert_after :: "('a \<Rightarrow> int) \<Rightarrow> 'a \<Rightarrow> 'a list \<Rightarrow> 'a list" where
  "insert_after key x ys = takeWhile (\<lambda>y. key y \<le> key x) ys @ x # dropWhile (\<lambda>y. key y \<le> key x) ys"

lemma insert_after_parts:
  "\<forall>y \<in> set p. key y \<le> key x \<Longrightarrow> \<forall>y \<in> set q. key x < key y \<Longrightarrow> insert_after key x (p @ q) = p @ x # q"
  by (cases q) (auto simp: insert_after_def takeWhile_tail)

lemma sorted_insert_after: "sorted (map key ys) \<Longrightarrow> sorted (map key (insert_after key x ys))"
proof (induction ys)
  case (Cons y ys)
  then show ?case
    by (cases "key y \<le> key x") (auto simp: insert_after_def dest: set_takeWhileD set_dropWhileD)
qed (simp add: insert_after_def)

lemma inorder_insert:
  assumes "cmp_by (tr_cmp tr) key" "ordered key t"
  shows "inorder (plug (descend tr x t []) (leaf a x c)) = insert_after key x (inorder t)"
proof -
  have "insert_after key x (path_left (descend tr x t []) @ path_right (descend tr x t [])) =
      path_left (descend tr x t []) @ x # path_right (descend tr x t [])"
    using descend_order [OF assms, of "[]" x] by (intro insert_after_parts) auto
  then show ?thesis by (simp add: inorder_plug leaf_def descend_parts)
qed

section \<open>Search\<close>

lemma search_r_finds:
  assumes c: "cmp_by (tr_cmp tr) key"
  shows "at_rep h p t \<Longrightarrow> ordered key t \<Longrightarrow>
    (\<exists>r. search_r h tr (top_ptr t) k = Some r \<and>
         (case r of None \<Rightarrow> \<forall>y \<in> set (inorder t). key y \<noteq> key k
          | Some a \<Rightarrow> \<exists>nd y. h a = Some nd \<and> t_data nd = Some y \<and> y \<in> set (inorder t) \<and> key y = key k))"
proof (induction t arbitrary: p)
  case Tip
  then show ?case by (subst search_r.simps) simp
next
  case (Bin l a y d r)
  have k: "tr_cmp tr k y < 0 \<longleftrightarrow> key k < key y" "tr_cmp tr k y = 0 \<longleftrightarrow> key k = key y"
    using c by (simp_all add: cmp_by_def)
  consider "key k = key y" | "key k < key y" | "key y < key k" by linarith
  then show ?case
  proof cases
    case 1
    then show ?thesis using Bin.prems k by (subst search_r.simps) (simp add: tload_def cmp_with_def)
  next
    case 2
    have "search_r h tr (Some a) k = search_r h tr (top_ptr l) k"
      using Bin.prems k 2 by (subst search_r.simps) (simp add: tload_def cmp_with_def)
    moreover have "\<forall>z \<in> set (inorder r). key z \<noteq> key k" using Bin.prems 2 by (force simp: ordered_Bin)
    ultimately show ?thesis using Bin.IH(1) [of "Some a"] Bin.prems 2
      by (fastforce simp: ordered_Bin split: option.splits)
  next
    case 3
    have "search_r h tr (Some a) k = search_r h tr (top_ptr r) k"
      using Bin.prems k 3 by (subst search_r.simps) (simp add: tload_def cmp_with_def)
    moreover have "\<forall>z \<in> set (inorder l). key z \<noteq> key k" using Bin.prems 3 by (force simp: ordered_Bin)
    ultimately show ?thesis using Bin.IH(2) [of "Some a"] Bin.prems 3
      by (fastforce simp: ordered_Bin split: option.splits)
  qed
qed

end
