(* ===== verification/TreeRB.thy ===== *)
theory TreeRB
  imports TreeOps
begin

text \<open>
  The red-black insertion of lsd/tree.c: the loop after the insertion ends and leaves a red-black tree with the
  same elements in the same order. The proof follows the loop on a subtree and its path.
\<close>

section \<open>Red-black trees\<close>

fun col :: "'a atree \<Rightarrow> color" where
  "col Tip = BLACK"
| "col (Bin l a x c r) = c"

fun invc :: "'a atree \<Rightarrow> bool" where
  "invc Tip \<longleftrightarrow> True"
| "invc (Bin l a x c r) \<longleftrightarrow> invc l \<and> invc r \<and> (c = RED \<longrightarrow> col l = BLACK \<and> col r = BLACK)"

fun bheight :: "'a atree \<Rightarrow> nat" where
  "bheight Tip = 0"
| "bheight (Bin l a x c r) = (if c = BLACK then bheight l + 1 else bheight l)"

fun invh :: "'a atree \<Rightarrow> bool" where
  "invh Tip \<longleftrightarrow> True"
| "invh (Bin l a x c r) \<longleftrightarrow> invh l \<and> invh r \<and> bheight l = bheight r"

definition rbt :: "'a atree \<Rightarrow> bool" where
  "rbt t \<longleftrightarrow> invc t \<and> invh t \<and> col t = BLACK"

fun fcol :: "'a frame \<Rightarrow> color" where
  "fcol (LeftOf a x c r) = c"
| "fcol (RightOf l a x c) = c"

fun sib :: "'a frame \<Rightarrow> 'a atree" where
  "sib (LeftOf a x c r) = r"
| "sib (RightOf l a x c) = l"

definition above :: "'a path \<Rightarrow> color" where
  "above fs = (case fs of [] \<Rightarrow> BLACK | f # gs \<Rightarrow> fcol f)"

text \<open>A path whose hole takes a subtree of black height \<open>n\<close>; its last frame is black.\<close>
fun pok :: "'a path \<Rightarrow> nat \<Rightarrow> bool" where
  "pok [] n \<longleftrightarrow> True"
| "pok (f # fs) n \<longleftrightarrow>
     invc (sib f) \<and> invh (sib f) \<and> bheight (sib f) = n \<and>
     (fcol f = RED \<longrightarrow> col (sib f) = BLACK \<and> fs \<noteq> [] \<and> above fs = BLACK) \<and>
     pok fs (if fcol f = BLACK then n + 1 else n)"

lemma color_neq [simp]: "c \<noteq> RED \<longleftrightarrow> c = BLACK" "c \<noteq> BLACK \<longleftrightarrow> c = RED"
  by (cases c; simp)+

lemma above_simps [simp]: "above [] = BLACK" "above (f # fs) = fcol f"
  by (simp_all add: above_def)

lemma pok_plug:
  "pok fs (bheight t) \<Longrightarrow> invc t \<Longrightarrow> invh t \<Longrightarrow> (above fs = RED \<longrightarrow> col t = BLACK) \<Longrightarrow>
     invc (plug fs t) \<and> invh (plug fs t) \<and> col (plug fs t) = (if fs = [] then col t else BLACK)"
proof (induction fs arbitrary: t)
  case (Cons f fs)
  have "invc (plug1 f t) \<and> invh (plug1 f t) \<and> bheight (plug1 f t) = (if fcol f = BLACK then bheight t + 1 else bheight t) \<and>
      col (plug1 f t) = fcol f"
    using Cons.prems by (cases f) auto
  then show ?case using Cons.IH [of "plug1 f t"] Cons.prems by (cases fs) (auto split: if_splits)
qed simp

text \<open>A tree cut open at any subtree.\<close>
lemma plug_pok:
  "invc (plug fs t) \<Longrightarrow> invh (plug fs t) \<Longrightarrow> (col (plug fs t) = BLACK) \<Longrightarrow>
     invc t \<and> invh t \<and> pok fs (bheight t) \<and> (above fs = RED \<longrightarrow> col t = BLACK)"
proof (induction fs arbitrary: t)
  case (Cons f fs)
  have "invc (plug1 f t) \<and> invh (plug1 f t) \<and> pok fs (bheight (plug1 f t)) \<and> (above fs = RED \<longrightarrow> col (plug1 f t) = BLACK)"
    using Cons.IH [of "plug1 f t"] Cons.prems by simp
  moreover have "fs = [] \<Longrightarrow> fcol f = BLACK" using Cons.prems by (cases f) auto
  ultimately show ?case by (cases f) (auto split: if_splits)
qed simp

section \<open>The invariant of the insertion loop\<close>

text \<open>The node that may have a red parent is red, and all else is as in a red-black tree.\<close>
fun red_at :: "'a path \<Rightarrow> 'a atree \<Rightarrow> bool" where
  "red_at fs Tip \<longleftrightarrow> False"
| "red_at fs (Bin l a x c r) \<longleftrightarrow>
     c = RED \<and> invc l \<and> invc r \<and> invh l \<and> invh r \<and> bheight l = bheight r \<and> col l = BLACK \<and> col r = BLACK \<and>
     pok fs (bheight l)"

lemma red_at_paint:
  assumes "red_at fs t" "above fs = BLACK"
  shows "invc (plug fs t) \<and> invh (plug fs t) \<and> (fs \<noteq> [] \<longrightarrow> col (plug fs t) = BLACK)"
  using assms pok_plug [of fs t] by (cases t) auto

fun paint :: "color \<Rightarrow> 'a atree \<Rightarrow> 'a atree" where
  "paint c Tip = Tip"
| "paint c (Bin l a x d r) = Bin l a x c r"

lemma paint_simps [simp]: "top_ptr (paint c t) = top_ptr t" "inorder (paint c t) = inorder t"
  "addrs (paint c t) = addrs t"
  by (cases t; simp)+

lemma paint_rep:
  assumes "zrep h tr fs t" "t \<noteq> Tip"
  obtains h' where "tstore h (top_ptr t) (set_color c) = Some h'" "zrep h' tr fs (paint c t)" "dom h' = dom h"
proof (cases t)
  case (Bin l a x d r)
  let ?h' = "h(a \<mapsto> \<lparr>t_left = top_ptr l, t_right = top_ptr r, t_parent = up fs, t_data = Some x, t_color = c\<rparr>)"
  show ?thesis using assms Bin by (intro that [of ?h']) (auto simp: zrep_def tree_step)
qed (use assms in simp)

lemma rb_color_rep: "at_rep h p t \<Longrightarrow> rb_color h (top_ptr t) = Some (col t)"
  by (cases t) (simp_all add: rb_color_def)

lemma zrep_up: "zrep h tr (f # fs) t \<Longrightarrow> \<exists>nd. h (frame_addr f) = Some nd \<and> t_parent nd = up fs \<and> t_color nd = fcol f \<and>
    (case f of LeftOf a x c r \<Rightarrow> t_left nd = top_ptr t \<and> t_right nd = top_ptr r
     | RightOf l a x c \<Rightarrow> t_left nd = top_ptr l \<and> t_right nd = top_ptr t)"
  by (cases f) (auto simp: zrep_def)


section \<open>The cases of the loop\<close>

lemma insert_left_red:
  assumes z: "zrep h tr gs (Bin P c z k U)" and ne: "P \<noteq> Tip" "U \<noteq> Tip" and u: "col U = RED"
    and pn: "t_parent pn = Some c" "t_right gn = top_ptr U"
  obtains h' where "insert_left_case h tr cur (top_ptr P) pn gn = Some (h', tr, Some c)"
    "zrep h' tr gs (Bin (paint BLACK P) c z RED (paint BLACK U))" "dom h' = dom h"
proof -
  from z ne have "zrep h tr (LeftOf c z k U # gs) P" by (simp add: zrep_push_left)
  then obtain h1 where e1: "tstore h (top_ptr P) (set_color BLACK) = Some h1"
    and "zrep h1 tr (LeftOf c z k U # gs) (paint BLACK P)" and d1: "dom h1 = dom h"
    using paint_rep ne by metis
  then have "zrep h1 tr (RightOf (paint BLACK P) c z k # gs) U"
    by (simp add: zrep_push_left [symmetric] zrep_push_right [symmetric])
  then obtain h2 where e2: "tstore h1 (top_ptr U) (set_color BLACK) = Some h2"
    and "zrep h2 tr (RightOf (paint BLACK P) c z k # gs) (paint BLACK U)" and d2: "dom h2 = dom h1"
    using paint_rep ne by metis
  then have "zrep h2 tr gs (Bin (paint BLACK P) c z k (paint BLACK U))" by (simp add: zrep_push_right)
  then obtain h3 where e3: "tstore h2 (Some c) (set_color RED) = Some h3"
    and z3: "zrep h3 tr gs (Bin (paint BLACK P) c z RED (paint BLACK U))" and d3: "dom h3 = dom h2"
    using paint_rep [of h2 tr gs _ RED] by (metis atree.distinct(2) paint.simps(2) top_ptr.simps(2))
  have "rb_color h (top_ptr U) = Some RED" using z u rb_color_rep [of h "Some c" U] by (simp add: zrep_def)
  with e1 e2 e3 pn have "insert_left_case h tr cur (top_ptr P) pn gn = Some (h3, tr, Some c)"
    by (simp add: insert_left_case_def)
  with z3 d1 d2 d3 that show ?thesis by simp
qed

lemma insert_left_inner:
  assumes z: "zrep h tr (LeftOf c z k U # gs) (Bin l b y d (Bin m a x e r))" and u: "col U = BLACK"
    and pn: "t_parent pn = Some c" "t_right gn = top_ptr U" "t_right pn = Some a"
  obtains h' rt where "insert_left_case h tr (Some a) (Some b) pn gn = Some (h', tr\<lparr>tr_root := rt\<rparr>, Some b)"
    "zrep h' (tr\<lparr>tr_root := rt\<rparr>) (LeftOf c z k U # gs) (Bin (Bin l b y d m) a x e r)" "dom h' = dom h"
proof -
  from left_rotate_rep [OF z] obtain h' rt where r: "left_rotate h tr (Some b) = Some (h', tr\<lparr>tr_root := rt\<rparr>)"
    "zrep h' (tr\<lparr>tr_root := rt\<rparr>) (LeftOf c z k U # gs) (Bin (Bin l b y d m) a x e r)" "dom h' = dom h" .
  have "rb_color h (top_ptr U) = Some BLACK"
    using z u rb_color_rep [of h "Some c" U] by (simp add: zrep_def)
  with r pn have "insert_left_case h tr (Some a) (Some b) pn gn = Some (h', tr\<lparr>tr_root := rt\<rparr>, Some b)"
    by (simp add: insert_left_case_def)
  with r that show ?thesis by blast
qed

lemma insert_left_outer:
  assumes z: "zrep h tr gs (Bin (Bin T b y d m) c z k U)" and u: "col U = BLACK"
    and pn: "t_parent pn = Some c" "t_right gn = top_ptr U" "cur \<noteq> t_right pn"
  obtains h' rt where "insert_left_case h tr cur (Some b) pn gn = Some (h', tr\<lparr>tr_root := rt\<rparr>, cur)"
    "zrep h' (tr\<lparr>tr_root := rt\<rparr>) gs (Bin T b y BLACK (Bin m c z RED U))" "dom h' = dom h"
proof -
  from z have "zrep h tr (LeftOf c z k U # gs) (Bin T b y d m)" by (simp add: zrep_push_left)
  then obtain h1 where e1: "tstore h (Some b) (set_color BLACK) = Some h1"
    and "zrep h1 tr (LeftOf c z k U # gs) (Bin T b y BLACK m)" and d1: "dom h1 = dom h"
    using paint_rep [of h tr _ _ BLACK] by (metis atree.distinct(2) paint.simps(2) top_ptr.simps(2))
  then have "zrep h1 tr gs (Bin (Bin T b y BLACK m) c z k U)" by (simp add: zrep_push_left)
  then obtain h2 where e2: "tstore h1 (Some c) (set_color RED) = Some h2"
    and z2: "zrep h2 tr gs (Bin (Bin T b y BLACK m) c z RED U)" and d2: "dom h2 = dom h1"
    using paint_rep [of h1 tr _ _ RED] by (metis atree.distinct(2) paint.simps(2) top_ptr.simps(2))
  from right_rotate_rep [OF z2] obtain h3 rt where r: "right_rotate h2 tr (Some c) = Some (h3, tr\<lparr>tr_root := rt\<rparr>)"
    "zrep h3 (tr\<lparr>tr_root := rt\<rparr>) gs (Bin T b y BLACK (Bin m c z RED U))" "dom h3 = dom h2" .
  have "rb_color h (top_ptr U) = Some BLACK"
    using z u rb_color_rep [of h "Some c" U] by (simp add: zrep_def)
  with r e1 e2 pn have "insert_left_case h tr cur (Some b) pn gn = Some (h3, tr\<lparr>tr_root := rt\<rparr>, cur)"
    by (simp add: insert_left_case_def)
  with r d1 d2 that show ?thesis by simp
qed

lemma insert_right_red:
  assumes z: "zrep h tr gs (Bin U c z k P)" and ne: "P \<noteq> Tip" "U \<noteq> Tip" and u: "col U = RED"
    and pn: "t_parent pn = Some c" "t_left gn = top_ptr U"
  obtains h' where "insert_right_case h tr cur (top_ptr P) pn gn = Some (h', tr, Some c)"
    "zrep h' tr gs (Bin (paint BLACK U) c z RED (paint BLACK P))" "dom h' = dom h"
proof -
  from z ne have "zrep h tr (RightOf U c z k # gs) P" by (simp add: zrep_push_right)
  then obtain h1 where e1: "tstore h (top_ptr P) (set_color BLACK) = Some h1"
    and "zrep h1 tr (RightOf U c z k # gs) (paint BLACK P)" and d1: "dom h1 = dom h"
    using paint_rep ne by metis
  then have "zrep h1 tr (LeftOf c z k (paint BLACK P) # gs) U"
    by (simp add: zrep_push_right [symmetric] zrep_push_left [symmetric])
  then obtain h2 where e2: "tstore h1 (top_ptr U) (set_color BLACK) = Some h2"
    and "zrep h2 tr (LeftOf c z k (paint BLACK P) # gs) (paint BLACK U)" and d2: "dom h2 = dom h1"
    using paint_rep ne by metis
  then have "zrep h2 tr gs (Bin (paint BLACK U) c z k (paint BLACK P))" by (simp add: zrep_push_left)
  then obtain h3 where e3: "tstore h2 (Some c) (set_color RED) = Some h3"
    and z3: "zrep h3 tr gs (Bin (paint BLACK U) c z RED (paint BLACK P))" and d3: "dom h3 = dom h2"
    using paint_rep [of h2 tr gs _ RED] by (metis atree.distinct(2) paint.simps(2) top_ptr.simps(2))
  have "rb_color h (top_ptr U) = Some RED" using z u rb_color_rep [of h "Some c" U] by (simp add: zrep_def)
  with e1 e2 e3 pn have "insert_right_case h tr cur (top_ptr P) pn gn = Some (h3, tr, Some c)"
    by (simp add: insert_right_case_def)
  with z3 d1 d2 d3 that show ?thesis by simp
qed

lemma insert_right_inner:
  assumes z: "zrep h tr (RightOf U c z k # gs) (Bin (Bin r a x e m) b y d l)" and u: "col U = BLACK"
    and pn: "t_parent pn = Some c" "t_left gn = top_ptr U" "t_left pn = Some a"
  obtains h' rt where "insert_right_case h tr (Some a) (Some b) pn gn = Some (h', tr\<lparr>tr_root := rt\<rparr>, Some b)"
    "zrep h' (tr\<lparr>tr_root := rt\<rparr>) (RightOf U c z k # gs) (Bin r a x e (Bin m b y d l))" "dom h' = dom h"
proof -
  from right_rotate_rep [OF z] obtain h' rt where r: "right_rotate h tr (Some b) = Some (h', tr\<lparr>tr_root := rt\<rparr>)"
    "zrep h' (tr\<lparr>tr_root := rt\<rparr>) (RightOf U c z k # gs) (Bin r a x e (Bin m b y d l))" "dom h' = dom h" .
  have "rb_color h (top_ptr U) = Some BLACK"
    using z u rb_color_rep [of h "Some c" U] by (simp add: zrep_def)
  with r pn have "insert_right_case h tr (Some a) (Some b) pn gn = Some (h', tr\<lparr>tr_root := rt\<rparr>, Some b)"
    by (simp add: insert_right_case_def)
  with r that show ?thesis by blast
qed

lemma insert_right_outer:
  assumes z: "zrep h tr gs (Bin U c z k (Bin m b y d T))" and u: "col U = BLACK"
    and pn: "t_parent pn = Some c" "t_left gn = top_ptr U" "cur \<noteq> t_left pn"
  obtains h' rt where "insert_right_case h tr cur (Some b) pn gn = Some (h', tr\<lparr>tr_root := rt\<rparr>, cur)"
    "zrep h' (tr\<lparr>tr_root := rt\<rparr>) gs (Bin (Bin U c z RED m) b y BLACK T)" "dom h' = dom h"
proof -
  from z have "zrep h tr (RightOf U c z k # gs) (Bin m b y d T)" by (simp add: zrep_push_right)
  then obtain h1 where e1: "tstore h (Some b) (set_color BLACK) = Some h1"
    and "zrep h1 tr (RightOf U c z k # gs) (Bin m b y BLACK T)" and d1: "dom h1 = dom h"
    using paint_rep [of h tr _ _ BLACK] by (metis atree.distinct(2) paint.simps(2) top_ptr.simps(2))
  then have "zrep h1 tr gs (Bin U c z k (Bin m b y BLACK T))" by (simp add: zrep_push_right)
  then obtain h2 where e2: "tstore h1 (Some c) (set_color RED) = Some h2"
    and z2: "zrep h2 tr gs (Bin U c z RED (Bin m b y BLACK T))" and d2: "dom h2 = dom h1"
    using paint_rep [of h1 tr _ _ RED] by (metis atree.distinct(2) paint.simps(2) top_ptr.simps(2))
  from left_rotate_rep [OF z2] obtain h3 rt where r: "left_rotate h2 tr (Some c) = Some (h3, tr\<lparr>tr_root := rt\<rparr>)"
    "zrep h3 (tr\<lparr>tr_root := rt\<rparr>) gs (Bin (Bin U c z RED m) b y BLACK T)" "dom h3 = dom h2" .
  have "rb_color h (top_ptr U) = Some BLACK"
    using z u rb_color_rep [of h "Some c" U] by (simp add: zrep_def)
  with r e1 e2 pn have "insert_right_case h tr cur (Some b) pn gn = Some (h3, tr\<lparr>tr_root := rt\<rparr>, cur)"
    by (simp add: insert_right_case_def)
  with r d1 d2 that show ?thesis by simp
qed


section \<open>The loop\<close>

text \<open>The loop's step on a path and a subtree.\<close>
fun fix_step :: "'a path \<Rightarrow> 'a atree \<Rightarrow> 'a path \<times> 'a atree" where
  "fix_step (LeftOf b y d m # LeftOf c z k U # gs) t =
     (if col U = RED then (gs, Bin (Bin t b y BLACK m) c z RED (paint BLACK U))
      else (LeftOf b y BLACK (Bin m c z RED U) # gs, t))"
| "fix_step (RightOf m b y d # LeftOf c z k U # gs) t =
     (if col U = RED then (gs, Bin (Bin m b y BLACK t) c z RED (paint BLACK U))
      else (case t of
              Tip \<Rightarrow> ([], Tip)
            | Bin l a x e r \<Rightarrow> (LeftOf a x e r # LeftOf c z k U # gs, Bin m b y d l)))"
| "fix_step (RightOf m b y d # RightOf U c z k # gs) t =
     (if col U = RED then (gs, Bin (paint BLACK U) c z RED (Bin m b y BLACK t))
      else (RightOf (Bin U c z RED m) b y BLACK # gs, t))"
| "fix_step (LeftOf b y d m # RightOf U c z k # gs) t =
     (if col U = RED then (gs, Bin (paint BLACK U) c z RED (Bin t b y BLACK m))
      else (case t of
              Tip \<Rightarrow> ([], Tip)
            | Bin l a x e r \<Rightarrow> (RightOf l a x e # RightOf U c z k # gs, Bin r b y d m)))"
| "fix_step fs t = (fs, t)"

fun fix_measure :: "'a path \<Rightarrow> nat" where
  "fix_measure (LeftOf b y d m # LeftOf c z k U # gs) = (if d = BLACK then 0 else 2 * length gs + 4)"
| "fix_measure (RightOf m b y d # RightOf U c z k # gs) = (if d = BLACK then 0 else 2 * length gs + 4)"
| "fix_measure (f # g # gs) = (if fcol f = BLACK then 0 else 2 * length gs + 5)"
| "fix_measure fs = 0"

lemma fix_measure_le: "fix_measure fs \<le> 2 * length fs + 1"
  by (induction fs rule: fix_measure.induct) auto

lemma paint_red_inv: "invc t \<Longrightarrow> invh t \<Longrightarrow> col t = RED \<Longrightarrow>
    invc (paint BLACK t) \<and> invh (paint BLACK t) \<and> bheight (paint BLACK t) = bheight t + 1 \<and> col (paint BLACK t) = BLACK"
  by (cases t) auto

lemma fix_measure_black: "above fs = BLACK \<Longrightarrow> fix_measure fs = 0"
  by (induction fs rule: fix_measure.induct) auto

lemma fix_step_measure:
  assumes "fcol f = RED" "t \<noteq> Tip" "fix_step (f # g # gs) t = (fs', t')"
  shows "fix_measure fs' < fix_measure (f # g # gs)"
proof -
  have "fix_measure gs < 2 * length gs + 4" using fix_measure_le [of gs] by simp
  then show ?thesis using assms fix_measure_black [of fs']
    by (cases f; cases g; cases t) (auto split: if_splits)
qed

lemma fix_step_inorder:
  assumes "t \<noteq> Tip" "fix_step (f # g # gs) t = (fs', t')"
  shows "inorder (plug fs' t') = inorder (plug (f # g # gs) t)"
  using assms by (cases f; cases g; cases t) (auto simp: inorder_plug split: if_splits)

lemma fix_step_red_at:
  assumes "red_at (f # g # gs) t" "fcol f = RED" "fix_step (f # g # gs) t = (fs', t')"
  shows "red_at fs' t'"
proof -
  obtain l a x e r where t: "t = Bin l a x e r" using assms(1) by (cases t) auto
  have k: "fcol g = BLACK" using assms by (auto simp: t)
  show ?thesis
  proof (cases "col (sib g) = RED")
    case True
    have u: "invc (paint BLACK (sib g)) \<and> invh (paint BLACK (sib g)) \<and>
        bheight (paint BLACK (sib g)) = bheight (sib g) + 1 \<and> col (paint BLACK (sib g)) = BLACK"
      using True assms k by (intro paint_red_inv) (auto simp: t)
    show ?thesis using True u assms k by (cases f; cases g) (simp_all add: t, auto)
  next
    case False
    with assms k show ?thesis by (cases f; cases g) (simp_all add: t, auto)
  qed
qed

lemma path_root: "path_rep h p (f # fs) rt \<Longrightarrow> \<exists>a. rt = Some a \<and> a \<in> path_addrs (f # fs)"
proof (induction fs arbitrary: f p)
  case Nil
  then show ?case by (cases f) auto
next
  case (Cons g fs)
  have "path_rep h (Some (frame_addr f)) (g # fs) rt" using Cons.prems by (cases f) auto
  from Cons.IH [OF this] show ?case by auto
qed

lemma zrep_not_root: "zrep h tr (f # fs) t \<Longrightarrow> t \<noteq> Tip \<Longrightarrow> top_ptr t \<noteq> tr_root tr"
  using path_root [of h "top_ptr t" f fs "tr_root tr"] by (cases t) (auto simp: zrep_def)

lemma rb_insert_loop_unfold:
  assumes z: "zrep h tr (f # g # gs) (Bin l a x e r)" and red: "fcol f = RED"
  obtains pn gn where
    "rb_insert_loop h tr (Some a) =
       do { (h1, tr1, c1) \<leftarrow>
              (case g of LeftOf c z k U \<Rightarrow> insert_left_case h tr (Some a) (Some (frame_addr f)) pn gn
               | RightOf U c z k \<Rightarrow> insert_right_case h tr (Some a) (Some (frame_addr f)) pn gn);
            rb_insert_loop h1 tr1 c1 }"
    "t_parent pn = Some (frame_addr g)"
    "case f of LeftOf b y d m \<Rightarrow> t_left pn = Some a \<and> t_right pn = top_ptr m
     | RightOf m b y d \<Rightarrow> t_left pn = top_ptr m \<and> t_right pn = Some a"
    "case g of LeftOf c z k U \<Rightarrow> t_right gn = top_ptr U | RightOf U c z k \<Rightarrow> t_left gn = top_ptr U"
proof -
  obtain pn where p: "h (frame_addr f) = Some pn" "t_parent pn = Some (frame_addr g)" "t_color pn = RED"
      "case f of LeftOf b y d m \<Rightarrow> t_left pn = Some a \<and> t_right pn = top_ptr m
       | RightOf m b y d \<Rightarrow> t_left pn = top_ptr m \<and> t_right pn = Some a"
    using zrep_up [OF z] red by (cases f) auto
  have top: "top_ptr (plug1 f (Bin l a x e r)) = Some (frame_addr f)" by (cases f) auto
  obtain gn where g: "h (frame_addr g) = Some gn"
      "case g of LeftOf c z k U \<Rightarrow> t_left gn = Some (frame_addr f) \<and> t_right gn = top_ptr U
       | RightOf U c z k \<Rightarrow> t_left gn = top_ptr U \<and> t_right gn = Some (frame_addr f)"
    using zrep_up [of h tr g gs "plug1 f (Bin l a x e r)"] z top by (cases g) (auto simp: zrep_plug1)
  have side: "(Some (frame_addr f) = t_left gn) = (case g of LeftOf c z k U \<Rightarrow> True | RightOf U c z k \<Rightarrow> False)"
    using g(2) z by (cases f; cases g) (auto simp: zrep_def dest!: sym [of "Some _"] addrs_top)
  show ?thesis
  proof (rule that [of pn gn])
    show "rb_insert_loop h tr (Some a) =
       do { (h1, tr1, c1) \<leftarrow>
              (case g of LeftOf c z k U \<Rightarrow> insert_left_case h tr (Some a) (Some (frame_addr f)) pn gn
               | RightOf U c z k \<Rightarrow> insert_right_case h tr (Some a) (Some (frame_addr f)) pn gn);
            rb_insert_loop h1 tr1 c1 }"
      using zrep_not_root [OF z] zrep_node [OF z] p g(1) side
      by (subst rb_insert_loop.simps) (simp add: tload_def rb_color_def split: frame.splits)
  qed (use p g in \<open>auto split: frame.splits\<close>)
qed

lemma insert_left_step:
  assumes z: "zrep h tr (f # LeftOf c zz k U # gs) (Bin l a x e r)"
    and s: "fix_step (f # LeftOf c zz k U # gs) (Bin l a x e r) = (fs', t')"
    and pn: "t_parent pn = Some c" "t_right gn = top_ptr U"
    and pf: "case f of LeftOf b y d m \<Rightarrow> t_left pn = Some a \<and> t_right pn = top_ptr m
      | RightOf m b y d \<Rightarrow> t_left pn = top_ptr m \<and> t_right pn = Some a"
  shows "\<exists>h' rt. insert_left_case h tr (Some a) (Some (frame_addr f)) pn gn = Some (h', tr\<lparr>tr_root := rt\<rparr>, top_ptr t') \<and>
    zrep h' (tr\<lparr>tr_root := rt\<rparr>) fs' t' \<and> dom h' = dom h"
proof (cases "col U = RED")
  case True
  let ?P = "plug1 f (Bin l a x e r)"
  have zg: "zrep h tr gs (Bin ?P c zz k U)" using z by (simp add: zrep_plug1)
  have un: "?P \<noteq> Tip" "U \<noteq> Tip" using True by (cases f; auto)+
  have tp: "top_ptr ?P = Some (frame_addr f)" by (cases f; simp)
  obtain h' where h: "insert_left_case h tr (Some a) (top_ptr ?P) pn gn = Some (h', tr, Some c)"
    "zrep h' tr gs (Bin (paint BLACK ?P) c zz RED (paint BLACK U))" "dom h' = dom h"
    by (rule insert_left_red [OF zg un True pn, of "Some a"])
  have "fs' = gs \<and> t' = Bin (paint BLACK ?P) c zz RED (paint BLACK U)" using s True by (cases f) auto
  then show ?thesis using h tp by (intro exI [of _ h'] exI [of _ "tr_root tr"]) simp
next
  case False
  then have ub: "col U = BLACK" by simp
  show ?thesis
  proof (cases f)
    case (LeftOf b y d m)
    have zg: "zrep h tr gs (Bin (Bin (Bin l a x e r) b y d m) c zz k U)"
      using z by (simp add: zrep_push_left LeftOf)
    have "a \<notin> addrs m" using z by (auto simp: zrep_def LeftOf)
    then have ne: "Some a \<noteq> t_right pn" using pf LeftOf by auto
    obtain h' rt where "insert_left_case h tr (Some a) (Some b) pn gn = Some (h', tr\<lparr>tr_root := rt\<rparr>, Some a)"
      "zrep h' (tr\<lparr>tr_root := rt\<rparr>) gs (Bin (Bin l a x e r) b y BLACK (Bin m c zz RED U))" "dom h' = dom h"
      by (rule insert_left_outer [OF zg ub pn ne])
    then show ?thesis using s ub LeftOf by (intro exI [of _ h'] exI [of _ rt]) (auto simp: zrep_push_left)
  next
    case (RightOf m b y d)
    have zg: "zrep h tr (LeftOf c zz k U # gs) (Bin m b y d (Bin l a x e r))"
      using z by (simp add: zrep_push_right RightOf)
    have eq: "t_right pn = Some a" using pf RightOf by simp
    obtain h' rt where "insert_left_case h tr (Some a) (Some b) pn gn = Some (h', tr\<lparr>tr_root := rt\<rparr>, Some b)"
      "zrep h' (tr\<lparr>tr_root := rt\<rparr>) (LeftOf c zz k U # gs) (Bin (Bin m b y d l) a x e r)" "dom h' = dom h"
      by (rule insert_left_inner [OF zg ub pn eq])
    then show ?thesis using s ub RightOf by (intro exI [of _ h'] exI [of _ rt]) (auto simp: zrep_push_left)
  qed
qed

lemma insert_right_step:
  assumes z: "zrep h tr (f # RightOf U c zz k # gs) (Bin l a x e r)"
    and s: "fix_step (f # RightOf U c zz k # gs) (Bin l a x e r) = (fs', t')"
    and pn: "t_parent pn = Some c" "t_left gn = top_ptr U"
    and pf: "case f of LeftOf b y d m \<Rightarrow> t_left pn = Some a \<and> t_right pn = top_ptr m
      | RightOf m b y d \<Rightarrow> t_left pn = top_ptr m \<and> t_right pn = Some a"
  shows "\<exists>h' rt. insert_right_case h tr (Some a) (Some (frame_addr f)) pn gn = Some (h', tr\<lparr>tr_root := rt\<rparr>, top_ptr t') \<and>
    zrep h' (tr\<lparr>tr_root := rt\<rparr>) fs' t' \<and> dom h' = dom h"
proof (cases "col U = RED")
  case True
  let ?P = "plug1 f (Bin l a x e r)"
  have zg: "zrep h tr gs (Bin U c zz k ?P)" using z by (simp add: zrep_plug1)
  have un: "?P \<noteq> Tip" "U \<noteq> Tip" using True by (cases f; auto)+
  have tp: "top_ptr ?P = Some (frame_addr f)" by (cases f; simp)
  obtain h' where h: "insert_right_case h tr (Some a) (top_ptr ?P) pn gn = Some (h', tr, Some c)"
    "zrep h' tr gs (Bin (paint BLACK U) c zz RED (paint BLACK ?P))" "dom h' = dom h"
    by (rule insert_right_red [OF zg un True pn, of "Some a"])
  have "fs' = gs \<and> t' = Bin (paint BLACK U) c zz RED (paint BLACK ?P)" using s True by (cases f) auto
  then show ?thesis using h tp by (intro exI [of _ h'] exI [of _ "tr_root tr"]) simp
next
  case False
  then have ub: "col U = BLACK" by simp
  show ?thesis
  proof (cases f)
    case (RightOf m b y d)
    have zg: "zrep h tr gs (Bin U c zz k (Bin m b y d (Bin l a x e r)))"
      using z by (simp add: zrep_push_right RightOf)
    have "a \<notin> addrs m" using z by (auto simp: zrep_def RightOf)
    then have ne: "Some a \<noteq> t_left pn" using pf RightOf by auto
    obtain h' rt where "insert_right_case h tr (Some a) (Some b) pn gn = Some (h', tr\<lparr>tr_root := rt\<rparr>, Some a)"
      "zrep h' (tr\<lparr>tr_root := rt\<rparr>) gs (Bin (Bin U c zz RED m) b y BLACK (Bin l a x e r))" "dom h' = dom h"
      by (rule insert_right_outer [OF zg ub pn ne])
    then show ?thesis using s ub RightOf by (intro exI [of _ h'] exI [of _ rt]) (auto simp: zrep_push_right)
  next
    case (LeftOf b y d m)
    have zg: "zrep h tr (RightOf U c zz k # gs) (Bin (Bin l a x e r) b y d m)"
      using z by (simp add: zrep_push_left LeftOf)
    have eq: "t_left pn = Some a" using pf LeftOf by simp
    obtain h' rt where "insert_right_case h tr (Some a) (Some b) pn gn = Some (h', tr\<lparr>tr_root := rt\<rparr>, Some b)"
      "zrep h' (tr\<lparr>tr_root := rt\<rparr>) (RightOf U c zz k # gs) (Bin l a x e (Bin r b y d m))" "dom h' = dom h"
      by (rule insert_right_inner [OF zg ub pn eq])
    then show ?thesis using s ub LeftOf by (intro exI [of _ h'] exI [of _ rt]) (auto simp: zrep_push_right)
  qed
qed

lemma rb_insert_loop_step:
  assumes z: "zrep h tr (f # g # gs) t" and t: "t \<noteq> Tip" and red: "fcol f = RED"
    and s: "fix_step (f # g # gs) t = (fs', t')"
  obtains h' rt where "rb_insert_loop h tr (top_ptr t) = rb_insert_loop h' (tr\<lparr>tr_root := rt\<rparr>) (top_ptr t')"
    "zrep h' (tr\<lparr>tr_root := rt\<rparr>) fs' t'" "dom h' = dom h"
proof -
  obtain l a x e r where tb: "t = Bin l a x e r" using t by (cases t) auto
  obtain pn gn where
    u: "rb_insert_loop h tr (Some a) =
       do { (h1, tr1, c1) \<leftarrow>
              (case g of LeftOf c z k U \<Rightarrow> insert_left_case h tr (Some a) (Some (frame_addr f)) pn gn
               | RightOf U c z k \<Rightarrow> insert_right_case h tr (Some a) (Some (frame_addr f)) pn gn);
            rb_insert_loop h1 tr1 c1 }"
    and pn: "t_parent pn = Some (frame_addr g)"
    "case f of LeftOf b y d m \<Rightarrow> t_left pn = Some a \<and> t_right pn = top_ptr m
     | RightOf m b y d \<Rightarrow> t_left pn = top_ptr m \<and> t_right pn = Some a"
    and gn: "case g of LeftOf c z k U \<Rightarrow> t_right gn = top_ptr U | RightOf U c z k \<Rightarrow> t_left gn = top_ptr U"
    by (rule rb_insert_loop_unfold [OF z [unfolded tb] red])
  show ?thesis
  proof (cases g)
    case (LeftOf c y k U)
    have "\<exists>h' rt. insert_left_case h tr (Some a) (Some (frame_addr f)) pn gn = Some (h', tr\<lparr>tr_root := rt\<rparr>, top_ptr t') \<and>
      zrep h' (tr\<lparr>tr_root := rt\<rparr>) fs' t' \<and> dom h' = dom h"
      using z s pn gn by (intro insert_left_step) (simp_all add: LeftOf tb)
    then show ?thesis using that u LeftOf tb by auto
  next
    case (RightOf U c y k)
    have "\<exists>h' rt. insert_right_case h tr (Some a) (Some (frame_addr f)) pn gn = Some (h', tr\<lparr>tr_root := rt\<rparr>, top_ptr t') \<and>
      zrep h' (tr\<lparr>tr_root := rt\<rparr>) fs' t' \<and> dom h' = dom h"
      using z s pn gn by (intro insert_right_step) (simp_all add: RightOf tb)
    then show ?thesis using that u RightOf tb by auto
  qed
qed

lemma rb_insert_loop_ends:
  "zrep h tr fs t \<Longrightarrow> t \<noteq> Tip \<Longrightarrow> above fs = BLACK \<Longrightarrow> rb_insert_loop h tr (top_ptr t) = Some (h, tr)"
proof (cases fs)
  case Nil
  then show "zrep h tr fs t \<Longrightarrow> rb_insert_loop h tr (top_ptr t) = Some (h, tr)"
    by (subst rb_insert_loop.simps) (simp add: zrep_def)
next
  case (Cons f gs)
  assume z: "zrep h tr fs t" and t: "t \<noteq> Tip" and b: "above fs = BLACK"
  obtain l a x e r where tb: "t = Bin l a x e r" using t by (cases t) auto
  from zrep_up [of h tr f gs t] z Cons b obtain nd where "h (frame_addr f) = Some nd" "t_color nd = BLACK" by auto
  then show ?thesis using zrep_node [of h tr fs l a x e r] z tb Cons
    by (subst rb_insert_loop.simps) (simp add: tload_def rb_color_def)
qed

lemma red_at_above:
  assumes "red_at fs t" "above fs \<noteq> BLACK"
  shows "\<exists>f g gs. fs = f # g # gs \<and> fcol f = RED"
proof (cases fs)
  case (Cons f fs')
  have "fs' \<noteq> []" using assms Cons by (cases t) simp_all
  then show ?thesis using assms Cons by (cases fs') simp_all
qed (use assms in simp)

lemma rb_insert_loop_correct:
  assumes "red_at fs t" "zrep h tr fs t"
  shows "\<exists>h' rt fs' t'. rb_insert_loop h tr (top_ptr t) = Some (h', tr\<lparr>tr_root := rt\<rparr>) \<and>
    zrep h' (tr\<lparr>tr_root := rt\<rparr>) fs' t' \<and> red_at fs' t' \<and> above fs' = BLACK \<and>
    inorder (plug fs' t') = inorder (plug fs t) \<and> dom h' = dom h"
  using assms
proof (induction "fix_measure fs" arbitrary: fs t h tr rule: less_induct)
  case less
  have t: "t \<noteq> Tip" using less.prems by auto
  show ?case
  proof (cases "above fs = BLACK")
    case True
    then show ?thesis using rb_insert_loop_ends [OF less.prems(2) t] less.prems
      by (intro exI [of _ h] exI [of _ "tr_root tr"] exI [of _ fs] exI [of _ t]) simp
  next
    case False
    then obtain f g gs where fs: "fs = f # g # gs" and red: "fcol f = RED"
      using red_at_above less.prems(1) by blast
    obtain fs1 t1 where s: "fix_step (f # g # gs) t = (fs1, t1)" by fastforce
    obtain h1 rt1 where e: "rb_insert_loop h tr (top_ptr t) = rb_insert_loop h1 (tr\<lparr>tr_root := rt1\<rparr>) (top_ptr t1)"
      and z1: "zrep h1 (tr\<lparr>tr_root := rt1\<rparr>) fs1 t1" and d: "dom h1 = dom h"
      by (rule rb_insert_loop_step [OF less.prems(2) [unfolded fs] t red s])
    have "fix_measure fs1 < fix_measure fs" using fix_step_measure [OF red t s] fs by simp
    moreover have "red_at fs1 t1" using fix_step_red_at [OF less.prems(1) [unfolded fs] red s] .
    ultimately have "\<exists>h' rt fs' t'. rb_insert_loop h1 (tr\<lparr>tr_root := rt1\<rparr>) (top_ptr t1) = Some (h', tr\<lparr>tr_root := rt1\<rparr>\<lparr>tr_root := rt\<rparr>) \<and>
        zrep h' (tr\<lparr>tr_root := rt1\<rparr>\<lparr>tr_root := rt\<rparr>) fs' t' \<and> red_at fs' t' \<and> above fs' = BLACK \<and>
        inorder (plug fs' t') = inorder (plug fs1 t1) \<and> dom h' = dom h1"
      by (rule less.hyps) (rule z1)
    then show ?thesis unfolding e d [symmetric] fs fix_step_inorder [OF t s, symmetric] by simp
  qed
qed

end
