(* ===== verification/TreeProps.thy ===== *)
theory TreeProps
  imports TreeRB
begin

text \<open>
  Deletion and traversal of lsd/tree.c, and the properties of its search trees and red-black trees.
\<close>

section \<open>Removing a node\<close>

text \<open>Unlinking a node that has at most one child.\<close>
lemma relink_rep:
  assumes z: "zrep h tr fs (Bin l b y d r)" and one: "l = Tip \<or> r = Tip"
  defines "m \<equiv> if l = Tip then r else l"
  obtains h1 h2 rt where
    "(if top_ptr m \<noteq> None then tstore h (top_ptr m) (set_parent (up fs)) else Some h) = Some h1"
    "relink h1 tr (up fs) (Some b) (top_ptr m) = Some (h2, tr\<lparr>tr_root := rt\<rparr>)"
    "zrep h2 (tr\<lparr>tr_root := rt\<rparr>) fs m" "h2 b = h b" "dom h2 = dom h"
proof -
  have rep: "at_rep h (Some b) m" "path_rep h (Some b) fs (tr_root tr)" "b \<notin> addrs m" "b \<notin> path_addrs fs"
    "addrs m \<inter> path_addrs fs = {}"
    using z by (auto simp: zrep_def m_def)
  obtain h1 where e1: "(if top_ptr m \<noteq> None then tstore h (top_ptr m) (set_parent (up fs)) else Some h) = Some h1"
    and r1: "at_rep h1 (up fs) m" and s1: "\<forall>e. e \<notin> addrs m \<longrightarrow> h1 e = h e" and d1: "dom h1 = dom h"
    by (rule set_parent_top [OF rep(1)])
  have "path_rep h1 (Some b) fs (tr_root tr) = path_rep h (Some b) fs (tr_root tr)"
    using rep s1 by (intro path_rep_cong) auto
  then obtain h2 rt where e2: "replace_child h1 tr (up fs) (Some b) (top_ptr m) = Some (h2, tr\<lparr>tr_root := rt\<rparr>)"
    and r2: "path_rep h2 (top_ptr m) fs rt" and s2: "\<forall>e. e \<notin> path_addrs fs \<longrightarrow> h2 e = h1 e" and d2: "dom h2 = dom h1"
    using rep by (metis replace_child_rep)
  have "relink h1 tr (up fs) (Some b) (top_ptr m) = replace_child h1 tr (up fs) (Some b) (top_ptr m)"
    by (simp add: relink_def replace_child_def eq_commute)
  moreover have "at_rep h2 (up fs) m = at_rep h1 (up fs) m"
    using rep s2 by (intro at_rep_cong) auto
  ultimately show ?thesis using e1 e2 r1 r2 rep s1 s2 d1 d2 by (intro that [of h1 h2 rt]) (auto simp: zrep_def)
qed

lemma zrep_dom_only: "zrep h tr fs t \<Longrightarrow> b \<notin> addrs t \<Longrightarrow> b \<notin> path_addrs fs \<Longrightarrow> zrep (h(b := v)) tr fs t"
  by (simp add: zrep_def)

text \<open>The node with the smallest element of a tree: the path to it and its right subtree.\<close>
fun min_node :: "'a path \<Rightarrow> 'a atree \<Rightarrow> 'a path \<times> 'a atree" where
  "min_node fs (Bin (Bin l b y d r) a x c m) = min_node (LeftOf a x c m # fs) (Bin l b y d r)"
| "min_node fs (Bin Tip a x c m) = (fs, Bin Tip a x c m)"
| "min_node fs Tip = (fs, Tip)"

lemma min_node_rep: "min_node fs t = (gs, u) \<Longrightarrow> t \<noteq> Tip \<Longrightarrow> zrep h tr fs t \<Longrightarrow>
    zrep h tr gs u \<and> tree_minimum h (top_ptr t) = Some (top_ptr u) \<and> (\<exists>b y d r. u = Bin Tip b y d r)"
proof (induction fs t rule: min_node.induct)
  case (1 fs l b y d r a x c m)
  have "zrep h tr (LeftOf a x c m # fs) (Bin l b y d r)" using 1 by (simp add: zrep_push_left)
  moreover have "tree_minimum h (Some a) = tree_minimum h (Some b)"
    using zrep_node [OF 1(4)] by (subst tree_minimum.simps) (simp add: tload_def)
  ultimately show ?case using 1 by simp
next
  case (2 fs a x c m)
  then show ?case using zrep_node [of h tr fs Tip a x c m] by (subst tree_minimum.simps) (auto simp: tload_def)
qed auto

lemma min_node_plug: "min_node fs t = (gs, u) \<Longrightarrow> t \<noteq> Tip \<Longrightarrow>
    \<exists>es. gs = es @ fs \<and> path_left es = [] \<and> inorder t = inorder u @ path_right es"
proof (induction fs t rule: min_node.induct)
  case (1 fs l b y d r a x c m)
  then obtain es where "gs = es @ LeftOf a x c m # fs" "path_left es = []"
    "inorder (Bin l b y d r) = inorder u @ path_right es" by auto
  moreover have "path_right (es @ [LeftOf a x c m]) = path_right es @ x # inorder m" for es :: "'a path"
    by (induction es rule: path_right.induct) auto
  moreover have "path_left (es @ [LeftOf a x c m]) = path_left es" for es :: "'a path"
    by (induction es rule: path_left.induct) auto
  ultimately show ?case by (intro exI [of _ "es @ [LeftOf a x c m]"]) simp
qed auto

lemma plug_append: "plug (es @ fs) t = plug fs (plug es t)"
  by (induction es arbitrary: t) auto

lemma path_addrs_append: "path_addrs (es @ fs) = path_addrs es \<union> path_addrs fs"
  by (induction es) auto

section \<open>tree_delete\<close>

lemma zrep_addr_unique: "zrep h tr fs (Bin l a x c r) \<Longrightarrow> a \<notin> addrs l \<union> addrs r \<union> path_addrs fs"
  by (auto simp: zrep_def)

lemma tree_delete_one:
  assumes z: "zrep h tr fs (Bin l a x c r)" and one: "l = Tip \<or> r = Tip"
  shows "\<exists>h' rt. tree_delete h tr (Some a) = Some (h', tr\<lparr>tr_root := rt\<rparr>) \<and>
    zrep h' (tr\<lparr>tr_root := rt\<rparr>) fs (if l = Tip then r else l) \<and> dom h' = dom h - {a}"
proof -
  let ?m = "if l = Tip then r else l"
  obtain h1 h2 rt where e1: "(if top_ptr ?m \<noteq> None then tstore h (top_ptr ?m) (set_parent (up fs)) else Some h) = Some h1"
    and e2: "relink h1 tr (up fs) (Some a) (top_ptr ?m) = Some (h2, tr\<lparr>tr_root := rt\<rparr>)"
    and z2: "zrep h2 (tr\<lparr>tr_root := rt\<rparr>) fs ?m" and s: "h2 a = h a" "dom h2 = dom h"
    by (rule relink_rep [OF z one])
  let ?nd = "\<lparr>t_left = top_ptr l, t_right = top_ptr r, t_parent = up fs, t_data = Some x, t_color = c\<rparr>"
  have ld: "tload h (Some a) = Some ?nd" "tload h2 (Some a) = Some ?nd" "top_ptr l = None \<or> top_ptr r = None"
    "(if top_ptr l \<noteq> None then top_ptr l else top_ptr r) = top_ptr ?m"
    "tstore h2 (Some a) (set_tdata None) = Some (h2(a \<mapsto> ?nd\<lparr>t_data := None\<rparr>))"
    using zrep_node [OF z] s one by (cases l; cases r; simp add: tree_step)+
  have "pull_out h tr (Some a) = Some (h2(a \<mapsto> ?nd\<lparr>t_data := None\<rparr>), tr\<lparr>tr_root := rt\<rparr>, Some a)"
    unfolding pull_out_def
    by (simp only: ld Option.bind_lunit tree_node.simps if_True Let_def e1 e2 prod.case option.distinct if_False simp_thms)
  then have "tree_delete h tr (Some a) = Some (h2(a := None), tr\<lparr>tr_root := rt\<rparr>)"
    by (simp add: tree_delete_def tfree_def)
  moreover have "zrep (h2(a := None)) (tr\<lparr>tr_root := rt\<rparr>) fs ?m"
    using z2 zrep_addr_unique [OF z] by (intro zrep_dom_only) (auto split: if_splits)
  ultimately show ?thesis using s by auto
qed


lemma tree_delete_two:
  assumes z: "zrep h tr fs (Bin l a x c r)" and two: "l \<noteq> Tip" "r \<noteq> Tip"
  shows "\<exists>h' rt r' b y. tree_delete h tr (Some a) = Some (h', tr\<lparr>tr_root := rt\<rparr>) \<and>
    zrep h' (tr\<lparr>tr_root := rt\<rparr>) fs (Bin l a y c r') \<and> inorder r = y # inorder r' \<and> dom h' = dom h - {b}"
proof -
  obtain gs u where mn: "min_node (RightOf l a x c # fs) r = (gs, u)" by fastforce
  have zr: "zrep h tr (RightOf l a x c # fs) r" using z by (simp add: zrep_push_right)
  from min_node_rep [OF mn two(2) zr] obtain b y d m where zu: "zrep h tr gs u" "u = Bin Tip b y d m"
    and tm: "tree_minimum h (top_ptr r) = Some (Some b)" by auto
  from min_node_plug [OF mn two(2)] zu obtain es where gs: "gs = es @ RightOf l a x c # fs"
    and io: "path_left es = []" "inorder r = y # inorder m @ path_right es" by auto
  have zb: "zrep h tr gs (Bin Tip b y d m)" using zu by simp
  obtain h1 h2 rt where e1: "(if top_ptr m \<noteq> None then tstore h (top_ptr m) (set_parent (up gs)) else Some h) = Some h1"
    and e2: "relink h1 tr (up gs) (Some b) (top_ptr m) = Some (h2, tr\<lparr>tr_root := rt\<rparr>)"
    and z2: "zrep h2 (tr\<lparr>tr_root := rt\<rparr>) gs m" and s: "h2 b = h b" "dom h2 = dom h"
    by (rule relink_rep [OF zb disjI1 [OF refl], unfolded simp_thms if_True])
  let ?r = "plug es m"
  have za: "zrep h2 (tr\<lparr>tr_root := rt\<rparr>) fs (Bin l a x c ?r)"
    using z2 by (simp add: gs zrep_plug plug_append)
  let ?na = "\<lambda>p v. \<lparr>t_left = top_ptr l, t_right = p, t_parent = up fs, t_data = v, t_color = c\<rparr>"
  let ?nb = "\<lambda>v. \<lparr>t_left = None, t_right = top_ptr m, t_parent = up gs, t_data = v, t_color = d\<rparr>"
  let ?h3 = "h2(a \<mapsto> ?na (top_ptr ?r) (Some y))"
  let ?h4 = "?h3(b \<mapsto> ?nb None)"
  have ne: "a \<noteq> b" "b \<notin> addrs ?r" "b \<notin> addrs l" "b \<notin> path_addrs fs"
  proof -
    have "b \<notin> addrs m \<union> path_addrs gs" using zrep_addr_unique [OF zb] by auto
    then have nb: "b \<notin> addrs (plug gs m)" by (simp add: addrs_plug)
    then show "a \<noteq> b" "b \<notin> addrs ?r" "b \<notin> addrs l" "b \<notin> path_addrs fs"
      by (auto simp: gs plug_append addrs_plug path_addrs_append)
  qed
  have ld: "tload h (Some a) = Some (?na (top_ptr r) (Some x))" "tload h (Some b) = Some (?nb (Some y))"
    "tload h2 (Some a) = Some (?na (top_ptr ?r) (Some x))" "tload h2 (Some b) = Some (?nb (Some y))"
    "tstore h2 (Some a) (set_tdata (Some y)) = Some ?h3" "tstore ?h3 (Some b) (set_tdata None) = Some ?h4"
    "top_ptr l \<noteq> None" "top_ptr r \<noteq> None" "Some a \<noteq> Some b"
    using zrep_node [OF z] zrep_node [OF zb] zrep_node [OF za] s ne two
    by (cases l; cases r; simp add: tree_step)+
  have sc: "tree_successor h (Some a) = Some (Some b)"
    using ld tm by (simp add: tree_successor_def)
  have "pull_out h tr (Some a) = Some (?h4, tr\<lparr>tr_root := rt\<rparr>, Some b)"
    unfolding pull_out_def
    by (simp only: ld sc Option.bind_lunit tree_node.simps if_True Let_def e1 e2 prod.case option.distinct if_False simp_thms)
  then have "tree_delete h tr (Some a) = Some (?h3(b := None), tr\<lparr>tr_root := rt\<rparr>)"
    by (simp add: tree_delete_def tfree_def)
  moreover have "zrep ?h3 (tr\<lparr>tr_root := rt\<rparr>) fs (Bin l a y c ?r)"
    using za by (auto simp: zrep_def)
  then have "zrep (?h3(b := None)) (tr\<lparr>tr_root := rt\<rparr>) fs (Bin l a y c ?r)"
    by (rule zrep_dom_only) (use ne in auto)
  moreover have "inorder r = y # inorder ?r" using io by (simp add: inorder_plug)
  moreover have "dom (?h3(b := None)) = dom h - {b}" using s zrep_node [OF za] by auto
  ultimately show ?thesis by blast
qed

lemma traverse_rep: "at_rep h p t \<Longrightarrow> traverse h (top_ptr t) = Some (map Some (preorder t))"
proof (induction t arbitrary: p)
  case Tip
  then show ?case by (subst traverse.simps) simp
next
  case (Bin l a x c r)
  then show ?case using Bin.IH(1) [of "Some a"] Bin.IH(2) [of "Some a"]
    by (subst traverse.simps) (simp add: tload_def)
qed


section \<open>Properties\<close>

lemma tree_search_rep:
  assumes "tree_rep h tr t" "cmp_by (tr_cmp tr) key" "ordered key t"
  shows "\<exists>p. tree_search h tr k = Some p \<and>
    (case p of None \<Rightarrow> \<forall>y \<in> set (inorder t). key y \<noteq> key k
     | Some b \<Rightarrow> \<exists>nd y. h b = Some nd \<and> t_data nd = Some y \<and> y \<in> set (inorder t) \<and> key y = key k)"
  using search_r_finds [OF assms(2), of h None t k] assms
  by (simp add: tree_search_def tree_rep_def zrep_def)

lemma set_insert_after: "set (insert_after key x ys) = insert x (set ys)"
proof -
  have eq: "set ys = set (takeWhile (\<lambda>y. key y \<le> key x) ys) \<union> set (dropWhile (\<lambda>y. key y \<le> key x) ys)"
    by (metis set_append takeWhile_dropWhile_id)
  show ?thesis unfolding insert_after_def eq by simp
qed

lemma top_leaf [simp]: "top_ptr (leaf a x c) = Some a"
  by (simp add: leaf_def)

text \<open>
  On a store that represents a search tree ordered by the comparison function, \<open>tree_insert\<close> with a fresh
  node returns, leaves a search tree whose in-order contents are the old ones with the new element put behind
  the elements that are not greater, and afterwards \<open>tree_search\<close> returns for every key, a node with
  that key if the tree has one and NULL otherwise.
\<close>
theorem tree_insert_search:
  assumes "tree_rep h tr t" "cmp_by (tr_cmp tr) key" "ordered key t" "h a = None"
  shows "\<exists>h' tr' t'. tree_insert (Some a) x h tr = Some (h', tr') \<and> tree_rep h' tr' t' \<and>
    inorder t' = insert_after key x (inorder t) \<and> ordered key t' \<and> dom h' = insert a (dom h) \<and>
    (\<forall>k. \<exists>p. tree_search h' tr' k = Some p \<and>
       (case p of None \<Rightarrow> key k \<notin> key ` insert x (set (inorder t))
        | Some b \<Rightarrow> \<exists>nd y. h' b = Some nd \<and> t_data nd = Some y \<and> y \<in> insert x (set (inorder t)) \<and> key y = key k))"
proof -
  obtain h' rt where i: "tree_insert (Some a) x h tr = Some (h', tr\<lparr>tr_root := rt\<rparr>)"
    and z: "zrep h' (tr\<lparr>tr_root := rt\<rparr>) (descend tr x t []) (leaf a x RED)" and d: "dom h' = insert a (dom h)"
    by (rule tree_insert_zrep [OF assms(1,4)])
  define t' where "t' = plug (descend tr x t []) (leaf a x RED)"
  have r: "tree_rep h' (tr\<lparr>tr_root := rt\<rparr>) t'" using z by (simp add: zrep_plug t'_def)
  have io: "inorder t' = insert_after key x (inorder t)"
    unfolding t'_def by (rule inorder_insert [OF assms(2,3)])
  have o: "ordered key t'" using sorted_insert_after assms(3) by (simp add: ordered_def io)
  have c: "cmp_by (tr_cmp (tr\<lparr>tr_root := rt\<rparr>)) key" using assms(2) by simp
  have "\<exists>p. tree_search h' (tr\<lparr>tr_root := rt\<rparr>) k = Some p \<and>
       (case p of None \<Rightarrow> key k \<notin> key ` insert x (set (inorder t))
        | Some b \<Rightarrow> \<exists>nd y. h' b = Some nd \<and> t_data nd = Some y \<and> y \<in> insert x (set (inorder t)) \<and> key y = key k)" for k
    using tree_search_rep [OF r c o, of k] by (fastforce simp: io set_insert_after split: option.splits)
  with i r io o d show ?thesis by blast
qed

definition int_tree :: "int tree" where
  "int_tree = \<lparr>tr_root = Some 0, tr_cmp = (\<lambda>x y. x - y)\<rparr>"

definition one_node :: "int theap" where
  "one_node = [0 \<mapsto> \<lparr>t_left = None, t_right = None, t_parent = None, t_data = Some 5, t_color = BLACK\<rparr>]"

lemma one_node_rep: "tree_rep one_node int_tree (leaf 0 5 BLACK)" "cmp_by (tr_cmp int_tree) (\<lambda>x. x)"
  "ordered (\<lambda>x. x) (leaf 0 (5::int) BLACK)" "one_node 1 = None" "rbt (leaf 0 (5::int) BLACK)"
  by (simp_all add: tree_rep_def zrep_def leaf_def one_node_def int_tree_def cmp_by_def ordered_def rbt_def)

theorem tree_insert_search_witness:
  "\<exists>h' tr' t'. tree_insert (Some 1) 3 one_node int_tree = Some (h', tr') \<and> tree_rep h' tr' t' \<and> inorder t' = [3, 5]"
  using tree_insert_search [OF one_node_rep(1-4), of 3] by (force simp: leaf_def insert_after_def)

text \<open>
  C27. On a red-black tree \<open>rb_insert\<close> with a fresh node returns (its loop ends and never follows a NULL pointer)
  and leaves a red-black tree: the root is black, no red node has a red child, every path to a leaf has the
  same number of black nodes. Its in-order contents are those of the old tree with the new element inserted.
\<close>
theorem rb_insert_correct:
  assumes "tree_rep h tr t" "rbt t" "cmp_by (tr_cmp tr) key" "ordered key t" "h a = None"
  shows "\<exists>h' tr' t'. rb_insert (Some a) x h tr = Some (h', tr') \<and> tree_rep h' tr' t' \<and> rbt t' \<and>
    inorder t' = insert_after key x (inorder t) \<and> ordered key t' \<and> dom h' = insert a (dom h)"
proof -
  let ?fs = "descend tr x t []"
  obtain h1 rt where i: "tree_insert (Some a) x h tr = Some (h1, tr\<lparr>tr_root := rt\<rparr>)"
    and z1: "zrep h1 (tr\<lparr>tr_root := rt\<rparr>) ?fs (leaf a x RED)" and d1: "dom h1 = insert a (dom h)"
    by (rule tree_insert_zrep [OF assms(1,5)])
  have c: "tstore h1 (Some a) (set_color RED) = Some h1"
    using zrep_node [OF z1 [unfolded leaf_def]] by (auto simp: tree_step)
  have "plug ?fs Tip = t \<and> pok ?fs 0"
  proof -
    have "plug (descend tr x u fs) Tip = plug fs u" for u fs by (induction u arbitrary: fs) auto
    then have "plug ?fs Tip = t" by simp
    then show ?thesis using plug_pok [of ?fs Tip] assms(2) by (simp add: rbt_def)
  qed
  then have red: "red_at ?fs (leaf a x RED)" by (simp add: leaf_def)
  have io: "inorder (plug ?fs (leaf a x RED)) = insert_after key x (inorder t)"
    by (rule inorder_insert [OF assms(3,4)])
  have upd: "tr\<lparr>tr_root := rt\<rparr>\<lparr>tr_root := q\<rparr> = tr\<lparr>tr_root := q\<rparr>" for q by simp
  obtain h2 rt2 fs t2 where
    l: "rb_insert_loop h1 (tr\<lparr>tr_root := rt\<rparr>) (Some a) = Some (h2, tr\<lparr>tr_root := rt2\<rparr>)"
    and z2: "zrep h2 (tr\<lparr>tr_root := rt2\<rparr>) fs t2" and r2: "red_at fs t2" "above fs = BLACK"
    and io2: "inorder (plug fs t2) = insert_after key x (inorder t)" and d2: "dom h2 = dom h1"
    using rb_insert_loop_correct [OF red z1] unfolding io top_leaf upd by (elim exE conjE) (rule that)
  let ?t = "plug fs t2"
  have ne: "?t \<noteq> Tip" using io2 by (cases ?t) (auto simp: insert_after_def)
  have z3: "zrep h2 (tr\<lparr>tr_root := rt2\<rparr>) [] ?t" using z2 by (simp only: zrep_plug [of h2 _ fs t2] tree_rep_def)
  obtain h3 where e3: "tstore h2 (top_ptr ?t) (set_color BLACK) = Some h3"
    and z4: "zrep h3 (tr\<lparr>tr_root := rt2\<rparr>) [] (paint BLACK ?t)" and d3: "dom h3 = dom h2"
    by (rule paint_rep [OF z3 ne])
  have "rb_insert (Some a) x h tr = Some (h3, tr\<lparr>tr_root := rt2\<rparr>)"
    using i c l e3 z3 by (simp add: rb_insert_def zrep_def)
  moreover have "rbt (paint BLACK ?t)"
    using red_at_paint [OF r2] ne by (cases ?t) (auto simp: rbt_def)
  moreover have "ordered key (paint BLACK ?t)" using sorted_insert_after assms(4) by (simp add: ordered_def io2)
  ultimately show ?thesis using z4 io2 d1 d2 d3 by (metis paint_simps(2) tree_rep_def)
qed

theorem rb_insert_correct_witness:
  "\<exists>h' tr' t'. rb_insert (Some 1) 3 one_node int_tree = Some (h', tr') \<and> tree_rep h' tr' t' \<and> rbt t' \<and> inorder t' = [3, 5]"
  using rb_insert_correct [OF one_node_rep(1,5,2,3,4), of 3] by (force simp: leaf_def insert_after_def)

text \<open>
  C35. \<open>tree_delete\<close> of any node of a tree returns, frees exactly one node and leaves a tree whose in-order
  contents are the old ones without the element of that node (so an ordered tree stays ordered).
\<close>
theorem tree_delete_removes:
  assumes "tree_rep h tr (plug fs (Bin l a x c r))"
  shows "\<exists>h' tr' t' b. tree_delete h tr (Some a) = Some (h', tr') \<and> tree_rep h' tr' t' \<and>
    inorder t' = path_left fs @ inorder l @ inorder r @ path_right fs \<and>
    inorder (plug fs (Bin l a x c r)) = path_left fs @ inorder l @ x # inorder r @ path_right fs \<and>
    dom h' = dom h - {b}"
proof -
  have z: "zrep h tr fs (Bin l a x c r)" using assms by (simp add: zrep_plug)
  show ?thesis
  proof (cases "l = Tip \<or> r = Tip")
    case True
    from tree_delete_one [OF z True] obtain h' rt where
      "tree_delete h tr (Some a) = Some (h', tr\<lparr>tr_root := rt\<rparr>)"
      "zrep h' (tr\<lparr>tr_root := rt\<rparr>) fs (if l = Tip then r else l)" "dom h' = dom h - {a}" by blast
    then show ?thesis using True
      by (intro exI [of _ h'] exI [of _ "tr\<lparr>tr_root := rt\<rparr>"] exI [of _ "plug fs (if l = Tip then r else l)"] exI [of _ a])
        (auto simp: zrep_plug inorder_plug)
  next
    case False
    then have two: "l \<noteq> Tip" "r \<noteq> Tip" by auto
    obtain h' rt r' b y where
      "tree_delete h tr (Some a) = Some (h', tr\<lparr>tr_root := rt\<rparr>)"
      "zrep h' (tr\<lparr>tr_root := rt\<rparr>) fs (Bin l a y c r')" "inorder r = y # inorder r'" "dom h' = dom h - {b}"
      using tree_delete_two [OF z two] by (elim exE conjE) (rule that)
    then show ?thesis
      by (intro exI [of _ h'] exI [of _ "tr\<lparr>tr_root := rt\<rparr>"] exI [of _ "plug fs (Bin l a y c r')"] exI [of _ b])
        (simp add: zrep_plug inorder_plug)
  qed
qed

theorem tree_delete_removes_witness:
  "\<exists>h' tr' t' b. tree_delete one_node int_tree (Some 0) = Some (h', tr') \<and> tree_rep h' tr' t' \<and> inorder t' = [] \<and>
    dom h' = dom one_node - {b}"
  using tree_delete_removes [of one_node int_tree "[]" Tip 0 5 BLACK Tip] one_node_rep(1)
  by (fastforce simp: leaf_def)

text \<open>
  \<open>rb_delete\<close> does not work on every red-black tree: after 2, 1, 4 and 3 are inserted with \<open>rb_insert\<close>
  into an empty tree, deleting the node of 1 follows a NULL pointer. In the case of a sibling whose only red
  child is on the inner side, the fixup paints that child red instead of painting it black and the sibling red.
\<close>
theorem rb_delete_null:
  "do { (h1, t1) \<leftarrow> rb_insert (Some 0) 2 Map.empty \<lparr>tr_root = None, tr_cmp = (\<lambda>x y. x - (y::int))\<rparr>;
        (h2, t2) \<leftarrow> rb_insert (Some 1) 1 h1 t1;
        (h3, t3) \<leftarrow> rb_insert (Some 2) 4 h2 t2;
        (h4, t4) \<leftarrow> rb_insert (Some 3) 3 h3 t3;
        p \<leftarrow> tree_search h4 t4 1;
        Some (p, traverse h4 (tr_root t4), Option.is_none (rb_delete h4 t4 p)) } =
   Some (Some 1, Some [Some 2, Some 1, Some 4, Some 3], True)"
  by code_simp

end
