(* ===== verification/Logger.thy ===== *)
theory Logger
  imports ConfOps
begin

text \<open>
  The logger of src/shell.c: level names, \<open>Log\<close>, \<open>log_open\<close> and \<open>log_close\<close>. What the process writes and which
  system calls it makes is the list \<open>sh_out\<close>, oldest first. A message is passed with its format
  arguments already put in, and their number, because \<open>Log\<close> gives its \<open>va_list\<close> first to \<open>vsyslog\<close> and then,
  used up, to \<open>vsnprintf\<close>. \<open>None\<close> as a result: a NULL string is compared, a used-up \<open>va_list\<close> is read, or an
  integer is printed as a string.
\<close>

section \<open>Levels\<close>

definition LOG_EMERG :: int where "LOG_EMERG = 0"
definition LOG_ALERT :: int where "LOG_ALERT = 1"
definition LOG_CRIT :: int where "LOG_CRIT = 2"
definition LOG_ERR :: int where "LOG_ERR = 3"
definition LOG_WARNING :: int where "LOG_WARNING = 4"
definition LOG_NOTICE :: int where "LOG_NOTICE = 5"
definition LOG_INFO :: int where "LOG_INFO = 6"
definition LOG_DEBUG :: int where "LOG_DEBUG = 7"
definition LOG_SHELL :: int where "LOG_SHELL = 65000"

definition log_levels :: "(string option \<times> int) list" where
  "log_levels =
     [(Some ''debug'', LOG_DEBUG), (Some ''info'', LOG_INFO), (Some ''notice'', LOG_NOTICE),
      (Some ''warn'', LOG_WARNING), (Some ''error'', LOG_ERR), (Some ''crit'', LOG_CRIT),
      (Some ''alert'', LOG_ALERT), (Some ''emerg'', LOG_EMERG), (Some ''shell'', LOG_SHELL), (None, - 1)]"

text \<open>The two \<open>do ... while\<close> loops over the table; the outer \<open>None\<close> of the first is a read behind its end.\<close>

fun log_name_loop :: "(string option \<times> int) list \<Rightarrow> int \<Rightarrow> string option option" where
  "log_name_loop [] level = None"
| "log_name_loop ((s, l) # lps) level =
     (if l = level then Some s
      else case lps of [] \<Rightarrow> None | (t, k) # r \<Rightarrow> if t = None then Some None else log_name_loop lps level)"

definition LogName :: "int \<Rightarrow> string option option" where
  "LogName level = log_name_loop log_levels level"

fun log_level_loop :: "(string option \<times> int) list \<Rightarrow> string \<Rightarrow> int option" where
  "log_level_loop [] name = None"
| "log_level_loop ((s, l) # lps) name =
     (if s = Some name then Some l
      else case lps of [] \<Rightarrow> None | (t, k) # r \<Rightarrow> if t = None then Some (- 1) else log_level_loop lps name)"

definition LogLevel :: "string option \<Rightarrow> int option" where
  "LogLevel name = (case name of None \<Rightarrow> None | Some nm \<Rightarrow> log_level_loop log_levels nm)"

section \<open>Output\<close>

datatype stream = Stdout | LogFileStream string

datatype shell_out =
    Out stream string
  | Syslog int string
  | Raised int
  | ClearScreen
  | KiloMain string
  | Unlink string
  | Mkfifo string
  | Openlog
  | Closelog
  | Fclose stream
  | GcAll

datatype log_type = LogNone | LogSyslog | LogStdout | LogFile | LogFifo

record loghndl =
  lh_type :: log_type
  lh_fp :: "stream option"

record shell_st =
  sh_level :: string
  sh_prompt :: string
  sh_log :: "loghndl option"
  sh_out :: "shell_out list"

text \<open>
  What the shell reads and does not change: the time as \<open>Log\<close> prints it (\<open>None\<close> when \<open>localtime\<close> fails), the
  configuration, the allocator of dictionaries, the file system's answers.
\<close>
record shell_env =
  se_stamp :: "string option"
  se_conf :: "dict option"
  se_denv :: denv
  se_past :: slotkey
  se_fopen :: "string \<Rightarrow> bool"
  se_is_fifo :: "string \<Rightarrow> bool"
  se_is_file :: "string \<Rightarrow> bool"
  se_gc :: int

definition emit :: "shell_out list \<Rightarrow> shell_st \<Rightarrow> shell_st" where
  "emit os st = st\<lparr>sh_out := sh_out st @ os\<rparr>"

text \<open>\<open>%s\<close> of a string that may be NULL, \<open>%5s\<close>, \<open>snprintf(buf, n, ...)\<close>.\<close>
definition pr_str :: "string option \<Rightarrow> string" where
  "pr_str s = (case s of None \<Rightarrow> ''(null)'' | Some t \<Rightarrow> t)"

definition pad_left :: "nat \<Rightarrow> string \<Rightarrow> string" where
  "pad_left n s = replicate (n - length s) (CHR '' '') @ s"

definition snprintf :: "nat \<Rightarrow> string \<Rightarrow> string" where
  "snprintf n s = take (n - 1) s"

text \<open>The configured level; it is read and then not used, as the comparison is compiled out.\<close>
definition log_min_level :: "shell_env \<Rightarrow> int option" where
  "log_min_level E =
     do { name \<leftarrow> (if se_conf E \<noteq> None then dconf_get_str (se_conf E) (Some ''log.level'') (Some ''info'')
                  else Some (Some ''info''));
          LogLevel name }"

definition Log :: "shell_env \<Rightarrow> int \<Rightarrow> nat \<Rightarrow> string \<Rightarrow> shell_st \<Rightarrow> shell_st option" where
  "Log E level nargs msg st =
     (case se_stamp E of
        None \<Rightarrow> Some st
      | Some stamp \<Rightarrow>
          do { min_lvl \<leftarrow> log_min_level E;
               let syslog = (case sh_log st of None \<Rightarrow> False | Some l \<Rightarrow> lh_type l = LogSyslog);
                   fp = (case sh_log st of
                           None \<Rightarrow> Stdout
                         | Some l \<Rightarrow> if lh_type l \<noteq> LogStdout \<and> lh_fp l \<noteq> None then the (lh_fp l) else Stdout);
                   buf = snprintf 4095 msg in
               if syslog \<and> 0 < nargs then None
               else do { nm \<leftarrow> LogName level;
                         Some (emit ((if syslog then [Syslog level msg] else []) @
                                     [Out fp (stamp @ '' '' @ pad_left 5 (pr_str nm) @ '': '' @ buf @ [c_nl])] @
                                     (if fp \<noteq> Stdout then [Out Stdout (buf @ [c_nl])] else [])) st) } })"

section \<open>Opening and closing\<close>

text \<open>
  \<open>errno\<close> is given for a \<open>%s\<close> in the messages about a failed \<open>fopen\<close>. The handle is allocated with the size of
  the function \<open>Log\<close>, not of the structure; its fields are modelled as if they fitted.
\<close>
definition log_open :: "shell_env \<Rightarrow> string \<Rightarrow> shell_st \<Rightarrow> shell_st option" where
  "log_open E dest st =
     (let f = drop 7 dest; st0 = st\<lparr>sh_log := Some \<lparr>lh_type = LogNone, lh_fp = None\<rparr>\<rparr> in
      if strcaseeq dest ''syslog''
      then Some (emit [Openlog] (st0\<lparr>sh_log := Some \<lparr>lh_type = LogSyslog, lh_fp = None\<rparr>\<rparr>))
      else if strcaseeq dest ''stdout''
      then Some (st0\<lparr>sh_log := Some \<lparr>lh_type = LogStdout, lh_fp = Some Stdout\<rparr>\<rparr>)
      else if strncaseeq dest ''fifo://'' 7
      then let st1 = emit ((if se_is_fifo E f \<or> se_is_file E f then [Unlink f] else []) @ [Mkfifo f]) st0 in
           if se_fopen E f then Some (st1\<lparr>sh_log := Some \<lparr>lh_type = LogFifo, lh_fp = Some (LogFileStream f)\<rparr>\<rparr>)
           else None
      else if strncaseeq dest ''file://'' 7
      then if se_fopen E f then Some (st0\<lparr>sh_log := Some \<lparr>lh_type = LogFile, lh_fp = Some (LogFileStream f)\<rparr>\<rparr>)
           else None
      else Some st0)"

definition log_close :: "shell_st \<Rightarrow> shell_st option" where
  "log_close st =
     (case sh_log st of
        None \<Rightarrow> Some st
      | Some l \<Rightarrow>
          if lh_type l = LogFile \<or> lh_type l = LogFifo
          then (case lh_fp l of None \<Rightarrow> None | Some f \<Rightarrow> Some ((emit [Fclose f] st)\<lparr>sh_log := None\<rparr>))
          else if lh_type l = LogSyslog then Some ((emit [Closelog] st)\<lparr>sh_log := None\<rparr>)
          else Some (st\<lparr>sh_log := None\<rparr>))"

text \<open>The early log, which nothing is appended to: the buffer is allocated once and freed.\<close>
definition earlylog_init :: "shell_env \<Rightarrow> ptr \<Rightarrow> ptr \<Rightarrow> shell_st \<Rightarrow> (ptr \<times> shell_st) option" where
  "earlylog_init E mem log st =
     (if log \<noteq> None
      then map_option (Pair log) (Log E LOG_DEBUG 0 ''earlylog_init() called twice, why? check your code...'' st)
      else case mem of None \<Rightarrow> None | Some a \<Rightarrow> Some (mem, st))"

definition earlylog_append :: "shell_env \<Rightarrow> ptr \<Rightarrow> string \<Rightarrow> shell_st \<Rightarrow> shell_st option" where
  "earlylog_append E p line st = (if p \<noteq> None then Log E LOG_SHELL 1 (''early-log: '' @ line) st else Some st)"

definition earlylog_fini :: "ptr \<Rightarrow> ptr" where
  "earlylog_fini log = None"

end
