(* ===== verification/Shell.thy ===== *)
theory Shell
  imports Logger BallocOps
begin

text \<open>
  The command interpreter of src/shell.c and src/shell.h: menus, the menu level and prompt, \<open>shell_command\<close>, help,
  completion and hints. The state and the output are those of Logger. A menu is the list of the entries of
  its array, the terminating entry included; a NULL menu is \<open>None\<close> and, as \<open>&menu[0]\<close> is then NULL, holds no entry.
  Signals, \<open>kilo_main\<close> and the terminal are output events. \<open>None\<close> as a result: a NULL string or a place behind
  an array or string is read, or the loop does not end.
\<close>

section \<open>Menus\<close>

datatype handler = HConfDump | HEdit | HClear | HShutdown | HReload | HRun | HStats | HUser

datatype menu_id = MValue | MConf | MCron | MDb | MDebug | MVfs | MLogging | MMemGc | MHooks | MMemBhTuning
  | MMemBh | MMem | MModule | MNet | MPkg | MProfiling | MThread | MMain

record shell_cmd =
  sc_cmd :: "string option"
  sc_desc :: "string option"
  sc_color :: int
  sc_bold :: int
  sc_submenu :: int
  sc_min_args :: int
  sc_max_args :: int
  sc_handler :: "handler option"
  sc_menu :: "menu_id option"

definition HINT_RED :: int where "HINT_RED = 31"
definition HINT_GREEN :: int where "HINT_GREEN = 32"
definition HINT_YELLOW :: int where "HINT_YELLOW = 33"
definition HINT_CYAN :: int where "HINT_CYAN = 36"
definition SHELL_HINT_MAX :: nat where "SHELL_HINT_MAX = 120"
definition SHELL_PROMPT :: string where "SHELL_PROMPT = ''jailfs''"

definition entry :: "string \<Rightarrow> string \<Rightarrow> int \<Rightarrow> int \<Rightarrow> int \<Rightarrow> int \<Rightarrow> int \<Rightarrow> handler option \<Rightarrow> menu_id option \<Rightarrow> shell_cmd" where
  "entry c d col b s mn mx h m =
     \<lparr>sc_cmd = Some c, sc_desc = Some d, sc_color = col, sc_bold = b, sc_submenu = s, sc_min_args = mn,
      sc_max_args = mx, sc_handler = h, sc_menu = m\<rparr>"

definition menu_end :: shell_cmd where
  "menu_end =
     \<lparr>sc_cmd = None, sc_desc = None, sc_color = 0, sc_bold = 0, sc_submenu = 0, sc_min_args = 0, sc_max_args = 0,
      sc_handler = None, sc_menu = None\<rparr>"

definition menu_value :: "shell_cmd list" where
  "menu_value =
     [entry ''false'' ''Set false'' HINT_CYAN 1 0 0 0 None None,
      entry ''set'' ''Set value'' HINT_CYAN 1 0 1 1 None None,
      entry ''show'' ''Show state'' HINT_CYAN 1 0 0 0 None None,
      entry ''true'' ''Set true'' HINT_CYAN 1 0 0 0 None None,
      menu_end]"

definition menu_conf :: "shell_cmd list" where
  "menu_conf =
     [entry ''dump'' ''Dump config values'' HINT_CYAN 1 0 0 0 (Some HConfDump) None,
      entry ''load'' ''Load saved config file'' HINT_CYAN 1 0 1 1 None None,
      entry ''save'' ''Write config file'' HINT_CYAN 1 0 1 1 None None,
      entry ''set'' ''Set config value'' HINT_CYAN 1 0 3 3 None None,
      entry ''show'' ''Get config value'' HINT_CYAN 1 0 1 3 None None,
      menu_end]"

definition menu_cron :: "shell_cmd list" where
  "menu_cron =
     [entry ''debug'' ''show/toggle debugging status'' HINT_RED 0 1 0 1 None (Some MValue),
      entry ''jobs'' ''Show scheduled events'' HINT_CYAN 1 0 0 0 None None,
      entry ''stop'' ''Stop a scheduled event'' HINT_CYAN 1 0 1 1 None None,
      menu_end]"

definition menu_db :: "shell_cmd list" where
  "menu_db =
     [entry ''debug'' ''show/toggle debugging status'' HINT_RED 0 1 0 1 None (Some MValue),
      entry ''dump'' ''Dump the database to .sql file'' HINT_CYAN 1 0 0 0 None None,
      entry ''purge'' ''Re-initialize the database'' HINT_CYAN 1 0 0 0 None None,
      menu_end]"

definition menu_debug :: "shell_cmd list" where
  "menu_debug =
     [entry ''symtab_lookup'' ''Lookup a symbol in the symtab'' HINT_CYAN 1 0 1 2 None None,
      menu_end]"

definition menu_vfs :: "shell_cmd list" where
  "menu_vfs =
     [entry ''cd'' ''Change directory'' HINT_CYAN 1 0 1 1 None None,
      entry ''chown'' ''Change file/dir ownership in jail'' HINT_CYAN 1 0 2 (- 1) None None,
      entry ''chmod'' ''Change file/dir permissions in jail'' HINT_CYAN 1 0 2 (- 1) None None,
      entry ''cp'' ''Copy file in jail'' HINT_CYAN 1 0 1 (- 1) None None,
      entry ''debug'' ''Show/toggle debugging status'' HINT_CYAN 1 1 0 1 None (Some MValue),
      entry ''edit'' ''Edit text file in kilo'' HINT_GREEN 1 0 1 1 (Some HEdit) None,
      entry ''less'' ''Show contents of a file (with pager)'' HINT_CYAN 1 0 1 1 None None,
      entry ''ls'' ''Display directory listing'' HINT_CYAN 1 0 0 1 None None,
      entry ''mv'' ''Move file/dir in jail'' HINT_RED 0 0 1 (- 1) None None,
      entry ''rm'' ''Remove file/directory in jail'' HINT_RED 0 0 1 (- 1) None None,
      menu_end]"

definition menu_logging :: "shell_cmd list" where
  "menu_logging =
     [menu_end]"

definition menu_mem_gc :: "shell_cmd list" where
  "menu_mem_gc =
     [entry ''debug'' ''show/toggle debugging status'' HINT_CYAN 1 1 0 1 None (Some MValue),
      entry ''now'' ''Run garbage collection now'' HINT_CYAN 1 0 0 0 None None,
      menu_end]"

definition menu_hooks :: "shell_cmd list" where
  "menu_hooks =
     [entry ''debug'' ''show/toggle debugging status'' HINT_RED 0 1 0 1 None (Some MValue),
      entry ''list'' ''List registered hooks'' HINT_CYAN 1 0 0 0 None None,
      entry ''unregister'' ''Unregister a hook'' HINT_RED 0 0 1 1 None None,
      menu_end]"

definition menu_mem_bh_tuning :: "shell_cmd list" where
  "menu_mem_bh_tuning =
     [menu_end]"

definition menu_mem_bh :: "shell_cmd list" where
  "menu_mem_bh =
     [entry ''debug'' ''show/toggle debugging status'' HINT_CYAN 1 1 0 1 None (Some MValue),
      entry ''tuning'' ''Tuning knobs'' HINT_CYAN 1 1 0 (- 1) None (Some MMemBhTuning),
      menu_end]"

definition menu_mem :: "shell_cmd list" where
  "menu_mem =
     [entry ''blockheap'' ''BlockHeap allocator'' HINT_CYAN 1 1 0 (- 1) None (Some MMemBh),
      entry ''debug'' ''show/toggle debugging status'' HINT_CYAN 1 1 0 1 None (Some MValue),
      entry ''gc'' ''Garbage collector'' HINT_CYAN 1 1 0 (- 1) None (Some MMemGc),
      menu_end]"

definition menu_module :: "shell_cmd list" where
  "menu_module =
     [entry ''debug'' ''show/toggle debugging status'' HINT_CYAN 1 1 0 1 None (Some MValue),
      menu_end]"

definition menu_net :: "shell_cmd list" where
  "menu_net =
     [entry ''debug'' ''show/toggle debugging status'' HINT_CYAN 1 1 0 1 None (Some MValue),
      menu_end]"

definition menu_pkg :: "shell_cmd list" where
  "menu_pkg =
     [entry ''debug'' ''show/toggle debugging status'' HINT_CYAN 1 1 0 1 None (Some MValue),
      entry ''scan'' ''Scan package pool and add to database'' HINT_CYAN 1 0 0 0 None None,
      menu_end]"

definition menu_profiling :: "shell_cmd list" where
  "menu_profiling =
     [entry ''enable'' ''show/toggle profiling status'' HINT_CYAN 1 1 0 1 None (Some MValue),
      entry ''save'' ''Save profiling data to disk'' HINT_CYAN 1 0 0 0 None None,
      menu_end]"

definition menu_thread :: "shell_cmd list" where
  "menu_thread =
     [entry ''debug'' ''show/toggle debugging status'' HINT_CYAN 1 1 0 1 None (Some MValue),
      entry ''kill'' ''Kill a thread'' HINT_RED 0 0 1 1 None None,
      entry ''show'' ''Show details about thread'' HINT_CYAN 1 0 1 1 None None,
      entry ''list'' ''List running threads'' HINT_CYAN 1 0 0 0 None None,
      menu_end]"

definition menu_main :: "shell_cmd list" where
  "menu_main =
     [entry ''clear'' ''Clear screen'' HINT_CYAN 1 0 0 0 (Some HClear) None,
      entry ''conf'' ''Configuration keys'' HINT_CYAN 1 0 0 (- 1) None (Some MConf),
      entry ''cron'' ''Periodic event scheduler'' HINT_CYAN 1 1 0 (- 1) None (Some MCron),
      entry ''db'' ''Database admin'' HINT_CYAN 1 1 0 (- 1) None (Some MDb),
      entry ''debug'' ''Built-in debugger'' HINT_CYAN 1 1 0 (- 1) None (Some MDebug),
      entry ''hooks'' ''Hooks management'' HINT_CYAN 1 1 0 (- 1) None (Some MHooks),
      entry ''logging'' ''Log file'' HINT_CYAN 1 1 0 (- 1) None (Some MLogging),
      entry ''memory'' ''Memory manager'' HINT_CYAN 1 1 0 (- 1) None (Some MMem),
      entry ''module'' ''Loadable module support'' HINT_CYAN 1 1 0 (- 1) None (Some MModule),
      entry ''net'' ''Network'' HINT_CYAN 1 1 0 (- 1) None (Some MNet),
      entry ''pkg'' ''Package commands'' HINT_CYAN 1 1 1 (- 1) None (Some MPkg),
      entry ''profiling'' ''Profiling support'' HINT_CYAN 1 1 0 (- 1) None (Some MProfiling),
      entry ''quit'' ''Alias to shutdown'' HINT_RED 1 0 0 0 (Some HShutdown) None,
      entry ''reload'' ''Reload configuration'' HINT_CYAN 1 0 0 0 (Some HReload) None,
      entry ''run'' ''Start the container (if autorun disabled)'' HINT_GREEN 1 0 0 0 (Some HRun) None,
      entry ''shutdown'' ''Terminate the service'' HINT_RED 1 0 0 0 (Some HShutdown) None,
      entry ''stats'' ''Display statistics'' HINT_CYAN 1 0 0 0 (Some HStats) None,
      entry ''thread'' ''Thread manager'' HINT_CYAN 1 1 0 (- 1) None (Some MThread),
      entry ''user'' ''User manager'' HINT_YELLOW 0 0 0 0 (Some HUser) None,
      entry ''vfs'' ''Virtual FileSystem (VFS)'' HINT_CYAN 1 1 1 (- 1) None (Some MVfs),
      menu_end]"

fun menu_entries :: "menu_id \<Rightarrow> shell_cmd list" where
  "menu_entries MValue = menu_value"
| "menu_entries MConf = menu_conf"
| "menu_entries MCron = menu_cron"
| "menu_entries MDb = menu_db"
| "menu_entries MDebug = menu_debug"
| "menu_entries MVfs = menu_vfs"
| "menu_entries MLogging = menu_logging"
| "menu_entries MMemGc = menu_mem_gc"
| "menu_entries MHooks = menu_hooks"
| "menu_entries MMemBhTuning = menu_mem_bh_tuning"
| "menu_entries MMemBh = menu_mem_bh"
| "menu_entries MMem = menu_mem"
| "menu_entries MModule = menu_module"
| "menu_entries MNet = menu_net"
| "menu_entries MPkg = menu_pkg"
| "menu_entries MProfiling = menu_profiling"
| "menu_entries MThread = menu_thread"
| "menu_entries MMain = menu_main"

definition entries_of :: "menu_id option \<Rightarrow> shell_cmd list option" where
  "entries_of m = map_option menu_entries m"

section \<open>Level and prompt\<close>

definition shell_prompt_reset :: "shell_st \<Rightarrow> shell_st" where
  "shell_prompt_reset st = st\<lparr>sh_prompt := snprintf 63 (SHELL_PROMPT @ '':'' @ sh_level st @ ''> '')\<rparr>"

definition shell_level_set :: "string \<Rightarrow> shell_st \<Rightarrow> shell_st" where
  "shell_level_set line st = shell_prompt_reset (st\<lparr>sh_level := snprintf 39 line\<rparr>)"

text \<open>The loop over the main menu; it leaves at the first entry that has a menu.\<close>
fun get_menu_loop :: "shell_cmd list \<Rightarrow> string \<Rightarrow> menu_id option option" where
  "get_menu_loop [] level = Some None"
| "get_menu_loop (e # es) level =
     (if sc_menu e \<noteq> None then Some None
      else case sc_cmd e of
             None \<Rightarrow> None
           | Some c \<Rightarrow> if strcaseeq c level then Some (sc_menu e) else get_menu_loop es level)"

definition shell_get_menu :: "string \<Rightarrow> menu_id option option" where
  "shell_get_menu level = (if level = ''main'' then Some (Some MMain) else get_menu_loop menu_main level)"

section \<open>Command handlers\<close>

definition SIGHUP :: int where "SIGHUP = 1"
definition SIGTERM :: int where "SIGTERM = 15"
definition PATH_MAX :: nat where "PATH_MAX = 4096"

definition cmd_edit :: "shell_env \<Rightarrow> dict option \<Rightarrow> shell_st \<Rightarrow> shell_st option" where
  "cmd_edit E args st =
     (case args of
        None \<Rightarrow> Some st
      | Some d \<Rightarrow>
          do { ac \<leftarrow> dict_get args (Some ''1'') None;
               case ac of
                 None \<Rightarrow> Some st
               | Some f \<Rightarrow>
                   do { mp \<leftarrow> dconf_get_str (se_conf E) (Some ''path.mountpoint'') None;
                        Some (emit [KiloMain (snprintf (PATH_MAX - 1) (pr_str mp @ ''/'' @ f))] st) } })"

definition cmd_shutdown :: "shell_env \<Rightarrow> shell_st \<Rightarrow> shell_st option" where
  "cmd_shutdown E st = do { st1 \<leftarrow> Log E LOG_NOTICE 0 ''shutdown command from console.'' st; Some (emit [Raised SIGTERM] st1) }"

definition cmd_user :: "shell_env \<Rightarrow> shell_st \<Rightarrow> shell_st option" where
  "cmd_user E st = Log E LOG_SHELL 0 ''>> User tools <<'' st"

definition cmd_run :: "shell_env \<Rightarrow> shell_st \<Rightarrow> shell_st option" where
  "cmd_run E st = Log E LOG_SHELL 0 ''launching jail!'' st"

definition cmd_clear :: "shell_st \<Rightarrow> shell_st option" where
  "cmd_clear st = Some (emit [ClearScreen] st)"

definition cmd_back :: "shell_st \<Rightarrow> shell_st option" where
  "cmd_back st = Some (shell_level_set ''main'' st)"

definition cmd_reload :: "shell_st \<Rightarrow> shell_st option" where
  "cmd_reload st = Some (emit [Raised SIGHUP] st)"

definition cmd_stats :: "shell_env \<Rightarrow> shell_st \<Rightarrow> shell_st option" where
  "cmd_stats E st = Log E LOG_SHELL 0 ''stats requested by user:'' st"

definition cmd_conf_dump :: "shell_env \<Rightarrow> shell_st \<Rightarrow> shell_st option" where
  "cmd_conf_dump E st =
     do { st1 \<leftarrow> Log E LOG_SHELL 0 ''Dumping configuration:'' st;
          (ls, errors) \<leftarrow> dict_dump (\<lambda>_. True) (se_past E) (se_conf E);
          Some (emit (map (Out Stdout) ls) st1) }"

definition run_handler :: "shell_env \<Rightarrow> handler \<Rightarrow> dict option \<Rightarrow> shell_st \<Rightarrow> shell_st option" where
  "run_handler E h args st =
     (case h of
        HConfDump \<Rightarrow> cmd_conf_dump E st | HEdit \<Rightarrow> cmd_edit E args st | HClear \<Rightarrow> cmd_clear st
      | HShutdown \<Rightarrow> cmd_shutdown E st | HReload \<Rightarrow> cmd_reload st | HRun \<Rightarrow> cmd_run E st
      | HStats \<Rightarrow> cmd_stats E st | HUser \<Rightarrow> cmd_user E st)"

text \<open>\<open>cmd_help\<close>: one line per entry up to the one without description.\<close>
definition help_line :: "shell_cmd \<Rightarrow> string" where
  "help_line e = pad_left 15 (pr_str (sc_cmd e)) @ [c_tab] @ '' - '' @ pr_str (sc_desc e) @
     (if sc_menu e = None then [] else '' (menu)'')"

fun help_loop :: "shell_env \<Rightarrow> shell_cmd list \<Rightarrow> shell_st \<Rightarrow> shell_st option" where
  "help_loop E [] st = None"
| "help_loop E (e # es) st =
     (if sc_desc e = None then Some st
      else do { st1 \<leftarrow> Log E LOG_SHELL 3 (help_line e) st; help_loop E es st1 })"

definition cmd_help :: "shell_env \<Rightarrow> shell_st \<Rightarrow> shell_st option" where
  "cmd_help E st =
     do { menu \<leftarrow> shell_get_menu (sh_level st);
          st1 \<leftarrow> Log E LOG_SHELL 1 (''Menu '' @ sh_level st @ '' help'') st;
          st2 \<leftarrow> (if menu \<noteq> Some MMain
                 then Log E LOG_SHELL 1 (pad_left 15 ''back'' @ [c_tab] @ '' - go back to previous menu'') st1
                 else Some st1);
          st3 \<leftarrow> Log E LOG_SHELL 1 (pad_left 15 ''help'' @ [c_tab] @ '' - display help text'') st2;
          case entries_of menu of None \<Rightarrow> Some st3 | Some es \<Rightarrow> help_loop E es st3 }"

section \<open>The interpreter\<close>

text \<open>
  The copy of the line that is split into arguments: one byte of the argument dictionary, the low byte of its
  first field, is copied into cleared memory instead of the line.
\<close>
definition args_text :: "dict \<Rightarrow> string" where
  "args_text d = (let b = (unat (d_fill d) mod 256) in if b = 0 then [] else [char_of b])"

fun add_args :: "denv \<Rightarrow> nat \<Rightarrow> string list \<Rightarrow> dict option \<Rightarrow> dict option option" where
  "add_args m i [] d = Some d"
| "add_args m i (p # ps) d =
     do { (rv, d') \<leftarrow> dict_add m d (Some (snprintf 12 (pad_left 11 (show_nat (Suc i))))) (Some p);
          add_args m (Suc i) ps d' }"

fun menu_loop :: "shell_env \<Rightarrow> dict option \<Rightarrow> shell_cmd list \<Rightarrow> string \<Rightarrow> shell_st \<Rightarrow> shell_st option" where
  "menu_loop E args [] line st = None"
| "menu_loop E args (e # es) line st =
     (if sc_desc e = None then Log E LOG_SHELL 1 (''Unknown command, try help: '' @ line) st
      else case sc_cmd e of
             None \<Rightarrow> None
           | Some c \<Rightarrow>
               if strcaseeq c line
               then (case sc_menu e of
                       Some m \<Rightarrow>
                         if m = MValue then Log E LOG_SHELL 0 ''XXX: Not yet implemented'' st
                         else Some (shell_level_set line st)
                     | None \<Rightarrow>
                         (case sc_handler e of
                            Some h \<Rightarrow> run_handler E h args st
                          | None \<Rightarrow>
                              Log E LOG_SHELL 2 (''That option '' @ [CHR 0x27] @ sh_level st @ '' '' @ line @ [CHR 0x27] @
                                '' is not yet implemented...'') st))
               else menu_loop E args es line st)"

definition shell_dispatch :: "shell_env \<Rightarrow> dict option \<Rightarrow> string \<Rightarrow> shell_st \<Rightarrow> (int \<times> shell_st) option" where
  "shell_dispatch E args line st =
     (if strncaseeq line ''help'' 4 \<or> line = ''?'' then map_option (Pair 0) (cmd_help E st)
      else if strncaseeq line ''vfs edit'' 8
      then if take 1 (drop 8 line) \<noteq> '' ''
           then map_option (Pair (- 1)) (Log E LOG_SHELL 0 ''vfs edit requires an argument (file name)'' st)
           else do { mp \<leftarrow> dconf_get_str (se_conf E) (Some ''path.mountpoint'') None;
                     Some (0, emit [KiloMain (snprintf (PATH_MAX - 1) (drop 9 line @ ''/'' @ pr_str mp))] st) }
      else if strcaseeq line ''back'' then Some (0, shell_level_set ''main'' st)
      else if strcaseeq line ''shutdown'' \<or> strcaseeq line ''quit'' then map_option (Pair 0) (cmd_shutdown E st)
      else if strcaseeq line ''conf dump'' then map_option (Pair 0) (cmd_conf_dump E st)
      else if strcaseeq line ''gc now''
      then map_option (Pair 0) (Log E LOG_SHELL 1 (''gc: Freed '' @ show_int (se_gc E) @ '' objects'') (emit [GcAll] st))
      else do { menu \<leftarrow> shell_get_menu (sh_level st);
                st1 \<leftarrow> (case entries_of menu of
                         None \<Rightarrow> Log E LOG_SHELL 1 (''Unknown command, try help: '' @ line) st
                       | Some es \<Rightarrow> menu_loop E args es line st);
                Some (0, st1) })"

definition shell_command :: "shell_env \<Rightarrow> string option \<Rightarrow> shell_st \<Rightarrow> (int \<times> shell_st) option" where
  "shell_command E ln st =
     (case ln of
        None \<Rightarrow> Some (- 1, st)
      | Some line \<Rightarrow>
          (case dict_new (se_denv E) of
             None \<Rightarrow> None
           | Some args \<Rightarrow>
               if line = [] then None
               else do { args1 \<leftarrow> add_args (se_denv E) 0 (drop 1 (strtok_all '' '' (args_text args))) (Some args);
                         shell_dispatch E args1 line st }))"

section \<open>Completion\<close>

text \<open>
  The conditions of both loops, that the address of an array element is not NULL, hold for every index of a menu
  that is not NULL. The inner loop prints the submenu's entry at the outer index.
\<close>
partial_function (option) submenu_loop :: "string \<Rightarrow> shell_cmd list \<Rightarrow> nat \<Rightarrow> nat \<Rightarrow> string list \<Rightarrow> string list option" where
  "submenu_loop level sub i j lc =
     do { e \<leftarrow> nth_opt sub i;
          submenu_loop level sub i (Suc j) (lc @ [snprintf 127 (level @ '' '' @ pr_str (sc_cmd e))]) }"

fun completion_loop :: "shell_env \<Rightarrow> string \<Rightarrow> shell_cmd list \<Rightarrow> nat \<Rightarrow> string list \<Rightarrow> shell_st \<Rightarrow> (string list \<times> shell_st) option" where
  "completion_loop E buf [] i lc st = None"
| "completion_loop E buf (e # es) i lc st =
     (case sc_cmd e of
        None \<Rightarrow> None
      | Some c \<Rightarrow>
          if strncaseeq buf c (length buf)
          then (case sc_menu e of
                  None \<Rightarrow> completion_loop E buf es (Suc i) (lc @ [c]) st
                | Some m \<Rightarrow>
                    do { st1 \<leftarrow> Log E LOG_SHELL 0 ''---------------------'' st;
                         st2 \<leftarrow> Log E LOG_SHELL 0 ''->'' st1;
                         lc2 \<leftarrow> submenu_loop (sh_level st) (menu_entries m) i 0 (lc @ [c]);
                         st3 \<leftarrow> Log E LOG_SHELL 0 ''.'' st2;
                         completion_loop E buf es (Suc i) lc2 st3 })
          else completion_loop E buf es (Suc i) lc st)"

definition completion_extras :: "string \<Rightarrow> string list" where
  "completion_extras buf =
     (let n = length buf in
      if strncaseeq buf ''gc now'' n then [''gc now'']
      else if strncaseeq buf ''conf dump'' n then [''conf dump'']
      else if strncaseeq buf ''back'' n then [''back'']
      else if strncaseeq buf ''help'' n then [''help'']
      else if strncaseeq buf ''vfs '' n then [''vfs'', ''vfs edit''] else [])"

definition shell_completion :: "shell_env \<Rightarrow> string \<Rightarrow> shell_st \<Rightarrow> (string list \<times> shell_st) option" where
  "shell_completion E buf st =
     do { menu \<leftarrow> shell_get_menu (sh_level st);
          (lc, st1) \<leftarrow> (case entries_of menu of None \<Rightarrow> Some ([], st) | Some es \<Rightarrow> completion_loop E buf es 0 [] st);
          Some (lc @ completion_extras buf, st1) }"

section \<open>Hints\<close>

text \<open>The colour, boldness and text of a hint; the text is in an element of the heap \<open>hp\<close>.\<close>

definition static_hint :: "string \<Rightarrow> (int \<times> int \<times> string) option" where
  "static_hint buf =
     (if strncaseeq buf ''gc now'' 6 then Some (HINT_YELLOW, 1, '' - run garbage collector now'')
      else if strncaseeq buf ''conf dump'' 9 then Some (HINT_YELLOW, 1, '' - dump active configuration file'')
      else if strncaseeq buf ''back'' 4 then Some (HINT_GREEN, 1, '' - go to previous menu'')
      else if strncaseeq buf ''help'' 4 then Some (HINT_GREEN, 1, '' - display help text'')
      else if strncaseeq buf ''vfs edit'' 8 then Some (HINT_YELLOW, 1, '' - edit text file'')
      else None)"

fun hint_loop :: "shell_cmd list \<Rightarrow> string \<Rightarrow> (int \<times> int \<times> string) option option" where
  "hint_loop [] buf = None"
| "hint_loop (e # es) buf =
     (case sc_desc e of
        None \<Rightarrow> Some None
      | Some d \<Rightarrow>
          (case sc_cmd e of
             None \<Rightarrow> None
           | Some c \<Rightarrow>
               if strncaseeq c buf (length c) then Some (Some (sc_color e, sc_bold e, '' - '' @ d))
               else hint_loop es buf))"

definition hint_for :: "string \<Rightarrow> string \<Rightarrow> (int \<times> int \<times> string) option option" where
  "hint_for level buf =
     (case static_hint buf of
        Some h \<Rightarrow> Some (Some h)
      | None \<Rightarrow>
          do { menu \<leftarrow> shell_get_menu level;
               case entries_of menu of None \<Rightarrow> Some None | Some es \<Rightarrow> hint_loop es buf })"

text \<open>The result: NULL, or the element that holds the text, with the hint.\<close>
definition shell_hints ::
    "benv \<Rightarrow> ptr \<Rightarrow> string \<Rightarrow> string \<Rightarrow> bworld \<Rightarrow> ((nat \<times> int \<times> int \<times> string) option \<times> bworld) proc option" where
  "shell_hints e hp level buf w =
     do { menu \<leftarrow> shell_get_menu level;
          if length buf < 2 then Some (Return (None, w))
          else do { r \<leftarrow> blockheap_alloc e hp w;
                    case r of
                      Exits \<Rightarrow> Some Exits
                    | Return (p, w') \<Rightarrow>
                        (case p of
                           None \<Rightarrow> None
                         | Some msg \<Rightarrow>
                             do { h \<leftarrow> hint_for level buf;
                                  case h of
                                    None \<Rightarrow> Some (Return (None, w'))
                                  | Some (col, b, txt) \<Rightarrow>
                                      Some (Return (Some (msg, col, b, snprintf SHELL_HINT_MAX txt), w')) }) } }"

definition shell_hints_free :: "ptr \<Rightarrow> ptr \<Rightarrow> bworld \<Rightarrow> (int \<times> bworld) proc option" where
  "shell_hints_free hp buf w = blockheap_free hp buf w"

definition shell_gc :: "ptr \<Rightarrow> bworld \<Rightarrow> (int \<times> bworld) option" where
  "shell_gc hp w = do { (rv, w') \<leftarrow> blockheap_garbagecollect hp w; Some (0, w') }"

end
