(* ===== verification/ShellOps.thy ===== *)
theory ShellOps
  imports Shell DictOps
begin

text \<open>
  What the shell promises: the logger as an interface that returns and touches nothing but the output, the
  invariant of menu level and prompt over any sequence of command lines, and the behaviour of menus, completion
  and hints.
\<close>

section \<open>The logger as an interface\<close>

locale message_log =
  fixes put :: "int \<Rightarrow> nat \<Rightarrow> string \<Rightarrow> 's \<Rightarrow> 's option"
    and ok :: "'s \<Rightarrow> bool"
    and core :: "'s \<Rightarrow> 'c"
  assumes put_law: "ok s \<Longrightarrow> \<exists>s'. put l n m s = Some s' \<and> ok s' \<and> core s' = core s"
begin

lemma put_all:
  "ok s \<Longrightarrow> \<exists>s'. fold_opt (\<lambda>m. put l n m) ms s = Some s' \<and> ok s' \<and> core s' = core s"
proof (induction ms arbitrary: s)
  case (Cons m ms)
  from put_law [OF Cons.prems] obtain s1 where "put l n m s = Some s1" "ok s1" "core s1 = core s" by blast
  with Cons.IH [of s1] show ?case by auto
qed simp

end

definition conf_ok :: "shell_env \<Rightarrow> bool" where
  "conf_ok E \<longleftrightarrow> env_ok (se_denv E) \<and>
     (case se_conf E of None \<Rightarrow> True | Some d \<Rightarrow> (\<exists>n. dict_room n d) \<and> dict_val d ''log.level'' \<noteq> None)"

definition not_syslog :: "shell_st \<Rightarrow> bool" where
  "not_syslog st \<longleftrightarrow> (case sh_log st of None \<Rightarrow> True | Some l \<Rightarrow> lh_type l \<noteq> LogSyslog)"

definition sh_core :: "shell_st \<Rightarrow> string \<times> string \<times> loghndl option" where
  "sh_core st = (sh_level st, sh_prompt st, sh_log st)"

lemma sh_core_emit [simp]: "sh_core (emit os st) = sh_core st"
  by (simp add: sh_core_def emit_def)

lemma not_syslog_core: "sh_core st' = sh_core st \<Longrightarrow> not_syslog st' = not_syslog st"
  by (simp add: sh_core_def not_syslog_def)

lemma LogName_total: "\<exists>s. LogName level = Some s"
  by (simp add: LogName_def log_levels_def)

lemma LogLevel_total: "\<exists>l. LogLevel (Some s) = Some l"
  by (simp add: LogLevel_def log_levels_def)

lemma conf_get:
  assumes "conf_ok E"
  shows "\<exists>v. dconf_get_str (se_conf E) (Some k) def = Some v \<and>
    (se_conf E \<noteq> None \<and> k = ''log.level'' \<longrightarrow> v \<noteq> None)"
proof (cases "se_conf E")
  case (Some d)
  then obtain n where "dict_room n d" "dict_val d ''log.level'' \<noteq> None" using assms by (auto simp: conf_ok_def)
  then show ?thesis using Some dict_room_get [of n d k def] by (auto simp: dconf_get_str_def)
qed (simp add: dconf_get_str_def)

lemma log_min_level_ok: "conf_ok E \<Longrightarrow> \<exists>l. log_min_level E = Some l"
  using conf_get [of E "''log.level''" "Some ''info''"] LogLevel_total
  by (cases "se_conf E") (auto simp: log_min_level_def)

lemma Log_emits:
  assumes "conf_ok E" "not_syslog st"
  shows "\<exists>os. Log E level n msg st = Some (emit os st)"
proof (cases "se_stamp E")
  case None
  then show ?thesis by (intro exI [of _ "[]"]) (simp add: Log_def emit_def)
next
  case (Some stamp)
  obtain l where l: "log_min_level E = Some l" using log_min_level_ok [OF assms(1)] by blast
  obtain nm where nm: "LogName level = Some nm" using LogName_total by blast
  have sl: "(case sh_log st of None \<Rightarrow> False | Some l \<Rightarrow> lh_type l = LogSyslog) = False"
    using assms(2) by (simp add: not_syslog_def split: option.splits)
  show ?thesis
    unfolding Log_def Some option.case l nm sl Let_def Option.bind_lunit by auto
qed

interpretation lg: message_log "Log E" "\<lambda>st. conf_ok E \<and> not_syslog st" sh_core for E
proof
  fix s l n m
  assume ok: "conf_ok E \<and> not_syslog s"
  then obtain os where "Log E l n m s = Some (emit os s)" using Log_emits by blast
  moreover have "not_syslog (emit os s)" using ok not_syslog_core [OF sh_core_emit] by blast
  ultimately show "\<exists>s'. Log E l n m s = Some s' \<and> (conf_ok E \<and> not_syslog s') \<and> sh_core s' = sh_core s"
    using ok by auto
qed

section \<open>Handlers\<close>

text \<open>A call that returns and changes nothing but the output.\<close>
definition quiet :: "shell_st option \<Rightarrow> shell_st \<Rightarrow> bool" where
  "quiet r st \<longleftrightarrow> (\<exists>st'. r = Some st' \<and> sh_core st' = sh_core st)"

lemma quiet_Log: "conf_ok E \<Longrightarrow> not_syslog st \<Longrightarrow> quiet (Log E l n m st) st"
  using lg.put_law [of E st l n m] by (auto simp: quiet_def)

lemma quiet_emit [simp]: "quiet (Some (emit os st)) st"
  by (simp add: quiet_def)

lemma quiet_Some [simp]: "quiet (Some st) st"
  by (simp add: quiet_def)

lemma quiet_bind:
  assumes "quiet r st" "\<And>st'. sh_core st' = sh_core st \<Longrightarrow> quiet (f st') st'"
  shows "quiet (r \<bind> f) st"
  using assms by (auto simp: quiet_def)

lemma quiet_more: "quiet r st' \<Longrightarrow> sh_core st' = sh_core st \<Longrightarrow> quiet r st"
  by (auto simp: quiet_def)

lemmas menu_defs = menu_value_def menu_conf_def menu_cron_def menu_db_def menu_debug_def menu_vfs_def menu_logging_def menu_mem_gc_def menu_hooks_def menu_mem_bh_tuning_def menu_mem_bh_def menu_mem_def menu_module_def menu_net_def menu_pkg_def menu_profiling_def menu_thread_def menu_main_def

lemma menu_entries_end: "menu_entries m = butlast (menu_entries m) @ [menu_end]"
  by (cases m) (simp_all add: menu_defs)

lemma menu_entries_desc: "\<forall>e \<in> set (butlast (menu_entries m)). sc_desc e \<noteq> None \<and> sc_cmd e \<noteq> None"
  by (cases m) (simp_all add: menu_defs entry_def)

lemma help_loop_quiet:
  assumes "conf_ok E"
  shows "\<forall>e \<in> set es. sc_desc e \<noteq> None \<Longrightarrow> not_syslog st \<Longrightarrow>
    \<exists>st'. help_loop E (es @ [menu_end]) st = Some st' \<and> fold_opt (\<lambda>e. Log E LOG_SHELL 3 (help_line e)) es st = Some st' \<and>
      sh_core st' = sh_core st"
proof (induction es arbitrary: st)
  case Nil
  then show ?case by (simp add: menu_end_def)
next
  case (Cons e es)
  from lg.put_law [of E st LOG_SHELL 3 "help_line e"] assms Cons.prems obtain st1 where
    1: "Log E LOG_SHELL 3 (help_line e) st = Some st1" "not_syslog st1" "sh_core st1 = sh_core st" by blast
  from Cons.IH [OF _ 1(2)] Cons.prems(1) 1 show ?case by force
qed


lemma get_menu_other: "level \<noteq> ''main'' \<Longrightarrow> shell_get_menu level = Some None"
  by (simp add: shell_get_menu_def menu_main_def entry_def)

lemma get_menu_main: "shell_get_menu ''main'' = Some (Some MMain)"
  by (simp add: shell_get_menu_def)

lemma get_menu_total: "\<exists>m. shell_get_menu level = Some m"
  by (cases "level = ''main''") (simp_all add: get_menu_main get_menu_other)

lemma quiet_cmd_help:
  assumes "conf_ok E" "not_syslog st"
  shows "quiet (cmd_help E st) st"
proof -
  obtain m where m: "shell_get_menu (sh_level st) = Some m" using get_menu_total by blast
  have loop: "quiet (case entries_of m of None \<Rightarrow> Some st' | Some es \<Rightarrow> help_loop E es st') st'"
    if "not_syslog st'" for st'
  proof (cases m)
    case (Some k)
    have "\<exists>s. help_loop E (butlast (menu_entries k) @ [menu_end]) st' = Some s \<and> sh_core s = sh_core st'"
      using help_loop_quiet [OF assms(1), of "butlast (menu_entries k)" st'] menu_entries_desc [of k] that by blast
    then show ?thesis
      unfolding menu_entries_end [of k, symmetric] by (simp add: entries_of_def Some quiet_def)
  qed (simp add: entries_of_def)
  show ?thesis
    unfolding cmd_help_def m Option.bind_lunit
    by (intro quiet_bind) (auto intro!: quiet_Log loop assms simp: assms not_syslog_core)
qed

lemma quiet_conf_dump:
  assumes "conf_ok E" "not_syslog st"
  shows "quiet (cmd_conf_dump E st) st"
proof -
  have "\<exists>ls e. dict_dump (\<lambda>_. True) (se_past E) (se_conf E) = Some (ls, e)"
  proof (cases "se_conf E")
    case (Some d)
    then have t: "table_ok d" using assms(1) by (auto simp: conf_ok_def dict_room_def grown_def compact_def)
    show ?thesis using dump_loop_run [OF t, of 0 "unat (d_size d) + 1" "\<lambda>_. True" "se_past E" 0] size_unat [OF t]
      by (simp add: Some dict_dump_def)
  qed (simp add: dict_dump_def)
  then obtain ls e where d: "dict_dump (\<lambda>_. True) (se_past E) (se_conf E) = Some (ls, e)" by blast
  show ?thesis
    unfolding cmd_conf_dump_def d by (intro quiet_bind quiet_Log assms) simp
qed

lemma quiet_handler:
  assumes "conf_ok E" "not_syslog st"
  shows "quiet (run_handler E h (Some fresh_dict) st) st"
proof (cases h)
  case HEdit
  have "dict_get (Some fresh_dict) (Some ''1'') None = Some None"
    using dict_room_get [OF fresh_room [of 0]] by (simp add: fresh_val)
  then show ?thesis by (simp add: HEdit run_handler_def cmd_edit_def)
next
  case HShutdown
  show ?thesis unfolding HShutdown run_handler_def cmd_shutdown_def handler.case
    by (intro quiet_bind quiet_Log assms) simp
qed (simp_all add: run_handler_def quiet_conf_dump quiet_Log assms cmd_clear_def cmd_reload_def cmd_run_def cmd_stats_def
    cmd_user_def)

section \<open>The menu loop\<close>

definition entry_for :: "shell_cmd list \<Rightarrow> string \<Rightarrow> shell_cmd option" where
  "entry_for es line = find (\<lambda>e. strcaseeq (the (sc_cmd e)) line) es"

lemma menu_loop_ok:
  assumes "conf_ok E" "not_syslog st"
  shows "\<forall>e \<in> set es. sc_desc e \<noteq> None \<and> sc_cmd e \<noteq> None \<Longrightarrow>
    (case entry_for es line of
       Some e \<Rightarrow>
         if sc_menu e \<noteq> None \<and> sc_menu e \<noteq> Some MValue
         then menu_loop E (Some fresh_dict) (es @ [menu_end]) line st = Some (shell_level_set line st)
         else quiet (menu_loop E (Some fresh_dict) (es @ [menu_end]) line st) st
     | None \<Rightarrow> menu_loop E (Some fresh_dict) (es @ [menu_end]) line st =
         Log E LOG_SHELL 1 (''Unknown command, try help: '' @ line) st)"
proof (induction es)
  case Nil
  then show ?case by (simp add: entry_for_def menu_end_def)
next
  case (Cons e es)
  then show ?case
    by (cases "strcaseeq (the (sc_cmd e)) line")
      (auto simp: entry_for_def quiet_Log quiet_handler assms split: option.splits)
qed

section \<open>Levels\<close>

definition opens_menu :: "string \<Rightarrow> bool" where
  "opens_menu line = (case entry_for (butlast menu_main) line of None \<Rightarrow> False | Some e \<Rightarrow> sc_menu e \<noteq> None)"

definition level_step :: "string \<Rightarrow> string \<Rightarrow> string" where
  "level_step level line =
     (if strcaseeq line ''back'' then ''main'' else if level = ''main'' \<and> opens_menu line then line else level)"

definition shell_inv :: "shell_st \<Rightarrow> bool" where
  "shell_inv st \<longleftrightarrow> (sh_level st = ''main'' \<or> opens_menu (sh_level st)) \<and>
     sh_prompt st = ''jailfs:'' @ sh_level st @ ''> ''"

lemma main_entries: "\<forall>e \<in> set (butlast menu_main). \<exists>c. sc_cmd e = Some c \<and> length c \<le> 9 \<and> sc_menu e \<noteq> Some MValue"
  by (simp add: menu_main_def entry_def)

lemma entry_forD: "entry_for es line = Some e \<Longrightarrow> e \<in> set es \<and> strcaseeq (the (sc_cmd e)) line"
  by (auto simp: entry_for_def find_Some_iff)

lemma strcaseeq_length: "strcaseeq s t \<Longrightarrow> length s = length t"
  unfolding strcaseeq_def by (rule map_eq_imp_length_eq)

lemma opens_menu_entry:
  "opens_menu line \<Longrightarrow> \<exists>e c. entry_for (butlast menu_main) line = Some e \<and> sc_cmd e = Some c \<and> strcaseeq c line \<and>
     length c \<le> 9 \<and> sc_menu e \<noteq> None \<and> sc_menu e \<noteq> Some MValue"
  using main_entries by (force simp: opens_menu_def split: option.splits dest!: entry_forD)

lemma opens_menu_length: "opens_menu line \<Longrightarrow> length line \<le> 9"
  using opens_menu_entry strcaseeq_length by fastforce

lemma level_set_core:
  "sh_level (shell_level_set l st) = take 38 l \<and> sh_log (shell_level_set l st) = sh_log st \<and>
   sh_prompt (shell_level_set l st) = ''jailfs:'' @ take 38 l @ ''> ''"
  by (simp add: shell_level_set_def shell_prompt_reset_def snprintf_def SHELL_PROMPT_def)


lemma level_set_inv: "l = ''main'' \<or> opens_menu l \<Longrightarrow> shell_inv (shell_level_set l st) \<and> sh_level (shell_level_set l st) = l"
  using opens_menu_length [of l] by (auto simp: shell_inv_def level_set_core)

lemma strncase_lower: "strncaseeq s t n \<Longrightarrow> n \<le> length t \<Longrightarrow> take n (map c_tolower s) = take n (map c_tolower t)"
  by (simp add: strncaseeq_def)

text \<open>The lines every menu level understands.\<close>
definition universal :: "string \<Rightarrow> bool" where
  "universal line \<longleftrightarrow> strncaseeq line ''help'' 4 \<or> line = ''?'' \<or> strncaseeq line ''vfs edit'' 8 \<or> strcaseeq line ''back'' \<or>
     strcaseeq line ''shutdown'' \<or> strcaseeq line ''quit'' \<or> strcaseeq line ''conf dump'' \<or> strcaseeq line ''gc now''"

definition menu_lows :: "string list" where
  "menu_lows = map (\<lambda>e. map c_tolower (the (sc_cmd e))) (filter (\<lambda>e. sc_menu e \<noteq> None) (butlast menu_main))"

lemma menu_lows_eval: "menu_lows = [''conf'', ''cron'', ''db'', ''debug'', ''hooks'', ''logging'', ''memory'', ''module'',
    ''net'', ''pkg'', ''profiling'', ''thread'', ''vfs'']"
  by code_simp

lemma opens_not_universal:
  assumes "opens_menu line"
  shows "\<not> universal line"
proof -
  obtain e c where e: "entry_for (butlast menu_main) line = Some e" "sc_cmd e = Some c" "strcaseeq c line" "sc_menu e \<noteq> None"
    using opens_menu_entry [OF assms] by blast
  then have low: "map c_tolower line \<in> set menu_lows"
    using entry_forD [OF e(1)] by (force simp: menu_lows_def strcaseeq_def)
  have "\<not> P (map c_tolower line)" if "list_all (\<lambda>l. \<not> P l) menu_lows" for P
    using low that by (auto simp: list_all_iff)
  note n = this
  have 1: "\<not> strncaseeq line ''help'' 4"
    unfolding strncaseeq_def by (rule n [of "\<lambda>l. take 4 l = _"]) code_simp
  have 2: "\<not> strncaseeq line ''vfs edit'' 8"
    unfolding strncaseeq_def by (rule n [of "\<lambda>l. take 8 l = _"]) code_simp
  have 3: "\<not> strcaseeq line t" if "map c_tolower t \<notin> set menu_lows" for t
    using low that by (auto simp: strcaseeq_def)
  have "list_all (\<lambda>t. map c_tolower t \<notin> set menu_lows) [''back'', ''shutdown'', ''quit'', ''conf dump'', ''gc now'', ''?'']"
    by code_simp
  then have 4: "\<not> strcaseeq line ''back''" "\<not> strcaseeq line ''shutdown''" "\<not> strcaseeq line ''quit''"
    "\<not> strcaseeq line ''conf dump''" "\<not> strcaseeq line ''gc now''" "\<not> strcaseeq line ''?''"
    by (auto intro!: 3)
  then have "line \<noteq> ''?''" by (auto simp: strcaseeq_def)
  then show ?thesis using 1 2 4 by (simp add: universal_def)
qed

section \<open>The interpreter\<close>

lemma dispatch_quiet_pair: "quiet r st \<Longrightarrow> \<exists>st'. map_option (Pair rv) r = Some (rv, st') \<and> sh_core st' = sh_core st"
  by (auto simp: quiet_def)

lemma dispatch_universal:
  assumes "conf_ok E" "not_syslog st" "universal line" "\<not> strcaseeq line ''back''"
  shows "\<exists>rv st'. shell_dispatch E (Some fresh_dict) line st = Some (rv, st') \<and> rv \<in> {0, - 1} \<and> sh_core st' = sh_core st"
proof -
  obtain mp where mp: "dconf_get_str (se_conf E) (Some ''path.mountpoint'') None = Some mp"
    using conf_get [OF assms(1)] by blast
  have e: "not_syslog (emit [GcAll] st)" using assms(2) not_syslog_core [OF sh_core_emit] by blast
  note qs = dispatch_quiet_pair [OF quiet_cmd_help [OF assms(1,2)], where rv = 0]
    dispatch_quiet_pair [OF quiet_Log [OF assms(1,2)], where rv = "- 1"]
    dispatch_quiet_pair [OF quiet_handler [OF assms(1,2), of HShutdown], where rv = 0]
    dispatch_quiet_pair [OF quiet_conf_dump [OF assms(1,2)], where rv = 0]
    dispatch_quiet_pair [OF quiet_Log [OF assms(1) e], where rv = 0]
  show ?thesis
    using assms(3,4) qs unfolding shell_dispatch_def universal_def
    by (auto simp: mp run_handler_def)
qed

lemma dispatch_menu:
  assumes "conf_ok E" "not_syslog st" "\<not> universal line"
  shows "\<exists>st'. shell_dispatch E (Some fresh_dict) line st = Some (0, st') \<and>
    (if sh_level st = ''main'' \<and> opens_menu line then st' = shell_level_set line st else sh_core st' = sh_core st)"
proof (cases "sh_level st = ''main''")
  case True
  have es: "menu_entries MMain = butlast menu_main @ [menu_end]" using menu_entries_end [of MMain] by simp
  have d: "\<forall>e \<in> set (butlast menu_main). sc_desc e \<noteq> None \<and> sc_cmd e \<noteq> None" using menu_entries_desc [of MMain] by simp
  have e: "shell_dispatch E (Some fresh_dict) line st =
      map_option (Pair 0) (menu_loop E (Some fresh_dict) (butlast menu_main @ [menu_end]) line st)"
    using assms(3) True es by (auto simp: shell_dispatch_def universal_def get_menu_main entries_of_def map_option_case
        Option.bind_eq_Some_conv split: option.splits)
  show ?thesis
  proof (cases "opens_menu line")
    case op: True
    then show ?thesis using menu_loop_ok [OF assms(1,2) d, of line] opens_menu_entry [OF op] True e by auto
  next
    case False
    have "quiet (menu_loop E (Some fresh_dict) (butlast menu_main @ [menu_end]) line st) st"
      using menu_loop_ok [OF assms(1,2) d, of line] False quiet_Log [OF assms(1,2)]
      by (auto simp: opens_menu_def split: option.splits if_splits)
    then show ?thesis using False e by (auto simp: quiet_def)
  qed
next
  case False
  then show ?thesis using assms quiet_Log [OF assms(1,2), of LOG_SHELL 1 "''Unknown command, try help: '' @ line"]
    by (auto simp: shell_dispatch_def universal_def get_menu_other entries_of_def quiet_def)
qed

lemma shell_command_dispatch:
  assumes "conf_ok E" "line \<noteq> []"
  shows "shell_command E (Some line) st = shell_dispatch E (Some fresh_dict) line st"
proof -
  have "dict_new (se_denv E) = Some fresh_dict" using assms(1) dict_new_ok by (simp add: conf_ok_def)
  moreover have "strtok_all '' '' [] = []" by (subst strtok_all.simps) (simp add: strtok_def)
  ultimately show ?thesis using assms(2)
    by (simp add: shell_command_def args_text_def fresh_dict_def)
qed

lemma shell_command_step:
  assumes "conf_ok E" "not_syslog st" "shell_inv st" "line \<noteq> []"
  shows "\<exists>rv st'. shell_command E (Some line) st = Some (rv, st') \<and> rv \<in> {0, - 1} \<and> shell_inv st' \<and>
    sh_log st' = sh_log st \<and> sh_level st' = level_step (sh_level st) line"
proof -
  have same: "shell_inv st' \<and> sh_log st' = sh_log st \<and> sh_level st' = sh_level st" if "sh_core st' = sh_core st" for st'
    using that assms(3) by (simp add: sh_core_def shell_inv_def)
  show ?thesis
  proof (cases "universal line")
    case True
    have no: "\<not> opens_menu line" using opens_not_universal True by blast
    show ?thesis
    proof (cases "strcaseeq line ''back''")
      case bk: True
      have "\<not> strncaseeq line ''help'' 4 \<and> line \<noteq> ''?'' \<and> \<not> strncaseeq line ''vfs edit'' 8"
        using bk by (auto simp: strcaseeq_def strncaseeq_def c_tolower_def c_isupper_def)
      then have "shell_command E (Some line) st = Some (0, shell_level_set ''main'' st)"
        using bk shell_command_dispatch [OF assms(1,4)] by (simp add: shell_dispatch_def)
      then show ?thesis using level_set_inv [of "''main''" st] level_set_core [of "''main''" st] bk
        by (simp add: level_step_def)
    next
      case False
      obtain rv st' where d: "shell_dispatch E (Some fresh_dict) line st = Some (rv, st')" "rv \<in> {0, - 1}" "sh_core st' = sh_core st"
        using dispatch_universal [OF assms(1,2) True False] by blast
      have "level_step (sh_level st) line = sh_level st" using False no by (simp add: level_step_def)
      then show ?thesis using d same [OF d(3)] shell_command_dispatch [OF assms(1,4)] by auto
    qed
  next
    case False
    then have nb: "\<not> strcaseeq line ''back''" by (simp add: universal_def)
    from dispatch_menu [OF assms(1,2) False] obtain st' where d: "shell_dispatch E (Some fresh_dict) line st = Some (0, st')"
      and c: "if sh_level st = ''main'' \<and> opens_menu line then st' = shell_level_set line st else sh_core st' = sh_core st" by blast
    have "shell_inv st' \<and> sh_log st' = sh_log st \<and> sh_level st' = level_step (sh_level st) line"
      using c same [of st'] level_set_inv [of line st] level_set_core [of line st] nb
      by (auto simp: level_step_def split: if_splits)
    then show ?thesis using d shell_command_dispatch [OF assms(1,4)] by simp
  qed
qed

text \<open>A session: the lines the thread reads, one after the other.\<close>
definition shell_session :: "shell_env \<Rightarrow> string list \<Rightarrow> shell_st \<Rightarrow> shell_st option" where
  "shell_session E lines st = fold_opt (\<lambda>l s. map_option snd (shell_command E (Some l) s)) lines st"

section \<open>Properties\<close>

text \<open>
  From a state in which the level is the main menu or one of its submenus and the prompt shows it, every
  sequence of non-empty command lines is processed: each command returns, the prompt always reads
  \<open>jailfs:LEVEL> \<close> untruncated, and the level moves as the abstract \<open>level_step\<close> says: \<open>back\<close> leads to the main
  menu, the name of a submenu leads there from the main menu, any other line leaves it unchanged.
\<close>
theorem shell_session_levels:
  assumes "conf_ok E" "not_syslog st" "shell_inv st" "\<forall>l \<in> set lines. l \<noteq> []"
  shows "\<exists>st'. shell_session E lines st = Some st' \<and> shell_inv st' \<and> sh_log st' = sh_log st \<and>
    sh_level st' = foldl level_step (sh_level st) lines"
  using assms(2-4)
proof (induction lines arbitrary: st)
  case (Cons l ls)
  obtain rv st1 where 1: "shell_command E (Some l) st = Some (rv, st1)" "shell_inv st1" "sh_log st1 = sh_log st"
    "sh_level st1 = level_step (sh_level st) l"
    using shell_command_step [OF assms(1) Cons.prems(1,2), of l] Cons.prems(3) by auto
  then have "not_syslog st1" using Cons.prems(1) by (simp add: not_syslog_def)
  with Cons.IH [of st1] Cons.prems(3) 1 show ?case by (auto simp: shell_session_def)
qed (simp add: shell_session_def)

definition shell_env0 :: shell_env where
  "shell_env0 = \<lparr>se_stamp = Some ''2018/01/01 00:00:00'', se_conf = None, se_denv = env0 1, se_past = KNull,
     se_fopen = (\<lambda>_. True), se_is_fifo = (\<lambda>_. False), se_is_file = (\<lambda>_. False), se_gc = 0\<rparr>"

definition shell_st0 :: shell_st where
  "shell_st0 = shell_level_set ''main'' \<lparr>sh_level = [], sh_prompt = [], sh_log = None, sh_out = []\<rparr>"

lemma shell_env0_ok: "conf_ok shell_env0" "not_syslog shell_st0" "shell_inv shell_st0" "sh_level shell_st0 = ''main''"
  by (simp_all add: conf_ok_def shell_env0_def shell_st0_def not_syslog_def shell_inv_def shell_level_set_def
      shell_prompt_reset_def snprintf_def SHELL_PROMPT_def)

theorem shell_session_levels_witness:
  "\<exists>st'. shell_session shell_env0 [''stats'', ''Memory''] shell_st0 = Some st' \<and> sh_prompt st' = ''jailfs:Memory> ''"
proof -
  have "foldl level_step ''main'' [''stats'', ''Memory''] = ''Memory''" by code_simp
  then show ?thesis
    using shell_session_levels [OF shell_env0_ok(1-3), of "[''stats'', ''Memory'']"] shell_env0_ok(4)
    by (auto simp: shell_inv_def)
qed

text \<open>
  Below the main menu no menu command works: at any other level every line that is not one of the commands
  all menus share is answered with ``Unknown command'', whatever the submenu lists (\<open>shell_get_menu\<close> leaves its
  search at the first entry of the main menu that has a submenu, so it finds none of them).
\<close>
theorem submenu_commands_unknown:
  assumes "conf_ok E" "sh_level st \<noteq> ''main''" "line \<noteq> []" "\<not> universal line"
  shows "shell_command E (Some line) st =
    map_option (Pair 0) (Log E LOG_SHELL 1 (''Unknown command, try help: '' @ line) st)"
  using assms(2,4) shell_command_dispatch [OF assms(1,3)]
  by (simp add: shell_dispatch_def universal_def get_menu_other entries_of_def map_option_case split: option.splits)

theorem submenu_commands_unknown_witness:
  "(\<exists>e \<in> set menu_conf. sc_cmd e = Some ''dump'' \<and> sc_handler e = Some HConfDump) \<and>
   shell_command shell_env0 (Some ''dump'') (shell_level_set ''conf'' shell_st0) =
     map_option (Pair 0) (Log shell_env0 LOG_SHELL 1 ''Unknown command, try help: dump'' (shell_level_set ''conf'' shell_st0))"
proof -
  have "\<not> universal ''dump''" by code_simp
  then show ?thesis
    using submenu_commands_unknown [OF shell_env0_ok(1), of "shell_level_set ''conf'' shell_st0" "''dump''"]
    by (simp add: level_set_core menu_conf_def entry_def)
qed

lemma submenu_loop_never: "submenu_loop level sub i j lc = None"
proof -
  have "submenu_loop level sub i j lc = Some r \<Longrightarrow> False" for r
    by (erule submenu_loop.raw_induct [where P = "\<lambda>_ _ _ _ _ _. False", rotated]) (auto simp: Option.bind_eq_Some_conv)
  then show ?thesis by (cases "submenu_loop level sub i j lc") auto
qed

lemma completion_loop_never: "completion_loop E buf (es @ [menu_end]) i lc st = None"
  by (induction es arbitrary: i lc st)
    (auto simp: menu_end_def submenu_loop_never Option.bind_eq_None_conv split: option.splits)

text \<open>
  Tab completion at the main menu never returns, whatever has been typed: the loops test the address of an
  array element against NULL, so the outer one reads the terminating entry's NULL name, and the inner one does
  not end at all. At every other level completion returns and offers only the built-in extras.
\<close>
theorem completion_never_returns:
  "shell_completion E buf st =
     (if sh_level st = ''main'' then None else Some (completion_extras buf, st))"
proof (cases "sh_level st = ''main''")
  case True
  have "menu_entries MMain = butlast menu_main @ [menu_end]" using menu_entries_end [of MMain] by simp
  then have "completion_loop E buf (menu_entries MMain) 0 [] st = None" using completion_loop_never by metis
  then show ?thesis by (simp add: shell_completion_def True get_menu_main entries_of_def)
qed (simp add: shell_completion_def get_menu_other entries_of_def)

text \<open>
  Once the configuration is loaded, \<open>Log\<close> works only if it sets \<open>log.level\<close>: without that key the default
  is not used, \<open>LogLevel\<close> compares with a NULL string and no message can be logged (and with a
  syslog target no message that has arguments can, as they are read twice).
\<close>
theorem log_needs_level:
  assumes "se_stamp E = Some stamp" "se_conf E = Some d" "dict_room n d"
  shows "(\<exists>st'. Log E level k msg st = Some st') \<longleftrightarrow>
    dict_val d ''log.level'' \<noteq> None \<and> (k = 0 \<or> not_syslog st)"
proof -
  have m: "log_min_level E = LogLevel (dict_val d ''log.level'')"
    using assms dict_room_get [OF assms(3)] by (simp add: log_min_level_def dconf_get_str_def)
  obtain nm where nm: "LogName level = Some nm" using LogName_total by blast
  show ?thesis
  proof (cases "dict_val d ''log.level''")
    case None
    then show ?thesis by (simp add: Log_def assms(1) m LogLevel_def)
  next
    case (Some v)
    obtain l where "LogLevel (Some v) = Some l" using LogLevel_total by blast
    then show ?thesis using Some
      by (auto simp: Log_def assms(1) m nm Let_def not_syslog_def split: option.splits)
  qed
qed

theorem log_needs_level_witness:
  "Log (shell_env0\<lparr>se_conf := Some one_key\<rparr>) LOG_ERR 0 ''hello'' shell_st0 = None"
proof -
  have "dict_val one_key ''log.level'' = None" by (simp add: dict_val_def one_key_ok(2))
  then show ?thesis
    using log_needs_level [of "shell_env0\<lparr>se_conf := Some one_key\<rparr>" _ one_key 0 LOG_ERR 0 "''hello''" shell_st0] one_key_ok(3)
    by (simp add: shell_env0_def)
qed

lemma hint_for_total: "\<exists>h. hint_for level buf = Some h"
proof -
  have loop: "\<forall>e \<in> set es. sc_desc e \<noteq> None \<and> sc_cmd e \<noteq> None \<Longrightarrow> \<exists>h. hint_loop (es @ [menu_end]) buf = Some h" for es
    by (induction es) (auto simp: menu_end_def split: option.splits)
  have "\<exists>h. hint_loop (butlast (menu_entries MMain) @ [menu_end]) buf = Some h"
    using loop menu_entries_desc by blast
  then have "\<exists>h. hint_loop (menu_entries MMain) buf = Some h" by (simp only: menu_entries_end [symmetric])
  then show ?thesis
    by (cases "level = ''main''"; cases "static_hint buf")
      (auto simp: hint_for_def get_menu_main get_menu_other entries_of_def)
qed

text \<open>
  \<open>shell_hints\<close> and the hint heap: for a line of at least two characters each call takes an element that was
  not in use. When a hint is found, its text (at most 119 characters) is in that element and
  \<open>shell_hints_free\<close> gives it back; when none is found, NULL is returned and the element stays in use for ever.
\<close>
theorem shell_hints_heap:
  assumes "heap_inv e a w L" "heap_alloc e a w = Some (p, w1)" "2 \<le> length buf"
  shows "\<exists>h. hint_for level buf = Some h \<and> p \<notin> L \<and> heap_inv e a w1 (insert p L) \<and>
    (case h of
       None \<Rightarrow> shell_hints e (Some a) level buf w = Some (Return (None, w1))
     | Some (c, b, txt) \<Rightarrow>
         shell_hints e (Some a) level buf w = Some (Return (Some (p, c, b, take 119 txt), w1)) \<and>
         (\<exists>w2. shell_hints_free (Some a) (Some p) w1 = Some (Return (0, w2)) \<and> heap_inv e a w2 L))"
proof -
  obtain h where h: "hint_for level buf = Some h" using hint_for_total by blast
  obtain m where m: "shell_get_menu level = Some m" using get_menu_total by blast
  have al: "blockheap_alloc e (Some a) w = Some (Return (Some p, w1))"
    using assms(2) by (auto simp: heap_alloc_def split: option.splits proc.splits)
  have i: "p \<notin> L" "heap_inv e a w1 (insert p L)" using bal.alloc_law [OF assms(1,2)] by auto
  from bal.release_law [OF i(2), of p] i(1) obtain w2 where
    "heap_release a p w1 = Some w2" "heap_inv e a w2 L" by auto
  then have "shell_hints_free (Some a) (Some p) w1 = Some (Return (0, w2)) \<and> heap_inv e a w2 L"
    by (auto simp: shell_hints_free_def heap_release_def split: option.splits proc.splits if_splits)
  then show ?thesis using h m al i assms(3)
    by (auto simp: shell_hints_def snprintf_def SHELL_HINT_MAX_def split: option.splits)
qed

theorem shell_hints_heap_witness:
  "\<exists>p w1. shell_hints benv0 (Some 32) ''main'' ''zz'' heap1 = Some (Return (None, w1)) \<and> heap_inv benv0 32 w1 {p}"
proof -
  obtain bs where r: "heap_rep heap1 32 bs" "free_count bs = 2" "live bs = {}" using heap1_rep by fastforce
  then have "0 < free_count bs" "free_count bs < 2 ^ 64" by simp_all
  from heap1_step [OF r(1) this] obtain p w1 where al: "heap_alloc benv0 32 heap1 = Some (p, w1)" by blast
  have inv: "heap_inv benv0 32 heap1 {}" using r benv0_ok by (auto simp: heap_inv_def heap_live_def)
  have "hint_for ''main'' ''zz'' = Some None" by code_simp
  then show ?thesis using shell_hints_heap [OF inv al, of "''zz''" "''main''"] by auto
qed

end
