(* ===== verification/Pkg.thy ===== *)
theory Pkg
  imports Prelude
begin

text \<open>
  Package handles of src/pkg.c and src/pkg.h, the transaction lock and package ids of src/database.c, and the file cache of
  src/vfs.c that an opened package is entered into. The list of open packages is the sequence of the addresses
  of their handles (the theories Dlink and DlinkOps show that the linked list behaves as one), the handles
  taken from the block heap are a store. \<open>stat\<close>, \<open>open\<close>, \<open>flock\<close>, the clock, libarchive's answers and the
  configuration switches are the record \<open>pkg_env\<close>; log messages are left out. \<open>None\<close> as a result: the
  transaction lock is taken while it is held and the call waits for ever, an unlocked lock is unlocked, or a
  NULL pointer or a freed handle is used, or memory is read that cannot be read. Elements of block heaps are arguments: \<open>mem\<close> for a
  handle, \<open>fes\<close> for the entries of the file cache.
\<close>

section \<open>State\<close>

record pkg_handle =
  ph_pkgid :: int
  ph_fd :: int
  ph_refcnt :: int
  ph_otime :: int
  ph_name :: "string option"

datatype ftype = PKG_FTYPE_NONE | PKG_FTYPE_LINK | PKG_FTYPE_DIR | PKG_FTYPE_FILE | PKG_FTYPE_FIFO | PKG_FTYPE_BLOCK
  | PKG_FTYPE_DEV

record cache_entry =
  ce_path :: string
  ce_pkgid :: int
  ce_size :: int
  ce_refcnt :: "16 word"
  ce_type :: ftype
  ce_uid :: int
  ce_gid :: int
  ce_owner :: string
  ce_group :: string
  ce_mode :: int
  ce_ctime :: int

text \<open>
  An entry of an archive, as libarchive reports it. A string that the code copies is given by the memory from its pointer on, as far as it can be
  read: the C string and what lies behind it.\<close>
record arch_entry =
  ae_name :: "string option"
  ae_owner :: "string option"
  ae_group :: "string option"
  ae_uid :: int
  ae_gid :: int
  ae_strmode :: string
  ae_mode :: int
  ae_size :: int

text \<open>
  \<open>pe_archive path\<close>: \<open>None\<close> when the archive cannot be opened, otherwise its entries and whether reading them
  ends at the end of the archive (and not with an error).
\<close>
record pkg_env =
  pe_stat :: "string \<Rightarrow> int"
  pe_open :: "string \<Rightarrow> int"
  pe_flock :: "string \<Rightarrow> bool"
  pe_locking :: bool
  pe_archive :: "string \<Rightarrow> (arch_entry list \<times> bool) option"
  pe_time :: int

text \<open>
  \<open>pk_cache\<close> is what the elements taken from the heap of the file cache hold, by their addresses. The code keeps no pointer to them.\<close>
record pkg_state =
  pk_handles :: "nat \<rightharpoonup> pkg_handle"
  pk_list :: "nat list"
  pk_locked :: bool
  pk_gpkgid :: int
  pk_cache :: "nat \<rightharpoonup> cache_entry"

section \<open>The database\<close>

definition db_begin :: "pkg_state \<Rightarrow> pkg_state option" where
  "db_begin s = (if pk_locked s then None else Some (s\<lparr>pk_locked := True\<rparr>))"

definition db_commit :: "pkg_state \<Rightarrow> pkg_state option" where
  "db_commit s = (if pk_locked s then Some (s\<lparr>pk_locked := False\<rparr>) else None)"

definition db_rollback :: "pkg_state \<Rightarrow> pkg_state option" where
  "db_rollback s = (if pk_locked s then Some (s\<lparr>pk_locked := False\<rparr>) else None)"

definition db_pkg_add :: "pkg_env \<Rightarrow> string \<Rightarrow> pkg_state \<Rightarrow> int \<times> pkg_state" where
  "db_pkg_add E path s =
     (if pe_stat E path \<noteq> 0 then (- pe_stat E path, s)
      else let i = int_of_long (pk_gpkgid s + 1) in (i, s\<lparr>pk_gpkgid := i\<rparr>))"

definition db_file_add :: "int \<Rightarrow> string \<Rightarrow> int" where "db_file_add pkg path = 0"
definition db_pkg_remove :: "string \<Rightarrow> int" where "db_pkg_remove path = 0"
definition db_file_remove :: "int \<Rightarrow> string \<Rightarrow> int" where "db_file_remove pkg path = 0"

section \<open>The file cache\<close>

text \<open>The lookup is a stub.\<close>
definition vfs_find :: "string \<Rightarrow> cache_entry option" where
  "vfs_find path = None"

definition ftype_of :: "char \<Rightarrow> ftype" where
  "ftype_of type =
     (if type = CHR ''d'' then PKG_FTYPE_DIR
      else if type = CHR ''f'' then PKG_FTYPE_FILE
      else if type = CHR ''l'' then PKG_FTYPE_LINK
      else if type = CHR ''D'' then PKG_FTYPE_DEV
      else if type = CHR ''F'' then PKG_FTYPE_FIFO else PKG_FTYPE_NONE)"

text \<open>The \<open>memcpy\<close> of \<open>n - 1\<close> bytes from \<open>mem\<close>, however short its string is, into a cleared array of \<open>n\<close> bytes; the C string then in it.\<close>
definition copy_str :: "nat \<Rightarrow> string \<Rightarrow> string option" where
  "copy_str n mem = (if length mem < n - 1 then None else Some (takeWhile (\<lambda>c. c \<noteq> c_nul) (take (n - 1) mem)))"

definition copy_opt :: "nat \<Rightarrow> string option \<Rightarrow> string option" where
  "copy_opt n str = (case str of None \<Rightarrow> Some [] | Some mem \<Rightarrow> copy_str n mem)"

text \<open>\<open>fe\<close> is what \<open>blockheap_alloc\<close> returns.\<close>
definition vfs_add_path ::
    "char \<Rightarrow> int \<Rightarrow> string option \<Rightarrow> int \<Rightarrow> int \<Rightarrow> string option \<Rightarrow> string option \<Rightarrow> int \<Rightarrow> int \<Rightarrow> int \<Rightarrow> ptr \<Rightarrow> pkg_state \<Rightarrow>
     (int \<times> pkg_state) option" where
  "vfs_add_path type pkgid path uid gid owner grp mode siz ctime fe s =
     (if pkgid < 1 then Some (- 1, s)
      else case path of
        None \<Rightarrow> Some (- 1, s)
      | Some p \<Rightarrow>
          if type \<noteq> CHR ''d'' \<and> vfs_find (takeWhile (\<lambda>c. c \<noteq> c_nul) p) \<noteq> None then Some (- 1, s)
          else case fe of
            None \<Rightarrow> Some (- 1, s)
          | Some a \<Rightarrow>
              do { n \<leftarrow> copy_str 4096 p;
                   ow \<leftarrow> copy_opt 32 owner;
                   gr \<leftarrow> copy_opt 32 grp;
                   Some (0, s\<lparr>pk_cache := (pk_cache s)(a \<mapsto>
                     \<lparr>ce_path = n, ce_pkgid = pkgid, ce_size = siz, ce_refcnt = 0, ce_type = ftype_of type,
                      ce_uid = uid, ce_gid = gid, ce_owner = ow, ce_group = gr, ce_mode = mode, ce_ctime = ctime\<rparr>)\<rparr>) })"

text \<open>What the copies read is there to be read.\<close>
definition readable :: "arch_entry \<Rightarrow> bool" where
  "readable e \<longleftrightarrow> (\<forall>p. ae_name e = Some p \<longrightarrow> 4095 \<le> length p \<and> copy_opt 32 (ae_owner e) \<noteq> None \<and> copy_opt 32 (ae_group e) \<noteq> None)"

section \<open>Handles\<close>

definition pkg_findnode :: "nat \<Rightarrow> pkg_state \<Rightarrow> bool" where
  "pkg_findnode pkg s = (pkg \<in> set (pk_list s))"

definition pkg_release :: "nat \<Rightarrow> pkg_state \<Rightarrow> pkg_state option" where
  "pkg_release pkg s =
     do { p \<leftarrow> pk_handles s pkg;
          let p' = p\<lparr>ph_name := None, ph_fd := (if ph_fd p \<noteq> 0 then - 1 else ph_fd p)\<rparr>;
              s1 = s\<lparr>pk_handles := (pk_handles s)(pkg \<mapsto> p')\<rparr> in
          Some (if pkg_findnode pkg s1
                then s1\<lparr>pk_list := remove1 pkg (pk_list s1), pk_handles := (pk_handles s1)(pkg := None)\<rparr>
                else s1) }"

fun byname_loop :: "(nat \<rightharpoonup> pkg_handle) \<Rightarrow> nat list \<Rightarrow> string \<Rightarrow> ptr option" where
  "byname_loop hs [] path = Some None"
| "byname_loop hs (a # as) path =
     do { p \<leftarrow> hs a; n \<leftarrow> ph_name p; if n = path then Some (Some a) else byname_loop hs as path }"

definition pkg_handle_byname :: "string \<Rightarrow> pkg_state \<Rightarrow> ptr option" where
  "pkg_handle_byname path s = byname_loop (pk_handles s) (pk_list s) path"

text \<open>The count is an \<open>int\<close>.\<close>
definition pkg_close :: "nat \<Rightarrow> pkg_state \<Rightarrow> pkg_state option" where
  "pkg_close pkg s =
     do { p \<leftarrow> pk_handles s pkg;
          Some (s\<lparr>pk_handles := (pk_handles s)(pkg \<mapsto> p\<lparr>ph_refcnt := int_of_long (ph_refcnt p - 1)\<rparr>)\<rparr>) }"

definition pkg_forget :: "string \<Rightarrow> int" where
  "pkg_forget path = 0"

definition pkg_archive_open :: "pkg_env \<Rightarrow> string \<Rightarrow> (arch_entry list \<times> bool) option" where
  "pkg_archive_open E path = pe_archive E path"

section \<open>Opening a package\<close>

definition entry_type :: "arch_entry \<Rightarrow> char" where
  "entry_type e =
     (case ae_strmode e of
        c # r \<Rightarrow> if c = CHR ''d'' then CHR ''d'' else if c = CHR ''l'' then CHR ''l'' else CHR ''f''
      | [] \<Rightarrow> CHR ''f'')"

definition add_entry :: "pkg_env \<Rightarrow> int \<Rightarrow> arch_entry \<Rightarrow> ptr \<Rightarrow> pkg_state \<Rightarrow> (int \<times> pkg_state) option" where
  "add_entry E pkgid e fe s =
     vfs_add_path (entry_type e) pkgid (ae_name e) (ae_uid e) (ae_gid e) (ae_owner e) (ae_group e) (ae_mode e)
       (ae_size e) (pe_time E) fe s"

text \<open>The loop over the entries; \<open>fes\<close> has a place for each, which is not looked at when the entry takes no element.\<close>
fun add_entries :: "pkg_env \<Rightarrow> int \<Rightarrow> arch_entry list \<Rightarrow> ptr list \<Rightarrow> pkg_state \<Rightarrow> pkg_state option" where
  "add_entries E pkgid [] fes s = Some s"
| "add_entries E pkgid (e # es) fes s =
     do { (rv, s1) \<leftarrow> add_entry E pkgid e (case fes of [] \<Rightarrow> None | fe # _ \<Rightarrow> fe) s; add_entries E pkgid es (tl fes) s1 }"

text \<open>\<open>mem\<close> is the element \<open>blockheap_alloc\<close> returns, with the contents \<open>junk\<close>.\<close>
definition pkg_import :: "pkg_env \<Rightarrow> nat \<Rightarrow> ptr list \<Rightarrow> pkg_handle \<Rightarrow> string \<Rightarrow> pkg_state \<Rightarrow> (ptr \<times> pkg_state) option" where
  "pkg_import E mem fes junk path s =
     do { s1 \<leftarrow> db_begin s;
          let (id, s2) = db_pkg_add E path s1;
              fd = pe_open E path;
              t = junk\<lparr>ph_name := Some path, ph_pkgid := id, ph_fd := fd\<rparr>;
              s3 = s2\<lparr>pk_handles := (pk_handles s2)(mem \<mapsto> t)\<rparr> in
          if fd < 0 then map_option (Pair None) (pkg_release mem s3)
          else if pe_locking E \<and> \<not> pe_flock E path then map_option (Pair None) (pkg_release mem s3)
          else let s4 = s3\<lparr>pk_list := pk_list s3 @ [mem]\<rparr> in
            (case pkg_archive_open E path of
               None \<Rightarrow> Some (None, s4)
             | Some (es, eof) \<Rightarrow>
                 do { s5 \<leftarrow> add_entries E id es fes s4;
                      s6 \<leftarrow> (if eof then Some s5 else db_rollback s5);
                      s7 \<leftarrow> db_commit s6;
                      Some (Some mem, s7) }) }"

definition pkg_touch :: "pkg_env \<Rightarrow> nat \<Rightarrow> pkg_state \<Rightarrow> (ptr \<times> pkg_state) option" where
  "pkg_touch E a s =
     do { p \<leftarrow> pk_handles s a;
          Some (Some a, s\<lparr>pk_handles := (pk_handles s)(a \<mapsto> p\<lparr>ph_otime := pe_time E, ph_refcnt := int_of_long (ph_refcnt p + 1)\<rparr>)\<rparr>) }"

definition pkg_open :: "pkg_env \<Rightarrow> nat \<Rightarrow> ptr list \<Rightarrow> pkg_handle \<Rightarrow> string \<Rightarrow> pkg_state \<Rightarrow> (ptr \<times> pkg_state) option" where
  "pkg_open E mem fes junk path s =
     do { r \<leftarrow> pkg_handle_byname path s;
          case r of
            Some a \<Rightarrow> pkg_touch E a s
          | None \<Rightarrow>
              do { (t, s1) \<leftarrow> pkg_import E mem fes junk path s;
                   case t of None \<Rightarrow> Some (None, s1) | Some a \<Rightarrow> pkg_touch E a s1 } }"

text \<open>
  \<open>pkg_extract_file\<close>: opens the package, reads through the archive and unlocks the database; the path of the
  extracted file it returns is always NULL.
\<close>
definition pkg_extract_file :: "pkg_env \<Rightarrow> nat \<Rightarrow> ptr list \<Rightarrow> pkg_handle \<Rightarrow> string \<Rightarrow> pkg_state \<Rightarrow> (string option \<times> pkg_state) option" where
  "pkg_extract_file E mem fes junk path s =
     do { (t, s1) \<leftarrow> pkg_open E mem fes junk path s;
          a \<leftarrow> t;
          p \<leftarrow> pk_handles s1 a;
          let (id, s2) = db_pkg_add E path s1 in
          do { ar \<leftarrow> pkg_archive_open E path;
               s3 \<leftarrow> db_commit (s2\<lparr>pk_handles := (pk_handles s2)(a \<mapsto> p\<lparr>ph_pkgid := id\<rparr>)\<rparr>);
               Some (None, s3) } }"

text \<open>\<open>fe->cache_path\<close> is an array, so it is never NULL and nothing is extracted.\<close>
definition vfs_unpack_tempfile :: "cache_entry option \<Rightarrow> int \<times> cache_entry option" where
  "vfs_unpack_tempfile fe =
     (case fe of None \<Rightarrow> (- 1, None) | Some e \<Rightarrow> (0, Some (e\<lparr>ce_refcnt := ce_refcnt e + 1\<rparr>)))"

section \<open>Garbage collection\<close>

definition expired :: "int \<Rightarrow> int \<Rightarrow> pkg_handle \<Rightarrow> bool" where
  "expired time lifetime p \<longleftrightarrow> ph_refcnt p = 0 \<and> ph_otime p + lifetime < time"

definition gc_one :: "int \<Rightarrow> int \<Rightarrow> nat \<Rightarrow> pkg_state \<Rightarrow> pkg_state option" where
  "gc_one time lifetime a s =
     do { p \<leftarrow> pk_handles s a; if expired time lifetime p then pkg_release a s else Some s }"

text \<open>The two heaps are then garbage collected, which moves no handle.\<close>
definition pkg_gc :: "int \<Rightarrow> int \<Rightarrow> pkg_state \<Rightarrow> pkg_state option" where
  "pkg_gc time lifetime s = fold_opt (gc_one time lifetime) (pk_list s) s"

section \<open>Mapped files\<close>

record file_mapping =
  fm_pkg :: "string option"
  fm_len :: nat
  fm_offset :: int
  fm_fd :: int
  fm_addr :: "ptr option"

datatype unmap_step = Munmap nat nat | FreeName string | CloseFd int | FreeMapping

text \<open>\<open>Some None\<close> as an address is MAP_FAILED, \<open>None\<close> is NULL.\<close>
definition pkg_unmap_file :: "file_mapping \<Rightarrow> unmap_step list" where
  "pkg_unmap_file p =
     (case fm_addr p of Some (Some a) \<Rightarrow> [Munmap a (fm_len p)] | _ \<Rightarrow> []) @
     (case fm_pkg p of Some n \<Rightarrow> [FreeName n] | None \<Rightarrow> []) @
     (if 0 < fm_fd p then [CloseFd (fm_fd p)] else []) @ [FreeMapping]"

text \<open>The mapping returned (NULL when the file cannot be opened) and what was undone.\<close>
definition pkg_map_file ::
    "(string \<Rightarrow> int) \<Rightarrow> (int \<Rightarrow> ptr) \<Rightarrow> ptr option \<Rightarrow> string \<Rightarrow> nat \<Rightarrow> int \<Rightarrow> file_mapping option \<times> unmap_step list" where
  "pkg_map_file openf mmapf junk path len offset =
     (let fd = openf path;
          p = \<lparr>fm_pkg = Some path, fm_len = len, fm_offset = offset, fm_fd = fd, fm_addr = junk\<rparr> in
      if fd = - 1 then (None, pkg_unmap_file p)
      else case mmapf fd of
             Some a \<Rightarrow> (Some (p\<lparr>fm_addr := Some (Some a)\<rparr>), [])
           | None \<Rightarrow> (Some (p\<lparr>fm_addr := Some None\<rparr>), pkg_unmap_file (p\<lparr>fm_addr := Some None\<rparr>)))"

end
