(* ===== verification/PkgOps.thy ===== *)
theory PkgOps
  imports Pkg
begin

text \<open>
  The open packages as a map from names to handles: opening, closing and garbage collection refine operations on it.
  An opened package enters its archive's entries into the file cache; a failed one keeps the lock.
\<close>

section \<open>The map of open packages\<close>

definition handle_at :: "pkg_state \<Rightarrow> nat \<Rightarrow> pkg_handle" where
  "handle_at s a = the (pk_handles s a)"

definition name_at :: "pkg_state \<Rightarrow> nat \<Rightarrow> string" where
  "name_at s a = the (ph_name (handle_at s a))"

definition pkg_inv :: "pkg_state \<Rightarrow> bool" where
  "pkg_inv s \<longleftrightarrow> distinct (pk_list s) \<and> distinct (map (name_at s) (pk_list s)) \<and>
     (\<forall>a \<in> set (pk_list s). \<exists>p n. pk_handles s a = Some p \<and> ph_name p = Some n)"

definition pkg_view :: "pkg_state \<Rightarrow> string \<rightharpoonup> pkg_handle" where
  "pkg_view s = map_of (map (\<lambda>a. (name_at s a, handle_at s a)) (pk_list s))"

text \<open>The listed handle \<open>p\<close> at \<open>a\<close> has the name \<open>n\<close>.\<close>
definition owns :: "pkg_state \<Rightarrow> string \<Rightarrow> nat \<Rightarrow> pkg_handle \<Rightarrow> bool" where
  "owns s n a p \<longleftrightarrow> a \<in> set (pk_list s) \<and> pk_handles s a = Some p \<and> ph_name p = Some n"

lemma pkg_inv_at: "pkg_inv s \<Longrightarrow> a \<in> set (pk_list s) \<Longrightarrow> owns s (name_at s a) a (handle_at s a)"
  by (force simp: pkg_inv_def owns_def name_at_def handle_at_def)

lemma owns_at: "owns s n a p \<Longrightarrow> n = name_at s a \<and> p = handle_at s a"
  by (simp add: owns_def name_at_def handle_at_def)

lemma owns_unique: "pkg_inv s \<Longrightarrow> owns s n a p \<Longrightarrow> owns s n b q \<Longrightarrow> a = b \<and> p = q"
proof -
  assume i: "pkg_inv s" and a: "owns s n a p" and b: "owns s n b q"
  have "inj_on (name_at s) (set (pk_list s))" using i by (simp add: pkg_inv_def distinct_map)
  moreover have "name_at s a = name_at s b" using owns_at [OF a] owns_at [OF b] by simp
  ultimately have "a = b" using a b by (auto simp: owns_def dest: inj_onD)
  then show ?thesis using a b by (simp add: owns_def)
qed

lemma owns_name: "owns s n a p \<Longrightarrow> owns s m a q \<Longrightarrow> n = m \<and> p = q"
  by (simp add: owns_def)

lemma pkg_view_eq:
  assumes "pkg_inv s"
  shows "pkg_view s n = Some p \<longleftrightarrow> (\<exists>a. owns s n a p)"
proof -
  have "distinct (map fst (map (\<lambda>a. (name_at s a, handle_at s a)) (pk_list s)))"
    using assms by (simp add: pkg_inv_def comp_def)
  then have "pkg_view s n = Some p \<longleftrightarrow> (n, p) \<in> (\<lambda>a. (name_at s a, handle_at s a)) ` set (pk_list s)"
    unfolding pkg_view_def by (subst map_of_eq_Some_iff) simp_all
  moreover have "(n, p) \<in> (\<lambda>a. (name_at s a, handle_at s a)) ` set (pk_list s) \<Longrightarrow> \<exists>a. owns s n a p"
    using pkg_inv_at [OF assms] by blast
  moreover have "owns s n a p \<Longrightarrow> (n, p) \<in> (\<lambda>a. (name_at s a, handle_at s a)) ` set (pk_list s)" for a
    using owns_at [of s n a p] by (intro image_eqI [of _ _ a]) (simp_all add: owns_def)
  ultimately show ?thesis by blast
qed

lemma pkg_view_None: "pkg_inv s \<Longrightarrow> pkg_view s n = None \<longleftrightarrow> (\<forall>a p. \<not> owns s n a p)"
  using pkg_view_eq [of s n] by (metis not_Some_eq)

lemma pkg_view_eqI:
  "pkg_inv s \<Longrightarrow> (\<And>n p. v n = Some p \<longleftrightarrow> (\<exists>a. owns s n a p)) \<Longrightarrow> pkg_view s = v"
  using pkg_view_eq by (intro ext) (metis not_Some_eq)

section \<open>Finding a handle\<close>

lemma byname_loop_spec:
  assumes "\<forall>a \<in> set as. \<exists>p n. hs a = Some p \<and> ph_name p = Some n"
  shows "\<exists>r. byname_loop hs as path = Some r \<and>
    (case r of None \<Rightarrow> \<forall>a \<in> set as. \<forall>p. hs a = Some p \<longrightarrow> ph_name p \<noteq> Some path
     | Some a \<Rightarrow> a \<in> set as \<and> (\<exists>p. hs a = Some p \<and> ph_name p = Some path))"
  using assms
proof (induction as)
  case (Cons b as)
  then obtain p n where b: "hs b = Some p" "ph_name p = Some n" by auto
  show ?case
  proof (cases "n = path")
    case False
    from Cons.IH Cons.prems obtain r where "byname_loop hs as path = Some r"
      "case r of None \<Rightarrow> \<forall>a \<in> set as. \<forall>p. hs a = Some p \<longrightarrow> ph_name p \<noteq> Some path
       | Some a \<Rightarrow> a \<in> set as \<and> (\<exists>p. hs a = Some p \<and> ph_name p = Some path)" by auto
    then show ?thesis using b False by (cases r) auto
  qed (use b in simp)
qed simp

lemma byname_spec:
  assumes "pkg_inv s"
  shows "\<exists>r. pkg_handle_byname path s = Some r \<and>
    (case r of None \<Rightarrow> pkg_view s path = None
     | Some a \<Rightarrow> a \<in> set (pk_list s) \<and> pkg_view s path = pk_handles s a \<and> (\<exists>p. pk_handles s a = Some p \<and> ph_name p = Some path))"
proof -
  obtain r where r: "pkg_handle_byname path s = Some r"
    "case r of None \<Rightarrow> \<forall>a \<in> set (pk_list s). \<forall>p. pk_handles s a = Some p \<longrightarrow> ph_name p \<noteq> Some path
     | Some a \<Rightarrow> a \<in> set (pk_list s) \<and> (\<exists>p. pk_handles s a = Some p \<and> ph_name p = Some path)"
    using byname_loop_spec [of "pk_list s" "pk_handles s" path] assms unfolding pkg_handle_byname_def pkg_inv_def by blast
  show ?thesis
  proof (cases r)
    case None
    then show ?thesis using r pkg_view_None [OF assms, of path] by (auto simp: owns_def)
  next
    case (Some a)
    then obtain p where "a \<in> set (pk_list s)" "pk_handles s a = Some p" "ph_name p = Some path" using r by auto
    moreover have "pkg_view s path = Some p" using pkg_view_eq [OF assms] calculation by (auto simp: owns_def)
    ultimately show ?thesis using r Some by auto
  qed
qed

section \<open>Touching and releasing\<close>

lemma view_cong:
  "pk_list s' = pk_list s \<Longrightarrow> (\<And>a. a \<in> set (pk_list s) \<Longrightarrow> pk_handles s' a = pk_handles s a) \<Longrightarrow>
     pkg_inv s' = pkg_inv s \<and> pkg_view s' = pkg_view s"
  unfolding pkg_inv_def pkg_view_def name_at_def handle_at_def by (auto cong: map_cong simp: map_eq_conv)

lemma touch_ok:
  assumes inv: "pkg_inv s" and o: "owns s path a p"
    and p': "p' = p\<lparr>ph_otime := pe_time E, ph_refcnt := int_of_long (ph_refcnt p + 1)\<rparr>"
  shows "\<exists>s'. pkg_touch E a s = Some (Some a, s') \<and> pkg_inv s' \<and> pkg_view s' = (pkg_view s)(path \<mapsto> p') \<and>
    pk_locked s' = pk_locked s \<and> pk_cache s' = pk_cache s \<and> pk_list s' = pk_list s"
proof -
  let ?s = "s\<lparr>pk_handles := (pk_handles s)(a \<mapsto> p')\<rparr>"
  have n: "name_at ?s = name_at s" using o by (auto simp: fun_eq_iff name_at_def handle_at_def p' owns_def)
  have i: "pkg_inv ?s" using inv o unfolding pkg_inv_def n by (auto simp: p' owns_def)
  have ow: "owns ?s m b q \<longleftrightarrow> (if b = a then m = path \<and> q = p' else owns s m b q)" for m b q
    using o by (auto simp: owns_def p')
  have "pkg_view ?s = (pkg_view s)(path \<mapsto> p')"
  proof (rule pkg_view_eqI [OF i])
    fix m q
    show "((pkg_view s)(path \<mapsto> p')) m = Some q \<longleftrightarrow> (\<exists>b. owns ?s m b q)"
    proof (cases "m = path")
      case True
      have "owns ?s path a p'" by (simp add: ow)
      then show ?thesis using True owns_unique [OF i, of path a p'] by (simp, blast)
    next
      case False
      then have "owns ?s m b q = owns s m b q" for b using ow [of m b q] owns_name [OF o, of m q] by (cases "b = a") auto
      then show ?thesis using False pkg_view_eq [OF inv, of m q] by simp
    qed
  qed
  then show ?thesis using i o by (simp add: pkg_touch_def p' owns_def)
qed

lemma release_listed:
  assumes inv: "pkg_inv s" and o: "owns s n a p"
  shows "\<exists>s'. pkg_release a s = Some s' \<and> pkg_inv s' \<and> pkg_view s' = (pkg_view s)(n := None) \<and>
    pk_list s' = remove1 a (pk_list s) \<and> pk_cache s' = pk_cache s \<and> pk_locked s' = pk_locked s \<and>
    (\<forall>m b q. owns s' m b q \<longleftrightarrow> b \<noteq> a \<and> owns s m b q)"
proof -
  let ?s = "s\<lparr>pk_list := remove1 a (pk_list s), pk_handles := (pk_handles s)(a := None)\<rparr>"
  have r: "pkg_release a s = Some ?s" using o by (simp add: pkg_release_def pkg_findnode_def Let_def owns_def)
  have dl: "distinct (pk_list s)" using inv by (simp add: pkg_inv_def)
  have st: "set (remove1 a (pk_list s)) = set (pk_list s) - {a}" using dl by simp
  have nm: "name_at ?s b = name_at s b" if "b \<noteq> a" for b using that by (simp add: name_at_def handle_at_def)
  have ow: "owns ?s m b q \<longleftrightarrow> b \<noteq> a \<and> owns s m b q" for m b q
    using st by (auto simp: owns_def)
  have i: "pkg_inv ?s"
  proof -
    have "inj_on (name_at ?s) (set (pk_list s) - {a})"
      using inv nm by (auto simp: pkg_inv_def distinct_map inj_on_def)
    then show ?thesis using inv dl st by (auto simp: pkg_inv_def distinct_map)
  qed
  have "pkg_view ?s = (pkg_view s)(n := None)"
  proof (rule pkg_view_eqI [OF i])
    fix m q
    show "((pkg_view s)(n := None)) m = Some q \<longleftrightarrow> (\<exists>b. owns ?s m b q)"
    proof (cases "m = n")
      case True
      then show ?thesis using ow owns_unique [OF inv o] by (simp, blast)
    next
      case False
      then have "owns ?s m b q = owns s m b q" for b using ow [of m b q] owns_name [OF o, of m q] by (cases "b = a") auto
      then show ?thesis using False pkg_view_eq [OF inv, of m q] by simp
    qed
  qed
  then show ?thesis using r i ow by simp
qed

section \<open>Importing a package\<close>

definition cache_of :: "pkg_env \<Rightarrow> int \<Rightarrow> arch_entry \<Rightarrow> cache_entry" where
  "cache_of E pid e =
     \<lparr>ce_path = the (copy_opt 4096 (ae_name e)), ce_pkgid = pid, ce_size = ae_size e, ce_refcnt = 0, ce_type = ftype_of (entry_type e),
      ce_uid = ae_uid e, ce_gid = ae_gid e, ce_owner = the (copy_opt 32 (ae_owner e)), ce_group = the (copy_opt 32 (ae_group e)),
      ce_mode = ae_mode e, ce_ctime = pe_time E\<rparr>"

text \<open>The elements filled from an archive: one for each entry with a name.\<close>
definition archive_cache :: "pkg_env \<Rightarrow> int \<Rightarrow> arch_entry list \<Rightarrow> nat list \<Rightarrow> nat \<rightharpoonup> cache_entry" where
  "archive_cache E pid es as =
     map_of (map (\<lambda>(e, a). (a, cache_of E pid e)) (filter (\<lambda>(e, a). ae_name e \<noteq> None) (zip es as)))"

lemma add_entry_ok:
  assumes "1 \<le> pid" "readable e"
  shows "\<exists>rv. add_entry E pid e (Some a) s =
    Some (rv, s\<lparr>pk_cache := (if ae_name e = None then pk_cache s else (pk_cache s)(a \<mapsto> cache_of E pid e))\<rparr>)"
  using assms
  by (auto simp: add_entry_def vfs_add_path_def vfs_find_def readable_def cache_of_def copy_str_def copy_opt_def [of 4096] split: option.split)

lemma add_entries_ok:
  assumes "1 \<le> pid" "\<forall>e \<in> set es. readable e" "length as = length es" "distinct as"
  shows "add_entries E pid es (map Some as) s = Some (s\<lparr>pk_cache := pk_cache s ++ archive_cache E pid es as\<rparr>)"
  using assms(2-)
proof (induction es arbitrary: s as)
  case (Cons e es)
  then obtain a bs where as: "as = a # bs" by (cases as) auto
  obtain rv where "add_entry E pid e (Some a) s =
      Some (rv, s\<lparr>pk_cache := (if ae_name e = None then pk_cache s else (pk_cache s)(a \<mapsto> cache_of E pid e))\<rparr>)"
    using add_entry_ok [OF assms(1)] Cons.prems(1) by fastforce
  moreover have "archive_cache E pid es bs a = None"
    using Cons.prems(3) as by (auto simp: archive_cache_def map_of_eq_None_iff dest: set_zip_rightD)
  then have "(f :: nat \<rightharpoonup> cache_entry)(a \<mapsto> c) ++ archive_cache E pid es bs = f ++ (archive_cache E pid es bs)(a \<mapsto> c)" for f c
    by (auto simp: fun_eq_iff map_add_def split: option.split)
  ultimately show ?case
    using Cons.IH [of bs] Cons.prems as by (auto simp: archive_cache_def)
qed (simp add: archive_cache_def)

lemma add_listed:
  assumes inv: "pkg_inv s" and fresh: "mem \<notin> set (pk_list s)" and n: "pkg_view s path = None" and t: "ph_name t = Some path"
    and s': "pk_list s' = pk_list s @ [mem]" "pk_handles s' = (pk_handles s)(mem \<mapsto> t)"
  shows "pkg_inv s' \<and> owns s' path mem t \<and> pkg_view s' = (pkg_view s)(path \<mapsto> t)"
proof -
  have ow: "owns s' m b q \<longleftrightarrow> (if b = mem then m = path \<and> q = t else owns s m b q)" for m b q
    using fresh s' t by (auto simp: owns_def)
  have nm: "map (name_at s') (pk_list s) = map (name_at s) (pk_list s)" "name_at s' mem = path"
    using fresh s' t by (auto simp: name_at_def handle_at_def)
  have "path \<notin> set (map (name_at s) (pk_list s))"
    using n pkg_view_None [OF inv, of path] pkg_inv_at [OF inv] by auto
  then have "distinct (map (name_at s') (pk_list s'))" using inv nm by (simp add: s' pkg_inv_def del: map_eq_conv)
  then have i: "pkg_inv s'" using inv fresh s' t by (auto simp: pkg_inv_def)
  have "pkg_view s' = (pkg_view s)(path \<mapsto> t)"
  proof (rule pkg_view_eqI [OF i])
    fix m q
    have "\<not> owns s m mem q" using fresh by (simp add: owns_def)
    then show "((pkg_view s)(path \<mapsto> t)) m = Some q \<longleftrightarrow> (\<exists>b. owns s' m b q)"
      using ow [of m _ q] n pkg_view_None [OF inv, of path] pkg_view_eq [OF inv, of m q]
      by (cases "m = path") (simp, metis, simp, metis)
  qed
  then show ?thesis using i ow by simp
qed

lemma import_ok:
  assumes inv: "pkg_inv s" and "\<not> pk_locked s" "pk_handles s mem = None" "pkg_view s path = None"
    and E: "pe_stat E path = 0" "0 \<le> pe_open E path" "pe_locking E \<longrightarrow> pe_flock E path" "pe_archive E path = Some (es, True)"
    and g: "0 \<le> pk_gpkgid s" "pk_gpkgid s < 2 ^ 31 - 1"
    and el: "\<forall>e \<in> set es. readable e" "length as = length es" "distinct as"
  shows "\<exists>s'. pkg_import E mem (map Some as) junk path s = Some (Some mem, s') \<and> pkg_inv s' \<and> \<not> pk_locked s' \<and>
    (\<exists>t. ph_refcnt t = ph_refcnt junk \<and> ph_pkgid t = pk_gpkgid s + 1 \<and> owns s' path mem t \<and> pkg_view s' = (pkg_view s)(path \<mapsto> t)) \<and>
    pk_cache s' = pk_cache s ++ archive_cache E (pk_gpkgid s + 1) es as"
proof -
  have fresh: "mem \<notin> set (pk_list s)" using assms(3) inv by (force simp: pkg_inv_def)
  define t where "t = junk\<lparr>ph_name := Some path, ph_pkgid := pk_gpkgid s + 1, ph_fd := pe_open E path\<rparr>"
  let ?s = "s\<lparr>pk_locked := False, pk_gpkgid := pk_gpkgid s + 1, pk_handles := (pk_handles s)(mem \<mapsto> t), pk_list := pk_list s @ [mem],
    pk_cache := pk_cache s ++ archive_cache E (pk_gpkgid s + 1) es as\<rparr>"
  have "1 \<le> pk_gpkgid s + 1" using g by simp
  then have "pkg_import E mem (map Some as) junk path s = Some (Some mem, ?s)"
    using assms(2) E g int_of_long_id [of "pk_gpkgid s + 1"] add_entries_ok [OF _ el, of "pk_gpkgid s + 1"]
    by (simp add: pkg_import_def db_begin_def db_commit_def db_pkg_add_def pkg_archive_open_def t_def Let_def)
  moreover have "pkg_inv ?s \<and> owns ?s path mem t \<and> pkg_view ?s = (pkg_view s)(path \<mapsto> t)"
    by (rule add_listed [OF inv fresh assms(4)]) (simp_all add: t_def)
  moreover have "ph_refcnt t = ph_refcnt junk" "ph_pkgid t = pk_gpkgid s + 1" by (simp_all add: t_def)
  ultimately show ?thesis by (intro exI [of _ ?s]) (simp, blast)
qed

section \<open>Garbage collection\<close>

lemma gc_fold:
  assumes "pkg_inv s" "distinct xs" "set xs \<subseteq> set (pk_list s)"
  shows "\<exists>s'. fold_opt (gc_one time life) xs s = Some s' \<and> pkg_inv s' \<and> pk_cache s' = pk_cache s \<and> pk_locked s' = pk_locked s \<and>
    (\<forall>m b q. owns s' m b q \<longleftrightarrow> owns s m b q \<and> \<not> (b \<in> set xs \<and> expired time life q))"
  using assms
proof (induction xs arbitrary: s)
  case (Cons a xs)
  have o: "owns s (name_at s a) a (handle_at s a)" using pkg_inv_at [OF Cons.prems(1)] Cons.prems(3) by simp
  then have h: "pk_handles s a = Some (handle_at s a)" by (simp add: owns_def)
  show ?case
  proof (cases "expired time life (handle_at s a)")
    case True
    from release_listed [OF Cons.prems(1) o] obtain s1 where 1: "pkg_release a s = Some s1" "pkg_inv s1"
      "pk_list s1 = remove1 a (pk_list s)" "pk_cache s1 = pk_cache s" "pk_locked s1 = pk_locked s"
      and ow: "\<And>m b q. owns s1 m b q \<longleftrightarrow> b \<noteq> a \<and> owns s m b q" by blast
    have "distinct (pk_list s)" using Cons.prems(1) by (simp add: pkg_inv_def)
    then have "set xs \<subseteq> set (pk_list s1)" using Cons.prems(2,3) 1(3) by auto
    from Cons.IH [OF 1(2) _ this] Cons.prems(2) obtain s' where 2: "fold_opt (gc_one time life) xs s1 = Some s'" "pkg_inv s'"
      "pk_cache s' = pk_cache s1" "pk_locked s' = pk_locked s1"
      and ow2: "\<And>m b q. owns s' m b q \<longleftrightarrow> owns s1 m b q \<and> \<not> (b \<in> set xs \<and> expired time life q)" by auto
    have "owns s' m b q \<longleftrightarrow> owns s m b q \<and> \<not> (b \<in> set (a # xs) \<and> expired time life q)" for m b q
      using ow2 ow owns_name [OF o, of m q] True by (cases "b = a") auto
    moreover have "gc_one time life a s = Some s1" using 1 h True by (simp add: gc_one_def)
    ultimately show ?thesis using 1 2 by simp
  next
    case False
    from Cons.IH [OF Cons.prems(1)] Cons.prems(2,3) obtain s' where 2: "fold_opt (gc_one time life) xs s = Some s'" "pkg_inv s'"
      "pk_cache s' = pk_cache s" "pk_locked s' = pk_locked s"
      and ow2: "\<And>m b q. owns s' m b q \<longleftrightarrow> owns s m b q \<and> \<not> (b \<in> set xs \<and> expired time life q)" by auto
    have "owns s' m b q \<longleftrightarrow> owns s m b q \<and> \<not> (b \<in> set (a # xs) \<and> expired time life q)" for m b q
      using ow2 owns_name [OF o, of m q] False by (cases "b = a") auto
    moreover have "gc_one time life a s = Some s" using h False by (simp add: gc_one_def)
    ultimately show ?thesis using 2 by simp
  qed
qed simp

section \<open>Properties\<close>

text \<open>
  C23. Opening a package that can be opened. With the lock free and a valid archive, \<open>pkg_open\<close> returns a handle of the
  package's name. If the package was open already, its reference count, an \<open>int\<close> below its maximum, and its time are updated and nothing else
  changes; otherwise a handle with the next package id and one reference is added, and the elements taken from the heap of the
  file cache hold the archive's entries in order, each with its type. All other packages keep their handles, and the lock is free again.
  As \<open>vfs_add_path\<close> copies 4095 and 31 bytes from strings that may be shorter, this needs that the memory behind them can be read.
\<close>
theorem pkg_open_refines:
  assumes "pkg_inv s" "\<not> pk_locked s" "pk_handles s mem = None" "ph_refcnt junk = 0"
    "pe_stat E path = 0" "0 \<le> pe_open E path" "pe_locking E \<longrightarrow> pe_flock E path" "pe_archive E path = Some (es, True)"
    "0 \<le> pk_gpkgid s" "pk_gpkgid s < 2 ^ 31 - 1" "\<forall>e \<in> set es. readable e" "length as = length es" "distinct as"
    "\<forall>q. pkg_view s path = Some q \<longrightarrow> 0 \<le> ph_refcnt q \<and> ph_refcnt q < 2 ^ 31 - 1"
  shows "\<exists>a p s'. pkg_open E mem (map Some as) junk path s = Some (Some a, s') \<and> pkg_inv s' \<and> \<not> pk_locked s' \<and>
    pkg_view s' = (pkg_view s)(path \<mapsto> p) \<and> ph_otime p = pe_time E \<and>
    (case pkg_view s path of
       None \<Rightarrow> ph_refcnt p = 1 \<and> ph_pkgid p = pk_gpkgid s + 1 \<and>
         pk_cache s' = pk_cache s ++ archive_cache E (pk_gpkgid s + 1) es as
     | Some q \<Rightarrow> ph_refcnt p = ph_refcnt q + 1 \<and> ph_pkgid p = ph_pkgid q \<and> pk_cache s' = pk_cache s)"
proof -
  obtain r where r: "pkg_handle_byname path s = Some r"
    "case r of None \<Rightarrow> pkg_view s path = None
     | Some a \<Rightarrow> a \<in> set (pk_list s) \<and> pkg_view s path = pk_handles s a \<and> (\<exists>p. pk_handles s a = Some p \<and> ph_name p = Some path)"
    using byname_spec [OF assms(1)] by blast
  show ?thesis
  proof (cases r)
    case None
    then have v: "pkg_view s path = None" using r by simp
    from import_ok [OF assms(1-3) v assms(5-13), of junk] obtain s1 t where
      1: "pkg_import E mem (map Some as) junk path s = Some (Some mem, s1)" "pkg_inv s1" "\<not> pk_locked s1"
      "ph_refcnt t = 0" "ph_pkgid t = pk_gpkgid s + 1" "owns s1 path mem t" "pkg_view s1 = (pkg_view s)(path \<mapsto> t)"
      "pk_cache s1 = pk_cache s ++ archive_cache E (pk_gpkgid s + 1) es as" using assms(4) by auto
    from touch_ok [OF 1(2,6) refl, of E] obtain s2 where
      "pkg_touch E mem s1 = Some (Some mem, s2)" "pkg_inv s2" "pk_locked s2 = pk_locked s1" "pk_cache s2 = pk_cache s1"
      "pkg_view s2 = (pkg_view s1)(path \<mapsto> t\<lparr>ph_otime := pe_time E, ph_refcnt := int_of_long (ph_refcnt t + 1)\<rparr>)" by blast
    moreover have "int_of_long 1 = 1" using int_of_long_id [of 1] by simp
    ultimately show ?thesis using 1 r None v
      by (intro exI [of _ mem] exI [of _ "t\<lparr>ph_otime := pe_time E, ph_refcnt := int_of_long (ph_refcnt t + 1)\<rparr>"] exI [of _ s2])
        (simp add: pkg_open_def)
  next
    case (Some a)
    then obtain q where q: "owns s path a q" "pkg_view s path = Some q" using r by (auto simp: owns_def)
    from touch_ok [OF assms(1) q(1) refl, of E] obtain s2 where
      "pkg_touch E a s = Some (Some a, s2)" "pkg_inv s2" "pk_locked s2 = pk_locked s" "pk_cache s2 = pk_cache s"
      "pkg_view s2 = (pkg_view s)(path \<mapsto> q\<lparr>ph_otime := pe_time E, ph_refcnt := int_of_long (ph_refcnt q + 1)\<rparr>)" by blast
    moreover have "int_of_long (ph_refcnt q + 1) = ph_refcnt q + 1" using assms(14) q(2) by (intro int_of_long_id) auto
    ultimately show ?thesis using r(1) Some q(2) assms(2)
      by (intro exI [of _ a] exI [of _ "q\<lparr>ph_otime := pe_time E, ph_refcnt := int_of_long (ph_refcnt q + 1)\<rparr>"] exI [of _ s2])
        (simp add: pkg_open_def)
  qed
qed

definition pkg0 :: pkg_state where
  "pkg0 = \<lparr>pk_handles = Map.empty, pk_list = [], pk_locked = False, pk_gpkgid = 1, pk_cache = Map.empty\<rparr>"

definition junk0 :: pkg_handle where
  "junk0 = \<lparr>ph_pkgid = 0, ph_fd = 0, ph_refcnt = 0, ph_otime = 0, ph_name = None\<rparr>"

text \<open>A string with enough memory behind it.\<close>
definition padded :: "string \<Rightarrow> string" where
  "padded t = t @ replicate 4095 c_nul"

definition arch0 :: arch_entry where
  "arch0 = \<lparr>ae_name = Some (padded ''etc''), ae_owner = Some (padded ''root''), ae_group = Some (padded ''root''), ae_uid = 0, ae_gid = 0,
     ae_strmode = ''drwxr-xr-x'', ae_mode = 16877, ae_size = 0\<rparr>"

lemma copy_padded:
  assumes "c_nul \<notin> set t" "length t < n - 1" "n \<le> 4096"
  shows "copy_str n (padded t) = Some t"
proof -
  have "take (n - 1) (padded t) = t @ replicate (n - 1 - length t) c_nul" using assms by (simp add: padded_def)
  moreover have "takeWhile (\<lambda>c. c \<noteq> c_nul) (t @ replicate k c_nul) = t" for k
    using assms(1) by (induction t) (auto simp: takeWhile_replicate)
  ultimately show ?thesis using assms by (simp add: copy_str_def padded_def)
qed

lemma arch0_ok: "readable arch0" "copy_opt 4096 (ae_name arch0) = Some ''etc''"
proof -
  have "c_nul \<notin> set ''etc''" "c_nul \<notin> set ''root''" by (simp_all add: c_nul_def)
  then show "readable arch0" "copy_opt 4096 (ae_name arch0) = Some ''etc''"
    using copy_padded [of "''etc''" 4096] copy_padded [of "''root''" 32]
    by (simp_all add: readable_def arch0_def copy_opt_def padded_def)
qed

definition pkg_env0 :: "(arch_entry list \<times> bool) option \<Rightarrow> pkg_env" where
  "pkg_env0 ar = \<lparr>pe_stat = (\<lambda>_. 0), pe_open = (\<lambda>_. 5), pe_flock = (\<lambda>_. True), pe_locking = False, pe_archive = (\<lambda>_. ar), pe_time = 100\<rparr>"

lemma pkg0_ok: "pkg_inv pkg0" "\<not> pk_locked pkg0" "pk_handles pkg0 m = None" "pkg_view pkg0 n = None"
  "pk_gpkgid pkg0 = 1" "pk_cache pkg0 = Map.empty" "ph_refcnt junk0 = 0"
  by (simp_all add: pkg0_def pkg_inv_def pkg_view_def junk0_def)

theorem pkg_open_refines_witness:
  "\<exists>a p s'. pkg_open (pkg_env0 (Some ([arch0], True))) 64 [Some 160] junk0 ''a.tar'' pkg0 = Some (Some a, s') \<and>
     pkg_view s' = [''a.tar'' \<mapsto> p] \<and> ph_pkgid p = 2 \<and> ph_refcnt p = 1 \<and>
     map_option ce_path (pk_cache s' 160) = Some ''etc'' \<and> map_option ce_type (pk_cache s' 160) = Some PKG_FTYPE_DIR"
proof -
  let ?E = "pkg_env0 (Some ([arch0], True))"
  have E: "pe_stat ?E ''a.tar'' = 0" "0 \<le> pe_open ?E ''a.tar''" "pe_locking ?E \<longrightarrow> pe_flock ?E ''a.tar''"
    "pe_archive ?E ''a.tar'' = Some ([arch0], True)" by (simp_all add: pkg_env0_def)
  have g: "0 \<le> pk_gpkgid pkg0" "pk_gpkgid pkg0 < 2 ^ 31 - 1" by (simp_all add: pkg0_def)
  have el: "\<forall>e \<in> set [arch0]. readable e" "length [160] = length [arch0]" "distinct [160 :: nat]" using arch0_ok by simp_all
  have v: "\<forall>q. pkg_view pkg0 ''a.tar'' = Some q \<longrightarrow> 0 \<le> ph_refcnt q \<and> ph_refcnt q < 2 ^ 31 - 1" by (simp add: pkg0_ok)
  have "archive_cache ?E 2 [arch0] [160] = [160 \<mapsto> cache_of ?E 2 arch0]" "ce_path (cache_of ?E 2 arch0) = ''etc''"
    "ce_type (cache_of ?E 2 arch0) = PKG_FTYPE_DIR"
    using arch0_ok(2) by (simp_all add: archive_cache_def cache_of_def ftype_of_def entry_type_def) (simp_all add: arch0_def)
  moreover have "pkg_view pkg0 = Map.empty" using pkg0_ok(4) by blast
  ultimately show ?thesis
    using pkg_open_refines [OF pkg0_ok(1,2) pkg0_ok(3) [of 64] pkg0_ok(7) E g el v] by (auto simp: pkg0_ok)
qed

text \<open>
  C40. A package that cannot be opened blocks all later ones. When the file cannot be opened or locked, or the archive
  is not valid, \<open>pkg_open\<close> returns NULL with the transaction lock still held; from then on \<open>pkg_open\<close> of any
  package that has no handle yet waits for ever.
\<close>
theorem pkg_open_keeps_lock:
  assumes "pkg_inv s" "\<not> pk_locked s" "pk_handles s mem = None" "pkg_view s path = None"
    "pe_open E path < 0 \<or> (pe_locking E \<and> \<not> pe_flock E path) \<or> pe_archive E path = None"
  shows "\<exists>s'. pkg_open E mem fes junk path s = Some (None, s') \<and> pk_locked s' \<and> pkg_inv s' \<and>
    (\<forall>E' mem' fes' junk' path'. pkg_view s' path' = None \<longrightarrow> pkg_open E' mem' fes' junk' path' s' = None)"
proof -
  have fresh: "mem \<notin> set (pk_list s)" using assms(1,3) by (force simp: pkg_inv_def)
  have b: "pkg_handle_byname path s = Some None"
    using byname_spec [OF assms(1), of path] assms(4) by (auto split: option.splits)
  obtain s' where s': "pkg_import E mem fes junk path s = Some (None, s')" "pk_locked s'" "pkg_inv s'"
  proof -
    define t where "t = junk\<lparr>ph_name := Some path, ph_pkgid := fst (db_pkg_add E path s), ph_fd := pe_open E path\<rparr>"
    define s2 where "s2 = snd (db_pkg_add E path (s\<lparr>pk_locked := True\<rparr>))"
    have s2: "pk_locked s2" "pk_list s2 = pk_list s" "pk_handles s2 = pk_handles s"
      and id: "db_pkg_add E path (s\<lparr>pk_locked := True\<rparr>) = (fst (db_pkg_add E path s), s2)"
      by (simp_all add: s2_def db_pkg_add_def Let_def)
    let ?s3 = "s2\<lparr>pk_handles := (pk_handles s2)(mem \<mapsto> t)\<rparr>"
    have nl: "pkg_inv s1 = pkg_inv s" if "pk_list s1 = pk_list s" "\<And>a. a \<noteq> mem \<Longrightarrow> pk_handles s1 a = pk_handles s a" for s1
      using view_cong [of s1 s] that fresh by metis
    show ?thesis
    proof (cases "pe_open E path < 0 \<or> (pe_locking E \<and> \<not> pe_flock E path)")
      case True
      then have "pkg_import E mem fes junk path s = map_option (Pair None) (pkg_release mem ?s3)"
        using assms(2) id by (auto simp: pkg_import_def db_begin_def t_def Let_def)
      moreover obtain s4 where "pkg_release mem ?s3 = Some s4" "pk_locked s4" "pk_list s4 = pk_list s"
        "\<And>a. a \<noteq> mem \<Longrightarrow> pk_handles s4 a = pk_handles s a"
        using fresh s2 by (auto simp: pkg_release_def pkg_findnode_def Let_def)
      ultimately show ?thesis using that nl [of s4] assms(1) by simp
    next
      case False
      let ?s4 = "?s3\<lparr>pk_list := pk_list s @ [mem]\<rparr>"
      have "pkg_import E mem fes junk path s = Some (None, ?s4)"
        using False assms(2,5) id s2 by (auto simp: pkg_import_def db_begin_def pkg_archive_open_def t_def Let_def)
      moreover have "pkg_inv ?s4"
        using add_listed [OF assms(1) fresh assms(4), of t ?s4] s2 by (simp add: t_def)
      ultimately show ?thesis using that s2 by simp
    qed
  qed
  have "pkg_open E' mem' fes' junk' path' s' = None" if "pkg_view s' path' = None" for E' mem' fes' junk' path'
    using byname_spec [OF s'(3), of path'] that s'(2)
    by (auto simp: pkg_open_def pkg_import_def db_begin_def split: option.splits)
  then show ?thesis using s' b by (simp add: pkg_open_def)
qed

theorem pkg_open_keeps_lock_witness:
  "\<exists>s'. pkg_open (pkg_env0 None) 64 [] junk0 ''bad.tar'' pkg0 = Some (None, s') \<and>
     pkg_view s' ''good.tar'' = None \<and> pkg_open (pkg_env0 (Some ([], True))) 96 [] junk0 ''good.tar'' s' = None"
proof -
  have "pe_archive (pkg_env0 None) ''bad.tar'' = None" by (simp add: pkg_env0_def)
  from pkg_open_keeps_lock [OF pkg0_ok(1,2) pkg0_ok(3) pkg0_ok(4), of "pkg_env0 None" "''bad.tar''" 64 "[]" junk0] this
  obtain s' where s': "pkg_open (pkg_env0 None) 64 [] junk0 ''bad.tar'' pkg0 = Some (None, s')"
    "\<forall>E' mem' fes' junk' path'. pkg_view s' path' = None \<longrightarrow> pkg_open E' mem' fes' junk' path' s' = None" by blast
  have "map_option (\<lambda>(r, s). pkg_view s ''good.tar'' = None) (pkg_open (pkg_env0 None) 64 [] junk0 ''bad.tar'' pkg0) = Some True"
    by code_simp
  then have "pkg_view s' ''good.tar'' = None" using s'(1) by simp
  then show ?thesis using s' by blast
qed

lemma pkg_gc_ok:
  assumes "pkg_inv s"
  shows "\<exists>s'. pkg_gc time life s = Some s' \<and> pkg_inv s' \<and> pk_cache s' = pk_cache s \<and> pk_locked s' = pk_locked s \<and>
    set (pk_list s') \<subseteq> set (pk_list s) \<and> pkg_view s' = (\<lambda>n. case pkg_view s n of None \<Rightarrow> None | Some p \<Rightarrow> if expired time life p then None else Some p)"
proof -
  have d: "distinct (pk_list s)" using assms by (simp add: pkg_inv_def)
  from gc_fold [OF assms d, of time life] obtain s' where s': "pkg_gc time life s = Some s'" "pkg_inv s'" "pk_cache s' = pk_cache s"
    "pk_locked s' = pk_locked s" and ow: "\<And>m b q. owns s' m b q \<longleftrightarrow> owns s m b q \<and> \<not> (b \<in> set (pk_list s) \<and> expired time life q)"
    unfolding pkg_gc_def by blast
  have ow': "owns s' m b q \<longleftrightarrow> owns s m b q \<and> \<not> expired time life q" for m b q
    using ow [of m b q] by (auto simp: owns_def)
  have "pkg_view s' = (\<lambda>n. case pkg_view s n of None \<Rightarrow> None | Some p \<Rightarrow> if expired time life p then None else Some p)"
  proof (rule pkg_view_eqI [OF s'(2)])
    fix n p
    show "((case pkg_view s n of None \<Rightarrow> None | Some p \<Rightarrow> if expired time life p then None else Some p) = Some p) \<longleftrightarrow>
        (\<exists>a. owns s' n a p)"
    proof (cases "pkg_view s n")
      case None
      then show ?thesis using pkg_view_eq [OF assms, of n] by (simp add: ow')
    next
      case (Some q)
      then have "\<exists>a. owns s n a q" and "\<And>a p. owns s n a p \<Longrightarrow> p = q"
        using pkg_view_eq [OF assms, of n] by (blast, metis option.inject)
      then show ?thesis using Some by (auto simp: ow')
    qed
  qed
  moreover have "b \<in> set (pk_list s)" if "b \<in> set (pk_list s')" for b
    using pkg_inv_at [OF s'(2) that] ow' by (auto simp: owns_def)
  ultimately show ?thesis using s' by blast
qed

text \<open>
  C26. \<open>pkg_gc\<close> releases exactly the packages without references whose last use is longer ago than the lifetime; all
  others keep their handles, and the file cache is untouched.
\<close>
theorem pkg_gc_expires:
  assumes "pkg_inv s"
  shows "\<exists>s'. pkg_gc time life s = Some s' \<and> pkg_inv s' \<and> pk_cache s' = pk_cache s \<and> pk_locked s' = pk_locked s \<and>
    pkg_view s' = (\<lambda>n. case pkg_view s n of None \<Rightarrow> None | Some p \<Rightarrow> if ph_refcnt p = 0 \<and> ph_otime p + life < time then None else Some p)"
  using pkg_gc_ok [OF assms, of time life] unfolding expired_def by blast

text \<open>Two packages, the first without references.\<close>
definition pkg1 :: pkg_state where
  "pkg1 = \<lparr>pk_handles = [64 \<mapsto> \<lparr>ph_pkgid = 2, ph_fd = 5, ph_refcnt = 0, ph_otime = 100, ph_name = Some ''a.tar''\<rparr>,
       96 \<mapsto> \<lparr>ph_pkgid = 3, ph_fd = 6, ph_refcnt = 1, ph_otime = 100, ph_name = Some ''b.tar''\<rparr>],
     pk_list = [64, 96], pk_locked = False, pk_gpkgid = 3, pk_cache = Map.empty\<rparr>"

lemma pkg1_ok: "pkg_inv pkg1" "pkg_view pkg1 ''a.tar'' = pk_handles pkg1 64" "pkg_view pkg1 ''b.tar'' = pk_handles pkg1 96"
  by (auto simp: pkg1_def pkg_inv_def pkg_view_def name_at_def handle_at_def)

theorem pkg_gc_expires_witness:
  "pkg_inv pkg1 \<and> pkg_view pkg1 ''a.tar'' \<noteq> None \<and>
   (\<exists>s'. pkg_gc 200 60 pkg1 = Some s' \<and> pkg_view s' ''a.tar'' = None \<and> pkg_view s' ''b.tar'' = pk_handles pkg1 96) \<and>
   (\<exists>s'. pkg_gc 160 60 pkg1 = Some s' \<and> pkg_view s' ''a.tar'' = pk_handles pkg1 64)"
proof -
  have h: "pk_handles pkg1 64 = Some \<lparr>ph_pkgid = 2, ph_fd = 5, ph_refcnt = 0, ph_otime = 100, ph_name = Some ''a.tar''\<rparr>"
    "pk_handles pkg1 96 = Some \<lparr>ph_pkgid = 3, ph_fd = 6, ph_refcnt = 1, ph_otime = 100, ph_name = Some ''b.tar''\<rparr>"
    by (simp_all add: pkg1_def)
  show ?thesis
    using pkg_gc_expires [OF pkg1_ok(1), of 200 60] pkg_gc_expires [OF pkg1_ok(1), of 160 60] pkg1_ok h by auto
qed

end
