(* ===== verification/Vfs.thy ===== *)
theory Vfs
  imports PkgOps BallocOps Conf
begin

text \<open>
  The virtual file system of src/vfs.c and src/vfs.h: the FUSE request handlers with the replies they send, the walk over the
  package directories, and the inotify watches. libfuse, the directory tree and the kernel's inotify answers are
  arguments. The file cache and the packages are those of Pkg. Log messages are left out. \<open>None\<close> as a
  result: a loop that does not end, or a NULL pointer is used.
\<close>

section \<open>Request handlers\<close>

definition ENOENT :: int where "ENOENT = 2"
definition EBADF :: int where "EBADF = 9"
definition EROFS :: int where "EROFS = 30"
definition ENOSYS :: int where "ENOSYS = 38"
definition ENOTSUP :: int where "ENOTSUP = 95"
definition O_CREAT :: u32 where "O_CREAT = 64"

datatype reply = ReplyErr int | ReplyAttr | ReplyOpen

text \<open>Write-type operations.\<close>
definition vfs_op_setattr :: "reply list" where "vfs_op_setattr = [ReplyErr EROFS]"
definition vfs_op_mknod :: "reply list" where "vfs_op_mknod = [ReplyErr EROFS]"
definition vfs_op_mkdir :: "reply list" where "vfs_op_mkdir = [ReplyErr EROFS]"
definition vfs_op_symlink :: "reply list" where "vfs_op_symlink = [ReplyErr EROFS]"
definition vfs_op_unlink :: "reply list" where "vfs_op_unlink = [ReplyErr EROFS]"
definition vfs_op_rmdir :: "reply list" where "vfs_op_rmdir = [ReplyErr EROFS]"
definition vfs_op_rename :: "reply list" where "vfs_op_rename = [ReplyErr EROFS]"
definition vfs_op_link :: "reply list" where "vfs_op_link = [ReplyErr EROFS]"
definition vfs_op_write :: "reply list" where "vfs_op_write = [ReplyErr EROFS]"
definition vfs_op_setxattr :: "reply list" where "vfs_op_setxattr = [ReplyErr ENOTSUP]"
definition vfs_op_removexattr :: "reply list" where "vfs_op_removexattr = [ReplyErr ENOTSUP]"
definition vfs_op_create :: "reply list" where "vfs_op_create = [ReplyErr EROFS]"

text \<open>The query is commented out: \<open>st_ino\<close> is what the stack holds.\<close>
definition vfs_op_getattr :: "int \<Rightarrow> reply list" where
  "vfs_op_getattr st_ino = (if st_ino \<noteq> 0 then [ReplyAttr] else [ReplyErr ENOENT])"

definition vfs_op_access :: "reply list" where "vfs_op_access = [ReplyErr 0]"
definition vfs_op_readlink :: "reply list" where "vfs_op_readlink = [ReplyErr ENOSYS]"
definition vfs_op_opendir :: "reply list" where "vfs_op_opendir = [ReplyErr ENOENT]"
definition vfs_op_readdir :: "reply list" where "vfs_op_readdir = [ReplyErr ENOENT]"
definition vfs_op_releasedir :: "reply list" where "vfs_op_releasedir = [ReplyErr ENOENT]"

text \<open>\<open>hh\<close> and \<open>hi\<close> are the heaps of handles and inodes; \<open>i\<close>, the inode found, is always NULL.\<close>
definition vfs_op_open :: "benv \<Rightarrow> ptr \<Rightarrow> ptr \<Rightarrow> u32 \<Rightarrow> bworld \<Rightarrow> (reply list \<times> ptr \<times> bworld) proc option" where
  "vfs_op_open e hh hi flags w =
     do { r \<leftarrow> blockheap_alloc e hh w;
          case r of
            Exits \<Rightarrow> Some Exits
          | Return (fh, w1) \<Rightarrow>
              (let i = (None :: ptr);
                   rs = (if i = None then (if flags AND O_CREAT = 0 then [ReplyErr ENOENT] else [ReplyErr EROFS]) else []) in
               do { r2 \<leftarrow> blockheap_free hi i w1;
                    case r2 of
                      Exits \<Rightarrow> Some Exits
                    | Return (rv, w2) \<Rightarrow> Some (Return (rs @ [ReplyOpen], fh, w2)) }) }"

definition vfs_op_release :: "reply list" where "vfs_op_release = [ReplyErr 0]"
definition vfs_op_read :: "reply list" where "vfs_op_read = [ReplyErr EBADF]"
definition vfs_op_statfs :: "reply list" where "vfs_op_statfs = [ReplyErr ENOSYS]"
definition vfs_op_getxattr :: "reply list" where "vfs_op_getxattr = [ReplyErr ENOTSUP]"
definition vfs_op_listxattr :: "reply list" where "vfs_op_listxattr = [ReplyErr ENOTSUP]"
definition vfs_op_lookup :: "reply list" where "vfs_op_lookup = [ReplyErr ENOENT]"

datatype request =
    Lookup | Readlink | Open u32 | Release | ReadFile | Getattr int | Access | Statfs | Opendir | Readdir | Releasedir
  | Create | Mknod | Mkdir | Symlink | UnlinkFile | Rmdir | Rename | Link

text \<open>The table of handlers given to libfuse.\<close>
definition vfs_fuse_ops :: "benv \<Rightarrow> ptr \<Rightarrow> ptr \<Rightarrow> request \<Rightarrow> bworld \<Rightarrow> (reply list \<times> ptr \<times> bworld) proc option" where
  "vfs_fuse_ops e hh hi req w =
     (let one = (\<lambda>rs. Some (Return (rs, None, w))) in
      case req of
        Lookup \<Rightarrow> one vfs_op_lookup | Readlink \<Rightarrow> one vfs_op_readlink | Open flags \<Rightarrow> vfs_op_open e hh hi flags w
      | Release \<Rightarrow> one vfs_op_release | ReadFile \<Rightarrow> one vfs_op_read | Getattr ino \<Rightarrow> one (vfs_op_getattr ino)
      | Access \<Rightarrow> one vfs_op_access | Statfs \<Rightarrow> one vfs_op_statfs | Opendir \<Rightarrow> one vfs_op_opendir
      | Readdir \<Rightarrow> one vfs_op_readdir | Releasedir \<Rightarrow> one vfs_op_releasedir | Create \<Rightarrow> one vfs_op_create
      | Mknod \<Rightarrow> one vfs_op_mknod | Mkdir \<Rightarrow> one vfs_op_mkdir | Symlink \<Rightarrow> one vfs_op_symlink
      | UnlinkFile \<Rightarrow> one vfs_op_unlink | Rmdir \<Rightarrow> one vfs_op_rmdir | Rename \<Rightarrow> one vfs_op_rename | Link \<Rightarrow> one vfs_op_link)"

section \<open>Walking the package directories\<close>

definition VFS_MAX_RECURSE :: nat where "VFS_MAX_RECURSE = 16"

text \<open>The names in a directory (\<open>None\<close>: \<open>opendir\<close> fails), and which paths are directories.\<close>
record dir_env =
  fs_opendir :: "string \<Rightarrow> string list option"
  fs_is_dir :: "string \<Rightarrow> bool"

datatype walk_event = OpendirFailed string | MaxDepth string | PkgOpen string | Closedir string

definition hidden :: "string \<Rightarrow> bool" where
  "hidden name \<longleftrightarrow> take 1 name = ''.''"

definition sub_path :: "string \<Rightarrow> string \<Rightarrow> string" where
  "sub_path path name = take 4094 (path @ ''/'' @ name)"

text \<open>
  \<open>vfs_dir_walk_recurse\<close>: \<open>walk_entries\<close> is its loop, with the names still to come. The counter \<open>depth\<close> goes up at every
  subdirectory. A name without a dot ends the function without \<open>closedir\<close>.
\<close>
function walk_dir :: "dir_env \<Rightarrow> string \<Rightarrow> nat \<Rightarrow> walk_event list"
  and walk_entries :: "dir_env \<Rightarrow> string \<Rightarrow> nat \<Rightarrow> string list \<Rightarrow> walk_event list" where
  "walk_dir F path depth =
     (case fs_opendir F path of None \<Rightarrow> [OpendirFailed path] | Some names \<Rightarrow> walk_entries F path depth names)"
| "walk_entries F path depth [] = [Closedir path]"
| "walk_entries F path depth (n # ns) =
     (if hidden n then walk_entries F path depth ns
      else let buf = sub_path path n in
        if fs_is_dir F buf
        then (if depth + 1 < VFS_MAX_RECURSE then walk_dir F buf (depth + 1) else [MaxDepth path]) @
             walk_entries F path (depth + 1) ns
        else if CHR ''.'' \<notin> set buf then []
        else PkgOpen buf # walk_entries F path depth ns)"
  by pat_completeness auto
termination
  by (relation "inv_image (less_than <*lex*> less_than)
      (\<lambda>x. case x of Inl (F, p, d) \<Rightarrow> (Suc VFS_MAX_RECURSE - d, Suc (length (case fs_opendir F p of None \<Rightarrow> [] | Some ns \<Rightarrow> ns)))
         | Inr (F, p, d, ns) \<Rightarrow> (Suc VFS_MAX_RECURSE - d, length ns))")
    (auto simp: less_diff_conv)

text \<open>
  \<open>vfs_dir_walk\<close>: the parts of \<open>path.pkg\<close>, each walked from depth 1. The default given for the path is not used by the
  dictionary; without the key NULL is copied from.
\<close>
definition vfs_dir_walk :: "dir_env \<Rightarrow> dict option \<Rightarrow> walk_event list option" where
  "vfs_dir_walk F conf =
     do { v \<leftarrow> dconf_get_str conf (Some ''path.pkg'') (Some ''/pkg'');
          p \<leftarrow> v;
          Some (concat (map (\<lambda>d. walk_dir F d 1) (strtok_all ('':'' @ [c_nl]) (take 4096 p)))) }"

section \<open>Watches\<close>

definition IN_CLOSE_WRITE :: u32 where "IN_CLOSE_WRITE = 0x8"
definition IN_MOVED_FROM :: u32 where "IN_MOVED_FROM = 0x40"
definition IN_MOVED_TO :: u32 where "IN_MOVED_TO = 0x80"
definition IN_DELETE :: u32 where "IN_DELETE = 0x200"
definition IN_DELETE_SELF :: u32 where "IN_DELETE_SELF = 0x400"

record vfs_watch =
  vw_mask :: u32
  vw_fd :: int
  vw_path :: string

text \<open>\<open>ie_pad\<close>: the byte that follows the event's header when it carries no name.\<close>
record inotify_event =
  ie_wd :: int
  ie_mask :: u32
  ie_len :: nat
  ie_name :: string
  ie_pad :: char

datatype watch_action = DoPkgOpen string | DoPkgForget string

text \<open>The watch list: the address of each watch in its heap, and what is there.\<close>
type_synonym watches = "(nat \<times> vfs_watch) list"

definition vfs_watch_findnode :: "nat \<Rightarrow> watches \<Rightarrow> (nat \<times> vfs_watch) option" where
  "vfs_watch_findnode watch ws = find (\<lambda>x. fst x = watch) ws"

definition vfs_watch_findnode_byfd :: "int \<Rightarrow> watches \<Rightarrow> (nat \<times> vfs_watch) option" where
  "vfs_watch_findnode_byfd fd ws = find (\<lambda>x. vw_fd (snd x) = fd) ws"

text \<open>\<open>addf\<close> answers \<open>inotify_add_watch\<close>; a failed watch goes back to its heap \<open>hp\<close>.\<close>
definition vfs_watch_add ::
    "benv \<Rightarrow> ptr \<Rightarrow> (string \<Rightarrow> u32 \<Rightarrow> int) \<Rightarrow> string \<Rightarrow> watches \<Rightarrow> bworld \<Rightarrow> (ptr \<times> watches \<times> bworld) proc option" where
  "vfs_watch_add e hp addf path ws w =
     do { r \<leftarrow> blockheap_alloc e hp w;
          case r of
            Exits \<Rightarrow> Some Exits
          | Return (None, w1) \<Rightarrow> None
          | Return (Some a, w1) \<Rightarrow>
              let mask = IN_CLOSE_WRITE OR IN_MOVED_TO OR IN_MOVED_FROM OR IN_DELETE OR IN_DELETE_SELF;
                  fd = addf path mask in
              if fd \<le> 0
              then do { r2 \<leftarrow> blockheap_free hp (Some a) w1;
                        case r2 of Exits \<Rightarrow> Some Exits | Return (rv, w2) \<Rightarrow> Some (Return (None, ws, w2)) }
              else Some (Return (Some a, ws @ [(a, \<lparr>vw_mask = mask, vw_fd = fd, vw_path = take 4096 path\<rparr>)], w1)) }"

text \<open>\<open>rm\<close> is the answer of \<open>inotify_rm_watch\<close>, whose two arguments are given in the wrong order.\<close>
definition vfs_watch_remove :: "ptr \<Rightarrow> int \<Rightarrow> nat \<Rightarrow> watches \<Rightarrow> bworld \<Rightarrow> (int \<times> watches \<times> bworld) proc option" where
  "vfs_watch_remove hp rm watch ws w =
     (case vfs_watch_findnode watch ws of
        None \<Rightarrow> Some (Return (rm, ws, w))
      | Some x \<Rightarrow>
          do { r \<leftarrow> blockheap_free hp (Some (fst x)) w;
               case r of Exits \<Rightarrow> Some Exits | Return (rv, w1) \<Rightarrow> Some (Return (rm, remove1 x ws, w1)) })"

definition first_byte :: "inotify_event \<Rightarrow> char" where
  "first_byte e = (if ie_len e = 0 then ie_pad e else case ie_name e of [] \<Rightarrow> c_nul | c # r \<Rightarrow> c)"

text \<open>The events of the buffer from offset \<open>i\<close> on; a name that starts with a dot goes back to the test of the loop.\<close>
partial_function (option) inotify_loop ::
    "ptr \<Rightarrow> int \<Rightarrow> inotify_event list \<Rightarrow> watches \<Rightarrow> bworld \<Rightarrow> watch_action list \<Rightarrow>
     (watches \<times> bworld \<times> watch_action list) proc option" where
  "inotify_loop hp rm evs ws w acts =
     (case evs of
        [] \<Rightarrow> Some (Return (ws, w, acts))
      | e # rest \<Rightarrow>
          if first_byte e = CHR ''.'' then inotify_loop hp rm evs ws w acts
          else (case vfs_watch_findnode_byfd (ie_wd e) ws of
                  None \<Rightarrow> Some (Return (ws, w, acts))
                | Some x \<Rightarrow>
                    if ie_len e = 0 then Some (Return (ws, w, acts))
                    else let path = sub_path (vw_path (snd x)) (ie_name e) in
                      if ie_mask e AND IN_CLOSE_WRITE \<noteq> 0 \<or> ie_mask e AND IN_MOVED_TO \<noteq> 0
                      then inotify_loop hp rm rest ws w (acts @ [DoPkgOpen path])
                      else if ie_mask e AND IN_DELETE \<noteq> 0 \<or> ie_mask e AND IN_MOVED_FROM \<noteq> 0
                      then inotify_loop hp rm rest ws w (acts @ [DoPkgForget path])
                      else if ie_mask e AND IN_DELETE_SELF \<noteq> 0
                      then (case vfs_watch_remove hp rm (fst x) ws w of
                              None \<Rightarrow> None
                            | Some r \<Rightarrow>
                                (case r of Exits \<Rightarrow> Some Exits
                                 | Return y \<Rightarrow> inotify_loop hp rm rest (fst (snd y)) (snd (snd y)) acts))
                      else inotify_loop hp rm rest ws w acts))"

declare inotify_loop.simps [code]

definition vfs_inotify_evt_get ::
    "ptr \<Rightarrow> int \<Rightarrow> inotify_event list \<Rightarrow> watches \<Rightarrow> bworld \<Rightarrow> (watches \<times> bworld \<times> watch_action list) proc option" where
  "vfs_inotify_evt_get hp rm evs ws w = inotify_loop hp rm evs ws w []"

fun add_watches ::
    "benv \<Rightarrow> ptr \<Rightarrow> (string \<Rightarrow> u32 \<Rightarrow> int) \<Rightarrow> string list \<Rightarrow> watches \<Rightarrow> bworld \<Rightarrow> (watches \<times> bworld) proc option" where
  "add_watches e hp addf [] ws w = Some (Return (ws, w))"
| "add_watches e hp addf (p # ps) ws w =
     (case vfs_watch_add e hp addf p ws w of
        None \<Rightarrow> None
      | Some Exits \<Rightarrow> Some Exits
      | Some (Return (a, ws1, w1)) \<Rightarrow> add_watches e hp addf ps ws1 w1)"

text \<open>The watches started: the list is split when it has no separator, and taken whole when it has one.\<close>
definition vfs_watch_init ::
    "benv \<Rightarrow> ptr \<Rightarrow> int \<Rightarrow> (string \<Rightarrow> u32 \<Rightarrow> int) \<Rightarrow> dict option \<Rightarrow> int \<Rightarrow> watches \<Rightarrow> bworld \<Rightarrow>
     (int \<times> int \<times> watches \<times> bworld) proc option" where
  "vfs_watch_init e hp initfd addf conf fd ws w =
     (if fd \<noteq> 0 then Some (Return (- 1, fd, ws, w))
      else if initfd = - 1 then Some (Return (- 2, initfd, ws, w))
      else do { v \<leftarrow> dconf_get_str conf (Some ''path.pkg'') (Some ''/pkg'');
                p \<leftarrow> v;
                let buf = take 4096 p;
                    ps = (if CHR '':'' \<notin> set buf then strtok_all ('':'' @ [c_nl]) buf else [buf]) in
                (case add_watches e hp addf ps ws w of
                   None \<Rightarrow> None
                 | Some Exits \<Rightarrow> Some Exits
                 | Some (Return (ws1, w1)) \<Rightarrow> Some (Return (0, initfd, ws1, w1))) })"

section \<open>Remaining operations\<close>

definition vfs_gc :: "ptr \<Rightarrow> ptr \<Rightarrow> ptr \<Rightarrow> ptr \<Rightarrow> bworld \<Rightarrow> (int \<times> bworld) option" where
  "vfs_gc hc hh hi hw w =
     do { (r1, w1) \<leftarrow> blockheap_garbagecollect hc w;
          (r2, w2) \<leftarrow> blockheap_garbagecollect hh w1;
          (r3, w3) \<leftarrow> blockheap_garbagecollect hi w2;
          (r4, w4) \<leftarrow> blockheap_garbagecollect hw w3;
          Some (0, w4) }"

record lookup_reply =
  lr_seq :: u32
  lr_status :: u32
  lr_pkgid :: int
  lr_fileid :: int

text \<open>The reply stays as \<open>mem_alloc\<close> cleared it.\<close>
definition vfs_resolve_path :: "ptr \<Rightarrow> string \<Rightarrow> lookup_reply option" where
  "vfs_resolve_path mem path =
     (case mem of None \<Rightarrow> None | Some a \<Rightarrow> Some \<lparr>lr_seq = 0, lr_status = 0, lr_pkgid = 0, lr_fileid = 0\<rparr>)"

end
