(* ===== verification/VfsOps.thy ===== *)
theory VfsOps
  imports Vfs
begin

text \<open>
  Properties of the virtual file system: what a session of FUSE requests is answered and what it leaves allocated, which
  part of a package directory is visited, and how a buffer of inotify events is processed.
\<close>

section \<open>Requests\<close>

text \<open>A session: the requests in order, with the replies to each.\<close>
fun serve :: "benv \<Rightarrow> ptr \<Rightarrow> ptr \<Rightarrow> request list \<Rightarrow> bworld \<Rightarrow> (reply list list \<times> bworld) option" where
  "serve e hh hi [] w = Some ([], w)"
| "serve e hh hi (r # rs) w =
     (case vfs_fuse_ops e hh hi r w of
        Some (Return (rp, fh, w1)) \<Rightarrow> map_option (\<lambda>(rps, w2). (rp # rps, w2)) (serve e hh hi rs w1)
      | _ \<Rightarrow> None)"

definition is_open :: "request \<Rightarrow> bool" where
  "is_open r \<longleftrightarrow> (case r of Open flags \<Rightarrow> True | _ \<Rightarrow> False)"

definition mutating :: "request \<Rightarrow> bool" where
  "mutating r \<longleftrightarrow> r \<in> {Create, Mknod, Mkdir, Symlink, UnlinkFile, Rmdir, Rename, Link}"

definition answered :: "request \<Rightarrow> reply list \<Rightarrow> bool" where
  "answered r rs \<longleftrightarrow>
     (case r of Open flags \<Rightarrow> rs = [ReplyErr (if flags AND O_CREAT = 0 then ENOENT else EROFS), ReplyOpen]
      | _ \<Rightarrow> length rs = 1 \<and> (mutating r \<longrightarrow> rs = [ReplyErr EROFS]))"

lemmas op_defs = vfs_op_lookup_def vfs_op_readlink_def vfs_op_release_def vfs_op_read_def vfs_op_getattr_def
  vfs_op_access_def vfs_op_statfs_def vfs_op_opendir_def vfs_op_readdir_def vfs_op_releasedir_def vfs_op_create_def
  vfs_op_mknod_def vfs_op_mkdir_def vfs_op_symlink_def vfs_op_unlink_def vfs_op_rmdir_def vfs_op_rename_def vfs_op_link_def

lemma request_other:
  assumes "\<not> is_open r"
  shows "\<exists>rs. vfs_fuse_ops e hh hi r w = Some (Return (rs, None, w)) \<and> answered r rs"
  using assms by (cases r) (simp_all add: vfs_fuse_ops_def is_open_def answered_def mutating_def op_defs)

lemma free_null [simp]: "blockheap_free hi None w = Some (Return (1, w))"
  by (cases hi) (simp_all add: blockheap_free_def)

lemma request_open:
  assumes "heap_inv e a w L" "vfs_fuse_ops e (Some a) hi (Open flags) w = Some (Return (rs, fh, w1))"
  shows "\<exists>p. fh = Some p \<and> p \<notin> L \<and> heap_inv e a w1 (insert p L) \<and> answered (Open flags) rs"
proof -
  from assms(2) have "blockheap_alloc e (Some a) w = Some (Return (fh, w1))" and rs: "answered (Open flags) rs"
    by (cases "blockheap_alloc e (Some a) w"; cases "the (blockheap_alloc e (Some a) w)",
        auto simp: vfs_fuse_ops_def vfs_op_open_def answered_def)+
  moreover from assms(1) obtain bs where bs: "balloc_env_ok e" "heap_rep w a bs"
    by (auto simp: heap_inv_def heap_live_def)
  ultimately obtain p where fh: "fh = Some p" and al: "heap_alloc e a w = Some (p, w1)"
    using blockheap_alloc_cases [OF bs] by (auto simp: heap_alloc_def)
  from bal.alloc_law [OF assms(1) al] fh rs show ?thesis by auto
qed

text \<open>
  C28. A session of FUSE requests that the handle heap can serve: every request that would change the file system is
  answered with EROFS and nothing else, every other request except open gets exactly one reply, and open always gets two, an error
  and then success. Every open takes a fresh element of the handle heap and no request, release included, gives one back.
\<close>
theorem fuse_session:
  assumes "heap_inv e a w L" "serve e (Some a) hi reqs w = Some (rps, w')"
  shows "list_all2 answered reqs rps \<and>
    (\<exists>ps. distinct ps \<and> set ps \<inter> L = {} \<and> length ps = length (filter is_open reqs) \<and> heap_inv e a w' (L \<union> set ps))"
  using assms
proof (induction reqs arbitrary: w L rps)
  case Nil
  then show ?case by (auto intro: exI [of _ "[]"])
next
  case (Cons r rs)
  from Cons.prems(2) obtain rp fh w1 rps1 where
    s: "vfs_fuse_ops e (Some a) hi r w = Some (Return (rp, fh, w1))" "serve e (Some a) hi rs w1 = Some (rps1, w')" "rps = rp # rps1"
    by (auto split: option.splits proc.splits)
  show ?case
  proof (cases "is_open r")
    case True
    then obtain flags where r: "r = Open flags" by (cases r) (auto simp: is_open_def)
    from request_open [OF Cons.prems(1)] s(1) r obtain p where
      p: "p \<notin> L" "heap_inv e a w1 (insert p L)" "answered r rp" by blast
    from Cons.IH [OF p(2) s(2)] obtain ps where
      ps: "list_all2 answered rs rps1" "distinct ps" "set ps \<inter> insert p L = {}" "length ps = length (filter is_open rs)"
        "heap_inv e a w' (insert p L \<union> set ps)" by blast
    have "L \<union> set (p # ps) = insert p L \<union> set ps" by auto
    with ps p True s(3) show ?thesis by (intro conjI exI [of _ "p # ps"]) auto
  next
    case False
    from request_other [OF False, of e "Some a" hi w] s(1) have "w1 = w" "answered r rp" by auto
    with Cons.IH [OF Cons.prems(1)] s(2,3) False show ?thesis by auto
  qed
qed

theorem fuse_session_witness:
  "\<exists>p rps w'. serve benv0 (Some 32) None [Mkdir, Open 0, Release] heap1 = Some (rps, w') \<and>
     list_all2 answered [Mkdir, Open 0, Release] rps \<and> heap_inv benv0 32 w' {p}"
proof -
  obtain bs where r: "heap_rep heap1 32 bs" "free_count bs = 2" "live bs = {}" using heap1_rep by fastforce
  then have "0 < free_count bs" "free_count bs < 2 ^ 64" by simp_all
  from heap1_step [OF r(1) this] obtain p w1 where al: "heap_alloc benv0 32 heap1 = Some (p, w1)" by blast
  have inv: "heap_inv benv0 32 heap1 {}" using r benv0_ok by (auto simp: heap_inv_def heap_live_def)
  have "blockheap_alloc benv0 (Some 32) heap1 = Some (Return (Some p, w1))"
    using al by (auto simp: heap_alloc_def split: option.splits proc.splits)
  then obtain rps where s: "serve benv0 (Some 32) None [Mkdir, Open 0, Release] heap1 = Some (rps, w1)"
    by (auto simp: vfs_fuse_ops_def vfs_op_open_def)
  from fuse_session [OF inv s] obtain ps where
    "list_all2 answered [Mkdir, Open 0, Release] rps" "length ps = 1" "heap_inv benv0 32 w1 (set ps)"
    by (auto simp: is_open_def)
  with s show ?thesis by (auto simp: length_Suc_conv)
qed

section \<open>Directories\<close>

definition pkgs_of :: "walk_event list \<Rightarrow> string list" where
  "pkgs_of evs = concat (map (\<lambda>ev. case ev of PkgOpen p \<Rightarrow> [p] | _ \<Rightarrow> []) evs)"

definition visited_of :: "walk_event list \<Rightarrow> string list" where
  "visited_of evs = concat (map (\<lambda>ev. case ev of Closedir p \<Rightarrow> [p] | _ \<Rightarrow> []) evs)"

definition shown :: "string \<Rightarrow> string list \<Rightarrow> string list" where
  "shown path names = map (sub_path path) (filter (\<lambda>n. \<not> hidden n) names)"

lemma of_append [simp]:
  "pkgs_of (a @ b) = pkgs_of a @ pkgs_of b" "visited_of (a @ b) = visited_of a @ visited_of b"
  by (simp_all add: pkgs_of_def visited_of_def)

lemma of_Cons [simp]:
  "pkgs_of (ev # evs) = (case ev of PkgOpen p \<Rightarrow> [p] | _ \<Rightarrow> []) @ pkgs_of evs" "pkgs_of [] = []"
  "visited_of (ev # evs) = (case ev of Closedir p \<Rightarrow> [p] | _ \<Rightarrow> []) @ visited_of evs" "visited_of [] = []"
  by (simp_all add: pkgs_of_def visited_of_def)

lemma walk_entries_flat:
  assumes "\<forall>b\<in>set (shown path names). if fs_is_dir F b then fs_opendir F b = Some [] else CHR ''.'' \<in> set b"
  shows "pkgs_of (walk_entries F path d names) = filter (\<lambda>b. \<not> fs_is_dir F b) (shown path names) \<and>
    visited_of (walk_entries F path d names) = take (VFS_MAX_RECURSE - Suc d) (filter (fs_is_dir F) (shown path names)) @ [path]"
  using assms
proof (induction names arbitrary: d)
  case (Cons n ns)
  have ok: "\<forall>b\<in>set (shown path ns). if fs_is_dir F b then fs_opendir F b = Some [] else CHR ''.'' \<in> set b"
    using Cons.prems by (simp add: shown_def)
  note IH = Cons.IH [OF ok]
  show ?case
  proof (cases "Suc d < VFS_MAX_RECURSE")
    case True
    then have "VFS_MAX_RECURSE - Suc d = Suc (VFS_MAX_RECURSE - Suc (Suc d))" by simp
    with True IH Cons.prems show ?thesis by (auto simp: shown_def Let_def)
  qed (use IH Cons.prems in \<open>auto simp: shown_def Let_def\<close>)
qed (simp add: shown_def)

text \<open>
  The walk of a package directory that holds package files, empty subdirectories and hidden entries: every visible
  file with a dot in its path is opened, in directory order, and the hidden ones are skipped. Of the subdirectories only
  the first fourteen are entered: the depth counter counts the subdirectories seen, not the nesting.
\<close>
theorem dir_walk_flat:
  assumes "fs_opendir F path = Some names"
    and "\<forall>b\<in>set (shown path names). if fs_is_dir F b then fs_opendir F b = Some [] else CHR ''.'' \<in> set b"
  shows "pkgs_of (walk_dir F path 1) = filter (\<lambda>b. \<not> fs_is_dir F b) (shown path names) \<and>
    visited_of (walk_dir F path 1) = take 14 (filter (fs_is_dir F) (shown path names)) @ [path]"
  using walk_entries_flat [OF assms(2), of 1] assms(1) by (simp add: VFS_MAX_RECURSE_def)

theorem dir_walk_flat_witness:
  "let F = \<lparr>fs_opendir = (\<lambda>p. if p = ''/p'' then Some [''..'', ''d'', ''a.pkg'', ''.b.pkg''] else Some []),
            fs_is_dir = (\<lambda>p. p = ''/p/d'')\<rparr> in
   pkgs_of (walk_dir F ''/p'' 1) = [''/p/a.pkg''] \<and> visited_of (walk_dir F ''/p'' 1) = [''/p/d'', ''/p'']"
proof -
  define F where "F = \<lparr>fs_opendir = (\<lambda>p. if p = ''/p'' then Some [''..'', ''d'', ''a.pkg'', ''.b.pkg''] else Some []),
    fs_is_dir = (\<lambda>p. p = ''/p/d'')\<rparr>"
  have sh: "shown ''/p'' [''..'', ''d'', ''a.pkg'', ''.b.pkg''] = [''/p/d'', ''/p/a.pkg'']"
    by (simp add: shown_def hidden_def sub_path_def)
  have o: "fs_opendir F ''/p'' = Some [''..'', ''d'', ''a.pkg'', ''.b.pkg'']" by (simp add: F_def)
  have "\<forall>b\<in>set (shown ''/p'' [''..'', ''d'', ''a.pkg'', ''.b.pkg'']).
      if fs_is_dir F b then fs_opendir F b = Some [] else CHR ''.'' \<in> set b"
    by (simp add: sh F_def)
  from dir_walk_flat [OF o this] show ?thesis by (simp add: sh F_def)
qed

section \<open>Events\<close>

definition ordinary :: "watches \<Rightarrow> inotify_event \<Rightarrow> bool" where
  "ordinary ws e \<longleftrightarrow> first_byte e \<noteq> CHR ''.'' \<and> 0 < ie_len e \<and> ie_mask e AND IN_DELETE_SELF = 0 \<and>
     vfs_watch_findnode_byfd (ie_wd e) ws \<noteq> None"

definition event_action :: "watches \<Rightarrow> inotify_event \<Rightarrow> watch_action list" where
  "event_action ws e =
     (case vfs_watch_findnode_byfd (ie_wd e) ws of
        None \<Rightarrow> []
      | Some x \<Rightarrow>
          let path = sub_path (vw_path (snd x)) (ie_name e) in
          if ie_mask e AND (IN_CLOSE_WRITE OR IN_MOVED_TO) \<noteq> 0 then [DoPkgOpen path]
          else if ie_mask e AND (IN_DELETE OR IN_MOVED_FROM) \<noteq> 0 then [DoPkgForget path] else [])"

lemma and_or_zero: "x AND (y OR z) \<noteq> 0 \<longleftrightarrow> x AND y \<noteq> 0 \<or> x AND z \<noteq> (0 :: u32)"
  by (simp add: bit.conj_disj_distrib or_eq_0_iff)

lemma ordinary_step:
  assumes "ordinary ws e"
  shows "inotify_loop hp rm (e # rest) ws w acts = inotify_loop hp rm rest ws w (acts @ event_action ws e)"
  using assms by (subst inotify_loop.simps) (auto simp: ordinary_def event_action_def and_or_zero Let_def)

lemma ordinary_run:
  assumes "\<forall>e\<in>set evs. ordinary ws e"
  shows "inotify_loop hp rm (evs @ rest) ws w acts = inotify_loop hp rm rest ws w (acts @ concat (map (event_action ws) evs))"
  using assms by (induction evs arbitrary: acts) (simp_all add: ordinary_step)

lemma dotted_diverges:
  assumes "first_byte d = CHR ''.''"
  shows "inotify_loop hp rm (d # rest) ws w acts = None"
proof -
  have "first_byte (hd evs) = CHR ''.'' \<longrightarrow> evs = []" if "inotify_loop hp' rm' evs ws' w' acts' = Some y" for hp' rm' evs ws' w' acts' y
    using that
    by (rule inotify_loop.raw_induct [where P = "\<lambda>hp rm evs ws w acts y. first_byte (hd evs) = CHR ''.'' \<longrightarrow> evs = []", rotated])
      (fastforce split: list.splits if_splits)
  from this [of hp rm "d # rest" ws w acts] assms show ?thesis by (cases "inotify_loop hp rm (d # rest) ws w acts") auto
qed

text \<open>
  C31. A buffer of ordinary inotify events (each for a known watch, with a name that does not start with a dot, and not
  the removal of the watched directory itself): the handler returns, has opened the packages written or moved in and
  forgotten those deleted or moved away, in the order of the events, and keeps the watches. When such events are
  followed by one whose name starts with a dot, the handler never returns.
\<close>
theorem inotify_events:
  assumes "\<forall>e\<in>set evs. ordinary ws e"
  shows "vfs_inotify_evt_get hp rm evs ws w = Some (Return (ws, w, concat (map (event_action ws) evs))) \<and>
    (\<forall>d rest. first_byte d = CHR ''.'' \<longrightarrow> vfs_inotify_evt_get hp rm (evs @ d # rest) ws w = None)"
  using ordinary_run [OF assms] ordinary_run [OF assms, where rest = "[]"] dotted_diverges
  by (auto simp: vfs_inotify_evt_get_def inotify_loop.simps [of hp rm "[]"])

definition watch1 :: "nat \<times> vfs_watch" where
  "watch1 = (4128, \<lparr>vw_mask = IN_CLOSE_WRITE, vw_fd = 3, vw_path = ''/p''\<rparr>)"

definition event1 :: "u32 \<Rightarrow> string \<Rightarrow> inotify_event" where
  "event1 mk name = \<lparr>ie_wd = 3, ie_mask = mk, ie_len = 16, ie_name = name, ie_pad = c_nul\<rparr>"

theorem inotify_events_witness:
  "vfs_inotify_evt_get None 0 [event1 IN_CLOSE_WRITE ''a.pkg'', event1 IN_DELETE ''b.pkg''] [watch1] bworld0 =
     Some (Return ([watch1], bworld0, [DoPkgOpen ''/p/a.pkg'', DoPkgForget ''/p/b.pkg''])) \<and>
   vfs_inotify_evt_get None 0 [event1 IN_CLOSE_WRITE ''a.pkg'', event1 IN_CLOSE_WRITE ''.a.swp''] [watch1] bworld0 = None"
proof -
  have o: "ordinary [watch1] (event1 IN_CLOSE_WRITE ''a.pkg'')" "ordinary [watch1] (event1 IN_DELETE ''b.pkg'')"
    "first_byte (event1 IN_CLOSE_WRITE ''.a.swp'') = CHR ''.''" by code_simp+
  have acts: "event_action [watch1] (event1 IN_CLOSE_WRITE ''a.pkg'') = [DoPkgOpen ''/p/a.pkg'']"
    "event_action [watch1] (event1 IN_DELETE ''b.pkg'') = [DoPkgForget ''/p/b.pkg'']" by code_simp+
  show ?thesis
    using inotify_events [of "[event1 IN_CLOSE_WRITE ''a.pkg'', event1 IN_DELETE ''b.pkg'']" "[watch1]" None 0 bworld0]
      inotify_events [of "[event1 IN_CLOSE_WRITE ''a.pkg'']" "[watch1]" None 0 bworld0] o acts
    by simp
qed

end
