(* ===== verification/Threads.thy ===== *)
theory Threads
  imports Dict Llist
begin

text \<open>
  The threads of src/threads.c and the start of the daemon in src/main.c: thread pools over the list of Llist, and the barrier at
  which every thread waits until the main thread is ready, as a step relation over all interleavings of the main
  thread and the threads it starts. The pthread functions and the memory allocator are arguments. Log messages are
  left out. \<open>None\<close> as a result: a NULL pointer is used.
\<close>

section \<open>Thread pools\<close>

record thread =
  th_refcnt :: int
  th_fini :: bool
  th_argv :: ptr

record threadpool =
  tp_name :: "string option"
  tp_list :: "llist option"

text \<open>
  \<open>mem\<close> and \<open>lmem\<close> are the memory for the pool and its list, \<open>attr_ok\<close> says that \<open>pthread_attr_init\<close> succeeds. The second
  result is the stack size asked for.
\<close>
definition threadpool_init ::
    "ptr \<Rightarrow> bool \<Rightarrow> dict option \<Rightarrow> ptr \<Rightarrow> string \<Rightarrow> (threadpool option \<times> int option) option" where
  "threadpool_init mem attr_ok cd lmem name =
     (if mem = None then Some (None, None)
      else if \<not> attr_ok then Some (None, None)
      else do { tmp \<leftarrow> dict_getInt cd (Some ''tuning.threads.stacksz'') 0;
                l \<leftarrow> create_list lmem;
                Some (Some \<lparr>tp_name = Some name, tp_list = Some l\<rparr>, if 0 < tmp then Some tmp else None) })"

text \<open>The data freed with the list.\<close>
definition threadpool_destroy :: "threadpool option \<Rightarrow> nheap \<Rightarrow> (int \<times> nat list \<times> nheap) option" where
  "threadpool_destroy pool h =
     (case pool of
        None \<Rightarrow> Some (- 1, [], h)
      | Some p \<Rightarrow>
          (case tp_list p of
             None \<Rightarrow> Some (0, [], h)
           | Some l \<Rightarrow> do { (ds, h1) \<leftarrow> destroy_list h l; Some (0, ds, h1) }))"

text \<open>
  \<open>mem\<close> is the memory for the thread, \<open>node\<close> and \<open>copy\<close> the memory \<open>list_add\<close> takes, \<open>created\<close> says that \<open>pthread_create\<close> succeeds.
  The list keeps a copy of the first bytes of the thread, not the thread.
\<close>
definition thread_create ::
    "ptr \<Rightarrow> bool \<Rightarrow> ptr \<Rightarrow> ptr \<Rightarrow> bool \<Rightarrow> threadpool option \<Rightarrow> (nat \<rightharpoonup> thread) \<Rightarrow> nheap \<Rightarrow>
     (ptr \<times> threadpool option \<times> (nat \<rightharpoonup> thread) \<times> nheap) option" where
  "thread_create mem created node copy fini pool T h =
     do { a \<leftarrow> mem;
          p \<leftarrow> pool;
          let tmp = \<lparr>th_refcnt = 0, th_fini = False, th_argv = None\<rparr> in
          if \<not> created then Some (None, pool, T(a \<mapsto> tmp), h)
          else do { l \<leftarrow> tp_list p;
                    (h1, l1) \<leftarrow> list_add node copy h l;
                    Some (Some a, Some (p\<lparr>tp_list := Some l1\<rparr>),
                      T(a \<mapsto> tmp\<lparr>th_refcnt := th_refcnt tmp + 1, th_fini := fini\<rparr>), h1) } }"

text \<open>The result, the list data freed, and the new state.\<close>
definition thread_shutdown ::
    "threadpool option \<Rightarrow> ptr \<Rightarrow> (nat \<rightharpoonup> thread) \<Rightarrow> nheap \<Rightarrow>
     (ptr \<times> ptr \<times> threadpool option \<times> (nat \<rightharpoonup> thread) \<times> nheap) option" where
  "thread_shutdown pool thr T h =
     (case (pool, thr) of
        (Some p, Some a) \<Rightarrow>
          do { t0 \<leftarrow> T a;
               let t = t0\<lparr>th_refcnt := th_refcnt t0 - 1\<rparr> in
               if th_refcnt t \<le> 0
               then do { l \<leftarrow> tp_list p;
                         (d, h1, l1) \<leftarrow> list_remove LIST_FRONT h l;
                         Some (None, d, Some (p\<lparr>tp_list := Some l1\<rparr>), T(a := None), h1) }
               else Some (thr, None, pool, T(a \<mapsto> t), h) }
      | _ \<Rightarrow> Some (None, None, pool, T, h))"

section \<open>The start barrier\<close>

record thread_creator =
  tc_name :: "string option"
  tc_init :: bool
  tc_isolated :: bool

definition main_threads :: "thread_creator list" where
  "main_threads =
     [\<lparr>tc_name = Some ''db'', tc_init = True, tc_isolated = False\<rparr>,
      \<lparr>tc_name = Some ''vfs'', tc_init = True, tc_isolated = False\<rparr>,
      \<lparr>tc_name = Some ''cell'', tc_init = True, tc_isolated = True\<rparr>,
      \<lparr>tc_name = Some ''shell'', tc_init = True, tc_isolated = True\<rparr>,
      \<lparr>tc_name = None, tc_init = False, tc_isolated = False\<rparr>]"

datatype agent = MainThread | Worker nat

text \<open>
  Where the main thread is: before \<open>pthread_mutex_lock\<close>, at entry \<open>i\<close> of the table, before the unlock (with \<open>core_ready\<close>
  set), before the broadcast, in its event loop, or gone through \<open>abort\<close>.
\<close>
datatype main_pc = MLock | MCreate nat | MUnlock | MBroadcast | MLoop | MAborted

text \<open>Where a thread is in \<open>thread_entry\<close>: not created, before the lock, at the test of the loop, in
  \<open>pthread_cond_wait\<close>, woken and waiting for the mutex, before the unlock, before \<open>host_init\<close>, or past the function.\<close>
datatype worker_pc = TNone | TLock | TTest | TWait | TRelock | TUnlock | TInit | TRun

record barrier =
  b_owner :: "agent option"
  b_ready :: bool
  b_main :: main_pc
  b_thr :: "nat \<Rightarrow> worker_pc"

definition barrier0 :: barrier where
  "barrier0 = \<lparr>b_owner = None, b_ready = False, b_main = MLock, b_thr = (\<lambda>i. TNone)\<rparr>"

definition startable :: "thread_creator list \<Rightarrow> nat \<Rightarrow> bool" where
  "startable tab i \<longleftrightarrow> i < length tab \<and> tc_name (tab ! i) \<noteq> None \<and> tc_init (tab ! i)"

text \<open>\<open>thread_entry\<close>, run by the thread of entry \<open>i\<close>; a wait may end without a broadcast.\<close>
inductive thread_entry :: "nat \<Rightarrow> barrier \<Rightarrow> barrier \<Rightarrow> bool" for i where
  t_lock: "b_thr s i = TLock \<Longrightarrow> b_owner s = None \<Longrightarrow>
    thread_entry i s (s\<lparr>b_owner := Some (Worker i), b_thr := (b_thr s)(i := TTest)\<rparr>)"
| t_wait: "b_thr s i = TTest \<Longrightarrow> \<not> b_ready s \<Longrightarrow>
    thread_entry i s (s\<lparr>b_owner := None, b_thr := (b_thr s)(i := TWait)\<rparr>)"
| t_wake: "b_thr s i = TWait \<Longrightarrow> thread_entry i s (s\<lparr>b_thr := (b_thr s)(i := TRelock)\<rparr>)"
| t_relock: "b_thr s i = TRelock \<Longrightarrow> b_owner s = None \<Longrightarrow>
    thread_entry i s (s\<lparr>b_owner := Some (Worker i), b_thr := (b_thr s)(i := TTest)\<rparr>)"
| t_go: "b_thr s i = TTest \<Longrightarrow> b_ready s \<Longrightarrow> thread_entry i s (s\<lparr>b_thr := (b_thr s)(i := TUnlock)\<rparr>)"
| t_unlock: "b_thr s i = TUnlock \<Longrightarrow>
    thread_entry i s (s\<lparr>b_owner := None, b_thr := (b_thr s)(i := TInit)\<rparr>)"
| t_init: "b_thr s i = TInit \<Longrightarrow> thread_entry i s (s\<lparr>b_thr := (b_thr s)(i := TRun)\<rparr>)"

text \<open>The main thread; \<open>ok i\<close> says that \<open>thread_create\<close> of entry \<open>i\<close> succeeds.\<close>
inductive main_step :: "thread_creator list \<Rightarrow> (nat \<Rightarrow> bool) \<Rightarrow> barrier \<Rightarrow> barrier \<Rightarrow> bool" for tab ok where
  m_lock: "b_main s = MLock \<Longrightarrow> b_owner s = None \<Longrightarrow>
    main_step tab ok s (s\<lparr>b_owner := Some MainThread, b_main := MCreate 0\<rparr>)"
| m_skip: "b_main s = MCreate i \<Longrightarrow> i < length tab \<Longrightarrow> \<not> startable tab i \<Longrightarrow>
    main_step tab ok s (s\<lparr>b_main := MCreate (Suc i)\<rparr>)"
| m_create: "b_main s = MCreate i \<Longrightarrow> startable tab i \<Longrightarrow> ok i \<Longrightarrow>
    main_step tab ok s (s\<lparr>b_main := MCreate (Suc i), b_thr := (b_thr s)(i := TLock)\<rparr>)"
| m_abort: "b_main s = MCreate i \<Longrightarrow> startable tab i \<Longrightarrow> \<not> ok i \<Longrightarrow> main_step tab ok s (s\<lparr>b_main := MAborted\<rparr>)"
| m_ready: "b_main s = MCreate i \<Longrightarrow> length tab \<le> i \<Longrightarrow> main_step tab ok s (s\<lparr>b_ready := True, b_main := MUnlock\<rparr>)"
| m_unlock: "b_main s = MUnlock \<Longrightarrow> main_step tab ok s (s\<lparr>b_owner := None, b_main := MBroadcast\<rparr>)"
| m_broadcast: "b_main s = MBroadcast \<Longrightarrow>
    main_step tab ok s (s\<lparr>b_main := MLoop, b_thr := (\<lambda>i. if b_thr s i = TWait then TRelock else b_thr s i)\<rparr>)"

text \<open>One step of the process, which \<open>abort\<close> ends.\<close>
inductive start_step :: "thread_creator list \<Rightarrow> (nat \<Rightarrow> bool) \<Rightarrow> barrier \<Rightarrow> barrier \<Rightarrow> bool" for tab ok where
  s_main: "main_step tab ok s s' \<Longrightarrow> start_step tab ok s s'"
| s_thread: "b_main s \<noteq> MAborted \<Longrightarrow> thread_entry i s s' \<Longrightarrow> start_step tab ok s s'"

inductive_cases thread_entryE: "thread_entry i s s'"
inductive_cases main_stepE: "main_step tab ok s s'"
inductive_cases start_stepE: "start_step tab ok s s'"

section \<open>Systems that settle\<close>

text \<open>
  A step relation with an invariant under which every step lowers a rank, and a state without a step is one of
  the intended final states.
\<close>
locale settling =
  fixes step :: "'s \<Rightarrow> 's \<Rightarrow> bool" and inv :: "'s \<Rightarrow> bool" and rank :: "'s \<Rightarrow> nat" and settled :: "'s \<Rightarrow> bool"
  assumes keeps: "inv s \<Longrightarrow> step s s' \<Longrightarrow> inv s'"
    and lowers: "inv s \<Longrightarrow> step s s' \<Longrightarrow> rank s' < rank s"
    and progress: "inv s \<Longrightarrow> \<not> settled s \<Longrightarrow> \<exists>s'. step s s'"
begin

lemma reach_inv: "step\<^sup>*\<^sup>* s s' \<Longrightarrow> inv s \<Longrightarrow> inv s'"
  by (induction rule: rtranclp_induct) (auto intro: keeps)

lemma run_bounded: "(step ^^ n) s s' \<Longrightarrow> inv s \<Longrightarrow> n + rank s' \<le> rank s \<and> inv s'"
proof (induction n arbitrary: s')
  case (Suc n)
  then obtain u where u: "(step ^^ n) s u" "step u s'" by auto
  with Suc.IH [of u] Suc.prems lowers keeps show ?case by fastforce
qed simp

lemma can_settle: "inv s \<Longrightarrow> \<exists>s'. step\<^sup>*\<^sup>* s s' \<and> settled s'"
proof (induction "rank s" arbitrary: s rule: less_induct)
  case less
  show ?case
  proof (cases "settled s")
    case False
    then obtain u where u: "step s u" using progress less.prems by blast
    from less.hyps [OF lowers [OF less.prems u] keeps [OF less.prems u]] u show ?thesis
      by (blast intro: converse_rtranclp_into_rtranclp)
  qed auto
qed

end

section \<open>The invariant of the start\<close>

text \<open>While the main thread works through the table no thread gets past the lock; afterwards the mutex belongs to the
  threads, and none of them waits.\<close>
definition created :: "thread_creator list \<Rightarrow> nat \<Rightarrow> nat \<Rightarrow> worker_pc" where
  "created tab k = (\<lambda>i. if startable tab i \<and> i < k then TLock else TNone)"

definition open_inv :: "thread_creator list \<Rightarrow> barrier \<Rightarrow> bool" where
  "open_inv tab s \<longleftrightarrow> b_owner s \<noteq> Some MainThread \<and> b_ready s \<and>
     (\<forall>i. b_owner s = Some (Worker i) \<longleftrightarrow> b_thr s i \<in> {TTest, TUnlock}) \<and>
     (\<forall>i. b_thr s i \<notin> {TWait, TRelock}) \<and> (\<forall>i. b_thr s i \<noteq> TNone \<longleftrightarrow> startable tab i)"

definition start_inv :: "thread_creator list \<Rightarrow> barrier \<Rightarrow> bool" where
  "start_inv tab s \<longleftrightarrow>
     (case b_main s of
        MLock \<Rightarrow> b_owner s = None \<and> \<not> b_ready s \<and> b_thr s = created tab 0
      | MCreate k \<Rightarrow> b_owner s = Some MainThread \<and> \<not> b_ready s \<and> b_thr s = created tab k
      | MUnlock \<Rightarrow> b_owner s = Some MainThread \<and> b_ready s \<and> b_thr s = created tab (length tab)
      | MAborted \<Rightarrow> b_owner s = Some MainThread \<and> \<not> b_ready s \<and> (\<exists>k. b_thr s = created tab k)
      | _ \<Rightarrow> open_inv tab s)"

definition thr_rank :: "worker_pc \<Rightarrow> nat" where
  "thr_rank t = (case t of TNone \<Rightarrow> 5 | TLock \<Rightarrow> 4 | TTest \<Rightarrow> 3 | TUnlock \<Rightarrow> 2 | TInit \<Rightarrow> 1 | _ \<Rightarrow> 0)"

definition start_rank :: "thread_creator list \<Rightarrow> barrier \<Rightarrow> nat" where
  "start_rank tab s =
     (case b_main s of MLock \<Rightarrow> length tab + 4 | MCreate k \<Rightarrow> length tab - k + 3 | MUnlock \<Rightarrow> 2 | MBroadcast \<Rightarrow> 1 | _ \<Rightarrow> 0) +
     (\<Sum>i<length tab. thr_rank (b_thr s i))"

definition settled :: "thread_creator list \<Rightarrow> barrier \<Rightarrow> bool" where
  "settled tab s \<longleftrightarrow> b_main s = MAborted \<or> b_main s = MLoop \<and> (\<forall>i. startable tab i \<longrightarrow> b_thr s i = TRun)"

end
