(* ===== verification/ThreadsOps.thy ===== *)
theory ThreadsOps
  imports Threads
begin

text \<open>
  Properties of the threads: the start barrier settles with every thread running and lets none through early, and
  what a pool's list holds when threads come and go.
\<close>

section \<open>The barrier\<close>

lemma sum_thr_less:
  assumes "i < (n :: nat)" "thr_rank v < thr_rank (f i)"
  shows "(\<Sum>j<n. thr_rank ((f(i := v)) j)) < (\<Sum>j<n. thr_rank (f j))"
  using assms by (intro sum_strict_mono_ex1) auto

lemma startable_less: "startable tab i \<Longrightarrow> i < length tab"
  by (simp add: startable_def)

lemma created_cases: "created tab k i = TNone \<or> created tab k i = TLock"
  by (simp add: created_def)

lemma created_Suc:
  "created tab (Suc k) = (if startable tab k then (created tab k)(k := TLock) else created tab k)"
  by (auto simp: created_def less_Suc_eq)

lemma thread_needs_open:
  assumes "start_inv tab s" "thread_entry i s s'" "b_main s \<noteq> MAborted"
  shows "b_main s \<in> {MBroadcast, MLoop} \<and> open_inv tab s"
  using assms(2,1,3) created_cases [of tab _ i]
  by cases (auto simp: start_inv_def created_def split: main_pc.splits if_splits)

lemma open_inv_thread:
  assumes "open_inv tab s" "thread_entry i s s'"
  shows "open_inv tab s'"
proof -
  have st: "b_thr s i \<noteq> TNone \<longleftrightarrow> startable tab i" and nw: "b_thr s i \<notin> {TWait, TRelock}" and rd: "b_ready s"
    and own: "\<And>j. b_owner s = Some (Worker j) \<longleftrightarrow> b_thr s j \<in> {TTest, TUnlock}"
    using assms(1) unfolding open_inv_def by blast+
  from assms(2) show ?thesis
  proof cases
    case t_lock
    then have "b_thr s j \<notin> {TTest, TUnlock}" for j using own [of j] by simp
    with t_lock st assms(1) show ?thesis by (simp add: open_inv_def)
  next
    case t_unlock
    then have "b_owner s = Some (Worker i)" using own [of i] by simp
    then have "b_thr s j \<notin> {TTest, TUnlock}" if "j \<noteq> i" for j using own [of j] that by simp
    with t_unlock st assms(1) show ?thesis by (simp add: open_inv_def)
  next
    case t_go
    then have "b_owner s = Some (Worker i)" using own [of i] by simp
    with t_go st assms(1) show ?thesis by (auto simp: open_inv_def)
  next
    case t_init
    then have "b_owner s \<noteq> Some (Worker i)" using own [of i] by simp
    with t_init st assms(1) show ?thesis by (auto simp: open_inv_def)
  qed (use nw rd in simp_all)
qed

lemma thread_keeps:
  assumes "start_inv tab s" "thread_entry i s s'" "b_main s \<noteq> MAborted"
  shows "start_inv tab s' \<and> start_rank tab s' < start_rank tab s"
proof -
  note op = thread_needs_open [OF assms]
  then have i: "b_thr s i \<noteq> TNone \<Longrightarrow> i < length tab" and nw: "b_thr s i \<notin> {TWait, TRelock}" and rd: "b_ready s"
    by (auto simp: open_inv_def startable_less)
  have op': "open_inv tab s'" using open_inv_thread assms(2) op by blast
  from assms(2) have m: "b_main s' = b_main s" by cases simp_all
  from assms(2) nw rd i have "\<exists>v. b_thr s' = (b_thr s)(i := v) \<and> thr_rank v < thr_rank (b_thr s i) \<and> i < length tab"
    by cases (auto simp: thr_rank_def)
  with sum_thr_less [of i "length tab" _ "b_thr s"] have "start_rank tab s' < start_rank tab s"
    by (auto simp: start_rank_def m)
  with op op' m show ?thesis by (auto simp: start_inv_def)
qed

lemma main_keeps:
  assumes "start_inv tab s" "main_step tab ok s s'"
  shows "start_inv tab s' \<and> start_rank tab s' < start_rank tab s"
  using assms(2)
proof cases
  case (m_create i)
  then have thr: "b_thr s = created tab i" and own: "b_owner s = Some MainThread" "\<not> b_ready s" and i: "i < length tab"
    using assms(1) by (simp_all add: start_inv_def startable_less)
  have "thr_rank TLock < thr_rank (created tab i i)" by (simp add: created_def thr_rank_def)
  from sum_thr_less [where f = "created tab i", OF i this]
  have "(\<Sum>j<length tab. thr_rank (created tab (Suc i) j)) < (\<Sum>j<length tab. thr_rank (created tab i j))"
    using m_create by (simp add: created_Suc)
  moreover have "b_thr s' = created tab (Suc i)" using m_create thr by (simp add: created_Suc)
  ultimately show ?thesis using m_create i thr own by (simp add: start_inv_def start_rank_def)
next
  case m_broadcast
  then have "(\<lambda>i. if b_thr s i = TWait then TRelock else b_thr s i) = b_thr s"
    using assms(1) by (auto simp: start_inv_def open_inv_def)
  with m_broadcast assms(1) show ?thesis by (simp add: start_inv_def start_rank_def open_inv_def)
next
  case (m_ready i)
  have "created tab i = created tab (length tab)" using m_ready by (auto simp: created_def startable_def)
  with m_ready assms(1) show ?thesis by (simp add: start_inv_def start_rank_def)
next
  case m_unlock
  then show ?thesis using assms(1) by (auto simp: start_inv_def start_rank_def open_inv_def created_def startable_less)
qed (use assms(1) in \<open>auto simp: start_inv_def start_rank_def created_Suc\<close>)

lemma open_progress:
  assumes "open_inv tab s" "startable tab i" "b_thr s i \<noteq> TRun"
  shows "\<exists>j s'. thread_entry j s s'"
proof (cases "b_owner s")
  case None
  with assms have "b_thr s i \<in> {TLock, TInit}" by (cases "b_thr s i") (auto simp: open_inv_def)
  with None show ?thesis by (auto intro: t_lock t_init)
next
  case (Some a)
  with assms(1) obtain j where "a = Worker j" by (cases a) (auto simp: open_inv_def)
  with Some assms(1) have "b_thr s j \<in> {TTest, TUnlock}" "b_ready s" by (auto simp: open_inv_def)
  then show ?thesis by (auto intro: t_go t_unlock)
qed

lemma start_progress:
  assumes "start_inv tab s" "\<not> settled tab s"
  shows "\<exists>s'. start_step tab ok s s'"
proof (cases "b_main s")
  case MLoop
  with assms obtain i where "open_inv tab s" "startable tab i" "b_thr s i \<noteq> TRun"
    by (auto simp: start_inv_def settled_def)
  from open_progress [OF this] obtain j s' where "thread_entry j s s'" by blast
  with MLoop have "start_step tab ok s s'" by (intro s_thread [of s j]) simp
  then show ?thesis ..
next
  case (MCreate k)
  then show ?thesis
    by (cases "length tab \<le> k"; cases "startable tab k"; cases "ok k")
      (auto simp: not_le intro: s_main m_skip m_create m_abort m_ready)
qed (use assms in \<open>auto simp: start_inv_def settled_def intro: s_main m_lock m_unlock m_broadcast\<close>)

interpretation st: settling "start_step tab ok" "start_inv tab" "start_rank tab" "settled tab" for tab ok
proof unfold_locales
  fix s s' assume s: "start_inv tab s" "start_step tab ok s s'"
  from s(2,1) have both: "start_inv tab s' \<and> start_rank tab s' < start_rank tab s"
    by cases (auto dest: main_keeps thread_keeps)
  from both show "start_inv tab s'" "start_rank tab s' < start_rank tab s" by auto
qed (rule start_progress)

lemma barrier0_inv: "start_inv tab barrier0"
  by (auto simp: start_inv_def barrier0_def created_def)

definition passed :: "worker_pc \<Rightarrow> bool" where
  "passed t \<longleftrightarrow> t = TInit \<or> t = TRun"

definition has_mutex :: "worker_pc \<Rightarrow> bool" where
  "has_mutex t \<longleftrightarrow> t = TTest \<or> t = TUnlock"

lemma start_inv_safe:
  assumes "start_inv tab s"
  shows "(passed (b_thr s i) \<longrightarrow> b_ready s \<and> (\<forall>j. startable tab j \<longrightarrow> b_thr s j \<noteq> TNone)) \<and>
    (has_mutex (b_thr s i) \<longrightarrow> b_owner s = Some (Worker i)) \<and> b_thr s i \<noteq> TWait"
  using assms
  by (auto simp: start_inv_def open_inv_def created_def passed_def has_mutex_def startable_less split: main_pc.splits if_splits)

text \<open>
  C21. The start of the daemon, over all interleavings of the main thread and the threads of its table, and whichever thread creations
  fail. In every reachable state: a thread is past \<open>thread_entry\<close> only when \<open>core_ready\<close> is set and every thread of the table exists;
  at most one thread is inside the mutex; and no thread ever waits for the condition, since the main thread holds the mutex until it is ready.
  Every run has at most 6 n + 4 steps for a table of n entries, and can stop only with the process aborted or with the
  main thread in its event loop and all threads running.
\<close>
theorem startup_settles:
  assumes "(start_step tab ok ^^ n) barrier0 s"
  shows "(\<forall>i. passed (b_thr s i) \<longrightarrow> b_ready s \<and> (\<forall>j. startable tab j \<longrightarrow> b_thr s j \<noteq> TNone)) \<and>
    (\<forall>i j. has_mutex (b_thr s i) \<and> has_mutex (b_thr s j) \<longrightarrow> i = j) \<and>
    (\<forall>i. b_thr s i \<noteq> TWait) \<and> n \<le> 6 * length tab + 4 \<and>
    ((\<nexists>s'. start_step tab ok s s') \<longrightarrow> settled tab s) \<and> (\<exists>s'. (start_step tab ok)\<^sup>*\<^sup>* s s' \<and> settled tab s')"
proof -
  from st.run_bounded [OF assms barrier0_inv] have inv: "start_inv tab s" and n: "n \<le> start_rank tab barrier0" by auto
  have "start_rank tab barrier0 = 6 * length tab + 4"
    by (simp add: start_rank_def barrier0_def thr_rank_def)
  then show ?thesis
    using n start_inv_safe [OF inv] st.progress [OF inv] st.can_settle [OF inv]
    by (metis (lifting) agent.inject option.inject)
qed

theorem startup_settles_witness:
  "\<exists>s. (start_step main_threads (\<lambda>i. True) ^^ 2) barrier0 s \<and> b_thr s 0 = TLock \<and> \<not> passed (b_thr s 0) \<and>
     (\<exists>s'. (start_step main_threads (\<lambda>i. True))\<^sup>*\<^sup>* s s' \<and> settled main_threads s')"
proof -
  let ?s1 = "barrier0\<lparr>b_owner := Some MainThread, b_main := MCreate 0\<rparr>"
  let ?s2 = "?s1\<lparr>b_main := MCreate (Suc 0), b_thr := (b_thr ?s1)(0 := TLock)\<rparr>"
  have "start_step main_threads (\<lambda>i. True) barrier0 ?s1" by (intro s_main m_lock) (simp_all add: barrier0_def)
  moreover have "start_step main_threads (\<lambda>i. True) ?s1 ?s2"
    by (intro s_main m_create) (simp_all add: startable_def main_threads_def)
  ultimately have run: "(start_step main_threads (\<lambda>i. True) ^^ 2) barrier0 ?s2" by (auto simp: numeral_2_eq_2)
  from startup_settles [OF this] run show ?thesis by (intro exI [of _ ?s2]) (auto simp: passed_def)
qed

section \<open>Pools\<close>

text \<open>
  Threads in a pool. \<open>thread_create\<close> gives the new thread one reference and puts a copy of it at the end of the pool's list. When
  the last reference is dropped, \<open>thread_shutdown\<close> frees the thread and removes the front entry of the list, whichever thread that stands
  for; when the list has only one entry it uses a NULL pointer.
\<close>
theorem pool_create_shutdown:
  assumes "ll_rep h l s" "n \<notin> nodes s"
  shows "\<exists>l1 h1. thread_create (Some a) True (Some n) (Some c) fini (Some \<lparr>tp_name = nm, tp_list = Some l\<rparr>) T h =
      Some (Some a, Some \<lparr>tp_name = nm, tp_list = Some l1\<rparr>, T(a \<mapsto> \<lparr>th_refcnt = 1, th_fini = fini, th_argv = None\<rparr>), h1) \<and>
    ll_rep h1 l1 (s @ [(n, Some c)]) \<and>
    (case s of
       [] \<Rightarrow> thread_shutdown (Some \<lparr>tp_name = nm, tp_list = Some l1\<rparr>) (Some a)
         (T(a \<mapsto> \<lparr>th_refcnt = 1, th_fini = fini, th_argv = None\<rparr>)) h1 = None
     | x # t \<Rightarrow> \<exists>l2 h2. thread_shutdown (Some \<lparr>tp_name = nm, tp_list = Some l1\<rparr>) (Some a)
         (T(a \<mapsto> \<lparr>th_refcnt = 1, th_fini = fini, th_argv = None\<rparr>)) h1 =
           Some (None, snd x, Some \<lparr>tp_name = nm, tp_list = Some l2\<rparr>, T(a := None), h2) \<and> ll_rep h2 l2 (t @ [(n, Some c)]))"
proof -
  from list_add_rep [OF assms, of c] obtain h1 l1 where
    1: "list_add (Some n) (Some c) h l = Some (h1, l1)" "ll_rep h1 l1 (s @ [(n, Some c)])" by blast
  have front: "thread_shutdown (Some \<lparr>tp_name = nm, tp_list = Some l1\<rparr>) (Some a)
      (T(a \<mapsto> \<lparr>th_refcnt = 1, th_fini = fini, th_argv = None\<rparr>)) h1 =
    (case list_poll h1 l1 of
       Some (Some d, h2, l2) \<Rightarrow> Some (None, Some d, Some \<lparr>tp_name = nm, tp_list = Some l2\<rparr>, T(a := None), h2)
     | _ \<Rightarrow> None)"
    by (cases "list_poll h1 l1") (auto simp: thread_shutdown_def list_remove_def LIST_FRONT_def split: option.splits)
  show ?thesis
  proof (cases s)
    case Nil
    with 1 list_only_element [of h1 l1] front show ?thesis by (simp add: thread_create_def)
  next
    case (Cons x t)
    obtain y u where y: "t @ [(n, Some c)] = y # u" by (cases t) auto
    from list_poll_rep [of h1 l1 x y u] 1(2) Cons y obtain h2 l2 where
      2: "list_poll h1 l1 = Some (snd x, h2, l2)" "ll_rep h2 l2 (t @ [(n, Some c)])" by auto
    from assms(1) Cons obtain d where "snd x = Some d" by (auto simp: ll_rep_def)
    with 1 2 front Cons show ?thesis by (simp add: thread_create_def)
  qed
qed

theorem pool_create_shutdown_witness:
  "\<exists>h l l1 h1. ll_rep h l [(100, Some 7), (200, Some 8)] \<and>
     thread_create (Some 5) True (Some 300) (Some 9) False (Some \<lparr>tp_name = Some ''main'', tp_list = Some l\<rparr>) Map.empty h =
       Some (Some 5, Some \<lparr>tp_name = Some ''main'', tp_list = Some l1\<rparr>,
         [5 \<mapsto> \<lparr>th_refcnt = 1, th_fini = False, th_argv = None\<rparr>], h1) \<and>
     (\<exists>l2 h2. thread_shutdown (Some \<lparr>tp_name = Some ''main'', tp_list = Some l1\<rparr>) (Some 5)
       [5 \<mapsto> \<lparr>th_refcnt = 1, th_fini = False, th_argv = None\<rparr>] h1 =
         Some (None, Some 7, Some \<lparr>tp_name = Some ''main'', tp_list = Some l2\<rparr>, Map.empty, h2) \<and>
       ll_rep h2 l2 [(200, Some 8), (300, Some 9)])"
proof -
  obtain h l where r: "ll_rep h l [(100, Some 7), (200, Some 8)]" using two_modules by blast
  have "300 \<notin> nodes [(100 :: nat, Some (7 :: nat)), (200, Some 8)]" by simp
  from pool_create_shutdown [OF r this, of 5 9 False "Some ''main''" Map.empty] r show ?thesis by fastforce
qed

end
