(* ===== verification/BallocFrame.thy ===== *)
theory BallocFrame
  imports BallocOps
begin

text \<open>
  Several heaps in one memory: what the operations on one heap change (the frame), and that releasing an element of a heap, or
  collecting it, leaves the live elements of all the others as they are.
\<close>

section \<open>The frame\<close>

definition ids :: "cblock list \<Rightarrow> nat set" where
  "ids bs = fst ` set bs"

definition area :: "bworld \<Rightarrow> cblock list \<Rightarrow> nat set" where
  "area w bs = (\<Union>b \<in> ids bs. region (w_blocks w) b)"

text \<open>Between \<open>w\<close> and \<open>w'\<close> only heap \<open>a\<close>, the blocks of \<open>I\<close> and the memory of \<open>R\<close> have changed.\<close>
definition touches :: "nat \<Rightarrow> nat set \<Rightarrow> nat set \<Rightarrow> bworld \<Rightarrow> bworld \<Rightarrow> bool" where
  "touches a I R w w' \<longleftrightarrow> (\<forall>c. c \<noteq> a \<longrightarrow> w_bh w' c = w_bh w c) \<and> (\<forall>x. x \<notin> I \<longrightarrow> w_blocks w' x = w_blocks w x) \<and>
     (\<forall>x. x \<notin> R \<longrightarrow> w_nodes w' x = w_nodes w x \<and> w_owner w' x = w_owner w x)"

text \<open>An operation on heap \<open>a\<close> that stays inside its blocks.\<close>
definition inside :: "nat \<Rightarrow> bworld \<Rightarrow> cblock list \<Rightarrow> bworld \<Rightarrow> cblock list \<Rightarrow> bool" where
  "inside a w bs w' bs' \<longleftrightarrow> touches a (ids bs) (area w bs) w w' \<and> ids bs' \<subseteq> ids bs \<and> area w' bs' \<subseteq> area w bs"

lemma ids_simps [simp]: "ids [] = {}" "ids (x # bs) = insert (fst x) (ids bs)" "ids (xs @ ys) = ids xs \<union> ids ys"
  by (auto simp: ids_def)

lemma touches_mono: "touches a I R w w' \<Longrightarrow> I \<subseteq> J \<Longrightarrow> R \<subseteq> S \<Longrightarrow> touches a J S w w'"
  by (auto simp: touches_def)

lemma inside_refl: "inside a w bs w bs"
  by (simp add: inside_def touches_def)

lemma inside_trans:
  assumes "inside a w bs w1 bs1" "inside a w1 bs1 w2 bs2"
  shows "inside a w bs w2 bs2"
proof -
  have "touches a (ids bs) (area w bs) w1 w2"
    by (rule touches_mono [of a "ids bs1" "area w1 bs1"]) (use assms in \<open>simp_all add: inside_def\<close>)
  with assms show ?thesis by (auto simp: inside_def touches_def)
qed

lemma touches_rep:
  assumes t: "touches a I R w w'" and rep: "heap_rep w c cs" and c: "c \<noteq> a" and sep: "ids cs \<inter> I = {}" "area w cs \<inter> R = {}"
  shows "heap_rep w' c cs \<and> area w' cs = area w cs"
proof -
  have blk: "w_blocks w' x = w_blocks w x" if "x \<in> ids cs" for x
    using t sep(1) that by (auto simp: touches_def)
  then have reg: "region (w_blocks w') x = region (w_blocks w) x" if "x \<in> ids cs" for x
    using that by (simp add: region_def)
  obtain H where H: "w_bh w c = Some H" "counts_ok H cs" "blocks_ok w (unat (bh_elemsPerBlock H)) cs"
    using rep by (auto simp: heap_rep_def)
  have "blk_ok w' (unat (bh_elemsPerBlock H)) x" if x: "x \<in> set cs" for x
  proof -
    obtain b fr us where b: "x = (b, fr, us)" by (cases x)
    have i: "b \<in> ids cs" using x b by (force simp: ids_def)
    have ok: "blk_ok w (unat (bh_elemsPerBlock H)) (b, fr, us)" using H(3) x b by (auto simp: blocks_ok_def)
    have "y \<notin> R" if "y \<in> nodes fr \<union> nodes us" for y
      using that subsetD [OF blk_ok_region [OF ok]] sep(2) i unfolding area_def by blast
    then show ?thesis unfolding b
      by (intro blk_ok_frame [OF ok] blk [OF i]) (use t in \<open>simp add: touches_def\<close>)
  qed
  moreover have "lseg (w_blocks w') (map fst cs) None"
    by (rule lseg_cong [where f = "w_blocks w"]) (use H(3) blk in \<open>auto simp: blocks_ok_def ids_def\<close>)
  moreover have "apart (w_blocks w') (map fst cs)"
    by (rule apart_cong [where f = "w_blocks w"]) (use H(3) reg in \<open>auto simp: blocks_ok_def ids_def\<close>)
  ultimately have "blocks_ok w' (unat (bh_elemsPerBlock H)) cs" using H(3) by (simp add: blocks_ok_def)
  moreover have "w_bh w' c = Some H" using H(1) t c by (simp add: touches_def)
  ultimately show ?thesis using H(2) reg by (auto simp: heap_rep_def area_def)
qed

section \<open>Releasing and collecting stay inside\<close>

lemma free_inside:
  assumes rep: "heap_rep w a bs" and p: "p \<in> live bs"
  shows "\<exists>w' bs'. blockheap_free (Some a) (Some p) w = Some (Return (0, w')) \<and> heap_rep w' a bs' \<and>
    live bs' = live bs - {p} \<and> inside a w bs w' bs'"
proof -
  obtain xs b fr s m d t ys where bs: "bs = xs @ (b, fr, s @ (m, d) # t) # ys" and pm: "p = m + MEMBLOCK_SIZE"
    using p by (rule live_block)
  from rep bs obtain n where ok: "blk_ok w n (b, fr, s @ (m, d) # t)" by (auto simp: heap_rep_def blocks_ok_def)
  then obtain B where B: "w_blocks w b = Some B" "dl_rep (w_nodes w) (b_free B) fr"
    "dl_rep (w_nodes w) (b_used B) (s @ (m, d) # t)" by (auto simp: blk_ok_def)
  have disj: "nodes (s @ (m, d) # t) \<inter> nodes fr = {}" and own: "w_owner w m = Some (Some b)"
    using ok by (auto simp: blk_ok_def elem_ok_def)
  obtain h ul fl where mv: "dlink_move (Some m) (w_nodes w) (Some (b_used B)) (Some (b_free B)) = Some (h, Some ul, Some fl)"
    "same_but (nodes (s @ (m, d) # t) \<union> nodes fr) (w_nodes w) h"
    using dlink_move_rep [OF B(3,2) disj] by auto
  from rep obtain H where H: "w_bh w a = Some H" by (auto simp: heap_rep_def)
  let ?w = "w\<lparr>w_bh := (w_bh w)(a \<mapsto> H\<lparr>bh_freeElems := bh_freeElems H + 1\<rparr>), w_nodes := h,
    w_blocks := (w_blocks w)(b \<mapsto> B\<lparr>b_free := fl, b_used := ul\<rparr>)\<rparr>"
  have run: "blockheap_free (Some a) (Some p) w = Some (Return (0, ?w))"
    using H B(1) mv(1) own pm by (simp add: blockheap_free_def set_bh_Some [OF H])
  have sub: "nodes (s @ (m, d) # t) \<union> nodes fr \<subseteq> area w bs" and b: "b \<in> ids bs"
    using blk_ok_region [OF ok] bs by (auto simp: area_def)
  have same: "h x = w_nodes w x" if "x \<notin> area w bs" for x
    using that subsetD [OF sub, of x] mv(2) unfolding same_but_def by blast
  from same b have "touches a (ids bs) (area w bs) w ?w" by (simp add: touches_def)
  moreover from blockheap_free_ok [OF rep p] run obtain bs' where
    bs': "heap_rep ?w a bs'" "live bs' = live bs - {p}" "map fst bs' = map fst bs" by auto
  moreover have "ids bs' = ids bs" using arg_cong [OF bs'(3), of set] by (simp add: ids_def)
  moreover have "region (w_blocks ?w) c = region (w_blocks w) c" for c
    using B(1) by (auto simp: region_def split: option.split)
  ultimately show ?thesis using run by (auto simp: inside_def area_def)
qed

lemma unmap_touches:
  assumes "w_blocks w b = Some B" "x \<notin> region (w_blocks w) b"
  shows "w_nodes (unmap B w) x = w_nodes w x \<and> w_owner (unmap B w) x = w_owner w x"
  using assms by (auto simp: unmap_def region_def Let_def split: option.splits)

lemma unmap_same [simp]: "w_bh (unmap B w) = w_bh w" "w_blocks (unmap B w) = w_blocks w"
  by (simp_all add: unmap_def Let_def split: option.split)

lemma region_next: "f l = Some L \<Longrightarrow> region (f(l \<mapsto> L\<lparr>b_next := q\<rparr>)) c = region f c"
  by (auto simp: region_def split: option.split)

lemma region_drop: "c \<noteq> b \<Longrightarrow> region (f(b := None)) c = region f c"
  by (simp add: region_def)

lemma gc_drop_touches:
  assumes "gc_drop a lst b w = Some w'"
  shows "touches a (insert b (set_option lst)) (region (w_blocks w) b) w w' \<and>
    (\<forall>c. c \<noteq> b \<longrightarrow> region (w_blocks w') c = region (w_blocks w) c)"
proof -
  from assms obtain B where B: "w_blocks w b = Some B" by (auto simp: gc_drop_def bind_eq_Some_conv)
  show ?thesis
  proof (cases lst)
    case None
    with assms B obtain H where "w' = (unmap B w)\<lparr>w_blocks := (w_blocks w)(b := None), w_bh := (w_bh w)(a \<mapsto> H)\<rparr>"
      by (auto simp: gc_drop_def bind_eq_Some_conv set_bh_def split: option.splits)
    with unmap_touches [OF B] show ?thesis by (simp add: touches_def region_drop)
  next
    case (Some l)
    with assms B obtain H L where L: "w_blocks w l = Some L"
      and "w' = (unmap B w)\<lparr>w_blocks := (w_blocks w)(l \<mapsto> L\<lparr>b_next := b_next B\<rparr>, b := None), w_bh := (w_bh w)(a \<mapsto> H)\<rparr>"
      by (auto simp: gc_drop_def bind_eq_Some_conv set_bh_def split: option.splits)
    with Some unmap_touches [OF B] region_next [of "w_blocks w" l L] L show ?thesis by (simp add: touches_def region_drop)
  qed
qed

lemma gc_drop_inside:
  assumes "heap_rep w a (xs @ (b, fr, []) # ys)" "gc_drop a (last_id xs) b w = Some w'"
  shows "inside a w (xs @ (b, fr, []) # ys) w' (xs @ ys)"
proof -
  have last: "set_option (last_id xs) \<subseteq> ids xs" by (cases xs rule: rev_cases) (auto simp: last_id_def)
  have "distinct (map fst (xs @ (b, fr, []) # ys))" using assms(1) by (auto simp: heap_rep_def blocks_ok_def)
  then have "b \<notin> ids (xs @ ys)" by (auto simp: ids_def)
  then have "area w' (xs @ ys) = area w (xs @ ys)" using gc_drop_touches [OF assms(2)]
    unfolding area_def by (intro SUP_cong) auto
  moreover have "touches a (ids (xs @ (b, fr, []) # ys)) (area w (xs @ (b, fr, []) # ys)) w w'"
    by (rule touches_mono [OF conjunct1 [OF gc_drop_touches [OF assms(2)]]]) (use last in \<open>auto simp: area_def\<close>)
  ultimately show ?thesis by (auto simp: inside_def area_def)
qed

lemma gc_loop_inside:
  "heap_rep w a (xs @ ys) \<Longrightarrow> gc_loop a (last_id xs) (first_id (map fst ys) None) w = Some w' \<Longrightarrow>
     inside a w (xs @ ys) w' (xs @ filter (\<lambda>x. snd (snd x) \<noteq> []) ys)"
proof (induction ys arbitrary: xs w)
  case Nil
  then show ?case by (simp add: gc_loop.simps inside_refl)
next
  case (Cons y ys)
  obtain b fr us where y: "y = (b, fr, us)" by (cases y)
  from gc_loop_step [of w a xs b fr us ys] Cons.prems(1) y obtain B where B: "w_blocks w b = Some B" and
    step: "gc_loop a (last_id xs) (Some b) w =
      (if us = [] then do { w' \<leftarrow> gc_drop a (last_id xs) b w; gc_loop a (last_id xs) (first_id (map fst ys) None) w' }
       else gc_loop a (Some b) (first_id (map fst ys) None) w)" by auto
  show ?case
  proof (cases "us = []")
    case True
    have rep: "heap_rep w a (xs @ (b, fr, []) # ys)" using Cons.prems y True by simp
    from gc_drop_ok [OF rep B] obtain w1 where
      1: "gc_drop a (last_id xs) b w = Some w1" "heap_rep w1 a (xs @ ys)" by blast
    from Cons.IH [OF 1(2)] 1(1) step True y Cons.prems(2) have
      "inside a w1 (xs @ ys) w' (xs @ filter (\<lambda>x. snd (snd x) \<noteq> []) ys)" by simp
    from inside_trans [OF gc_drop_inside [OF rep 1(1)] this] True y show ?thesis by simp
  next
    case False
    have "heap_rep w a ((xs @ [y]) @ ys)" using Cons.prems by simp
    from Cons.IH [OF this] show ?thesis using step False y Cons.prems(2) by simp
  qed
qed

lemma collect_inside:
  assumes "heap_rep w a bs"
  shows "\<exists>w' bs'. blockheap_garbagecollect (Some a) w = Some (0, w') \<and> heap_rep w' a bs' \<and> live bs' = live bs \<and>
    inside a w bs w' bs'"
proof -
  obtain H where H: "w_bh w a = Some H" "bh_base H = first_id (map fst bs) None"
    using assms by (auto simp: heap_rep_def counts_ok_def)
  show ?thesis
  proof (cases "bh_freeElems H < bh_elemsPerBlock H \<or> bh_blocksAllocated H = 1")
    case True
    then show ?thesis using assms H(1) inside_refl by (auto simp: blockheap_garbagecollect_def)
  next
    case False
    from gc_loop_ok [of w a "[]" bs] assms obtain w' where
      w': "gc_loop a (last_id []) (first_id (map fst bs) None) w = Some w'" "heap_rep w' a (filter (\<lambda>x. snd (snd x) \<noteq> []) bs)" by auto
    with gc_loop_inside [of w a "[]" bs w'] assms False H live_filter [of bs] show ?thesis
      by (auto simp: blockheap_garbagecollect_def last_id_def)
  qed
qed

section \<open>Many heaps\<close>

text \<open>\<open>m\<close> gives the blocks of every heap; the heaps share neither blocks nor memory.\<close>
definition heaps_rep :: "bworld \<Rightarrow> (nat \<rightharpoonup> cblock list) \<Rightarrow> bool" where
  "heaps_rep w m \<longleftrightarrow> (\<forall>a bs. m a = Some bs \<longrightarrow> heap_rep w a bs) \<and>
     (\<forall>a c bs cs. a \<noteq> c \<longrightarrow> m a = Some bs \<longrightarrow> m c = Some cs \<longrightarrow> ids bs \<inter> ids cs = {} \<and> area w bs \<inter> area w cs = {})"

definition lives :: "(nat \<rightharpoonup> cblock list) \<Rightarrow> nat \<rightharpoonup> nat set" where
  "lives m a = map_option live (m a)"

lemma lives_upd [simp]: "lives (m(a \<mapsto> bs)) = (lives m)(a \<mapsto> live bs)"
  by (auto simp: lives_def)

lemma heaps_apart:
  "heaps_rep w m \<Longrightarrow> m a = Some bs \<Longrightarrow> m c = Some cs \<Longrightarrow> a \<noteq> c \<Longrightarrow> ids bs \<inter> ids cs = {} \<and> area w bs \<inter> area w cs = {}"
  unfolding heaps_rep_def by blast

lemma inside_heaps:
  assumes hs: "heaps_rep w m" and a: "m a = Some bs" and i: "inside a w bs w' bs'" and rep: "heap_rep w' a bs'"
  shows "heaps_rep w' (m(a \<mapsto> bs'))"
proof -
  have other: "heap_rep w' c cs \<and> area w' cs = area w cs" if "c \<noteq> a" "m c = Some cs" for c cs
  proof (rule touches_rep)
    show "touches a (ids bs) (area w bs) w w'" using i by (simp add: inside_def)
  qed (use that hs a in \<open>simp_all add: heaps_rep_def\<close>)
  have sep: "ids bs' \<inter> ids cs = {} \<and> area w' bs' \<inter> area w' cs = {}" if "c \<noteq> a" "m c = Some cs" for c cs
  proof -
    have "ids bs \<inter> ids cs = {}" "area w bs \<inter> area w cs = {}" using heaps_apart [OF hs a that(2)] that(1) by auto
    then show ?thesis using i other [OF that] by (auto simp: inside_def)
  qed
  have both: "ids xs \<inter> ids ys = {} \<and> area w' xs \<inter> area w' ys = {}"
    if "c \<noteq> d" "c \<noteq> a" "d \<noteq> a" "m c = Some xs" "m d = Some ys" for c d xs ys
    using hs that other [of c xs] other [of d ys] by (simp add: heaps_rep_def)
  have "ids xs \<inter> ids ys = {} \<and> area w' xs \<inter> area w' ys = {}"
    if "c \<noteq> d" "(m(a \<mapsto> bs')) c = Some xs" "(m(a \<mapsto> bs')) d = Some ys" for c d xs ys
    using that sep [of c xs] sep [of d ys] both [of c d xs ys]
    by (cases "c = a"; cases "d = a") (simp_all add: Int_commute)
  moreover have "heap_rep w' c xs" if "(m(a \<mapsto> bs')) c = Some xs" for c xs
    using that rep other by (simp split: if_splits)
  ultimately show ?thesis unfolding heaps_rep_def by blast
qed

lemma collect_heaps:
  assumes "heaps_rep w m" "\<forall>x. a = Some x \<longrightarrow> m x \<noteq> None"
  shows "\<exists>rv w' m'. blockheap_garbagecollect a w = Some (rv, w') \<and> heaps_rep w' m' \<and> lives m' = lives m"
proof (cases a)
  case None
  with assms(1) show ?thesis by (auto simp: blockheap_garbagecollect_def)
next
  case (Some x)
  then obtain bs where bs: "m x = Some bs" using assms(2) by auto
  then have "heap_rep w x bs" using assms(1) by (simp add: heaps_rep_def)
  from collect_inside [OF this] obtain w' bs' where
    c: "blockheap_garbagecollect (Some x) w = Some (0, w')" "heap_rep w' x bs'" "live bs' = live bs" "inside x w bs w' bs'" by blast
  from inside_heaps [OF assms(1) bs c(4,2)] c(1,3) Some bs show ?thesis
    by (intro exI [of _ 0] exI [of _ w'] exI [of _ "m(x \<mapsto> bs')"]) (auto simp: lives_def)
qed

lemma free_heaps:
  assumes "heaps_rep w m" "lives m a = Some L" "p \<in> L"
  shows "\<exists>w' m'. blockheap_free (Some a) (Some p) w = Some (Return (0, w')) \<and> heaps_rep w' m' \<and>
    lives m' = (lives m)(a \<mapsto> L - {p})"
proof -
  obtain bs where bs: "m a = Some bs" "live bs = L" using assms(2) by (auto simp: lives_def)
  then have "heap_rep w a bs" using assms(1) by (simp add: heaps_rep_def)
  from free_inside [OF this, of p] assms(3) bs(2) obtain w' bs' where
    c: "blockheap_free (Some a) (Some p) w = Some (Return (0, w'))" "heap_rep w' a bs'" "live bs' = L - {p}" "inside a w bs w' bs'" by blast
  from inside_heaps [OF assms(1) bs(1) c(4,2)] c(1,3) show ?thesis
    by (intro exI [of _ w'] exI [of _ "m(a \<mapsto> bs')"]) simp
qed

end
