(* ===== verification/Daemon.thy ===== *)
theory Daemon
  imports BallocFrame Vfs Shell
begin

text \<open>
  What keeps the daemon running: the messages of src/api.c, the hooks of src/hooks.c, timers and ticks of src/cron.c, the garbage collection of
  all heaps in src/gc.c, and the pid file and signals of src/unix.c. Memory, host files, the clock and the event loop are arguments;
  log messages are left out. \<open>None\<close> as a result: a NULL pointer is used, an \<open>assert\<close> fails, or a division by zero.
\<close>

section \<open>Messages\<close>

definition API_ADDR_MAX :: nat where "API_ADDR_MAX = 64"
definition API_CMD_MAX :: nat where "API_CMD_MAX = 64"

record api_message =
  am_sender :: string
  am_dest :: string
  am_cmd :: string
  am_flags :: u32
  am_priority :: nat
  am_req :: "dict option"
  am_res :: "dict option"

text \<open>The strings are copied at their full width, so a string of 64 characters or more is cut and not terminated.\<close>
definition api_create_message ::
    "benv \<Rightarrow> denv \<Rightarrow> ptr \<Rightarrow> string \<Rightarrow> string \<Rightarrow> string \<Rightarrow> bworld \<Rightarrow> (ptr \<times> api_message \<times> bworld) proc option" where
  "api_create_message e m hp sender dest cmd w =
     do { r \<leftarrow> blockheap_alloc e hp w;
          case r of
            Exits \<Rightarrow> Some Exits
          | Return (p, w1) \<Rightarrow>
              if p = None then None
              else Some (Return (p,
                \<lparr>am_sender = take API_ADDR_MAX sender, am_dest = take API_ADDR_MAX dest, am_cmd = take API_CMD_MAX cmd,
                 am_flags = 0, am_priority = 0, am_req = dict_new m, am_res = dict_new m\<rparr>, w1)) }"

text \<open>The strings freed with the two dictionaries, and the element given back.\<close>
definition api_destroy_message :: "ptr \<Rightarrow> ptr \<Rightarrow> api_message \<Rightarrow> bworld \<Rightarrow> (string list \<times> bworld) proc option" where
  "api_destroy_message hp p msg w =
     do { xs \<leftarrow> dict_free (am_req msg);
          ys \<leftarrow> dict_free (am_res msg);
          r \<leftarrow> blockheap_free hp p w;
          case r of Exits \<Rightarrow> Some Exits | Return (rv, w1) \<Rightarrow> Some (Return (xs @ ys, w1)) }"

definition api_gc :: "ptr \<Rightarrow> bworld \<Rightarrow> (int \<times> bworld) option" where
  "api_gc hp w = do { (rv, w1) \<leftarrow> blockheap_garbagecollect hp w; Some (0, w1) }"

text \<open>\<open>sizeof(APImsg)\<close>: three buffers, the flags and the priority padded to eight bytes, two pointers.\<close>
definition api_init :: "benv \<Rightarrow> dict option \<Rightarrow> bworld \<Rightarrow> (int \<times> nat \<times> bworld) proc option" where
  "api_init e conf w =
     do { n \<leftarrow> dconf_get_int conf (Some ''tuning.heap.api-msg'') 512;
          r \<leftarrow> blockheap_create e 216 n (Some ''api messages'') w;
          case r of Exits \<Rightarrow> Some Exits | Return (a, w1) \<Rightarrow> Some (Return (0, a, w1)) }"

definition api_fini :: "ptr \<Rightarrow> bworld \<Rightarrow> (int \<times> ptr \<times> bworld) option" where
  "api_fini hp w = do { (rv, w1) \<leftarrow> blockheap_destroy hp w; Some (0, None, w1) }"

section \<open>Hooks\<close>

definition EFAULT :: int where "EFAULT = 14"

definition hook_find :: "dict option \<Rightarrow> string option \<Rightarrow> blobptr option option" where
  "hook_find hooks name = (if name = None then Some None else dict_get_blob hooks name None)"

definition hook_destroy_children :: "blobptr option \<Rightarrow> int" where
  "hook_destroy_children hook = 0"

text \<open>A hook that is found is reported as an error; otherwise NULL is given to \<open>mem_free\<close>, which asserts that it is not.\<close>
definition hook_destroy :: "dict option \<Rightarrow> string option \<Rightarrow> (int \<times> dict option) option" where
  "hook_destroy hooks name =
     do { hp \<leftarrow> hook_find hooks name;
          if hp \<noteq> None then Some (EFAULT, hooks)
          else do { (rv, hooks1) \<leftarrow> dict_del hooks name;
                    if hp = None then None else Some (0, hooks1) } }"

text \<open>\<open>mem\<close> is the memory of a new hook; the hook returned is the one found or the new one.\<close>
definition hook_add ::
    "denv \<Rightarrow> nat \<Rightarrow> dict option \<Rightarrow> string option \<Rightarrow> bool \<Rightarrow> ((blobptr + nat) option \<times> dict option) option" where
  "hook_add m mem hooks name func =
     (if name = None \<or> \<not> func then Some (None, hooks)
      else do { hp \<leftarrow> hook_find hooks name;
                (rv, hooks1) \<leftarrow> dict_add_blob m hooks name (Some mem);
                Some (Some (case hp of None \<Rightarrow> Inr mem | Some b \<Rightarrow> Inl b), hooks1) })"

definition hook_call :: "dict option \<Rightarrow> string option \<Rightarrow> int option" where
  "hook_call hooks name = map_option (\<lambda>hp. if hp \<noteq> None then 0 else - Vfs.ENOENT) (hook_find hooks name)"

section \<open>Garbage collection\<close>

record gc_heaps =
  g_api :: ptr
  g_hints :: ptr
  g_pkg_file :: ptr
  g_pkg :: ptr
  g_cache :: ptr
  g_handle :: ptr
  g_inode :: ptr
  g_watch :: ptr
  g_dlink :: ptr

definition free_elem :: "ptr \<Rightarrow> nat \<Rightarrow> bworld \<Rightarrow> bworld option" where
  "free_elem hp a w =
     do { r \<leftarrow> blockheap_free hp (Some a) w; case r of Exits \<Rightarrow> None | Return (rv, w1) \<Rightarrow> Some w1 }"

text \<open>\<open>pkg_gc\<close> with its heaps: the handles released go back to the package heap, then both heaps are collected.\<close>
definition pkg_gc_mem ::
    "gc_heaps \<Rightarrow> int \<Rightarrow> int \<Rightarrow> pkg_state \<Rightarrow> bworld \<Rightarrow> (int \<times> pkg_state \<times> bworld) option" where
  "pkg_gc_mem g time life s w =
     do { s1 \<leftarrow> pkg_gc time life s;
          w1 \<leftarrow> fold_opt (free_elem (g_pkg g)) (filter (\<lambda>a. a \<notin> set (pk_list s1)) (pk_list s)) w;
          (r1, w2) \<leftarrow> blockheap_garbagecollect (g_pkg_file g) w1;
          (r2, w3) \<leftarrow> blockheap_garbagecollect (g_pkg g) w2;
          Some (0, s1, w3) }"

definition gc_all :: "gc_heaps \<Rightarrow> int \<Rightarrow> int \<Rightarrow> pkg_state \<Rightarrow> bworld \<Rightarrow> (int \<times> pkg_state \<times> bworld) option" where
  "gc_all g time life s w =
     do { (f1, w1) \<leftarrow> api_gc (g_api g) w;
          (f2, w2) \<leftarrow> shell_gc (g_hints g) w1;
          (f3, s3, w3) \<leftarrow> pkg_gc_mem g time life s w2;
          (f4, w4) \<leftarrow> vfs_gc (g_cache g) (g_handle g) (g_inode g) (g_watch g) w3;
          (r, w5) \<leftarrow> blockheap_garbagecollect (g_dlink g) w4;
          Some (f1 + f2 + f3 + f4, s3, w5) }"

section \<open>Timers\<close>

record ev_timer =
  et_callback :: string
  et_after :: int
  et_repeat :: int

definition evt_timer_add_periodic :: "string \<Rightarrow> int \<Rightarrow> ev_timer list \<Rightarrow> ev_timer list" where
  "evt_timer_add_periodic callback interval ts = ts @ [\<lparr>et_callback = callback, et_after = 0, et_repeat = interval\<rparr>]"

definition evt_timer_add_oneshot :: "string \<Rightarrow> int \<Rightarrow> ev_timer list \<Rightarrow> ev_timer list" where
  "evt_timer_add_oneshot callback timeout ts = ts @ [\<lparr>et_callback = callback, et_after = timeout, et_repeat = 0\<rparr>]"

text \<open>\<open>life\<close> is \<open>pkg_lifetime\<close>; the first result is \<open>conf.now\<close>.\<close>
definition cron_tick ::
    "gc_heaps \<Rightarrow> dict option \<Rightarrow> int \<Rightarrow> int \<Rightarrow> pkg_state \<Rightarrow> bworld \<Rightarrow> (int \<times> pkg_state \<times> bworld) option" where
  "cron_tick g conf time life s w =
     do { v \<leftarrow> dconf_get_str conf (Some ''tuning.timer.global_gc'') None;
          p \<leftarrow> timestr_to_time v 60;
          if p = 0 then None
          else if time smod p = 1 then do { (f, s1, w1) \<leftarrow> gc_all g time life s w; Some (time, s1, w1) }
          else Some (time, s, w) }"

definition cron_init :: "ev_timer list \<Rightarrow> int \<times> ev_timer list" where
  "cron_init ts = (1, evt_timer_add_periodic ''cron_tick'' 1 ts)"

section \<open>The pid file\<close>

text \<open>The host's files with their contents, the name kept and whether the file is open.\<close>
record pid_state =
  pf_files :: "string \<rightharpoonup> string"
  pf_name :: string
  pf_open :: bool

definition pidfile_open :: "bool \<Rightarrow> nat \<Rightarrow> string \<Rightarrow> pid_state \<Rightarrow> (int \<times> pid_state) option" where
  "pidfile_open fopen_ok pid name st =
     (if pf_name st \<noteq> [] then Some (- 1, st)
      else if pf_files st name \<noteq> None then Some (- 1, st)
      else if \<not> fopen_ok then None
      else Some (0, st\<lparr>pf_files := (pf_files st)(name \<mapsto> show_nat pid @ [c_nl]), pf_name := take 4096 name, pf_open := True\<rparr>))"

definition pidfile_close :: "pid_state \<Rightarrow> pid_state option" where
  "pidfile_close st =
     (if pf_open st then Some (st\<lparr>pf_files := (pf_files st)(pf_name st := None), pf_name := [], pf_open := False\<rparr>) else None)"

section \<open>Signals\<close>

datatype csignal = SIGHUP | SIGQUIT | SIGILL | SIGTRAP | SIGABRT | SIGKILL | SIGUSR1 | SIGSEGV | SIGUSR2 | SIGPIPE | SIGTERM | SIGCHLD

datatype sig_event = StackUnwind | ModuleDying | DaemonRestart | ConfReload | ReapChildren | Goodbye

text \<open>Without profiling; \<open>in_module\<close> is false in a build that does not define CONFIG_MODULES, \<open>md\<close> is the answer of \<open>module_dying\<close>. The result says whether \<open>conf.dying\<close> is
  set and what was called; \<open>daemon_restart\<close> and \<open>goodbye\<close> do not return.\<close>
definition signal_handler :: "bool \<Rightarrow> int \<Rightarrow> csignal \<Rightarrow> bool \<Rightarrow> bool \<times> sig_event list" where
  "signal_handler in_module md sig dying =
     (let d = (dying \<or> sig \<in> {SIGTERM, SIGQUIT, SIGKILL}) in
      if sig = SIGSEGV
      then (if in_module then (d, [StackUnwind, ModuleDying] @ (if md \<noteq> 0 then [DaemonRestart] else []))
            else (True, [StackUnwind]))
      else if sig = SIGHUP then (d, [ConfReload])
      else if sig = SIGCHLD then (d, [ReapChildren])
      else if sig = SIGTERM \<or> sig = SIGKILL then (d, [Goodbye])
      else (d, []))"

definition signal_set :: "csignal list" where
  "signal_set = [SIGHUP, SIGUSR1, SIGUSR2, SIGQUIT, SIGTERM, SIGPIPE, SIGCHLD, SIGSEGV, SIGCHLD]"

text \<open>The signals handled, each with whether it runs on the alternate stack and is reset afterwards.\<close>
definition signal_init :: "(csignal \<times> bool) list" where
  "signal_init = map (\<lambda>s. (s, s = SIGSEGV)) signal_set"

end
