(* ===== verification/DaemonOps.thy ===== *)
theory DaemonOps
  imports Daemon
begin

text \<open>
  Properties of the daemon's upkeep: collecting all heaps at once, the pid file, and the hooks.
\<close>

section \<open>Collecting\<close>

text \<open>The heaps of the daemon are in memory, or not created.\<close>
definition gc_known :: "gc_heaps \<Rightarrow> (nat \<rightharpoonup> cblock list) \<Rightarrow> bool" where
  "gc_known g m \<longleftrightarrow>
     (\<forall>h \<in> {g_api g, g_hints g, g_pkg_file g, g_pkg g, g_cache g, g_handle g, g_inode g, g_watch g, g_dlink g}.
        \<forall>x. h = Some x \<longrightarrow> m x \<noteq> None)"

lemma lives_dom: "lives m' = lives m \<Longrightarrow> m' x = None \<longleftrightarrow> m x = None"
  by (metis lives_def map_option_is_None)

lemma collect_lives:
  assumes "heaps_rep w m" "lives m = L" "\<forall>x. a = Some x \<longrightarrow> L x \<noteq> None"
  shows "\<exists>rv w' m'. blockheap_garbagecollect a w = Some (rv, w') \<and> heaps_rep w' m' \<and> lives m' = L"
proof -
  have "\<forall>x. a = Some x \<longrightarrow> m x \<noteq> None" using assms(2,3) by (auto simp: lives_def)
  from collect_heaps [OF assms(1) this] assms(2) show ?thesis by simp
qed

lemma free_elems:
  assumes "heaps_rep w m" "lives m a = Some L" "distinct xs" "set xs \<subseteq> L"
  shows "\<exists>w' m'. fold_opt (free_elem (Some a)) xs w = Some w' \<and> heaps_rep w' m' \<and> lives m' = (lives m)(a \<mapsto> L - set xs)"
  using assms
proof (induction xs arbitrary: w m L)
  case Nil
  then have "lives m = (lives m)(a \<mapsto> L - set [])" by (simp add: fun_upd_idem)
  then show ?case using Nil.prems(1) by (intro exI [of _ w] exI [of _ m]) simp
next
  case (Cons x xs)
  from free_heaps [OF Cons.prems(1,2), of x] Cons.prems(4) obtain w1 m1 where
    1: "blockheap_free (Some a) (Some x) w = Some (Return (0, w1))" "heaps_rep w1 m1" "lives m1 = (lives m)(a \<mapsto> L - {x})" by auto
  have "lives m1 a = Some (L - {x})" "distinct xs" "set xs \<subseteq> L - {x}" using 1(3) Cons.prems(3,4) by auto
  from Cons.IH [OF 1(2) this] obtain w' m' where
    2: "fold_opt (free_elem (Some a)) xs w1 = Some w'" "heaps_rep w' m'" "lives m' = (lives m1)(a \<mapsto> L - {x} - set xs)" by blast
  have "L - {x} - set xs = L - set (x # xs)" by auto
  then have "lives m' = (lives m)(a \<mapsto> L - set (x # xs))" using 1(3) 2(3) by (simp only: fun_upd_upd)
  moreover have "free_elem (Some a) x w = Some w1" using 1(1) by (simp add: free_elem_def)
  ultimately show ?case using 2(1,2) by (intro exI [of _ w'] exI [of _ m']) simp
qed

text \<open>A package state and the memory in step: the live elements of the package heap are the listed handles.\<close>
definition in_step :: "gc_heaps \<Rightarrow> pkg_state \<Rightarrow> bworld \<Rightarrow> (nat \<rightharpoonup> cblock list) \<Rightarrow> bool" where
  "in_step g s w m \<longleftrightarrow> pkg_inv s \<and> heaps_rep w m \<and> gc_known g m \<and>
     (\<exists>a. g_pkg g = Some a \<and> lives m a = Some (set (pk_list s)))"

text \<open>The same with elements \<open>K\<close> that are in use without being listed.\<close>
definition keeps :: "nat set \<Rightarrow> gc_heaps \<Rightarrow> pkg_state \<Rightarrow> bworld \<Rightarrow> (nat \<rightharpoonup> cblock list) \<Rightarrow> bool" where
  "keeps K g s w m \<longleftrightarrow> pkg_inv s \<and> heaps_rep w m \<and> gc_known g m \<and> K \<inter> set (pk_list s) = {} \<and>
     (\<exists>a. g_pkg g = Some a \<and> lives m a = Some (set (pk_list s) \<union> K))"

lemma in_step_keeps: "in_step g s w m \<longleftrightarrow> keeps {} g s w m"
  by (simp add: in_step_def keeps_def)

definition unexpired :: "int \<Rightarrow> int \<Rightarrow> (string \<rightharpoonup> pkg_handle) \<Rightarrow> string \<rightharpoonup> pkg_handle" where
  "unexpired time life v = (\<lambda>n. case v n of None \<Rightarrow> None | Some p \<Rightarrow> if ph_refcnt p = 0 \<and> ph_otime p + life < time then None else Some p)"

lemma gc_known_lives: "gc_known g m \<Longrightarrow> (\<And>x. L x = None \<longleftrightarrow> m x = None) \<Longrightarrow> h \<in> {g_api g, g_hints g, g_pkg_file g, g_pkg g, g_cache g,
    g_handle g, g_inode g, g_watch g, g_dlink g} \<Longrightarrow> \<forall>x. h = Some x \<longrightarrow> L x \<noteq> None"
  unfolding gc_known_def by blast

lemma pkg_gc_mem_ok:
  assumes "pkg_inv s" "heaps_rep w m" "gc_known g m" "g_pkg g = Some a" "lives m a = Some (set (pk_list s) \<union> K)"
    "K \<inter> set (pk_list s) = {}"
  shows "\<exists>s' w' m'. pkg_gc_mem g time life s w = Some (0, s', w') \<and> pkg_gc time life s = Some s' \<and> pkg_inv s' \<and> heaps_rep w' m' \<and>
    pkg_view s' = unexpired time life (pkg_view s) \<and> lives m' = (lives m)(a \<mapsto> set (pk_list s') \<union> K) \<and>
    K \<inter> set (pk_list s') = {}"
proof -
  from pkg_gc_ok [OF assms(1), of time life] obtain s' where
    s': "pkg_gc time life s = Some s'" "pkg_inv s'" "set (pk_list s') \<subseteq> set (pk_list s)"
      "pkg_view s' = unexpired time life (pkg_view s)" unfolding unexpired_def expired_def by blast
  let ?xs = "filter (\<lambda>a. a \<notin> set (pk_list s')) (pk_list s)"
  define L where "L = (lives m)(a \<mapsto> set (pk_list s') \<union> K)"
  have "distinct ?xs" "set ?xs \<subseteq> set (pk_list s) \<union> K" using assms(1) by (auto simp: pkg_inv_def)
  from free_elems [OF assms(2,5) this] obtain w1 m1 where
    1: "fold_opt (free_elem (Some a)) ?xs w = Some w1" "heaps_rep w1 m1"
      "lives m1 = (lives m)(a \<mapsto> set (pk_list s) \<union> K - set ?xs)" by blast
  have "set (pk_list s) \<union> K - set ?xs = set (pk_list s') \<union> K" using s'(3) assms(6) by auto
  with 1(3) have L: "lives m1 = L" by (simp add: L_def)
  have dom: "L x = None \<longleftrightarrow> m x = None" for x using assms(5) by (auto simp: L_def lives_def)
  from collect_lives [OF 1(2) L gc_known_lives [OF assms(3) dom, where h = "g_pkg_file g"]] obtain r2 w2 m2 where
    2: "blockheap_garbagecollect (g_pkg_file g) w1 = Some (r2, w2)" "heaps_rep w2 m2" "lives m2 = L" by auto
  from collect_lives [OF 2(2,3) gc_known_lives [OF assms(3) dom, where h = "g_pkg g"]] obtain r3 w3 m3 where
    3: "blockheap_garbagecollect (g_pkg g) w2 = Some (r3, w3)" "heaps_rep w3 m3" "lives m3 = L" by auto
  show ?thesis using s' 1(1) 2(1) 3 assms(4,6)
    by (intro exI [of _ s'] exI [of _ w3] exI [of _ m3]) (auto simp: pkg_gc_mem_def L_def)
qed

lemma vfs_gc_ok:
  assumes "heaps_rep w m" "lives m = L" "\<forall>h \<in> {hc, hh, hi, hw}. \<forall>x. h = Some x \<longrightarrow> L x \<noteq> None"
  shows "\<exists>w' m'. vfs_gc hc hh hi hw w = Some (0, w') \<and> heaps_rep w' m' \<and> lives m' = L"
proof -
  from collect_lives [OF assms(1,2), of hc] assms(3) obtain r1 w1 m1 where
    1: "blockheap_garbagecollect hc w = Some (r1, w1)" "heaps_rep w1 m1" "lives m1 = L" by auto
  from collect_lives [OF 1(2,3), of hh] assms(3) obtain r2 w2 m2 where
    2: "blockheap_garbagecollect hh w1 = Some (r2, w2)" "heaps_rep w2 m2" "lives m2 = L" by auto
  from collect_lives [OF 2(2,3), of hi] assms(3) obtain r3 w3 m3 where
    3: "blockheap_garbagecollect hi w2 = Some (r3, w3)" "heaps_rep w3 m3" "lives m3 = L" by auto
  from collect_lives [OF 3(2,3), of hw] assms(3) obtain r4 w4 m4 where
    4: "blockheap_garbagecollect hw w3 = Some (r4, w4)" "heaps_rep w4 m4" "lives m4 = L" by auto
  show ?thesis using 1(1) 2(1) 3(1) 4 by (auto simp: vfs_gc_def)
qed

lemma gc_all_keeps:
  assumes "keeps K g s w m"
  shows "\<exists>s' w' m'. gc_all g time life s w = Some (0, s', w') \<and> keeps K g s' w' m' \<and> pkg_gc time life s = Some s' \<and>
    pkg_view s' = unexpired time life (pkg_view s) \<and> (\<forall>x. g_pkg g \<noteq> Some x \<longrightarrow> lives m' x = lives m x)"
proof -
  from assms obtain a where s: "pkg_inv s" "heaps_rep w m" and k: "gc_known g m" and a: "g_pkg g = Some a"
    and La: "lives m a = Some (set (pk_list s) \<union> K)" and K: "K \<inter> set (pk_list s) = {}" by (auto simp: keeps_def)
  have dom: "lives m x = None \<longleftrightarrow> m x = None" for x by (simp add: lives_def)
  from collect_lives [OF s(2) refl gc_known_lives [OF k dom, where h = "g_api g"]] obtain r1 w1 m1 where
    1: "blockheap_garbagecollect (g_api g) w = Some (r1, w1)" "heaps_rep w1 m1" "lives m1 = lives m" by auto
  from collect_lives [OF 1(2,3) gc_known_lives [OF k dom, where h = "g_hints g"]] obtain r2 w2 m2 where
    2: "blockheap_garbagecollect (g_hints g) w1 = Some (r2, w2)" "heaps_rep w2 m2" "lives m2 = lives m" by auto
  have k2: "gc_known g m2" using k lives_dom [OF 2(3)] by (simp add: gc_known_def)
  from pkg_gc_mem_ok [OF s(1) 2(2) k2 a _ K, of time life] La 2(3) obtain s' w3 m3 where
    3: "pkg_gc_mem g time life s w2 = Some (0, s', w3)" "pkg_inv s'" "heaps_rep w3 m3" "pkg_gc time life s = Some s'"
      "pkg_view s' = unexpired time life (pkg_view s)" "lives m3 = (lives m)(a \<mapsto> set (pk_list s') \<union> K)"
      "K \<inter> set (pk_list s') = {}" by auto
  define L where "L = (lives m)(a \<mapsto> set (pk_list s') \<union> K)"
  have L3: "lives m3 = L" using 3(6) by (simp add: L_def)
  have dom3: "L x = None \<longleftrightarrow> m x = None" for x using La by (auto simp: L_def lives_def)
  note kn = gc_known_lives [OF k dom3]
  have "\<forall>h \<in> {g_cache g, g_handle g, g_inode g, g_watch g}. \<forall>x. h = Some x \<longrightarrow> L x \<noteq> None"
    by (intro ballI kn) auto
  from vfs_gc_ok [OF 3(3) L3 this] obtain w4 m4 where
    4: "vfs_gc (g_cache g) (g_handle g) (g_inode g) (g_watch g) w3 = Some (0, w4)" "heaps_rep w4 m4" "lives m4 = L" by blast
  from collect_lives [OF 4(2,3) kn [where h = "g_dlink g"]] obtain r5 w5 m5 where
    5: "blockheap_garbagecollect (g_dlink g) w4 = Some (r5, w5)" "heaps_rep w5 m5" "lives m5 = L" by auto
  have "gc_all g time life s w = Some (0, s', w5)"
    using 1(1) 2(1) 3(1) 4(1) 5(1) by (simp add: gc_all_def api_gc_def shell_gc_def)
  moreover have "m5 x = None \<longleftrightarrow> m x = None" for x using dom3 [of x] 5(3) by (metis lives_def map_option_is_None)
  then have "keeps K g s' w5 m5" using 3(2,7) 5 k a by (simp add: keeps_def gc_known_def L_def)
  ultimately show ?thesis using 3(4,5) 5(3) a by (intro exI [of _ s'] exI [of _ w5] exI [of _ m5]) (simp add: L_def)
qed

lemma gc_all_ok:
  assumes "in_step g s w m"
  shows "\<exists>s' w' m'. gc_all g time life s w = Some (0, s', w') \<and> in_step g s' w' m' \<and>
    pkg_view s' = unexpired time life (pkg_view s) \<and> (\<forall>x. g_pkg g \<noteq> Some x \<longrightarrow> lives m' x = lives m x)"
  using gc_all_keeps [of "{}" g s w m time life] assms unfolding in_step_keeps by blast

section \<open>The pid file\<close>

text \<open>Opening and closing the pid file leaves the host's files as they were; while it is open a second daemon is refused.\<close>
lemma pidfile_cycle:
  assumes "pf_name st = []" "pf_files st name = None" "name \<noteq> []" "length name \<le> 4096"
  shows "\<exists>st1. pidfile_open True pid name st = Some (0, st1) \<and>
    (\<forall>st2 q. pf_files st2 = pf_files st1 \<longrightarrow> pidfile_open True q name st2 = Some (- 1, st2)) \<and>
    (\<exists>st3. pidfile_close st1 = Some st3 \<and> pf_files st3 = pf_files st \<and> pf_name st3 = [])"
proof -
  have "(pf_files st)(name := None) = pf_files st" using assms(2) by auto
  then show ?thesis using assms by (simp add: pidfile_open_def pidfile_close_def)
qed

section \<open>Hooks\<close>

text \<open>The dictionary of the hooks is never created: no hook is ever found, and destroying one fails an assertion.\<close>
lemma hooks_unregistered:
  "hook_find None name = Some None" "hook_call None name = Some (- Vfs.ENOENT)" "hook_destroy None name = None"
  "hook_add m mem None (Some n) True = Some (Some (Inr mem), None)"
  by (simp_all add: hook_find_def hook_call_def hook_destroy_def hook_add_def dict_get_blob_def dict_add_blob_def
      dict_add_args_def dict_del_def)

end
