(* ===== verification/BallocGrow.thy ===== *)
theory BallocGrow
  imports BallocFrame
begin

text \<open>
  Operations that take memory from the system: creating a heap and taking an element, which may add a block, leave all other
  heaps as they are.
\<close>

section \<open>The frame of an operation that takes memory\<close>

text \<open>\<open>I\<close> and \<open>R\<close> are new: no block is at \<open>I\<close>, and no block has memory in \<open>R\<close>.\<close>
definition fresh :: "bworld \<Rightarrow> nat set \<Rightarrow> nat set \<Rightarrow> bool" where
  "fresh w I R \<longleftrightarrow> (\<forall>b \<in> I. w_blocks w b = None) \<and> (\<forall>c. region (w_blocks w) c \<inter> R = {})"

definition within :: "nat \<Rightarrow> bworld \<Rightarrow> cblock list \<Rightarrow> bworld \<Rightarrow> cblock list \<Rightarrow> bool" where
  "within a w bs w' bs' \<longleftrightarrow> (\<exists>I R. fresh w I R \<and> touches a (ids bs \<union> I) (area w bs \<union> R) w w' \<and>
     ids bs' \<subseteq> ids bs \<union> I \<and> area w' bs' \<subseteq> area w bs \<union> R)"

lemma inside_within: "inside a w bs w' bs' \<Longrightarrow> within a w bs w' bs'"
  unfolding within_def inside_def by (rule exI [of _ "{}"], rule exI [of _ "{}"]) (simp add: fresh_def)

lemma within_inside:
  assumes "within a w bs w1 bs1" "inside a w1 bs1 w2 bs2"
  shows "within a w bs w2 bs2"
proof -
  from assms(1) obtain I R where f: "fresh w I R" and t: "touches a (ids bs \<union> I) (area w bs \<union> R) w w1"
    and s: "ids bs1 \<subseteq> ids bs \<union> I" "area w1 bs1 \<subseteq> area w bs \<union> R" by (auto simp: within_def)
  have "touches a (ids bs \<union> I) (area w bs \<union> R) w1 w2"
    by (rule touches_mono [OF _ s]) (use assms(2) in \<open>simp add: inside_def\<close>)
  with t have "touches a (ids bs \<union> I) (area w bs \<union> R) w w2" by (simp add: touches_def)
  with f s assms(2) show ?thesis unfolding within_def inside_def
    by (intro exI [of _ I] exI [of _ R]) blast
qed

lemma fresh_apart:
  assumes "heap_rep w c cs" "fresh w I R"
  shows "ids cs \<inter> I = {} \<and> area w cs \<inter> R = {}"
proof -
  have "\<exists>B. w_blocks w b = Some B" if "b \<in> ids cs" for b
    using assms(1) blocks_ok_block [of w _ cs b] that by (auto simp: heap_rep_def ids_def)
  then have "b \<notin> I" if "b \<in> ids cs" for b using assms(2) that by (force simp: fresh_def)
  moreover have "area w cs \<inter> R = {}" using assms(2) by (auto simp: fresh_def area_def)
  ultimately show ?thesis by blast
qed

lemma heaps_dom: "heaps_rep w m \<Longrightarrow> dom m \<subseteq> dom (w_bh w)"
  unfolding heaps_rep_def heap_rep_def by fastforce

text \<open>The heap is one of those known, or a new one.\<close>
lemma within_heaps:
  assumes hs: "heaps_rep w m" and bs: "m a = Some bs \<or> m a = None \<and> bs = []"
    and i: "within a w bs w' bs'" and rep: "heap_rep w' a bs'"
  shows "heaps_rep w' (m(a \<mapsto> bs'))"
proof -
  from i obtain I R where f: "fresh w I R" and t: "touches a (ids bs \<union> I) (area w bs \<union> R) w w'"
    and s: "ids bs' \<subseteq> ids bs \<union> I" "area w' bs' \<subseteq> area w bs \<union> R" by (auto simp: within_def)
  have rp: "heap_rep w c cs" if "m c = Some cs" for c cs using hs that by (simp add: heaps_rep_def)
  have off: "ids cs \<inter> (ids bs \<union> I) = {} \<and> area w cs \<inter> (area w bs \<union> R) = {}" if "c \<noteq> a" "m c = Some cs" for c cs
    using heaps_apart [OF hs that(2) _ that(1)] fresh_apart [OF rp [OF that(2)] f] bs
    by (auto simp: area_def)
  have other: "heap_rep w' c cs \<and> area w' cs = area w cs" if "c \<noteq> a" "m c = Some cs" for c cs
    using touches_rep [OF t rp [OF that(2)] that(1)] off [OF that] by blast
  have sep: "ids bs' \<inter> ids cs = {} \<and> area w' bs' \<inter> area w' cs = {}" if "c \<noteq> a" "m c = Some cs" for c cs
    using off [OF that] other [OF that] s by blast
  have both: "ids xs \<inter> ids ys = {} \<and> area w' xs \<inter> area w' ys = {}"
    if "c \<noteq> d" "c \<noteq> a" "d \<noteq> a" "m c = Some xs" "m d = Some ys" for c d xs ys
    using heaps_apart [OF hs that(4,5,1)] that other [of c xs] other [of d ys] by simp
  have "ids xs \<inter> ids ys = {} \<and> area w' xs \<inter> area w' ys = {}"
    if "c \<noteq> d" "(m(a \<mapsto> bs')) c = Some xs" "(m(a \<mapsto> bs')) d = Some ys" for c d xs ys
    using that sep [of c xs] sep [of d ys] both [of c d xs ys]
    by (cases "c = a"; cases "d = a") (simp_all add: Int_commute)
  moreover have "heap_rep w' c xs" if "(m(a \<mapsto> bs')) c = Some xs" for c xs
    using that rep other by (simp split: if_splits)
  ultimately show ?thesis unfolding heaps_rep_def by blast
qed

section \<open>A new block\<close>

lemma block_new_touches:
  assumes env: "balloc_env_ok e" and rep: "heap_rep w a bs" and run: "blockheap_block_new e a w = Some (rv, w')"
  shows "\<exists>I R. fresh w I R \<and> touches a I R w w' \<and> (\<forall>b \<in> I. region (w_blocks w') b \<subseteq> R) \<and>
    (rv = 0 \<longrightarrow> (\<exists>H b. w_bh w' a = Some H \<and> bh_base H = Some b \<and> b \<in> I))"
proof -
  obtain H where H: "w_bh w a = Some H" "heap_fits H" using rep by (auto simp: heap_rep_def counts_ok_def)
  let ?n = "unat (bh_elemsPerBlock H)" and ?st = "unat (bh_elemSize H) + MEMBLOCK_SIZE"
  let ?sz = "(bh_elemsPerBlock H + 1) * (bh_elemSize H + of_nat MEMBLOCK_SIZE)"
  show ?thesis
  proof (cases "be_block e w")
    case None
    with run H(1) have "rv = 1" "w' = w" by (auto simp: blockheap_block_new_def)
    then show ?thesis by (intro exI [of _ "{}"]) (simp add: fresh_def touches_def)
  next
    case (Some b)
    then have nb: "w_blocks w b = None" using env by (simp add: balloc_env_ok_def)
    show ?thesis
    proof (cases "be_mmap e w ?sz")
      case None
      with run H(1) Some have "rv = 1" and w': "w' = w\<lparr>w_blocks := (w_blocks w)(b \<mapsto>
          \<lparr>b_alloc_size = ?sz, b_next = bh_base H, b_elems = None, b_free = empty_list, b_used = empty_list\<rparr>)\<rparr>"
        by (auto simp: blockheap_block_new_def)
      then show ?thesis using nb by (intro exI [of _ "{b}"] exI [of _ "{}"]) (simp add: fresh_def touches_def region_def)
    next
      case mm: (Some m)
      have "dl_rep (w_nodes w) empty_list []" by (rule dl_rep_empty)
      from carve_ok [OF this, of ?st m ?n b "w_owner w"] obtain h own l where
        c: "carve ?n m ?st b (w_nodes w) (w_owner w) empty_list = Some (h, own, l)"
        "same_but {m..<m + ?n * ?st} (w_nodes w) h" "\<forall>x. x \<notin> {m..<m + ?n * ?st} \<longrightarrow> own x = w_owner w x"
        by (auto simp: MEMBLOCK_SIZE_def)
      let ?R = "{m..<m + unat ?sz}"
      have w': "w' = w\<lparr>w_bh := (w_bh w)(a \<mapsto> H\<lparr>bh_blocksAllocated := bh_blocksAllocated H + 1,
          bh_freeElems := bh_freeElems H + bh_elemsPerBlock H, bh_base := Some b\<rparr>), w_nodes := h, w_owner := own,
          w_blocks := (w_blocks w)(b \<mapsto> \<lparr>b_alloc_size = ?sz, b_next = bh_base H, b_elems = Some m, b_free = l, b_used = empty_list\<rparr>)\<rparr>"
        using run H(1) Some mm c(1) alloc_size_nat(2) [OF H(2)] by (simp add: blockheap_block_new_def set_bh_Some [OF H(1)])
      have "m + ?n * ?st \<le> m + unat ?sz" using alloc_size_nat(1) [OF H(2)] by simp
      then have "touches a {b} ?R w w'" using c(2,3) by (auto simp: w' touches_def same_but_def)
      moreover have "region (w_blocks w) c \<inter> ?R = {}" for c
        using env mm unfolding balloc_env_ok_def by (subst Int_commute) blast
      then have "fresh w {b} ?R" using nb by (simp add: fresh_def)
      ultimately show ?thesis by (intro exI [of _ "{b}"] exI [of _ ?R]) (simp add: w' region_def)
    qed
  qed
qed

lemma block_new_within:
  assumes env: "balloc_env_ok e" and rep: "heap_rep w a bs" and run: "blockheap_block_new e a w = Some (rv, w')"
    and rep': "heap_rep w' a bs'" and bs': "bs' = bs \<or> rv = 0 \<and> (\<exists>b fr. bs' = (b, fr, []) # bs)"
  shows "within a w bs w' bs'"
proof -
  from block_new_touches [OF env rep run] obtain I R where
    f: "fresh w I R" and t: "touches a I R w w'" and r: "\<forall>b \<in> I. region (w_blocks w') b \<subseteq> R"
    and base: "rv = 0 \<longrightarrow> (\<exists>H b. w_bh w' a = Some H \<and> bh_base H = Some b \<and> b \<in> I)" by blast
  have id: "ids bs' \<subseteq> ids bs \<union> I"
  proof (cases "bs' = bs")
    case False
    with bs' obtain b fr where b: "rv = 0" "bs' = (b, fr, []) # bs" by auto
    with rep' base have "b \<in> I" by (auto simp: heap_rep_def counts_ok_def first_id_def)
    with b show ?thesis by auto
  qed auto
  have "region (w_blocks w') c \<subseteq> area w bs \<union> R" if "c \<in> ids bs'" for c
  proof (cases "c \<in> I")
    case False
    with t have "region (w_blocks w') c = region (w_blocks w) c" by (simp add: touches_def region_def)
    with False id that show ?thesis by (auto simp: area_def)
  qed (use r in auto)
  then have "area w' bs' \<subseteq> area w bs \<union> R" by (auto simp: area_def)
  moreover have "touches a (ids bs \<union> I) (area w bs \<union> R) w w'" by (rule touches_mono [OF t]) auto
  ultimately show ?thesis using f id unfolding within_def by blast
qed

section \<open>Creating a heap\<close>

lemma create_heaps:
  assumes env: "balloc_env_ok e" and hs: "heaps_rep w m" and lst: "heaps_listed w"
    and sz: "sz \<noteq> 0" and n: "0 < n" "n < 2 ^ 31" and fits: "(nat n + 1) * (unat (pad8 sz) + MEMBLOCK_SIZE) < 2 ^ 64"
  shows "blockheap_create e sz n name w = Some Exits \<or>
    (\<exists>a w' m'. blockheap_create e sz n name w = Some (Return (a, w')) \<and> m a = None \<and> heaps_rep w' m' \<and>
       lives m' = (lives m)(a \<mapsto> {}) \<and> heaps_listed w')"
proof -
  from create_ok [OF env lst sz n fits, of name] show ?thesis
  proof (elim disjE exE conjE)
    fix a w' b fr
    assume run: "blockheap_create e sz n name w = Some (Return (a, w'))" and na: "w_bh w a = None"
      and rep: "heap_rep w' a [(b, fr, [])]" and l: "heaps_listed w'"
    let ?w0 = "w\<lparr>w_bh := (w_bh w)(a \<mapsto> empty_heap sz n)\<rparr>"
    from run obtain w1 H1 where w1: "blockheap_block_new e a ?w0 = Some (0, w1)"
      and w': "w_bh w1 a = Some H1" "w_bh w' = (w_bh w1)(a \<mapsto> H1\<lparr>bh_name := (case name of None \<Rightarrow> [] | Some s \<Rightarrow> take 63 s)\<rparr>)"
        "w_blocks w' = w_blocks w1" "w_nodes w' = w_nodes w1" "w_owner w' = w_owner w1"
      unfolding blockheap_create_def pad8_def' Let_def empty_heap_def [symmetric]
      by (auto simp: set_bh_def simp del: fun_upd_apply split: if_splits option.splits bind_splits)
    have "heap_rep ?w0 a []"
      using n fits by (simp add: heap_rep_def blocks_ok_def apart_def counts_ok_def heap_fits_def empty_heap_def
          unsigned_of_int take_bit_int_eq_self)
    from block_new_touches [OF env this w1] obtain I R where
      f: "fresh ?w0 I R" and t: "touches a I R ?w0 w1" and r: "\<forall>b \<in> I. region (w_blocks w1) b \<subseteq> R"
      and base: "\<exists>H b. w_bh w1 a = Some H \<and> bh_base H = Some b \<and> b \<in> I" by auto
    have b: "b \<in> I" using base rep w' by (auto simp: heap_rep_def counts_ok_def first_id_def)
    have "within a w [] w' [(b, fr, [])]" unfolding within_def
    proof (intro exI conjI)
      show "fresh w I R" using f by (simp add: fresh_def)
      show "touches a (ids [] \<union> I) (area w [] \<union> R) w w'" using t w' by (simp add: touches_def area_def)
      show "ids [(b, fr, [])] \<subseteq> ids [] \<union> I" using b by simp
      show "area w' [(b, fr, [])] \<subseteq> area w [] \<union> R" using b r w' by (simp add: area_def)
    qed
    moreover have ma: "m a = None" using heaps_dom [OF hs] na by (auto simp: subset_iff dom_def)
    ultimately have "heaps_rep w' (m(a \<mapsto> [(b, fr, [])]))" using within_heaps [OF hs _ _ rep, of "[]"] by simp
    then show ?thesis using run l ma
      by (intro disjI2 exI [of _ a] exI [of _ w'] exI [of _ "m(a \<mapsto> [(b, fr, [])])"]) simp
  qed simp
qed

section \<open>Taking an element\<close>

lemma find_free_mem:
  "lseg (w_blocks w) xs None \<Longrightarrow> find_free w (first_id xs None) = Some (Some b) \<Longrightarrow> b \<in> set xs"
proof (induction xs)
  case (Cons x xs)
  then show ?case by (auto simp: find_free.simps [of w "Some x"] first_id_def split: option.splits if_splits list.splits)
qed (simp add: find_free.simps)

lemma lseg_unique: "lseg f xs None \<Longrightarrow> lseg f ys None \<Longrightarrow> first_id xs None = first_id ys None \<Longrightarrow> xs = ys"
proof (induction xs arbitrary: ys)
  case Nil
  then show ?case by (cases ys) auto
next
  case (Cons x xs)
  then obtain zs where "ys = x # zs" by (cases ys) auto
  with Cons show ?case by auto
qed

text \<open>The element is taken from a block of the heap: only that block, the memory of its elements and the counters change.\<close>
lemma take_inside:
  assumes rep: "heap_rep w a bs" and run: "take_elem a w = Some (Return (p, w'))"
    and rep': "heap_rep w' a bs'"
  shows "inside a w bs w' bs'"
proof -
  obtain H where H: "w_bh w a = Some H" "counts_ok H bs" "blocks_ok w (unat (bh_elemsPerBlock H)) bs"
    using rep by (auto simp: heap_rep_def)
  from run H(1) obtain b B h fl ul where ff: "find_free w (bh_base H) = Some (Some b)" and B: "w_blocks w b = Some B"
    and mv: "dlink_move (l_head (b_free B)) (w_nodes w) (Some (b_free B)) (Some (b_used B)) = Some (h, Some fl, Some ul)"
    and w': "w' = w\<lparr>w_bh := (w_bh w)(a \<mapsto> H\<lparr>bh_freeElems := bh_freeElems H - 1\<rparr>), w_nodes := h,
      w_blocks := (w_blocks w)(b \<mapsto> B\<lparr>b_free := fl, b_used := ul\<rparr>)\<rparr>"
    by (auto simp: take_elem_def set_bh_Some [OF H(1)] simp del: fun_upd_apply split: option.splits bind_splits if_splits)
  have b: "b \<in> ids bs" using find_free_mem [of w "map fst bs" b] ff H(2,3) by (simp add: counts_ok_def blocks_ok_def ids_def)
  then obtain fr us where fu: "(b, fr, us) \<in> set bs" by (auto simp: ids_def)
  then have ok: "blk_ok w (unat (bh_elemsPerBlock H)) (b, fr, us)" using H(3) by (auto simp: blocks_ok_def)
  then have fl: "dl_rep (w_nodes w) (b_free B) fr" "dl_rep (w_nodes w) (b_used B) us" and disj: "nodes fr \<inter> nodes us = {}"
    using B by (auto simp: blk_ok_def)
  have same: "same_but (nodes fr \<union> nodes us) (w_nodes w) h"
  proof (cases fr)
    case Nil
    then have "l_head (b_free B) = None" using dl_repD(3) [OF fl(1)] by simp
    then show ?thesis using mv by (simp add: dlink_move_def same_but_def)
  next
    case (Cons z s)
    obtain m d where z: "z = (m, d)" by (cases z)
    have "l_head (b_free B) = Some m" using dl_repD(3) [OF fl(1)] Cons z by simp
    then show ?thesis
      using dlink_move_rep [of "w_nodes w" "b_free B" "[]" m d s "b_used B" us] fl disj mv Cons z by auto
  qed
  have "nodes fr \<union> nodes us \<subseteq> area w bs" using blk_ok_region [OF ok] b by (auto simp: area_def)
  then have "h x = w_nodes w x" if "x \<notin> area w bs" for x
    using same that unfolding same_but_def by blast
  then have "touches a (ids bs) (area w bs) w w'" using b by (simp add: w' touches_def)
  moreover have "region (w_blocks w') c = region (w_blocks w) c" for c
    using B by (auto simp: w' region_def split: option.split)
  moreover have "ids bs' = ids bs"
  proof -
    from rep' obtain H' where H': "w_bh w' a = Some H'" "counts_ok H' bs'" "lseg (w_blocks w') (map fst bs') None"
      by (auto simp: heap_rep_def blocks_ok_def)
    have "map fst bs' = map fst bs"
    proof (rule lseg_unique)
      show "lseg (w_blocks w') (map fst bs') None" by (rule H'(3))
      show "lseg (w_blocks w') (map fst bs) None"
        by (rule lseg_cong [where f = "w_blocks w"]) (use H(3) B in \<open>auto simp: blocks_ok_def w'\<close>)
      show "first_id (map fst bs') None = first_id (map fst bs) None"
        using H'(1,2) H(2) by (auto simp: w' counts_ok_def)
    qed
    from arg_cong [OF this, of set] show ?thesis by (simp add: ids_def)
  qed
  ultimately show ?thesis by (simp add: inside_def area_def)
qed

lemma alloc_heaps:
  assumes env: "balloc_env_ok e" and hs: "heaps_rep w m" and L: "lives m a = Some L"
  shows "blockheap_alloc e (Some a) w = Some Exits \<or>
    (\<exists>p w' m'. blockheap_alloc e (Some a) w = Some (Return (Some p, w')) \<and> p \<notin> L \<and> heaps_rep w' m' \<and>
       lives m' = (lives m)(a \<mapsto> insert p L))"
proof -
  from L obtain bs where bs: "m a = Some bs" "live bs = L" by (auto simp: lives_def)
  have rep: "heap_rep w a bs" using hs bs(1) by (simp add: heaps_rep_def)
  have fin: ?thesis if "blockheap_alloc e (Some a) w = Some (Return (Some p, w'))" "heap_rep w' a bs'" "p \<notin> live bs"
      "live bs' = insert p (live bs)" "within a w bs w' bs'" for p w' bs'
  proof -
    have "heaps_rep w' (m(a \<mapsto> bs'))" using within_heaps [OF hs _ that(5,2)] bs(1) by simp
    then show ?thesis using that bs(2) by (intro disjI2 exI [of _ p] exI [of _ w'] exI [of _ "m(a \<mapsto> bs')"]) simp
  qed
  show ?thesis
  proof (cases "blockheap_alloc e (Some a) w = Some Exits")
    case False
    with blockheap_alloc_cases [OF env rep] obtain p w' bs' where
      r: "blockheap_alloc e (Some a) w = Some (Return (Some p, w'))" "heap_rep w' a bs'" "p \<notin> live bs" "live bs' = insert p (live bs)" by blast
    obtain H where H: "w_bh w a = Some H" using rep by (auto simp: heap_rep_def)
    have "within a w bs w' bs'"
    proof (cases "bh_freeElems H = 0")
      case False
      then show ?thesis using r(1) H take_inside [OF rep _ r(2)] inside_within by (simp add: blockheap_alloc_def)
    next
      case True
      from blockheap_block_new_ok [OF env rep] show ?thesis
      proof (elim disjE exE conjE)
        fix w1 assume w1: "blockheap_block_new e a w = Some (1, w1)" "heap_rep w1 a bs"
        from collect_inside [OF w1(2)] obtain w2 bs2 where
          w2: "blockheap_garbagecollect (Some a) w1 = Some (0, w2)" "heap_rep w2 a bs2" "inside a w1 bs w2 bs2" by blast
        then obtain H2 where H2: "w_bh w2 a = Some H2" by (auto simp: heap_rep_def)
        have "take_elem a w2 = Some (Return (Some p, w'))"
          using r(1) H True w1(1) w2(1) H2 by (simp add: blockheap_alloc_def split: if_splits)
        from take_inside [OF w2(2) this r(2)] w2(3) block_new_within [OF env rep w1, simplified]
        show ?thesis by (blast intro: within_inside)
      next
        fix w1 b fr assume w1: "blockheap_block_new e a w = Some (0, w1)" "heap_rep w1 a ((b, fr, []) # bs)"
        have "take_elem a w1 = Some (Return (Some p, w'))" using r(1) H True w1(1) by (simp add: blockheap_alloc_def)
        from take_inside [OF w1(2) this r(2)] block_new_within [OF env rep w1, simplified]
        show ?thesis by (blast intro: within_inside)
      qed
    qed
    with r show ?thesis by (intro fin)
  qed simp
qed

section \<open>The list of heaps\<close>

text \<open>Operations on elements leave the list of heaps and the heaps on it in place.\<close>
definition same_heaps :: "bworld \<Rightarrow> bworld \<Rightarrow> bool" where
  "same_heaps w w' \<longleftrightarrow> w_hnodes w' = w_hnodes w \<and> w_heaps w' = w_heaps w \<and> dom (w_bh w') = dom (w_bh w)"

lemma same_heaps_refl [simp]: "same_heaps w w"
  by (simp add: same_heaps_def)

lemma same_heaps_trans: "same_heaps w w1 \<Longrightarrow> same_heaps w1 w2 \<Longrightarrow> same_heaps w w2"
  by (simp add: same_heaps_def)

lemma same_heaps_listed: "same_heaps w w' \<Longrightarrow> heaps_listed w \<Longrightarrow> heaps_listed w'"
  by (auto simp: same_heaps_def heaps_listed_def)

lemma set_bh_same: "set_bh a f w = Some w' \<Longrightarrow> same_heaps w w'"
proof (cases "w_bh w a")
  case (Some H)
  assume "set_bh a f w = Some w'"
  with Some have "w' = w\<lparr>w_bh := (w_bh w)(a \<mapsto> f H)\<rparr>" by (simp add: set_bh_def)
  moreover have "insert a (dom (w_bh w)) = dom (w_bh w)" using Some by (simp add: insert_absorb domI)
  ultimately show ?thesis by (simp add: same_heaps_def)
qed (simp add: set_bh_def)

lemma set_bh_frame [simp]:
  "same_heaps (w\<lparr>w_nodes := x, w_owner := y, w_blocks := z\<rparr>) w' = same_heaps w w'"
  "same_heaps w (w'\<lparr>w_nodes := x\<rparr>) = same_heaps w w'"  "same_heaps w (w'\<lparr>w_blocks := z\<rparr>) = same_heaps w w'"
  "same_heaps (w\<lparr>w_blocks := z\<rparr>) w' = same_heaps w w'" "same_heaps (unmap B w) w' = same_heaps w w'"
  by (simp_all add: same_heaps_def unmap_def Let_def split: option.split)

lemma gc_drop_same: "gc_drop a lst b w = Some w' \<Longrightarrow> same_heaps w w'"
  by (auto simp: gc_drop_def bind_eq_Some_conv split: option.splits dest!: set_bh_same intro: same_heaps_trans)

lemma gc_loop_same: "gc_loop a lst p w = Some w' \<Longrightarrow> same_heaps w w'"
proof (rule gc_loop.raw_induct [where P = "\<lambda>a lst p w w'. same_heaps w w'"], goal_cases)
  case (1 gc a lst p w w')
  then show ?case by (auto split: option.splits if_splits intro: same_heaps_trans gc_drop_same)
qed

lemma collect_same: "blockheap_garbagecollect a w = Some (rv, w') \<Longrightarrow> same_heaps w w'"
  by (auto simp: blockheap_garbagecollect_def gc_loop_same split: option.splits bind_splits if_splits)

lemma take_same: "take_elem a w = Some (Return (p, w')) \<Longrightarrow> same_heaps w w'"
  by (auto simp: take_elem_def dest!: set_bh_same split: option.splits bind_splits if_splits)

lemma free_same: "blockheap_free a p w = Some (Return (rv, w')) \<Longrightarrow> same_heaps w w'"
  by (auto simp: blockheap_free_def Let_def dest!: set_bh_same split: option.splits bind_splits if_splits)

lemma block_new_same: "blockheap_block_new e a w = Some (rv, w') \<Longrightarrow> same_heaps w w'"
  using blockheap_block_new_heaps by (simp add: same_heaps_def)

lemma alloc_same:
  assumes "blockheap_alloc e a w = Some (Return (p, w'))"
  shows "same_heaps w w'"
proof -
  from assms obtain x H where x: "a = Some x" "w_bh w x = Some H" by (auto simp: blockheap_alloc_def split: option.splits bind_splits)
  show ?thesis
  proof (cases "bh_freeElems H = 0")
    case True
    with x assms obtain rv w1 where 1: "blockheap_block_new e x w = Some (rv, w1)"
      by (auto simp: blockheap_alloc_def split: bind_splits)
    show ?thesis
    proof (cases "rv = 0")
      case True
      with x assms 1 \<open>bh_freeElems H = 0\<close> have "take_elem x w1 = Some (Return (p, w'))" by (simp add: blockheap_alloc_def)
      then show ?thesis using block_new_same [OF 1] take_same same_heaps_trans by blast
    next
      case False
      with x assms 1 True obtain r w2 where "blockheap_garbagecollect (Some x) w1 = Some (r, w2)" "take_elem x w2 = Some (Return (p, w'))"
        by (auto simp: blockheap_alloc_def split: bind_splits if_splits)
      then show ?thesis using same_heaps_trans [OF block_new_same [OF 1] same_heaps_trans [OF collect_same take_same]] by simp
    qed
  qed (use x assms take_same in \<open>simp add: blockheap_alloc_def\<close>)
qed

end
