(* ===== verification/Startup.thy ===== *)
theory Startup
  imports Daemon BallocGrow
begin

text \<open>
  The daemon from its start: the initialisation in \<open>main\<close> (src/main.c) with its package and list heaps, the thread of the virtual file
  system (src/vfs.c), opening a package with the memory it takes, and the steps of the running daemon. The log is opened, log messages, the
  translations and the event loop's own set-up are left out. \<open>None\<close> as a result: a NULL pointer is used or a lock is waited for for ever;
  \<open>Exits\<close>: the process ends.
\<close>

section \<open>State\<close>

record daemon =
  d_conf :: "dict option"
  d_heaps :: gc_heaps
  d_now :: int
  d_life :: int
  d_timers :: "ev_timer list"
  d_pid :: pid_state
  d_pkgs :: pkg_state
  d_mem :: bworld
  d_watches :: watches
  d_inotify :: int
  d_log :: shell_st

definition no_heaps :: gc_heaps where
  "no_heaps = \<lparr>g_api = None, g_hints = None, g_pkg_file = None, g_pkg = None, g_cache = None, g_handle = None, g_inode = None,
     g_watch = None, g_dlink = None\<rparr>"

text \<open>The globals as the program is loaded.\<close>
definition daemon0 :: "(string \<rightharpoonup> string) \<Rightarrow> daemon" where
  "daemon0 files = \<lparr>d_conf = None, d_heaps = no_heaps, d_now = 0, d_life = 0, d_timers = [],
     d_pid = \<lparr>pf_files = files, pf_name = [], pf_open = False\<rparr>,
     d_pkgs = \<lparr>pk_handles = Map.empty, pk_list = [], pk_locked = False, pk_gpkgid = 1, pk_cache = Map.empty\<rparr>,
     d_mem = \<lparr>w_nodes = Map.empty, w_owner = Map.empty, w_blocks = Map.empty, w_bh = Map.empty, w_hnodes = Map.empty, w_heaps = empty_list\<rparr>,
     d_watches = [], d_inotify = 0, d_log = \<lparr>sh_level = [], sh_prompt = [], sh_log = None, sh_out = []\<rparr>\<rparr>"

text \<open>One call after another, when the first returns.\<close>
definition pbind :: "'a proc option \<Rightarrow> ('a \<Rightarrow> 'b proc option) \<Rightarrow> 'b proc option" where
  "pbind r f = (case r of None \<Rightarrow> None | Some Exits \<Rightarrow> Some Exits | Some (Return x) \<Rightarrow> f x)"

section \<open>Heaps\<close>

text \<open>A heap whose number of elements per block is the setting \<open>key\<close>. It never is NULL, so that the callers' tests never fail.\<close>
definition new_heap :: "benv \<Rightarrow> u64 \<Rightarrow> string \<Rightarrow> int \<Rightarrow> string \<Rightarrow> daemon \<Rightarrow> (nat \<times> daemon) proc option" where
  "new_heap e sz key def name D =
     do { n \<leftarrow> dconf_get_int (d_conf D) (Some key) def;
          pbind (blockheap_create e sz n (Some name) (d_mem D)) (\<lambda>(a, w). Some (Return (a, D\<lparr>d_mem := w\<rparr>))) }"

text \<open>The list nodes.\<close>
definition start_dlink :: "benv \<Rightarrow> daemon \<Rightarrow> daemon proc option" where
  "start_dlink e D =
     pbind (new_heap e 24 ''tuning.heap.node'' 1024 ''dlink_node'' D) (\<lambda>(a, D1).
       Some (Return (D1\<lparr>d_heaps := (d_heaps D1)\<lparr>g_dlink := Some a\<rparr>\<rparr>)))"

text \<open>\<open>sizeof\<close> of a package handle and of a file mapping.\<close>
definition pkg_init :: "benv \<Rightarrow> daemon \<Rightarrow> daemon proc option" where
  "pkg_init e D =
     pbind (new_heap e 48 ''tuning.heap.pkg'' 128 ''pkg'' D) (\<lambda>(a, D1).
     pbind (new_heap e 40 ''tuning.heap.files'' 128 ''files'' (D1\<lparr>d_heaps := (d_heaps D1)\<lparr>g_pkg := Some a\<rparr>\<rparr>)) (\<lambda>(b, D2).
     do { v \<leftarrow> dconf_get_str (d_conf D2) (Some ''tuning.timer.pkg_gc'') None;
          life \<leftarrow> timestr_to_time v 60;
          Some (Return (D2\<lparr>d_heaps := (d_heaps D2)\<lparr>g_pkg_file := Some b\<rparr>, d_life := life,
            d_timers := evt_timer_add_periodic ''pkg_gc'' (int_of_long life) (d_timers D2)\<rparr>)) }))"

text \<open>The two pointers keep their values.\<close>
definition pkg_fini :: "daemon \<Rightarrow> daemon option" where
  "pkg_fini D =
     do { (r1, w1) \<leftarrow> blockheap_destroy (g_pkg (d_heaps D)) (d_mem D);
          (r2, w2) \<leftarrow> blockheap_destroy (g_pkg_file (d_heaps D)) w1;
          Some (D\<lparr>d_mem := w2\<rparr>) }"

text \<open>The heaps of the file system, with \<open>sizeof\<close> of a cache entry, a handle, a watch and an inode.\<close>
definition vfs_heaps_init :: "benv \<Rightarrow> daemon \<Rightarrow> daemon proc option" where
  "vfs_heaps_init e D =
     pbind (new_heap e 8320 ''tuning.heap.files'' 1024 ''cache entries'' D) (\<lambda>(a, D1).
     pbind (new_heap e 4120 ''tuning.heap.vfs_handle'' 128 ''vfs_handle'' (D1\<lparr>d_heaps := (d_heaps D1)\<lparr>g_cache := Some a\<rparr>\<rparr>)) (\<lambda>(b, D2).
     pbind (new_heap e 4104 ''tuning.heap.vfs_watch'' 32 ''vfs_watch'' (D2\<lparr>d_heaps := (d_heaps D2)\<lparr>g_handle := Some b\<rparr>\<rparr>)) (\<lambda>(c, D3).
     pbind (new_heap e 40 ''tuning.heap.inode'' 128 ''pkg'' (D3\<lparr>d_heaps := (d_heaps D3)\<lparr>g_watch := Some c\<rparr>\<rparr>)) (\<lambda>(d, D4).
     Some (Return (D4\<lparr>d_heaps := (d_heaps D4)\<lparr>g_inode := Some d\<rparr>\<rparr>))))))"

section \<open>The main program\<close>

text \<open>The number of arguments, memory for heaps and dictionaries, how jailfs.cf is read and what it holds, the clock, the pid file, and
  the files of the log.\<close>
record main_env =
  mv_argc :: int
  mv_heap :: benv
  mv_dict :: denv
  mv_modules :: bool
  mv_modload :: "string \<Rightarrow> int"
  mv_before :: char
  mv_file :: "string option"
  mv_time :: int
  mv_fopen :: bool
  mv_pid :: nat
  mv_log :: shell_env

text \<open>From the configuration on; \<open>a\<close> is the heap of the messages. The defaults given for \<open>path.log\<close> and \<open>log.level\<close> are not used by the
  dictionary, so that NULL is compared with a string when they are not set; NULL as a pid file's name is copied from. A log file or fifo
  that cannot be opened is fatal: the message about it prints \<open>errno\<close> as a string.\<close>
definition main_services :: "main_env \<Rightarrow> daemon \<Rightarrow> (int \<times> daemon) proc option" where
  "main_services V D =
     do { v \<leftarrow> dconf_get_str (d_conf D) (Some ''tuning.timer.blockheap_gc'') None;
          p \<leftarrow> timestr_to_time v 60;
          l \<leftarrow> dconf_get_str (d_conf D) (Some ''path.log'') (Some ''file://jailfs.log'');
          logfile \<leftarrow> l;
          lg \<leftarrow> log_open (mv_log V) logfile (d_log D);
          let (cr, ts) = cron_init (evt_timer_add_periodic ''gc_all'' (int_of_long p) (d_timers D)) in
          pbind (start_dlink (mv_heap V) (D\<lparr>d_timers := ts, d_log := lg\<rparr>)) (\<lambda>D1.
          pbind (pkg_init (mv_heap V) D1) (\<lambda>D2.
          do { q \<leftarrow> dconf_get_str (d_conf D2) (Some ''path.pid'') None;
               name \<leftarrow> q;
               (rc, pf) \<leftarrow> pidfile_open (mv_fopen V) (mv_pid V) name (d_pid D2);
               if rc \<noteq> 0 then Some (Return (1, D2\<lparr>d_pid := pf\<rparr>))
               else do { lv \<leftarrow> dconf_get_str (d_conf D2) (Some ''log.level'') (Some ''debug'');
                         level \<leftarrow> lv;
                         Some (Return (0, D2\<lparr>d_pid := pf\<rparr>)) } })) }"

text \<open>\<open>main\<close> up to the start of the threads. The messages' heap is created before the configuration is loaded.\<close>
definition main_init :: "main_env \<Rightarrow> daemon \<Rightarrow> (int \<times> daemon) proc option" where
  "main_init V D =
     (if mv_argc V \<le> 1 then Some Exits
      else pbind (api_init (mv_heap V) (d_conf D) (d_mem D)) (\<lambda>(rv, a, w).
        do { c \<leftarrow> dconf_load (mv_dict V) (mv_modules V) (mv_modload V) (mv_before V) (mv_file V);
             main_services V (D\<lparr>d_now := mv_time V, d_conf := cl_dict c, d_mem := w, d_heaps := (d_heaps D)\<lparr>g_api := Some a\<rparr>\<rparr>) }))"

text \<open>\<open>goodbye\<close>, after which the process ends: the list nodes, the configuration and the pid file.\<close>
definition goodbye :: "daemon \<Rightarrow> daemon option" where
  "goodbye D =
     do { file \<leftarrow> dconf_get_str (d_conf D) (Some ''path.pid'') None;
          (rv, w) \<leftarrow> blockheap_destroy (g_dlink (d_heaps D)) (d_mem D);
          (freed, conf) \<leftarrow> dconf_fini (d_conf D);
          pf \<leftarrow> pidfile_close (d_pid D);
          Some (D\<lparr>d_conf := conf, d_mem := w, d_pid := pf\<rparr>) }"

section \<open>Opening a package\<close>

text \<open>\<open>blockheap_alloc\<close> clears the element.\<close>
definition zero_handle :: pkg_handle where
  "zero_handle = \<lparr>ph_pkgid = 0, ph_fd = 0, ph_refcnt = 0, ph_otime = 0, ph_name = None\<rparr>"

text \<open>Whether \<open>vfs_add_path\<close> takes an element of the heap of the file cache for an entry.\<close>
definition takes_elem :: "int \<Rightarrow> arch_entry \<Rightarrow> bool" where
  "takes_elem pkgid x \<longleftrightarrow> 1 \<le> pkgid \<and>
     (case ae_name x of None \<Rightarrow> False
      | Some p \<Rightarrow> entry_type x = CHR ''d'' \<or> vfs_find (takeWhile (\<lambda>c. c \<noteq> c_nul) p) = None)"

text \<open>The elements taken for the entries, one after the other; the copies into an element can read outside of the memory.\<close>
fun cache_elems :: "benv \<Rightarrow> ptr \<Rightarrow> int \<Rightarrow> arch_entry list \<Rightarrow> bworld \<Rightarrow> (ptr list \<times> bworld) proc option" where
  "cache_elems e h pkgid [] w = Some (Return ([], w))"
| "cache_elems e h pkgid (x # xs) w =
     pbind (if takes_elem pkgid x then blockheap_alloc e h w else Some (Return (None, w))) (\<lambda>(fe, w1).
     if fe \<noteq> None \<and> \<not> readable x then None
     else pbind (cache_elems e h pkgid xs w1) (\<lambda>(fes, w2). Some (Return (fe # fes, w2))))"

text \<open>
  \<open>pkg_open\<close> with its memory: a handle for a package that has none, taken while the database is locked, a node for the list
  when the file could be opened and locked, and then an element of the file cache for each entry of the archive.
\<close>
definition pkg_open_mem :: "benv \<Rightarrow> pkg_env \<Rightarrow> string \<Rightarrow> daemon \<Rightarrow> (ptr \<times> daemon) proc option" where
  "pkg_open_mem e E file D =
     do { r \<leftarrow> pkg_handle_byname file (d_pkgs D);
          case r of
            Some a \<Rightarrow> do { (p, s) \<leftarrow> pkg_touch E a (d_pkgs D); Some (Return (p, D\<lparr>d_pkgs := s\<rparr>)) }
          | None \<Rightarrow>
              do { s0 \<leftarrow> db_begin (d_pkgs D);
                   pbind (blockheap_alloc e (g_pkg (d_heaps D)) (d_mem D)) (\<lambda>(mem, w1).
                   do { t \<leftarrow> mem;
                        let entries = (case pe_archive E file of None \<Rightarrow> [] | Some (es, eof) \<Rightarrow> es) in
                        pbind (if 0 \<le> pe_open E file \<and> (pe_locking E \<longrightarrow> pe_flock E file)
                               then pbind (blockheap_alloc e (g_dlink (d_heaps D)) w1) (\<lambda>(node, w2).
                                    cache_elems e (g_cache (d_heaps D)) (fst (db_pkg_add E file s0)) entries w2)
                               else Some (Return ([], w1))) (\<lambda>(fes, w3).
                        do { (p, s) \<leftarrow> pkg_open E t fes zero_handle file (d_pkgs D);
                             Some (Return (p, D\<lparr>d_pkgs := s, d_mem := w3\<rparr>)) }) }) } }"

text \<open>The packages found by the walk over the directories.\<close>
fun open_found :: "benv \<Rightarrow> pkg_env \<Rightarrow> walk_event list \<Rightarrow> daemon \<Rightarrow> daemon proc option" where
  "open_found e E [] D = Some (Return D)"
| "open_found e E (ev # evs) D =
     (case ev of
        PkgOpen p \<Rightarrow> pbind (pkg_open_mem e E p D) (\<lambda>(t, D1). open_found e E evs D1)
      | _ \<Rightarrow> open_found e E evs D)"

section \<open>The thread of the file system\<close>

datatype host_call = CallUnlink string | CallMount string | CallUmount string

text \<open>The host of the thread: the files there are, whether \<open>tmpfs\<close> can be mounted, which options libfuse takes, inotify, the directories
  and the package files.\<close>
record vfs_host =
  vh_file :: "string \<Rightarrow> bool"
  vh_mount :: "string \<Rightarrow> bool"
  vh_fuse :: "string option \<Rightarrow> bool"
  vh_inotify :: int
  vh_watch :: "string \<Rightarrow> u32 \<Rightarrow> int"
  vh_dirs :: dir_env
  vh_pkgs :: pkg_env

text \<open>The cache directory; the thread ends the process when it cannot mount it. \<open>glibc\<close> prints \<open>(null)\<close> for NULL.\<close>
definition vfs_cache_dir :: "vfs_host \<Rightarrow> dict option \<Rightarrow> host_call list proc option" where
  "vfs_cache_dir H conf =
     do { cache \<leftarrow> dconf_get_str conf (Some ''path.cache'') None;
          t \<leftarrow> dconf_get_str conf (Some ''cache.type'') None;
          let keep = take 4094 (pr_str cache @ ''/.keepme'');
              gone = (if vh_file H keep then [CallUnlink keep] else []) in
          do { kind \<leftarrow> t;
               case cache of
                 Some dir \<Rightarrow>
                   if strcaseeq ''tmpfs'' kind
                   then if vh_mount H dir then Some (Return (gone @ [CallMount dir])) else Some Exits
                   else Some (Return gone)
               | None \<Rightarrow> Some (Return gone) } }"

text \<open>The mount point and the options of libfuse; \<open>SIGTERM\<close> ends the process in its handler.\<close>
definition vfs_mount_point :: "vfs_host \<Rightarrow> dict option \<Rightarrow> host_call list proc option" where
  "vfs_mount_point H conf =
     do { m \<leftarrow> dconf_get_str conf (Some ''path.mountpoint'') None;
          case m of
            None \<Rightarrow> Some Exits
          | Some mp \<Rightarrow>
              do { jail \<leftarrow> dconf_get_str conf (Some ''jail.name'') None;
                   if vh_fuse H jail \<and> vh_fuse H (Some ''-o'') \<and> vh_fuse H (Some ''nonempty,allow_other'')
                   then Some (Return [CallUmount mp, CallUmount mp]) else Some Exits } }"

text \<open>The watches, and the packages there are already.\<close>
definition vfs_scan :: "benv \<Rightarrow> vfs_host \<Rightarrow> daemon \<Rightarrow> daemon proc option" where
  "vfs_scan e H D =
     do { inot \<leftarrow> dconf_get_bool (d_conf D) (Some ''pkgdir.inotify'') 0;
          pbind (if inot = 1
                 then vfs_watch_init e (g_watch (d_heaps D)) (vh_inotify H) (vh_watch H) (d_conf D) (d_inotify D) (d_watches D) (d_mem D)
                 else Some (Return (0, d_inotify D, d_watches D, d_mem D))) (\<lambda>(rv, fd, ws, w).
            let D1 = D\<lparr>d_inotify := fd, d_watches := ws, d_mem := w\<rparr> in
            do { pre \<leftarrow> dconf_get_bool (d_conf D1) (Some ''pkgdir.prescan'') 0;
                 if pre = 1
                 then do { evs \<leftarrow> vfs_dir_walk (vh_dirs H) (d_conf D1); open_found e (vh_pkgs H) evs D1 }
                 else Some (Return D1) }) }"

text \<open>The thread until it only waits for the end of the daemon.\<close>
definition thread_vfs_init :: "benv \<Rightarrow> vfs_host \<Rightarrow> daemon \<Rightarrow> (host_call list \<times> daemon) proc option" where
  "thread_vfs_init e H D =
     pbind (vfs_heaps_init e D) (\<lambda>D1.
     pbind (vfs_cache_dir H (d_conf D1)) (\<lambda>cs1.
     do { n \<leftarrow> dconf_get_int (d_conf D1) (Some ''tuning.timer.vfs_gc'') 1200;
          pbind (vfs_mount_point H (d_conf D1)) (\<lambda>cs2.
          pbind (vfs_scan e H (D1\<lparr>d_timers := evt_timer_add_periodic ''vfs_gc'' n (d_timers D1)\<rparr>)) (\<lambda>D2.
          Some (Return (cs1 @ cs2, D2)))) }))"

text \<open>The end of the thread: three of its four heaps are destroyed. The dictionary of the cache, which stays empty, is left out.\<close>
definition thread_vfs_fini :: "daemon \<Rightarrow> (host_call list \<times> daemon) option" where
  "thread_vfs_fini D =
     do { m \<leftarrow> dconf_get_str (d_conf D) (Some ''path.mountpoint'') None;
          t \<leftarrow> dconf_get_str (d_conf D) (Some ''cache.type'') None;
          kind \<leftarrow> t;
          cache \<leftarrow> dconf_get_str (d_conf D) (Some ''path.cache'') None;
          (r1, w1) \<leftarrow> blockheap_destroy (g_cache (d_heaps D)) (d_mem D);
          (r2, w2) \<leftarrow> blockheap_destroy (g_inode (d_heaps D)) w1;
          (r3, w3) \<leftarrow> blockheap_destroy (g_watch (d_heaps D)) w2;
          Some ((case m of None \<Rightarrow> [] | Some mp \<Rightarrow> [CallUmount mp]) @
                (if strcaseeq ''tmpfs'' kind then (case cache of None \<Rightarrow> [] | Some dir \<Rightarrow> [CallUmount dir]) else []),
                D\<lparr>d_mem := w3\<rparr>) }"

section \<open>The running daemon\<close>

text \<open>\<open>gc_all\<close> and \<open>pkg_gc\<close> as timers call them.\<close>
definition gc_timer :: "int \<Rightarrow> daemon \<Rightarrow> daemon option" where
  "gc_timer time D =
     do { (f, s, w) \<leftarrow> gc_all (d_heaps D) time (d_life D) (d_pkgs D) (d_mem D); Some (D\<lparr>d_pkgs := s, d_mem := w\<rparr>) }"

definition pkg_timer :: "int \<Rightarrow> daemon \<Rightarrow> daemon option" where
  "pkg_timer time D =
     do { (f, s, w) \<leftarrow> pkg_gc_mem (d_heaps D) time (d_life D) (d_pkgs D) (d_mem D); Some (D\<lparr>d_pkgs := s, d_mem := w\<rparr>) }"

definition vfs_timer :: "daemon \<Rightarrow> daemon option" where
  "vfs_timer D =
     (let g = d_heaps D in
      do { (f, w) \<leftarrow> vfs_gc (g_cache g) (g_handle g) (g_inode g) (g_watch g) (d_mem D); Some (D\<lparr>d_mem := w\<rparr>) })"

definition tick :: "int \<Rightarrow> daemon \<Rightarrow> daemon option" where
  "tick time D =
     do { (t, s, w) \<leftarrow> cron_tick (d_heaps D) (d_conf D) time (d_life D) (d_pkgs D) (d_mem D);
          Some (D\<lparr>d_now := t, d_pkgs := s, d_mem := w\<rparr>) }"

text \<open>What can happen next: a timer, a package opened or closed, the thread of the file system started.\<close>
inductive daemon_step :: "benv \<Rightarrow> daemon \<Rightarrow> daemon \<Rightarrow> bool" for e where
  step_gc: "gc_timer time D = Some D' \<Longrightarrow> daemon_step e D D'"
| step_pkg_gc: "pkg_timer time D = Some D' \<Longrightarrow> daemon_step e D D'"
| step_vfs_gc: "vfs_timer D = Some D' \<Longrightarrow> daemon_step e D D'"
| step_tick: "tick time D = Some D' \<Longrightarrow> daemon_step e D D'"
| step_open: "pkg_open_mem e E file D = Some (Return (r, D')) \<Longrightarrow> daemon_step e D D'"
| step_close: "pkg_close a (d_pkgs D) = Some s \<Longrightarrow> daemon_step e D (D\<lparr>d_pkgs := s\<rparr>)"
| step_vfs: "thread_vfs_init e H D = Some (Return (cs, D')) \<Longrightarrow> daemon_step e D D'"

inductive_simps daemon_step_iff: "daemon_step e D D'"

end
