(* ===== verification/StartupOps.thy ===== *)
theory StartupOps
  imports Startup DaemonOps
begin

text \<open>
  From the start of the daemon on its memory is in order: the heaps share nothing, the elements in use in the package heap are the package
  handles, and every timer returns. Heaps and packages created along the way keep it so.
\<close>

section \<open>The invariant\<close>

definition other_heaps :: "gc_heaps \<Rightarrow> ptr set" where
  "other_heaps g = {g_api g, g_hints g, g_pkg_file g, g_cache g, g_handle g, g_inode g, g_watch g, g_dlink g}"

text \<open>The heaps, whatever is in them.\<close>
definition heaps_inv :: "gc_heaps \<Rightarrow> bworld \<Rightarrow> (nat \<rightharpoonup> cblock list) \<Rightarrow> bool" where
  "heaps_inv g w m \<longleftrightarrow> heaps_rep w m \<and> heaps_listed w \<and> gc_known g m"

text \<open>The package heap is no other one, and its elements in use are \<open>X\<close>.\<close>
definition mem_inv :: "gc_heaps \<Rightarrow> bworld \<Rightarrow> (nat \<rightharpoonup> cblock list) \<Rightarrow> nat set \<Rightarrow> bool" where
  "mem_inv g w m X \<longleftrightarrow> heaps_inv g w m \<and> (\<exists>a. g_pkg g = Some a \<and> Some a \<notin> other_heaps g \<and> lives m a = Some X)"

text \<open>The elements in use in the package heap are the handles.\<close>
definition daemon_inv :: "daemon \<Rightarrow> (nat \<rightharpoonup> cblock list) \<Rightarrow> bool" where
  "daemon_inv D m \<longleftrightarrow> pkg_inv (d_pkgs D) \<and> mem_inv (d_heaps D) (d_mem D) m (dom (pk_handles (d_pkgs D)))"

definition daemon_ok :: "daemon \<Rightarrow> bool" where
  "daemon_ok D \<longleftrightarrow> (\<exists>m. daemon_inv D m)"

lemma gc_known_dom: "gc_known g m \<Longrightarrow> (\<And>x. m x \<noteq> None \<Longrightarrow> m' x \<noteq> None) \<Longrightarrow> gc_known g m'"
  unfolding gc_known_def by blast

lemma known_other: "gc_known g m \<Longrightarrow> Some a \<in> other_heaps g \<Longrightarrow> m a \<noteq> None"
  unfolding gc_known_def other_heaps_def by blast

lemma lives_known: "lives m x = None \<longleftrightarrow> m x = None"
  by (simp add: lives_def)

lemma listed_handles: "pkg_inv s \<Longrightarrow> set (pk_list s) \<subseteq> dom (pk_handles s)"
  by (force simp: pkg_inv_def)

lemma pbind_Return:
  "pbind r f = Some (Return y) \<longleftrightarrow> (\<exists>x. r = Some (Return x) \<and> f x = Some (Return y))"
  by (auto simp: pbind_def split: option.splits proc.splits)

section \<open>Creating heaps\<close>

lemma int_of_long_less: "int_of_long v < 2 ^ 31"
  using sint_less [of "word_of_int v :: u32"] by (simp add: int_of_long_def)

lemma dconf_int_less: "dconf_get_int c k def = Some n \<Longrightarrow> def < 2 ^ 31 \<Longrightarrow> n < 2 ^ 31"
  using int_of_long_less by (auto simp: dconf_get_int_def split: option.splits)

definition heap_size :: "u64 \<Rightarrow> bool" where
  "heap_size sz \<longleftrightarrow> sz \<noteq> 0 \<and> unat (pad8 sz) < 2 ^ 20"

lemma heap_sizes: "heap_size 24" "heap_size 48" "heap_size 40" "heap_size 8320" "heap_size 4120" "heap_size 4104" "heap_size 216"
  by (simp_all add: heap_size_def pad8_def)

lemma heap_fits_int:
  assumes "heap_size sz" "n < 2 ^ 31"
  shows "(nat n + 1) * (unat (pad8 sz) + MEMBLOCK_SIZE) < 2 ^ 64"
proof -
  have "(nat n + 1) * (unat (pad8 sz) + 32) \<le> 2 ^ 31 * 2 ^ 21"
    by (rule mult_le_mono) (use assms in \<open>simp_all add: heap_size_def\<close>)
  then show ?thesis by (simp add: MEMBLOCK_SIZE_def)
qed

lemma create_inv:
  assumes env: "balloc_env_ok e" and inv: "heaps_inv g w m" and sz: "heap_size sz" and n: "n < 2 ^ 31"
  shows "blockheap_create e sz n name w = Some Exits \<or>
    (\<exists>a w' m'. blockheap_create e sz n name w = Some (Return (a, w')) \<and> m a = None \<and> lives m' = (lives m)(a \<mapsto> {}) \<and>
       heaps_inv g w' m')"
proof (cases "0 < n")
  case True
  from inv have i: "heaps_rep w m" "heaps_listed w" "gc_known g m" by (auto simp: heaps_inv_def)
  have "sz \<noteq> 0" using sz by (simp add: heap_size_def)
  from create_heaps [OF env i(1,2) this True n heap_fits_int [OF sz n], of name] show ?thesis
  proof (elim disjE exE conjE)
    fix a w' m' assume r: "blockheap_create e sz n name w = Some (Return (a, w'))" "m a = None" "heaps_rep w' m'"
      "lives m' = (lives m)(a \<mapsto> {})" "heaps_listed w'"
    have "m' x \<noteq> None" if "m x \<noteq> None" for x
      using that fun_cong [OF r(4), of x] by (auto simp: lives_def split: if_splits)
    then have "gc_known g m'" by (rule gc_known_dom [OF i(3)])
    with r show ?thesis by (intro disjI2 exI [of _ a] exI [of _ w'] exI [of _ m']) (simp add: heaps_inv_def)
  qed simp
qed (simp add: blockheap_create_def)

lemma new_heap_inv:
  assumes env: "balloc_env_ok e" and inv: "heaps_inv (d_heaps D) (d_mem D) m" and sz: "heap_size sz" and "def < 2 ^ 31"
    and run: "new_heap e sz key def name D = Some (Return (a, D'))"
  shows "\<exists>w m'. D' = D\<lparr>d_mem := w\<rparr> \<and> m a = None \<and> lives m' = (lives m)(a \<mapsto> {}) \<and> heaps_inv (d_heaps D) w m'"
proof -
  from run obtain n where n: "dconf_get_int (d_conf D) (Some key) def = Some n" by (auto simp: new_heap_def split: bind_splits)
  from run n obtain w where w: "blockheap_create e sz n (Some name) (d_mem D) = Some (Return (a, w))" "D' = D\<lparr>d_mem := w\<rparr>"
    by (auto simp: new_heap_def pbind_Return)
  with create_inv [OF env inv sz dconf_int_less [OF n assms(4)], of "Some name"] show ?thesis by (intro exI [of _ w]) auto
qed

text \<open>A new heap is none that is known, and becomes one of the daemon's.\<close>

lemma gc_known_new:
  "gc_known g m \<Longrightarrow> m a \<noteq> None \<Longrightarrow> gc_known (g\<lparr>g_api := Some a\<rparr>) m"
  "gc_known g m \<Longrightarrow> m a \<noteq> None \<Longrightarrow> gc_known (g\<lparr>g_dlink := Some a\<rparr>) m"
  "gc_known g m \<Longrightarrow> m a \<noteq> None \<Longrightarrow> gc_known (g\<lparr>g_pkg := Some a\<rparr>) m"
  "gc_known g m \<Longrightarrow> m a \<noteq> None \<Longrightarrow> gc_known (g\<lparr>g_pkg_file := Some a\<rparr>) m"
  "gc_known g m \<Longrightarrow> m a \<noteq> None \<Longrightarrow> gc_known (g\<lparr>g_cache := Some a\<rparr>) m"
  "gc_known g m \<Longrightarrow> m a \<noteq> None \<Longrightarrow> gc_known (g\<lparr>g_handle := Some a\<rparr>) m"
  "gc_known g m \<Longrightarrow> m a \<noteq> None \<Longrightarrow> gc_known (g\<lparr>g_watch := Some a\<rparr>) m"
  "gc_known g m \<Longrightarrow> m a \<noteq> None \<Longrightarrow> gc_known (g\<lparr>g_inode := Some a\<rparr>) m"
  by (auto simp: gc_known_def)

lemma heaps_inv_new:
  assumes "heaps_inv g w m'" "lives m' = (lives m)(a \<mapsto> {})"
  shows "heaps_inv (g\<lparr>g_api := Some a\<rparr>) w m'" "heaps_inv (g\<lparr>g_dlink := Some a\<rparr>) w m'" "heaps_inv (g\<lparr>g_pkg := Some a\<rparr>) w m'"
proof -
  have "m' a \<noteq> None" using assms(2) lives_known [of m' a] by auto
  with assms(1) show "heaps_inv (g\<lparr>g_api := Some a\<rparr>) w m'" "heaps_inv (g\<lparr>g_dlink := Some a\<rparr>) w m'" "heaps_inv (g\<lparr>g_pkg := Some a\<rparr>) w m'"
    by (simp_all add: heaps_inv_def gc_known_new)
qed

lemma other_heaps_new:
  "x \<notin> other_heaps g \<Longrightarrow> x \<noteq> Some a \<Longrightarrow> x \<notin> other_heaps (g\<lparr>g_pkg_file := Some a\<rparr>) \<and> x \<notin> other_heaps (g\<lparr>g_cache := Some a\<rparr>) \<and>
     x \<notin> other_heaps (g\<lparr>g_handle := Some a\<rparr>) \<and> x \<notin> other_heaps (g\<lparr>g_watch := Some a\<rparr>) \<and> x \<notin> other_heaps (g\<lparr>g_inode := Some a\<rparr>)"
  by (auto simp: other_heaps_def)

lemma mem_inv_new:
  assumes inv: "mem_inv g w m X" and h: "heaps_inv g w' m'" and a: "m a = None" "lives m' = (lives m)(a \<mapsto> {})"
  shows "mem_inv (g\<lparr>g_pkg_file := Some a\<rparr>) w' m' X \<and> mem_inv (g\<lparr>g_cache := Some a\<rparr>) w' m' X \<and>
    mem_inv (g\<lparr>g_handle := Some a\<rparr>) w' m' X \<and> mem_inv (g\<lparr>g_watch := Some a\<rparr>) w' m' X \<and> mem_inv (g\<lparr>g_inode := Some a\<rparr>) w' m' X"
proof -
  from inv obtain p where p: "g_pkg g = Some p" "Some p \<notin> other_heaps g" "lives m p = Some X" by (auto simp: mem_inv_def)
  have ne: "p \<noteq> a" using p(3) a(1) by (auto simp: lives_def)
  have ka: "m' a \<noteq> None" using a(2) lives_known [of m' a] by auto
  show ?thesis using h p(1,3) a(2) ne ka other_heaps_new [OF p(2), of a]
    by (simp add: mem_inv_def heaps_inv_def gc_known_new)
qed

lemma new_heap_mem:
  assumes "balloc_env_ok e" "mem_inv (d_heaps D) (d_mem D) m X" "heap_size sz" "def < 2 ^ 31"
    "new_heap e sz key def name D = Some (Return (a, D'))"
  shows "\<exists>w m'. D' = D\<lparr>d_mem := w\<rparr> \<and> mem_inv ((d_heaps D)\<lparr>g_pkg_file := Some a\<rparr>) w m' X \<and> mem_inv ((d_heaps D)\<lparr>g_cache := Some a\<rparr>) w m' X \<and>
    mem_inv ((d_heaps D)\<lparr>g_handle := Some a\<rparr>) w m' X \<and> mem_inv ((d_heaps D)\<lparr>g_watch := Some a\<rparr>) w m' X \<and>
    mem_inv ((d_heaps D)\<lparr>g_inode := Some a\<rparr>) w m' X"
proof -
  have "heaps_inv (d_heaps D) (d_mem D) m" using assms(2) by (simp add: mem_inv_def)
  from new_heap_inv [OF assms(1) this assms(3-5)] obtain w m' where
    "D' = D\<lparr>d_mem := w\<rparr>" "m a = None" "lives m' = (lives m)(a \<mapsto> {})" "heaps_inv (d_heaps D) w m'" by blast
  with mem_inv_new [OF assms(2), of w m' a] show ?thesis by blast
qed

lemma vfs_heaps_inv:
  assumes env: "balloc_env_ok e" and inv: "mem_inv (d_heaps D) (d_mem D) m X" and run: "vfs_heaps_init e D = Some (Return D')"
  shows "\<exists>g w m'. D' = D\<lparr>d_heaps := g, d_mem := w\<rparr> \<and> mem_inv g w m' X"
proof -
  from run obtain a D1 b D2 c D3 d D4 where
    1: "new_heap e 8320 ''tuning.heap.files'' 1024 ''cache entries'' D = Some (Return (a, D1))"
    and 2: "new_heap e 4120 ''tuning.heap.vfs_handle'' 128 ''vfs_handle'' (D1\<lparr>d_heaps := (d_heaps D1)\<lparr>g_cache := Some a\<rparr>\<rparr>) = Some (Return (b, D2))"
    and 3: "new_heap e 4104 ''tuning.heap.vfs_watch'' 32 ''vfs_watch'' (D2\<lparr>d_heaps := (d_heaps D2)\<lparr>g_handle := Some b\<rparr>\<rparr>) = Some (Return (c, D3))"
    and 4: "new_heap e 40 ''tuning.heap.inode'' 128 ''pkg'' (D3\<lparr>d_heaps := (d_heaps D3)\<lparr>g_watch := Some c\<rparr>\<rparr>) = Some (Return (d, D4))"
    and D': "D' = D4\<lparr>d_heaps := (d_heaps D4)\<lparr>g_inode := Some d\<rparr>\<rparr>"
    by (auto simp: vfs_heaps_init_def pbind_Return)
  from new_heap_mem [OF env inv heap_sizes(4) _ 1] obtain w1 m1 where
    w1: "D1 = D\<lparr>d_mem := w1\<rparr>" "mem_inv ((d_heaps D)\<lparr>g_cache := Some a\<rparr>) w1 m1 X" by auto
  from new_heap_mem [OF env _ heap_sizes(5) _ 2, of m1 X] w1 obtain w2 m2 where
    w2: "D2 = D\<lparr>d_heaps := (d_heaps D)\<lparr>g_cache := Some a\<rparr>, d_mem := w2\<rparr>"
      "mem_inv ((d_heaps D)\<lparr>g_cache := Some a, g_handle := Some b\<rparr>) w2 m2 X" by auto
  from new_heap_mem [OF env _ heap_sizes(6) _ 3, of m2 X] w2 obtain w3 m3 where
    w3: "D3 = D\<lparr>d_heaps := (d_heaps D)\<lparr>g_cache := Some a, g_handle := Some b\<rparr>, d_mem := w3\<rparr>"
      "mem_inv ((d_heaps D)\<lparr>g_cache := Some a, g_handle := Some b, g_watch := Some c\<rparr>) w3 m3 X" by auto
  from new_heap_mem [OF env _ heap_sizes(3) _ 4, of m3 X] w3 obtain w4 m4 where
    "D4 = D\<lparr>d_heaps := (d_heaps D)\<lparr>g_cache := Some a, g_handle := Some b, g_watch := Some c\<rparr>, d_mem := w4\<rparr>"
      "mem_inv ((d_heaps D)\<lparr>g_cache := Some a, g_handle := Some b, g_watch := Some c, g_inode := Some d\<rparr>) w4 m4 X" by auto
  with D' show ?thesis
    by (intro exI [of _ "(d_heaps D)\<lparr>g_cache := Some a, g_handle := Some b, g_watch := Some c, g_inode := Some d\<rparr>"]
        exI [of _ w4] exI [of _ m4]) simp
qed

section \<open>The start\<close>

lemma pkg_init_inv:
  assumes env: "balloc_env_ok e" and inv: "heaps_inv (d_heaps D) (d_mem D) m" and none: "pk_handles (d_pkgs D) = Map.empty" "pk_list (d_pkgs D) = []"
    and run: "pkg_init e D = Some (Return D')"
  shows "\<exists>m'. daemon_inv D' m' \<and> d_pkgs D' = d_pkgs D \<and> d_conf D' = d_conf D \<and> d_pid D' = d_pid D \<and>
    d_timers D' = evt_timer_add_periodic ''pkg_gc'' (int_of_long (d_life D')) (d_timers D)"
proof -
  from run obtain a D1 b D2 life where
    1: "new_heap e 48 ''tuning.heap.pkg'' 128 ''pkg'' D = Some (Return (a, D1))"
    and 2: "new_heap e 40 ''tuning.heap.files'' 128 ''files'' (D1\<lparr>d_heaps := (d_heaps D1)\<lparr>g_pkg := Some a\<rparr>\<rparr>) = Some (Return (b, D2))"
    and D': "D' = D2\<lparr>d_heaps := (d_heaps D2)\<lparr>g_pkg_file := Some b\<rparr>, d_life := life,
            d_timers := evt_timer_add_periodic ''pkg_gc'' (int_of_long life) (d_timers D2)\<rparr>"
    by (auto simp: pkg_init_def pbind_Return bind_eq_Some_conv)
  from new_heap_inv [OF env inv heap_sizes(2) _ 1] obtain w1 m1 where
    w1: "D1 = D\<lparr>d_mem := w1\<rparr>" "m a = None" "lives m1 = (lives m)(a \<mapsto> {})" "heaps_inv (d_heaps D) w1 m1" by auto
  have "Some a \<notin> other_heaps (d_heaps D)"
    using inv w1(2) known_other [of "d_heaps D" m a] by (auto simp: heaps_inv_def)
  then have "mem_inv ((d_heaps D)\<lparr>g_pkg := Some a\<rparr>) w1 m1 {}"
    using heaps_inv_new(3) [OF w1(4,3)] w1(3) by (simp add: mem_inv_def other_heaps_def)
  from new_heap_mem [OF env _ heap_sizes(3) _ 2, of m1 "{}"] this w1(1) obtain w2 m2 where
    "D2 = D\<lparr>d_heaps := (d_heaps D)\<lparr>g_pkg := Some a\<rparr>, d_mem := w2\<rparr>"
      "mem_inv ((d_heaps D)\<lparr>g_pkg := Some a, g_pkg_file := Some b\<rparr>) w2 m2 {}" by auto
  with D' none show ?thesis by (auto simp: daemon_inv_def pkg_inv_def)
qed

lemma start_dlink_inv:
  assumes env: "balloc_env_ok e" and inv: "heaps_inv (d_heaps D) (d_mem D) m" and run: "start_dlink e D = Some (Return D')"
  shows "\<exists>g w m'. D' = D\<lparr>d_heaps := g, d_mem := w\<rparr> \<and> heaps_inv g w m'"
proof -
  from run obtain a D1 where 1: "new_heap e 24 ''tuning.heap.node'' 1024 ''dlink_node'' D = Some (Return (a, D1))"
    and D': "D' = D1\<lparr>d_heaps := (d_heaps D1)\<lparr>g_dlink := Some a\<rparr>\<rparr>" by (auto simp: start_dlink_def pbind_Return)
  from new_heap_inv [OF env inv heap_sizes(1) _ 1] obtain w m' where
    w: "D1 = D\<lparr>d_mem := w\<rparr>" "lives m' = (lives m)(a \<mapsto> {})" "heaps_inv (d_heaps D) w m'" by auto
  from heaps_inv_new(2) [OF w(3,2)] D' w(1) show ?thesis
    by (intro exI [of _ "(d_heaps D)\<lparr>g_dlink := Some a\<rparr>"] exI [of _ w] exI [of _ m']) simp
qed

lemma main_services_inv:
  assumes env: "balloc_env_ok (mv_heap V)" and inv: "heaps_inv (d_heaps D) (d_mem D) m"
    and none: "pk_handles (d_pkgs D) = Map.empty" "pk_list (d_pkgs D) = []"
    and run: "main_services V D = Some (Return (rc, D'))"
  shows "daemon_ok D' \<and> d_pkgs D' = d_pkgs D \<and> d_conf D' = d_conf D \<and> d_now D' = d_now D"
proof -
  from run obtain ts lg D1 D2 pf where d: "start_dlink (mv_heap V) (D\<lparr>d_timers := ts, d_log := lg\<rparr>) = Some (Return D1)"
    and p: "pkg_init (mv_heap V) D1 = Some (Return D2)" and D': "D' = D2\<lparr>d_pid := pf\<rparr>"
    by (auto simp: main_services_def cron_init_def Let_def pbind_Return bind_eq_Some_conv split: if_splits prod.splits)
  from start_dlink_inv [OF env _ d, of m] inv obtain g w m1 where
    1: "D1 = D\<lparr>d_timers := ts, d_log := lg, d_heaps := g, d_mem := w\<rparr>" "heaps_inv g w m1" by auto
  from pkg_init_inv [OF env _ _ _ p, of m1] 1 none obtain m2 where
    "daemon_inv D2 m2" "d_pkgs D2 = d_pkgs D" "d_conf D2 = d_conf D" by auto
  moreover have "d_now D2 = d_now D" using p 1(1)
    by (auto simp: pkg_init_def pbind_Return bind_eq_Some_conv new_heap_def)
  ultimately show ?thesis using D' by (auto simp: daemon_ok_def daemon_inv_def)
qed

lemma daemon0_inv: "heaps_inv (d_heaps (daemon0 fs)) (d_mem (daemon0 fs)) Map.empty"
proof -
  have "heaps_listed (d_mem (daemon0 fs))" unfolding heaps_listed_def
    by (intro exI [of _ "[]"]) (simp add: daemon0_def dl_rep_empty)
  then show ?thesis by (simp add: heaps_inv_def heaps_rep_def gc_known_def daemon0_def no_heaps_def)
qed

lemma api_init_inv:
  assumes env: "balloc_env_ok e" and inv: "heaps_inv g w m" and run: "api_init e c w = Some (Return (rv, a, w'))"
  shows "\<exists>m'. heaps_inv (g\<lparr>g_api := Some a\<rparr>) w' m'"
proof -
  from run obtain n r where n: "dconf_get_int c (Some ''tuning.heap.api-msg'') 512 = Some n"
    and r: "blockheap_create e 216 n (Some ''api messages'') w = Some r"
    and k: "(case r of Return (a, w1) \<Rightarrow> Some (Return (0, a, w1)) | Exits \<Rightarrow> Some Exits) = Some (Return (rv, a, w'))"
    unfolding api_init_def bind_eq_Some_conv by blast
  then have c: "blockheap_create e 216 n (Some ''api messages'') w = Some (Return (a, w'))" by (cases r) auto
  have "n < 2 ^ 31" by (rule dconf_int_less [OF n]) simp
  from create_inv [OF env inv heap_sizes(7) this, of "Some ''api messages''"] c obtain m' where
    "lives m' = (lives m)(a \<mapsto> {})" "heaps_inv g w' m'" by auto
  with heaps_inv_new(1) show ?thesis by blast
qed

lemma main_init_inv:
  assumes env: "balloc_env_ok (mv_heap V)" and run: "main_init V (daemon0 fs) = Some (Return (rc, D))"
  shows "daemon_ok D \<and> pk_list (d_pkgs D) = [] \<and> d_now D = mv_time V"
proof -
  from run have "pbind (api_init (mv_heap V) (d_conf (daemon0 fs)) (d_mem (daemon0 fs))) (\<lambda>(rv, a, w).
      do { c \<leftarrow> dconf_load (mv_dict V) (mv_modules V) (mv_modload V) (mv_before V) (mv_file V);
           main_services V ((daemon0 fs)\<lparr>d_now := mv_time V, d_conf := cl_dict c, d_mem := w,
             d_heaps := (d_heaps (daemon0 fs))\<lparr>g_api := Some a\<rparr>\<rparr>) }) = Some (Return (rc, D))"
    unfolding main_init_def by (simp split: if_splits)
  then obtain x where x: "api_init (mv_heap V) (d_conf (daemon0 fs)) (d_mem (daemon0 fs)) = Some (Return x)"
    and y: "(\<lambda>(rv, a, w). do { c \<leftarrow> dconf_load (mv_dict V) (mv_modules V) (mv_modload V) (mv_before V) (mv_file V);
           main_services V ((daemon0 fs)\<lparr>d_now := mv_time V, d_conf := cl_dict c, d_mem := w,
             d_heaps := (d_heaps (daemon0 fs))\<lparr>g_api := Some a\<rparr>\<rparr>) }) x = Some (Return (rc, D))"
    unfolding pbind_Return by blast
  obtain rv a w where xs: "x = (rv, a, w)" by (cases x)
  note a = x [unfolded xs]
  from y obtain c :: cload where
    s: "main_services V ((daemon0 fs)\<lparr>d_now := mv_time V, d_conf := cl_dict c, d_mem := w,
      d_heaps := (d_heaps (daemon0 fs))\<lparr>g_api := Some a\<rparr>\<rparr>) = Some (Return (rc, D))"
    unfolding xs bind_eq_Some_conv prod.case by blast
  from api_init_inv [OF env daemon0_inv a] obtain m' where
    m': "heaps_inv ((d_heaps (daemon0 fs))\<lparr>g_api := Some a\<rparr>) w m'" by blast
  from main_services_inv [OF env _ _ _ s, of m'] m' show ?thesis by (simp add: daemon0_def)
qed

section \<open>Collecting\<close>

lemma release_leak:
  assumes "pkg_release a s = Some s'" "distinct (pk_list s)"
  shows "distinct (pk_list s') \<and> dom (pk_handles s') - set (pk_list s') = dom (pk_handles s) - set (pk_list s)"
proof -
  from assms(1) obtain p where p: "pk_handles s a = Some p" by (auto simp: pkg_release_def bind_eq_Some_conv)
  show ?thesis
  proof (cases "a \<in> set (pk_list s)")
    case True
    with assms(1) p have "pk_list s' = remove1 a (pk_list s)" "pk_handles s' = (pk_handles s)(a := None)"
      by (auto simp: pkg_release_def pkg_findnode_def Let_def)
    with assms(2) True show ?thesis by auto
  next
    case False
    with assms(1) p obtain q where "pk_list s' = pk_list s" "pk_handles s' = (pk_handles s)(a \<mapsto> q)"
      by (auto simp: pkg_release_def pkg_findnode_def Let_def)
    with assms(2) p show ?thesis by (simp add: insert_absorb domI)
  qed
qed

lemma gc_leak:
  "fold_opt (gc_one time life) xs s = Some s' \<Longrightarrow> distinct (pk_list s) \<Longrightarrow> distinct (pk_list s') \<and>
     dom (pk_handles s') - set (pk_list s') = dom (pk_handles s) - set (pk_list s)"
proof (induction xs arbitrary: s)
  case (Cons a xs)
  then obtain s1 where 1: "gc_one time life a s = Some s1" "fold_opt (gc_one time life) xs s1 = Some s'"
    by (auto split: option.splits)
  then obtain p where p: "pk_handles s a = Some p" by (auto simp: gc_one_def bind_eq_Some_conv)
  have "distinct (pk_list s1) \<and> dom (pk_handles s1) - set (pk_list s1) = dom (pk_handles s) - set (pk_list s)"
    using release_leak [OF _ Cons.prems(2)] 1(1) p Cons.prems(2) by (cases "expired time life p") (simp_all add: gc_one_def)
  with Cons.IH [OF 1(2)] show ?case by simp
qed simp

lemma free_elems_same: "fold_opt (free_elem h) xs w = Some w' \<Longrightarrow> same_heaps w w'"
proof (induction xs arbitrary: w)
  case (Cons x xs)
  then obtain w1 where 1: "free_elem h x w = Some w1" "fold_opt (free_elem h) xs w1 = Some w'" by (auto split: option.splits)
  then obtain r where "blockheap_free h (Some x) w = Some r" "(case r of Return (rv, w1) \<Rightarrow> Some w1 | Exits \<Rightarrow> None) = Some w1"
    unfolding free_elem_def bind_eq_Some_conv by blast
  then have "same_heaps w w1" by (cases r) (auto dest: free_same)
  with Cons.IH [OF 1(2)] show ?case using same_heaps_trans by blast
qed simp

lemma vfs_gc_same: "vfs_gc hc hh hi hw w = Some (r, w') \<Longrightarrow> same_heaps w w'"
  by (auto simp: vfs_gc_def bind_eq_Some_conv dest!: collect_same) (simp add: same_heaps_def)

lemma pkg_gc_mem_same: "pkg_gc_mem g time life s w = Some (r, s', w') \<Longrightarrow> same_heaps w w'"
  by (auto simp: pkg_gc_mem_def bind_eq_Some_conv dest!: collect_same free_elems_same) (simp add: same_heaps_def)

lemma gc_all_same: "gc_all g time life s w = Some (r, s', w') \<Longrightarrow> same_heaps w w'"
  by (auto simp: gc_all_def api_gc_def shell_gc_def bind_eq_Some_conv
      dest!: collect_same pkg_gc_mem_same vfs_gc_same) (simp add: same_heaps_def)

text \<open>Handles that are in use without being listed stay so.\<close>

definition leaked :: "pkg_state \<Rightarrow> nat set" where
  "leaked s = dom (pk_handles s) - set (pk_list s)"

lemma leaked_union: "pkg_inv s \<Longrightarrow> set (pk_list s) \<union> leaked s = dom (pk_handles s)"
  using listed_handles by (auto simp: leaked_def)

lemma pkg_gc_leaked: "pkg_gc time life s = Some s' \<Longrightarrow> pkg_inv s \<Longrightarrow> leaked s' = leaked s"
  using gc_leak by (auto simp: pkg_gc_def pkg_inv_def leaked_def)

lemma keeps_iff:
  assumes "K = leaked s"
  shows "keeps K g s w m \<and> heaps_listed w \<and> g_pkg g \<notin> other_heaps g \<longleftrightarrow> pkg_inv s \<and> mem_inv g w m (dom (pk_handles s))"
proof -
  have "K \<inter> set (pk_list s) = {}" using assms by (auto simp: leaked_def)
  with leaked_union [of s] assms show ?thesis by (auto simp: keeps_def mem_inv_def heaps_inv_def)
qed

lemma gc_timer_ok:
  assumes "daemon_ok D"
  shows "\<exists>D'. gc_timer time D = Some D' \<and> daemon_ok D' \<and> pkg_view (d_pkgs D') = unexpired time (d_life D) (pkg_view (d_pkgs D))"
proof -
  let ?g = "d_heaps D" and ?s = "d_pkgs D"
  from assms obtain m where "pkg_inv ?s \<and> mem_inv ?g (d_mem D) m (dom (pk_handles ?s))" by (auto simp: daemon_ok_def daemon_inv_def)
  then have k: "keeps (leaked ?s) ?g ?s (d_mem D) m" "heaps_listed (d_mem D)" "g_pkg ?g \<notin> other_heaps ?g" and i: "pkg_inv ?s"
    using keeps_iff [OF refl, of ?s ?g "d_mem D" m] by auto
  from gc_all_keeps [OF k(1), of time "d_life D"] obtain s' w' m' where
    r: "gc_all ?g time (d_life D) ?s (d_mem D) = Some (0, s', w')" "keeps (leaked ?s) ?g s' w' m'" "pkg_gc time (d_life D) ?s = Some s'"
      "pkg_view s' = unexpired time (d_life D) (pkg_view ?s)" by blast
  have "heaps_listed w'" by (rule same_heaps_listed [OF gc_all_same [OF r(1)] k(2)])
  then have "daemon_inv (D\<lparr>d_pkgs := s', d_mem := w'\<rparr>) m'"
    using keeps_iff [of "leaked ?s" s' ?g w' m'] pkg_gc_leaked [OF r(3) i] r(2) k(3) by (simp add: daemon_inv_def)
  then show ?thesis using r(1,4) by (auto simp: gc_timer_def daemon_ok_def)
qed

lemma pkg_timer_ok:
  assumes "daemon_ok D"
  shows "\<exists>D'. pkg_timer time D = Some D' \<and> daemon_ok D' \<and> pkg_view (d_pkgs D') = unexpired time (d_life D) (pkg_view (d_pkgs D))"
proof -
  let ?g = "d_heaps D" and ?s = "d_pkgs D"
  from assms obtain m where i: "pkg_inv ?s" and mi: "mem_inv ?g (d_mem D) m (dom (pk_handles ?s))" by (auto simp: daemon_ok_def daemon_inv_def)
  from mi obtain a where a: "g_pkg ?g = Some a" "Some a \<notin> other_heaps ?g" "lives m a = Some (set (pk_list ?s) \<union> leaked ?s)"
    "heaps_rep (d_mem D) m" "gc_known ?g m" "heaps_listed (d_mem D)" using leaked_union [OF i] by (auto simp: mem_inv_def heaps_inv_def)
  have "leaked ?s \<inter> set (pk_list ?s) = {}" by (auto simp: leaked_def)
  from pkg_gc_mem_ok [OF i a(4,5,1,3) this, of time "d_life D"] obtain s' w' m' where
    r: "pkg_gc_mem ?g time (d_life D) ?s (d_mem D) = Some (0, s', w')" "pkg_gc time (d_life D) ?s = Some s'" "pkg_inv s'" "heaps_rep w' m'"
      "pkg_view s' = unexpired time (d_life D) (pkg_view ?s)" "lives m' = (lives m)(a \<mapsto> set (pk_list s') \<union> leaked ?s)" by blast
  have "heaps_listed w'" by (rule same_heaps_listed [OF pkg_gc_mem_same [OF r(1)] a(6)])
  moreover have "m' x \<noteq> None" if "m x \<noteq> None" for x
    using that fun_cong [OF r(6), of x] by (auto simp: lives_def split: if_splits)
  then have "gc_known ?g m'" by (rule gc_known_dom [OF a(5)])
  moreover have "lives m' a = Some (dom (pk_handles s'))"
    using r(6) leaked_union [OF r(3)] pkg_gc_leaked [OF r(2) i] by simp
  ultimately have "daemon_inv (D\<lparr>d_pkgs := s', d_mem := w'\<rparr>) m'"
    using r(3,4) a(1,2) by (simp add: daemon_inv_def mem_inv_def heaps_inv_def)
  then show ?thesis using r(1,5) by (auto simp: pkg_timer_def daemon_ok_def)
qed

lemma vfs_timer_ok:
  assumes "daemon_ok D"
  shows "\<exists>D'. vfs_timer D = Some D' \<and> daemon_ok D' \<and> d_pkgs D' = d_pkgs D"
proof -
  let ?g = "d_heaps D"
  from assms obtain m where i: "pkg_inv (d_pkgs D)" and mi: "mem_inv ?g (d_mem D) m (dom (pk_handles (d_pkgs D)))"
    by (auto simp: daemon_ok_def daemon_inv_def)
  then have h: "heaps_rep (d_mem D) m" "gc_known ?g m" "heaps_listed (d_mem D)" by (auto simp: mem_inv_def heaps_inv_def)
  have "\<forall>h \<in> {g_cache ?g, g_handle ?g, g_inode ?g, g_watch ?g}. \<forall>x. h = Some x \<longrightarrow> lives m x \<noteq> None"
    using h(2) lives_known unfolding gc_known_def by blast
  from vfs_gc_ok [OF h(1) refl this] obtain w' m' where
    r: "vfs_gc (g_cache ?g) (g_handle ?g) (g_inode ?g) (g_watch ?g) (d_mem D) = Some (0, w')" "heaps_rep w' m'" "lives m' = lives m" by blast
  have "heaps_listed w'" by (rule same_heaps_listed [OF vfs_gc_same [OF r(1)] h(3)])
  moreover have "gc_known ?g m'" using h(2) lives_dom [OF r(3)] by (simp add: gc_known_def)
  ultimately have "daemon_inv (D\<lparr>d_mem := w'\<rparr>) m'" using i mi r(2,3) by (simp add: daemon_inv_def mem_inv_def heaps_inv_def)
  then show ?thesis using r(1) by (auto simp: vfs_timer_def daemon_ok_def)
qed

lemma tick_ok:
  assumes ok: "daemon_ok D" and v: "dconf_get_str (d_conf D) (Some ''tuning.timer.global_gc'') None = Some v" "timestr_to_time v 60 = Some p" "p \<noteq> 0"
  shows "\<exists>D'. tick time D = Some D' \<and> daemon_ok D' \<and> d_now D' = time \<and>
    pkg_view (d_pkgs D') = (if time smod p = 1 then unexpired time (d_life D) (pkg_view (d_pkgs D)) else pkg_view (d_pkgs D))"
proof (cases "time smod p = 1")
  case True
  from gc_timer_ok [OF ok, of time] obtain f s w where
    "gc_all (d_heaps D) time (d_life D) (d_pkgs D) (d_mem D) = Some (f, s, w)" "daemon_ok (D\<lparr>d_pkgs := s, d_mem := w\<rparr>)"
    "pkg_view s = unexpired time (d_life D) (pkg_view (d_pkgs D))" by (auto simp: gc_timer_def bind_eq_Some_conv)
  then show ?thesis using True v by (simp add: tick_def cron_tick_def daemon_ok_def daemon_inv_def)
next
  case False
  then show ?thesis using ok v by (simp add: tick_def cron_tick_def daemon_ok_def daemon_inv_def)
qed

section \<open>Taking and releasing elements\<close>

lemma lives_upd_known: "lives m' = (lives m)(a \<mapsto> L) \<Longrightarrow> gc_known g m \<Longrightarrow> gc_known g m'"
  by (erule gc_known_dom) (metis fun_upd_apply lives_known option.distinct(1))

lemma alloc_other:
  assumes env: "balloc_env_ok e" and inv: "mem_inv g w m X" and h: "h \<in> other_heaps g"
    and run: "blockheap_alloc e h w = Some (Return (p, w'))"
  shows "\<exists>q a L m'. h = Some a \<and> p = Some q \<and> q \<notin> L \<and> lives m' = (lives m)(a \<mapsto> insert q L) \<and> mem_inv g w' m' X"
proof -
  from run obtain a where a: "h = Some a" by (cases h) (auto simp: blockheap_alloc_def)
  from inv obtain c where i: "heaps_rep w m" "heaps_listed w" "gc_known g m" "g_pkg g = Some c" "Some c \<notin> other_heaps g" "lives m c = Some X"
    by (auto simp: mem_inv_def heaps_inv_def)
  have "m a \<noteq> None" using known_other [OF i(3)] h a by blast
  then obtain L where L: "lives m a = Some L" by (auto simp: lives_def)
  from alloc_heaps [OF env i(1) L] run a obtain q m' where
    q: "p = Some q" "q \<notin> L" "heaps_rep w' m'" "lives m' = (lives m)(a \<mapsto> insert q L)" by auto
  moreover have "gc_known g m'" by (rule lives_upd_known [OF q(4) i(3)])
  moreover have "heaps_listed w'" using same_heaps_listed [OF alloc_same i(2)] run by blast
  moreover have "c \<noteq> a" using i(5) h a by auto
  ultimately show ?thesis using a i(4-6)
    by (intro exI [of _ q] exI [of _ a] exI [of _ L] exI [of _ m']) (simp add: mem_inv_def heaps_inv_def)
qed

lemma alloc_pkg:
  assumes env: "balloc_env_ok e" and inv: "mem_inv g w m X" and run: "blockheap_alloc e (g_pkg g) w = Some (Return (p, w'))"
  shows "\<exists>q m'. p = Some q \<and> q \<notin> X \<and> mem_inv g w' m' (insert q X)"
proof -
  from inv obtain c where i: "heaps_rep w m" "heaps_listed w" "gc_known g m" "g_pkg g = Some c" "Some c \<notin> other_heaps g" "lives m c = Some X"
    by (auto simp: mem_inv_def heaps_inv_def)
  from alloc_heaps [OF env i(1,6)] run i(4) obtain q m' where
    q: "p = Some q" "q \<notin> X" "heaps_rep w' m'" "lives m' = (lives m)(c \<mapsto> insert q X)" by auto
  moreover have "gc_known g m'" by (rule lives_upd_known [OF q(4) i(3)])
  moreover have "heaps_listed w'" using same_heaps_listed [OF alloc_same i(2)] run by blast
  ultimately show ?thesis using i(4,5) by (intro exI [of _ q] exI [of _ m']) (simp add: mem_inv_def heaps_inv_def)
qed

lemma free_other:
  assumes inv: "mem_inv g w m X" and h: "Some a \<in> other_heaps g" and L: "lives m a = Some L" "q \<in> L"
  shows "\<exists>w' m'. blockheap_free (Some a) (Some q) w = Some (Return (0, w')) \<and> mem_inv g w' m' X"
proof -
  from inv obtain c where i: "heaps_rep w m" "heaps_listed w" "gc_known g m" "g_pkg g = Some c" "Some c \<notin> other_heaps g" "lives m c = Some X"
    by (auto simp: mem_inv_def heaps_inv_def)
  from free_heaps [OF i(1) L] obtain w' m' where
    q: "blockheap_free (Some a) (Some q) w = Some (Return (0, w'))" "heaps_rep w' m'" "lives m' = (lives m)(a \<mapsto> L - {q})" by blast
  moreover have "gc_known g m'" by (rule lives_upd_known [OF q(3) i(3)])
  moreover have "heaps_listed w'" by (rule same_heaps_listed [OF free_same [OF q(1)] i(2)])
  moreover have "c \<noteq> a" using i(5) h by auto
  ultimately show ?thesis using i(4-6) by (intro exI [of _ w'] exI [of _ m']) (simp add: mem_inv_def heaps_inv_def)
qed

section \<open>Opening a package\<close>

lemma add_entries_cache: "add_entries E pid es fes s = Some s' \<Longrightarrow> \<exists>c. s' = s\<lparr>pk_cache := c\<rparr>"
proof (induction es arbitrary: fes s)
  case Nil
  then show ?case by (intro exI [of _ "pk_cache s"]) simp
next
  case (Cons e es)
  then obtain rv s1 where 1: "add_entry E pid e (case fes of [] \<Rightarrow> None | fe # _ \<Rightarrow> fe) s = Some (rv, s1)"
    "add_entries E pid es (tl fes) s1 = Some s'" by (auto simp: bind_eq_Some_conv)
  then have "s1 = s\<lparr>pk_cache := pk_cache s1\<rparr>"
    by (auto simp: add_entry_def vfs_add_path_def bind_eq_Some_conv split: if_splits option.split_asm)
  with Cons.IH [OF 1(2)] show ?case by (metis pkg_state.update_convs(5) pkg_state.surjective)
qed

lemma import_inv:
  assumes inv: "pkg_inv s" and mem: "pk_handles s mem = None" and nv: "pkg_view s file = None"
    and run: "pkg_import E mem fes junk file s = Some (r, s')"
  shows "pkg_inv s' \<and> dom (pk_handles s') = insert mem (dom (pk_handles s)) \<and> (\<forall>n. n \<noteq> file \<longrightarrow> pkg_view s' n = pkg_view s n) \<and>
    (r = None \<or> r = Some mem \<and> (\<exists>t. owns s' file mem t))"
proof -
  have fresh: "mem \<notin> set (pk_list s)" using mem inv by (force simp: pkg_inv_def)
  define id where "id = fst (db_pkg_add E file (s\<lparr>pk_locked := True\<rparr>))"
  let ?t = "junk\<lparr>ph_name := Some file, ph_pkgid := id, ph_fd := pe_open E file\<rparr>"
  define s2 where "s2 = snd (db_pkg_add E file (s\<lparr>pk_locked := True\<rparr>))"
  have s2: "pk_list s2 = pk_list s" "pk_handles s2 = pk_handles s" by (simp_all add: s2_def db_pkg_add_def Let_def)
  let ?s3 = "s2\<lparr>pk_handles := (pk_handles s2)(mem \<mapsto> ?t)\<rparr>"
  have nl: "\<not> pk_locked s" using run by (simp add: pkg_import_def db_begin_def split: if_splits)
  have add: "db_pkg_add E file (s\<lparr>pk_locked := True\<rparr>) = (id, s2)" by (simp add: id_def s2_def)
  have im: "(if pe_open E file < 0 \<or> pe_locking E \<and> \<not> pe_flock E file then map_option (Pair None) (pkg_release mem ?s3)
    else case pe_archive E file of None \<Rightarrow> Some (None, ?s3\<lparr>pk_list := pk_list s2 @ [mem]\<rparr>)
      | Some (es, eof) \<Rightarrow> do { s5 \<leftarrow> add_entries E id es fes (?s3\<lparr>pk_list := pk_list s2 @ [mem]\<rparr>);
          s6 \<leftarrow> (if eof then Some s5 else db_rollback s5); s7 \<leftarrow> db_commit s6; Some (Some mem, s7) }) = Some (r, s')"
    by (cases "pe_open E file < 0"; cases "pe_locking E"; cases "pe_flock E file")
      (use run nl add s2(1) in \<open>simp_all add: pkg_import_def db_begin_def pkg_archive_open_def Let_def\<close>)
  show ?thesis
  proof (cases "pe_open E file < 0 \<or> pe_locking E \<and> \<not> pe_flock E file")
    case True
    with im have "map_option (Pair None) (pkg_release mem ?s3) = Some (r, s')" by simp
    then obtain q where q: "r = None" "pk_list s' = pk_list s" "pk_handles s' = (pk_handles s)(mem \<mapsto> q)"
      using fresh s2 by (auto simp: pkg_release_def pkg_findnode_def Let_def)
    have "pkg_inv s' = pkg_inv s \<and> pkg_view s' = pkg_view s" by (rule view_cong) (use q fresh in auto)
    with q inv show ?thesis by simp
  next
    case False
    let ?s4 = "?s3\<lparr>pk_list := pk_list s2 @ [mem]\<rparr>"
    have 4: "pkg_inv ?s4 \<and> owns ?s4 file mem ?t \<and> pkg_view ?s4 = (pkg_view s)(file \<mapsto> ?t)"
      by (rule add_listed [OF inv fresh nv]) (simp_all add: s2)
    have "pk_list s' = pk_list ?s4 \<and> pk_handles s' = pk_handles ?s4 \<and> (r = None \<or> r = Some mem)"
    proof (cases "pe_archive E file")
      case None
      then show ?thesis using im False by auto
    next
      case (Some x)
      obtain es eof where x: "x = (es, eof)" by (cases x)
      from im False Some x obtain s5 where s5: "add_entries E id es fes ?s4 = Some s5"
        "do { s6 \<leftarrow> (if eof then Some s5 else db_rollback s5); s7 \<leftarrow> db_commit s6; Some (Some mem, s7) } = Some (r, s')"
        by (auto simp: bind_eq_Some_conv)
      from add_entries_cache [OF s5(1)] obtain c where c: "s5 = ?s4\<lparr>pk_cache := c\<rparr>" ..
      show ?thesis using s5(2) unfolding c by (auto simp: db_commit_def db_rollback_def split: if_splits)
    qed
    then have e: "pk_list s' = pk_list ?s4" "pk_handles s' = pk_handles ?s4" "r = None \<or> r = Some mem" by auto
    have "pkg_inv s' = pkg_inv ?s4 \<and> pkg_view s' = pkg_view ?s4" by (rule view_cong) (use e in auto)
    moreover have "owns s' file mem ?t" using 4 e by (simp add: owns_def)
    ultimately show ?thesis using 4 e s2 by auto
  qed
qed

lemma pkg_open_inv:
  assumes inv: "pkg_inv s" and mem: "pk_handles s mem = None" and b: "pkg_handle_byname file s = Some None"
    and run: "pkg_open E mem fes junk file s = Some (r, s')"
  shows "pkg_inv s' \<and> dom (pk_handles s') = insert mem (dom (pk_handles s)) \<and> (\<forall>n. n \<noteq> file \<longrightarrow> pkg_view s' n = pkg_view s n)"
proof -
  have nv: "pkg_view s file = None" using byname_spec [OF inv, of "file"] b by auto
  from run b obtain t s1 where i: "pkg_import E mem fes junk file s = Some (t, s1)"
    and r: "(case t of None \<Rightarrow> Some (None, s1) | Some a \<Rightarrow> pkg_touch E a s1) = Some (r, s')"
    by (auto simp: pkg_open_def bind_eq_Some_conv)
  note 1 = import_inv [OF inv mem nv i]
  show ?thesis
  proof (cases t)
    case None
    with r 1 show ?thesis by simp
  next
    case (Some a)
    with 1 obtain p where p: "a = mem" "owns s1 file mem p" by auto
    from touch_ok [OF _ p(2) refl, of E] 1 r Some p(1) have
      "pkg_inv s' \<and> pkg_view s' = (pkg_view s1)(file \<mapsto> p\<lparr>ph_otime := pe_time E, ph_refcnt := int_of_long (ph_refcnt p + 1)\<rparr>)" by auto
    moreover have "pk_handles s' = (pk_handles s1)(mem \<mapsto> p\<lparr>ph_otime := pe_time E, ph_refcnt := int_of_long (ph_refcnt p + 1)\<rparr>)"
      "mem \<in> dom (pk_handles s1)" using r Some p by (auto simp: pkg_touch_def owns_def)
    then have "dom (pk_handles s') = dom (pk_handles s1)" by (simp add: insert_absorb)
    ultimately show ?thesis using 1 by auto
  qed
qed

lemma cache_elems_inv:
  "balloc_env_ok e \<Longrightarrow> mem_inv g w m X \<Longrightarrow> cache_elems e (g_cache g) pid es w = Some (Return (fes, w')) \<Longrightarrow> \<exists>m'. mem_inv g w' m' X"
proof (induction es arbitrary: w m fes)
  case (Cons x xs)
  from Cons.prems(3) obtain y fs where
    y: "(if takes_elem pid x then blockheap_alloc e (g_cache g) w else Some (Return (None, w))) = Some (Return y)"
    and r: "cache_elems e (g_cache g) pid xs (snd y) = Some (Return (fs, w'))"
    by (auto simp: pbind_Return case_prod_beta split: if_split_asm)
  have "\<exists>m1. mem_inv g (snd y) m1 X"
  proof (cases "takes_elem pid x")
    case True
    have "g_cache g \<in> other_heaps g" by (simp add: other_heaps_def)
    from alloc_other [OF Cons.prems(1,2) this, of "fst y" "snd y"] y True show ?thesis by auto
  next
    case False
    with y Cons.prems(2) show ?thesis by auto
  qed
  with Cons.IH [OF Cons.prems(1) _ r] show ?case by blast
qed auto

lemma open_mem_inv:
  assumes env: "balloc_env_ok e" and inv: "daemon_inv D m" and run: "pkg_open_mem e E file D = Some (Return (r, D'))"
  shows "daemon_ok D' \<and> (\<forall>n. n \<noteq> file \<longrightarrow> pkg_view (d_pkgs D') n = pkg_view (d_pkgs D) n)"
proof -
  let ?g = "d_heaps D" and ?s = "d_pkgs D"
  have i: "pkg_inv ?s" and mi: "mem_inv ?g (d_mem D) m (dom (pk_handles ?s))" using inv by (auto simp: daemon_inv_def)
  from byname_spec [OF i, of "file"] obtain b where b: "pkg_handle_byname file ?s = Some b"
    "case b of None \<Rightarrow> pkg_view ?s file = None
     | Some a \<Rightarrow> a \<in> set (pk_list ?s) \<and> pkg_view ?s file = pk_handles ?s a \<and> (\<exists>p. pk_handles ?s a = Some p \<and> ph_name p = Some file)"
    by blast
  show ?thesis
  proof (cases b)
    case (Some a)
    with b obtain p where o: "owns ?s file a p" by (auto simp: owns_def)
    from run b(1) Some obtain s where t: "pkg_touch E a ?s = Some (r, s)" and D': "D' = D\<lparr>d_pkgs := s\<rparr>"
      by (auto simp: pkg_open_mem_def bind_eq_Some_conv)
    from touch_ok [OF i o refl, of E] t have
      v: "pkg_inv s" "pkg_view s = (pkg_view ?s)(file \<mapsto> p\<lparr>ph_otime := pe_time E, ph_refcnt := int_of_long (ph_refcnt p + 1)\<rparr>)" by auto
    have "pk_handles s = (pk_handles ?s)(a \<mapsto> p\<lparr>ph_otime := pe_time E, ph_refcnt := int_of_long (ph_refcnt p + 1)\<rparr>)" "a \<in> dom (pk_handles ?s)"
      using t o by (auto simp: pkg_touch_def owns_def)
    then have "dom (pk_handles s) = dom (pk_handles ?s)" by (simp add: insert_absorb)
    with v mi D' show ?thesis by (auto simp: daemon_ok_def daemon_inv_def)
  next
    case None
    from run b(1) None obtain x s0 where
      x: "blockheap_alloc e (g_pkg ?g) (d_mem D) = Some (Return x)" and
      rest: "do { t \<leftarrow> fst x; let entries = (case pe_archive E file of None \<Rightarrow> [] | Some (es, eof) \<Rightarrow> es) in
          pbind (if 0 \<le> pe_open E file \<and> (pe_locking E \<longrightarrow> pe_flock E file)
            then pbind (blockheap_alloc e (g_dlink ?g) (snd x)) (\<lambda>(node, w2). cache_elems e (g_cache ?g) (fst (db_pkg_add E file s0)) entries w2)
            else Some (Return ([], snd x))) (\<lambda>(fes, w3). do { (p, s) \<leftarrow> pkg_open E t fes zero_handle file ?s;
              Some (Return (p, D\<lparr>d_pkgs := s, d_mem := w3\<rparr>)) }) } = Some (Return (r, D'))"
      by (auto simp: pkg_open_mem_def bind_eq_Some_conv pbind_Return [of "blockheap_alloc e (g_pkg ?g) (d_mem D)"] case_prod_beta)
    obtain q m1 where q: "fst x = Some q" "q \<notin> dom (pk_handles ?s)" "mem_inv ?g (snd x) m1 (insert q (dom (pk_handles ?s)))"
      using alloc_pkg [OF env mi, of "fst x" "snd x"] x by auto
    define entries where "entries = (case pe_archive E file of None \<Rightarrow> [] | Some (es, eof) \<Rightarrow> es)"
    from rest q(1) obtain y s where
      y: "(if 0 \<le> pe_open E file \<and> (pe_locking E \<longrightarrow> pe_flock E file)
          then pbind (blockheap_alloc e (g_dlink ?g) (snd x)) (\<lambda>(node, w2). cache_elems e (g_cache ?g) (fst (db_pkg_add E file s0)) entries w2)
          else Some (Return ([], snd x))) = Some (Return y)" and
      o: "pkg_open E q (fst y) zero_handle file ?s = Some (r, s)" and D': "D' = D\<lparr>d_pkgs := s, d_mem := snd y\<rparr>"
      unfolding entries_def [symmetric] Let_def
      by (auto simp: pbind_Return [of _ "\<lambda>x. case x of (fes, w3) \<Rightarrow> F fes w3" for F] bind_eq_Some_conv case_prod_beta)
    have "\<exists>m2. mem_inv ?g (snd y) m2 (insert q (dom (pk_handles ?s)))"
    proof (cases "0 \<le> pe_open E file \<and> (pe_locking E \<longrightarrow> pe_flock E file)")
      case True
      with y obtain z where z: "blockheap_alloc e (g_dlink ?g) (snd x) = Some (Return z)"
        "cache_elems e (g_cache ?g) (fst (db_pkg_add E file s0)) entries (snd z) = Some (Return y)"
        by (auto simp: pbind_Return case_prod_beta)
      have "g_dlink ?g \<in> other_heaps ?g" by (simp add: other_heaps_def)
      from alloc_other [OF env q(3) this, of "fst z" "snd z"] z(1) obtain m2 where
        "mem_inv ?g (snd z) m2 (insert q (dom (pk_handles ?s)))" by auto
      from cache_elems_inv [OF env this, of _ entries "fst y" "snd y"] z(2) show ?thesis by simp
    next
      case False
      then have "snd y = snd x" using y by auto
      with q(3) show ?thesis by (intro exI [of _ m1]) simp
    qed
    moreover have "pk_handles ?s q = None" using q(2) by (simp add: domIff)
    from pkg_open_inv [OF i this _ o] b(1) None have "pkg_inv s" "dom (pk_handles s) = insert q (dom (pk_handles ?s))"
      "\<forall>n. n \<noteq> file \<longrightarrow> pkg_view s n = pkg_view ?s n" by auto
    ultimately show ?thesis using D' by (auto simp: daemon_ok_def daemon_inv_def)
  qed
qed

lemma open_found_ok:
  "balloc_env_ok e \<Longrightarrow> daemon_ok D \<Longrightarrow> open_found e E evs D = Some (Return D') \<Longrightarrow> daemon_ok D'"
proof (induction evs arbitrary: D)
  case (Cons ev evs)
  show ?case
  proof (cases "\<exists>p. ev = PkgOpen p")
    case True
    then obtain p where p: "ev = PkgOpen p" ..
    with Cons.prems(3) obtain x where x: "pkg_open_mem e E p D = Some (Return x)" "open_found e E evs (snd x) = Some (Return D')"
      by (auto simp: pbind_Return case_prod_beta)
    from Cons.prems(2) obtain m where "daemon_inv D m" by (auto simp: daemon_ok_def)
    from open_mem_inv [OF Cons.prems(1) this, of E p "fst x" "snd x"] x(1) have "daemon_ok (snd x)" by simp
    with Cons.IH [OF Cons.prems(1) _ x(2)] show ?thesis by simp
  next
    case False
    then have "open_found e E evs D = Some (Return D')" using Cons.prems(3) by (cases ev) auto
    with Cons.IH [OF Cons.prems(1,2)] show ?thesis .
  qed
qed simp

section \<open>The thread of the file system\<close>

lemma watch_add_inv:
  assumes env: "balloc_env_ok e" and inv: "mem_inv g w m X" and run: "vfs_watch_add e (g_watch g) addf file ws w = Some (Return (p, ws', w'))"
  shows "\<exists>m'. mem_inv g w' m' X"
proof -
  let ?fd = "addf file (IN_CLOSE_WRITE OR IN_MOVED_TO OR IN_MOVED_FROM OR IN_DELETE OR IN_DELETE_SELF)"
  have g: "g_watch g \<in> other_heaps g" by (simp add: other_heaps_def)
  from run obtain r where r: "blockheap_alloc e (g_watch g) w = Some r" by (auto simp: vfs_watch_add_def bind_eq_Some_conv)
  with run have "r \<noteq> Exits" by (auto simp: vfs_watch_add_def)
  with r obtain t w1 where t: "blockheap_alloc e (g_watch g) w = Some (Return (t, w1))" by (cases r) auto
  from alloc_other [OF env inv g t] obtain q a L m1 where
    q: "g_watch g = Some a" "t = Some q" "lives m1 = (lives m)(a \<mapsto> insert q L)" "mem_inv g w1 m1 X" by blast
  show ?thesis
  proof (cases "?fd \<le> 0")
    case True
    from free_other [OF q(4), of a "insert q L" q] g q(1,3) obtain w2 m2 where
      "blockheap_free (Some a) (Some q) w1 = Some (Return (0, w2))" "mem_inv g w2 m2 X" by auto
    then show ?thesis using run t q(1,2) True by (auto simp: vfs_watch_add_def Let_def)
  next
    case False
    then show ?thesis using run t q by (auto simp: vfs_watch_add_def Let_def)
  qed
qed

lemma add_watches_inv:
  "balloc_env_ok e \<Longrightarrow> mem_inv g w m X \<Longrightarrow> add_watches e (g_watch g) addf ps ws w = Some (Return (ws', w')) \<Longrightarrow> \<exists>m'. mem_inv g w' m' X"
proof (induction ps arbitrary: ws w m)
  case (Cons p ps)
  then obtain y ws1 w1 where 1: "vfs_watch_add e (g_watch g) addf p ws w = Some (Return (y, ws1, w1))"
    "add_watches e (g_watch g) addf ps ws1 w1 = Some (Return (ws', w'))" by (auto split: option.splits proc.splits)
  from watch_add_inv [OF Cons.prems(1,2) 1(1)] Cons.IH [OF Cons.prems(1) _ 1(2)] show ?case by blast
qed auto

lemma watch_init_inv:
  assumes "balloc_env_ok e" "mem_inv g w m X" "vfs_watch_init e (g_watch g) initfd addf conf fd ws w = Some (Return (rv, fd', ws', w'))"
  shows "\<exists>m'. mem_inv g w' m' X"
proof (cases "fd \<noteq> 0 \<or> initfd = - 1")
  case True
  then have "w' = w" using assms(3) by (cases "fd = 0") (auto simp: vfs_watch_init_def)
  with assms(2) show ?thesis by blast
next
  case False
  then obtain v where v: "dconf_get_str conf (Some ''path.pkg'') (Some ''/pkg'') = Some (Some v)"
    using assms(3) by (auto simp: vfs_watch_init_def bind_eq_Some_conv)
  define ps where "ps = (if CHR '':'' \<notin> set (take 4096 v) then strtok_all ('':'' @ [c_nl]) (take 4096 v) else [take 4096 v])"
  have "(case add_watches e (g_watch g) addf ps ws w of None \<Rightarrow> None | Some Exits \<Rightarrow> Some Exits
    | Some (Return (ws1, w1)) \<Rightarrow> Some (Return (0, initfd, ws1, w1))) = Some (Return (rv, fd', ws', w'))"
    using assms(3) False v by (simp add: vfs_watch_init_def Let_def ps_def)
  then have "add_watches e (g_watch g) addf ps ws w = Some (Return (ws', w'))" by (auto split: option.split_asm proc.split_asm)
  with add_watches_inv [OF assms(1,2)] show ?thesis by blast
qed

lemma scan_ok:
  assumes env: "balloc_env_ok e" and ok: "daemon_ok D" and run: "vfs_scan e H D = Some (Return D')"
  shows "daemon_ok D'"
proof -
  from ok obtain m where i: "pkg_inv (d_pkgs D)" and mi: "mem_inv (d_heaps D) (d_mem D) m (dom (pk_handles (d_pkgs D)))"
    by (auto simp: daemon_ok_def daemon_inv_def)
  from run obtain inot :: int where p: "pbind (if inot = 1
      then vfs_watch_init e (g_watch (d_heaps D)) (vh_inotify H) (vh_watch H) (d_conf D) (d_inotify D) (d_watches D) (d_mem D)
      else Some (Return (0, d_inotify D, d_watches D, d_mem D))) (\<lambda>(rv, fd, ws, w).
        let D1 = D\<lparr>d_inotify := fd, d_watches := ws, d_mem := w\<rparr> in
        do { pre \<leftarrow> dconf_get_bool (d_conf D1) (Some ''pkgdir.prescan'') 0;
             if pre = 1 then do { evs \<leftarrow> vfs_dir_walk (vh_dirs H) (d_conf D1); open_found e (vh_pkgs H) evs D1 }
             else Some (Return D1) }) = Some (Return D')"
    unfolding vfs_scan_def bind_eq_Some_conv by blast
  then obtain rv fd ws w where
    x: "(if inot = 1
      then vfs_watch_init e (g_watch (d_heaps D)) (vh_inotify H) (vh_watch H) (d_conf D) (d_inotify D) (d_watches D) (d_mem D)
      else Some (Return (0, d_inotify D, d_watches D, d_mem D))) = Some (Return (rv, fd, ws, w))" and
    y: "(let D1 = D\<lparr>d_inotify := fd, d_watches := ws, d_mem := w\<rparr> in
        do { pre \<leftarrow> dconf_get_bool (d_conf D1) (Some ''pkgdir.prescan'') 0;
             if pre = 1 then do { evs \<leftarrow> vfs_dir_walk (vh_dirs H) (d_conf D1); open_found e (vh_pkgs H) evs D1 }
             else Some (Return D1) }) = Some (Return D')"
    unfolding pbind_Return by fast
  let ?D1 = "D\<lparr>d_inotify := fd, d_watches := ws, d_mem := w\<rparr>"
  from y obtain pre :: int where r: "(if pre = 1 then do { evs \<leftarrow> vfs_dir_walk (vh_dirs H) (d_conf ?D1); open_found e (vh_pkgs H) evs ?D1 }
      else Some (Return ?D1)) = Some (Return D')" unfolding Let_def bind_eq_Some_conv by blast
  have "\<exists>m'. mem_inv (d_heaps D) w m' (dom (pk_handles (d_pkgs D)))"
  proof (cases "inot = 1")
    case True
    with x have "vfs_watch_init e (g_watch (d_heaps D)) (vh_inotify H) (vh_watch H) (d_conf D) (d_inotify D) (d_watches D) (d_mem D) =
      Some (Return (rv, fd, ws, w))" by simp
    from watch_init_inv [OF env mi this] show ?thesis .
  next
    case False
    with x have "w = d_mem D" by auto
    with mi show ?thesis by (intro exI [of _ m]) simp
  qed
  with i have ok1: "daemon_ok ?D1" by (simp add: daemon_ok_def daemon_inv_def)
  show ?thesis
  proof (cases "pre = 1")
    case True
    with r obtain evs where "open_found e (vh_pkgs H) evs ?D1 = Some (Return D')" by (auto simp: bind_eq_Some_conv)
    with open_found_ok [OF env ok1] show ?thesis by blast
  next
    case False
    with r ok1 show ?thesis by simp
  qed
qed

lemma thread_vfs_ok:
  assumes env: "balloc_env_ok e" and ok: "daemon_ok D" and run: "thread_vfs_init e H D = Some (Return (cs, D'))"
  shows "daemon_ok D'"
proof -
  from ok obtain m where i: "pkg_inv (d_pkgs D)" and mi: "mem_inv (d_heaps D) (d_mem D) m (dom (pk_handles (d_pkgs D)))"
    by (auto simp: daemon_ok_def daemon_inv_def)
  from run obtain D1 n where h: "vfs_heaps_init e D = Some (Return D1)" and
    s: "vfs_scan e H (D1\<lparr>d_timers := evt_timer_add_periodic ''vfs_gc'' n (d_timers D1)\<rparr>) = Some (Return D')"
    by (auto simp: thread_vfs_init_def pbind_Return bind_eq_Some_conv)
  from vfs_heaps_inv [OF env mi h] obtain g w m' where
    "D1 = D\<lparr>d_heaps := g, d_mem := w\<rparr>" "mem_inv g w m' (dom (pk_handles (d_pkgs D)))" by blast
  with i have "daemon_ok (D1\<lparr>d_timers := evt_timer_add_periodic ''vfs_gc'' n (d_timers D1)\<rparr>)" by (auto simp: daemon_ok_def daemon_inv_def)
  from scan_ok [OF env this s] show ?thesis .
qed

section \<open>The running daemon\<close>

lemma close_ok:
  assumes ok: "daemon_ok D" and run: "pkg_close a (d_pkgs D) = Some s"
  shows "daemon_ok (D\<lparr>d_pkgs := s\<rparr>)"
proof -
  from ok obtain m where i: "pkg_inv (d_pkgs D)" and mi: "mem_inv (d_heaps D) (d_mem D) m (dom (pk_handles (d_pkgs D)))"
    by (auto simp: daemon_ok_def daemon_inv_def)
  from run obtain p where p: "pk_handles (d_pkgs D) a = Some p"
    and s: "s = (d_pkgs D)\<lparr>pk_handles := (pk_handles (d_pkgs D))(a \<mapsto> p\<lparr>ph_refcnt := int_of_long (ph_refcnt p - 1)\<rparr>)\<rparr>"
    by (auto simp: pkg_close_def bind_eq_Some_conv)
  have n: "name_at s = name_at (d_pkgs D)" using p by (auto simp: fun_eq_iff name_at_def handle_at_def s)
  have "pkg_inv s" using i p unfolding pkg_inv_def n by (auto simp: s)
  moreover have "dom (pk_handles s) = dom (pk_handles (d_pkgs D))" using p by (simp add: s insert_absorb domI)
  ultimately show ?thesis using mi by (auto simp: daemon_ok_def daemon_inv_def)
qed

lemma tick_keeps:
  assumes ok: "daemon_ok D" and run: "tick time D = Some D'"
  shows "daemon_ok D'"
proof -
  from run obtain v p where "dconf_get_str (d_conf D) (Some ''tuning.timer.global_gc'') None = Some v" "timestr_to_time v 60 = Some p" "p \<noteq> 0"
    by (auto simp: tick_def cron_tick_def bind_eq_Some_conv split: if_splits)
  from tick_ok [OF ok this, of time] run show ?thesis by auto
qed

lemma step_ok:
  assumes "daemon_step e D D'" "balloc_env_ok e" "daemon_ok D"
  shows "daemon_ok D'"
  using assms
proof cases
  case (step_gc time)
  then show ?thesis using gc_timer_ok [OF assms(3), of time] by auto
next
  case (step_pkg_gc time)
  then show ?thesis using pkg_timer_ok [OF assms(3), of time] by auto
next
  case step_vfs_gc
  then show ?thesis using vfs_timer_ok [OF assms(3)] by auto
next
  case (step_tick time)
  then show ?thesis using tick_keeps [OF assms(3)] by blast
next
  case (step_open E f r)
  then show ?thesis using assms(3) open_mem_inv [OF assms(2)] by (auto simp: daemon_ok_def)
next
  case (step_close a s)
  then show ?thesis using close_ok [OF assms(3)] by auto
next
  case (step_vfs H cs)
  then show ?thesis using thread_vfs_ok [OF assms(2,3)] by blast
qed

text \<open>The states of a daemon that was started with the files \<open>fs\<close> on the host.\<close>
inductive daemon_reach :: "main_env \<Rightarrow> (string \<rightharpoonup> string) \<Rightarrow> daemon \<Rightarrow> bool" for V fs where
  reach_start: "main_init V (daemon0 fs) = Some (Return (0, D)) \<Longrightarrow> daemon_reach V fs D"
| reach_step: "daemon_reach V fs D \<Longrightarrow> daemon_step (mv_heap V) D D' \<Longrightarrow> daemon_reach V fs D'"

lemma reach_ok: "daemon_reach V fs D \<Longrightarrow> balloc_env_ok (mv_heap V) \<Longrightarrow> daemon_ok D"
proof (induction rule: daemon_reach.induct)
  case (reach_start D)
  then show ?case using main_init_inv by blast
next
  case (reach_step D D')
  then show ?case using step_ok by blast
qed

end
