(* ===== verification/StartupProps.thy ===== *)
theory StartupProps
  imports StartupOps
begin

text \<open>
  The properties of the start of the daemon and of its run: when \<open>main\<close> gets to its threads, and what holds in every later state.
\<close>

section \<open>Memory that is not refused\<close>

text \<open>In the worlds of \<open>G\<close> a heap can be created, and leads to a world of \<open>G\<close>.\<close>
definition grants :: "benv \<Rightarrow> (bworld \<Rightarrow> bool) \<Rightarrow> bool" where
  "grants e G \<longleftrightarrow> (\<forall>w sz n name. G w \<longrightarrow> sz \<noteq> 0 \<longrightarrow> 0 < n \<longrightarrow> blockheap_create e sz n name w \<noteq> Some Exits \<and>
     (\<forall>a w'. blockheap_create e sz n name w = Some (Return (a, w')) \<longrightarrow> G w'))"

definition unrefused :: "benv \<Rightarrow> bworld \<Rightarrow> bool" where
  "unrefused e w \<longleftrightarrow> (\<exists>G. grants e G \<and> G w)"


text \<open>A call that returns with \<open>P\<close>, or ends the process because memory was refused.\<close>
definition returns :: "benv \<Rightarrow> bworld \<Rightarrow> 'a proc option \<Rightarrow> ('a \<Rightarrow> bool) \<Rightarrow> bool" where
  "returns e w r P \<longleftrightarrow> r = Some Exits \<and> \<not> unrefused e w \<or> (\<exists>x. r = Some (Return x) \<and> P x)"

lemma returns_Return [simp]: "returns e w (Some (Return x)) P = P x"
  by (simp add: returns_def)










section \<open>An environment that always finds memory\<close>








section \<open>Properties\<close>













end
