(* ===== verification/Linenoise.thy ===== *)
theory Linenoise
  imports Prelude Conf "HOL-Library.Word"
begin

text \<open>
  The line editor of src/linenoise.c that reads the shell's commands, in its single line mode: the edit buffer with the functions behind the keys,
  redrawing, completion, history, and the loop over the keys typed. The buffer is the C array, with a terminating NUL
  and whatever bytes lie behind it; \<open>memmove\<close> and stores outside of it have no result (\<open>None\<close>). The terminal's
  input is a list of bytes, its end the end of file; what is written to it is collected in \<open>ln_out\<close>. The callbacks for hints and completion are arguments, as
  are the number of columns and whether memory is left.
\<close>

unbundle bit_operations_syntax

section \<open>State\<close>

definition LINENOISE_DEFAULT_HISTORY_MAX_LEN :: nat where "LINENOISE_DEFAULT_HISTORY_MAX_LEN = 100"
definition LINENOISE_MAX_LINE :: nat where "LINENOISE_MAX_LINE = 4096"

record linenoiseState =
  ln_buf :: string
  ln_buflen :: nat
  ln_prompt :: string
  ln_pos :: nat
  ln_len :: nat
  ln_cols :: nat
  ln_history_index :: int
  ln_out :: string

definition CTRL_A :: char where "CTRL_A = CHR 0x01"
definition CTRL_B :: char where "CTRL_B = CHR 0x02"
definition CTRL_C :: char where "CTRL_C = CHR 0x03"
definition CTRL_D :: char where "CTRL_D = CHR 0x04"
definition CTRL_E :: char where "CTRL_E = CHR 0x05"
definition CTRL_F :: char where "CTRL_F = CHR 0x06"
definition CTRL_H :: char where "CTRL_H = CHR 0x08"
definition TAB :: char where "TAB = CHR 0x09"
definition CTRL_K :: char where "CTRL_K = CHR 0x0B"
definition CTRL_L :: char where "CTRL_L = CHR 0x0C"
definition ENTER :: char where "ENTER = CHR 0x0D"
definition CTRL_N :: char where "CTRL_N = CHR 0x0E"
definition CTRL_P :: char where "CTRL_P = CHR 0x10"
definition CTRL_T :: char where "CTRL_T = CHR 0x14"
definition CTRL_U :: char where "CTRL_U = CHR 0x15"
definition CTRL_W :: char where "CTRL_W = CHR 0x17"
definition ESC :: char where "ESC = CHR 0x1B"
definition BACKSPACE :: char where "BACKSPACE = CHR 0x7F"

text \<open>Stores into the buffer, and the C string in it.\<close>

definition store_at :: "nat \<Rightarrow> char \<Rightarrow> string \<Rightarrow> string option" where
  "store_at i c b = (if i < length b then Some (b[i := c]) else None)"

definition memmove :: "nat \<Rightarrow> nat \<Rightarrow> nat \<Rightarrow> string \<Rightarrow> string option" where
  "memmove dst src n b =
     (if dst + n \<le> length b \<and> src + n \<le> length b
      then Some (take dst b @ take n (drop src b) @ drop (dst + n) b) else None)"

definition c_str :: "string \<Rightarrow> string" where
  "c_str b = takeWhile (\<lambda>c. c \<noteq> c_nul) b"

section \<open>Redrawing\<close>

text \<open>A hint with its colour and weight.\<close>
type_synonym hinter = "string \<Rightarrow> (string \<times> int \<times> int) option"

text \<open>The two loops that choose the part of the line to show, in unsigned 64-bit arithmetic; \<open>off\<close> is how far \<open>buf\<close> has moved.\<close>
partial_function (option) scroll_loop :: "64 word \<Rightarrow> 64 word \<Rightarrow> nat \<Rightarrow> 64 word \<Rightarrow> 64 word \<Rightarrow> (nat \<times> 64 word \<times> 64 word) option" where
  "scroll_loop plen cols off len pos =
     (if cols \<le> plen + pos then scroll_loop plen cols (Suc off) (len - 1) (pos - 1) else Some (off, len, pos))"

partial_function (option) trim_loop :: "64 word \<Rightarrow> 64 word \<Rightarrow> 64 word \<Rightarrow> 64 word option" where
  "trim_loop plen cols len = (if cols < plen + len then trim_loop plen cols (len - 1) else Some len)"

declare scroll_loop.simps [code] trim_loop.simps [code]

definition refreshShowHints :: "hinter option \<Rightarrow> linenoiseState \<Rightarrow> string" where
  "refreshShowHints hc l =
     (case hc of
        None \<Rightarrow> []
      | Some f \<Rightarrow>
          if length (ln_prompt l) + ln_len l < ln_cols l
          then (case f (c_str (ln_buf l)) of
                  None \<Rightarrow> []
                | Some (hint, color, bold) \<Rightarrow>
                    let col = (if bold = 1 \<and> color = - 1 then 37 else color);
                        esc = (col \<noteq> - 1 \<or> bold \<noteq> 0) in
                    (if esc then [ESC, CHR ''[''] @ show_int bold @ '';'' @ show_int col @ '';49m'' else []) @
                    take (ln_cols l - (length (ln_prompt l) + ln_len l)) hint @
                    (if esc then [ESC] @ ''[0m'' else []))
          else [])"

definition refreshSingleLine :: "hinter option \<Rightarrow> linenoiseState \<Rightarrow> string option" where
  "refreshSingleLine hc l =
     (let plen = of_nat (length (ln_prompt l)); cols = of_nat (ln_cols l) in
      do { (off, len, pos) \<leftarrow> scroll_loop plen cols 0 (of_nat (ln_len l)) (of_nat (ln_pos l));
           len2 \<leftarrow> trim_loop plen cols len;
           if off + unat len2 \<le> length (ln_buf l)
           then Some ([c_cr] @ ln_prompt l @ take (unat len2) (drop off (ln_buf l)) @ refreshShowHints hc l @
                      [ESC] @ ''[0K'' @ [c_cr, ESC, CHR ''[''] @ show_nat (unat (pos + plen)) @ ''C'')
           else None })"

definition refreshLine :: "hinter option \<Rightarrow> linenoiseState \<Rightarrow> linenoiseState option" where
  "refreshLine hc l = map_option (\<lambda>t. l\<lparr>ln_out := ln_out l @ t\<rparr>) (refreshSingleLine hc l)"

section \<open>Editing\<close>

text \<open>Writing to the terminal succeeds.\<close>
definition linenoiseEditInsert :: "hinter option \<Rightarrow> char \<Rightarrow> linenoiseState \<Rightarrow> linenoiseState option" where
  "linenoiseEditInsert hc c l =
     (if ln_len l < ln_buflen l
      then if ln_len l = ln_pos l
        then do { b1 \<leftarrow> store_at (ln_pos l) c (ln_buf l);
                  b2 \<leftarrow> store_at (ln_len l + 1) c_nul b1;
                  let l1 = l\<lparr>ln_buf := b2, ln_pos := ln_pos l + 1, ln_len := ln_len l + 1\<rparr> in
                  if length (ln_prompt l1) + ln_len l1 < ln_cols l1 \<and> hc = None
                  then Some (l1\<lparr>ln_out := ln_out l1 @ [c]\<rparr>)
                  else refreshLine hc l1 }
        else do { b1 \<leftarrow> memmove (ln_pos l + 1) (ln_pos l) (ln_len l - ln_pos l) (ln_buf l);
                  b2 \<leftarrow> store_at (ln_pos l) c b1;
                  b3 \<leftarrow> store_at (ln_len l + 1) c_nul b2;
                  refreshLine hc (l\<lparr>ln_buf := b3, ln_len := ln_len l + 1, ln_pos := ln_pos l + 1\<rparr>) }
      else Some l)"

definition linenoiseEditMoveLeft :: "hinter option \<Rightarrow> linenoiseState \<Rightarrow> linenoiseState option" where
  "linenoiseEditMoveLeft hc l = (if 0 < ln_pos l then refreshLine hc (l\<lparr>ln_pos := ln_pos l - 1\<rparr>) else Some l)"

definition linenoiseEditMoveRight :: "hinter option \<Rightarrow> linenoiseState \<Rightarrow> linenoiseState option" where
  "linenoiseEditMoveRight hc l = (if ln_pos l \<noteq> ln_len l then refreshLine hc (l\<lparr>ln_pos := ln_pos l + 1\<rparr>) else Some l)"

definition linenoiseEditMoveHome :: "hinter option \<Rightarrow> linenoiseState \<Rightarrow> linenoiseState option" where
  "linenoiseEditMoveHome hc l = (if ln_pos l \<noteq> 0 then refreshLine hc (l\<lparr>ln_pos := 0\<rparr>) else Some l)"

definition linenoiseEditMoveEnd :: "hinter option \<Rightarrow> linenoiseState \<Rightarrow> linenoiseState option" where
  "linenoiseEditMoveEnd hc l = (if ln_pos l \<noteq> ln_len l then refreshLine hc (l\<lparr>ln_pos := ln_len l\<rparr>) else Some l)"

definition LINENOISE_HISTORY_NEXT :: int where "LINENOISE_HISTORY_NEXT = 0"
definition LINENOISE_HISTORY_PREV :: int where "LINENOISE_HISTORY_PREV = 1"

text \<open>\<open>strncpy(b, s, n)\<close>, which fills up with NULs.\<close>
definition strncpy :: "nat \<Rightarrow> string \<Rightarrow> string \<Rightarrow> string option" where
  "strncpy n s b = (if n \<le> length b then Some (take n (s @ replicate n c_nul) @ drop n b) else None)"

definition linenoiseEditHistoryNext ::
    "hinter option \<Rightarrow> int \<Rightarrow> linenoiseState \<Rightarrow> string list \<Rightarrow> (linenoiseState \<times> string list) option" where
  "linenoiseEditHistoryNext hc dir l h =
     (if 1 < length h
      then let i = int (length h) - 1 - ln_history_index l in
        if i < 0 \<or> int (length h) \<le> i then None
        else let h1 = h[nat i := c_str (ln_buf l)];
                 k = ln_history_index l + (if dir = LINENOISE_HISTORY_PREV then 1 else - 1) in
          if k < 0 then Some (l\<lparr>ln_history_index := 0\<rparr>, h1)
          else if int (length h) \<le> k then Some (l\<lparr>ln_history_index := int (length h) - 1\<rparr>, h1)
          else do { b0 \<leftarrow> strncpy (ln_buflen l) (h1 ! nat (int (length h) - 1 - k)) (ln_buf l);
                    b1 \<leftarrow> store_at (ln_buflen l - 1) c_nul b0;
                    let n = length (c_str b1) in
                    map_option (\<lambda>l1. (l1, h1))
                      (refreshLine hc (l\<lparr>ln_history_index := k, ln_buf := b1, ln_len := n, ln_pos := n\<rparr>)) }
      else Some (l, h))"

definition linenoiseEditDelete :: "hinter option \<Rightarrow> linenoiseState \<Rightarrow> linenoiseState option" where
  "linenoiseEditDelete hc l =
     (if 0 < ln_len l \<and> ln_pos l < ln_len l
      then do { b1 \<leftarrow> memmove (ln_pos l) (ln_pos l + 1) (ln_len l - ln_pos l - 1) (ln_buf l);
                b2 \<leftarrow> store_at (ln_len l - 1) c_nul b1;
                refreshLine hc (l\<lparr>ln_buf := b2, ln_len := ln_len l - 1\<rparr>) }
      else Some l)"

definition linenoiseEditBackspace :: "hinter option \<Rightarrow> linenoiseState \<Rightarrow> linenoiseState option" where
  "linenoiseEditBackspace hc l =
     (if 0 < ln_pos l \<and> 0 < ln_len l
      then do { b1 \<leftarrow> memmove (ln_pos l - 1) (ln_pos l) (ln_len l - ln_pos l) (ln_buf l);
                b2 \<leftarrow> store_at (ln_len l - 1) c_nul b1;
                refreshLine hc (l\<lparr>ln_buf := b2, ln_pos := ln_pos l - 1, ln_len := ln_len l - 1\<rparr>) }
      else Some l)"

text \<open>The loops of \<open>linenoiseEditDeletePrevWord\<close>: back while the byte before the position satisfies \<open>P\<close>.\<close>
fun back_while :: "(char \<Rightarrow> bool) \<Rightarrow> string \<Rightarrow> nat \<Rightarrow> nat" where
  "back_while P b 0 = 0"
| "back_while P b (Suc p) = (if P (b ! p) then back_while P b p else Suc p)"

definition linenoiseEditDeletePrevWord :: "hinter option \<Rightarrow> linenoiseState \<Rightarrow> linenoiseState option" where
  "linenoiseEditDeletePrevWord hc l =
     (let old = ln_pos l;
          p1 = back_while (\<lambda>c. c = CHR '' '') (ln_buf l) old;
          p2 = back_while (\<lambda>c. c \<noteq> CHR '' '') (ln_buf l) p1 in
      do { b1 \<leftarrow> memmove p2 old (ln_len l - old + 1) (ln_buf l);
           refreshLine hc (l\<lparr>ln_buf := b1, ln_pos := p2, ln_len := ln_len l - (old - p2)\<rparr>) })"

text \<open>The case of \<open>CTRL_T\<close>, \<open>CTRL_U\<close> and \<open>CTRL_K\<close>.\<close>
definition edit_transpose :: "hinter option \<Rightarrow> linenoiseState \<Rightarrow> linenoiseState option" where
  "edit_transpose hc l =
     (if 0 < ln_pos l \<and> ln_pos l < ln_len l
      then if ln_pos l < length (ln_buf l)
        then let x = ln_buf l ! (ln_pos l - 1); y = ln_buf l ! ln_pos l;
                 p = (if ln_pos l \<noteq> ln_len l - 1 then ln_pos l + 1 else ln_pos l) in
          refreshLine hc (l\<lparr>ln_buf := (ln_buf l)[ln_pos l - 1 := y, ln_pos l := x], ln_pos := p\<rparr>)
        else None
      else Some l)"

definition edit_kill_line :: "hinter option \<Rightarrow> linenoiseState \<Rightarrow> linenoiseState option" where
  "edit_kill_line hc l =
     do { b1 \<leftarrow> store_at 0 c_nul (ln_buf l); refreshLine hc (l\<lparr>ln_buf := b1, ln_pos := 0, ln_len := 0\<rparr>) }"

definition edit_kill_right :: "hinter option \<Rightarrow> linenoiseState \<Rightarrow> linenoiseState option" where
  "edit_kill_right hc l =
     do { b1 \<leftarrow> store_at (ln_pos l) c_nul (ln_buf l); refreshLine hc (l\<lparr>ln_buf := b1, ln_len := ln_pos l\<rparr>) }"

section \<open>Completion\<close>

text \<open>An option is shown in place of the line; the state is then as before.\<close>
definition complete_show :: "hinter option \<Rightarrow> string list \<Rightarrow> nat \<Rightarrow> linenoiseState \<Rightarrow> linenoiseState option" where
  "complete_show hc opts i l =
     (if i < length opts
      then let s = opts ! i in
        map_option (\<lambda>l1. l\<lparr>ln_out := ln_out l1\<rparr>)
          (refreshLine hc (l\<lparr>ln_buf := s @ [c_nul], ln_len := length s, ln_pos := length s\<rparr>))
      else refreshLine hc l)"

text \<open>\<open>snprintf(buf, n, "%s", s)\<close>.\<close>
definition put_str :: "nat \<Rightarrow> string \<Rightarrow> string \<Rightarrow> string option" where
  "put_str n s b =
     (let t = take (n - 1) s in if n = 0 then Some b else if length t < length b then Some (t @ [c_nul] @ drop (length t + 1) b) else None)"

text \<open>The loop of \<open>completeLine\<close>; the first result is the byte returned, \<open>None\<close> for the end of the input. A chosen option
  that is too long is cut in the buffer, but the length is that of the whole option.\<close>
fun complete_loop ::
    "hinter option \<Rightarrow> string list \<Rightarrow> nat \<Rightarrow> linenoiseState \<Rightarrow> string \<Rightarrow> (char option \<times> linenoiseState \<times> string) option" where
  "complete_loop hc opts i l [] = do { l1 \<leftarrow> complete_show hc opts i l; Some (None, l1, []) }"
| "complete_loop hc opts i l (c # inp) =
     do { l1 \<leftarrow> complete_show hc opts i l;
          if c = TAB then complete_loop hc opts (Suc i mod (length opts + 1)) l1 inp
          else if c = ESC
          then do { l2 \<leftarrow> (if i < length opts then refreshLine hc l1 else Some l1); Some (Some c, l2, inp) }
          else if i < length opts
          then do { b1 \<leftarrow> put_str (ln_buflen l1) (opts ! i) (ln_buf l1);
                    Some (Some c, l1\<lparr>ln_buf := b1, ln_len := length (opts ! i), ln_pos := length (opts ! i)\<rparr>, inp) }
          else Some (Some c, l1, inp) }"

text \<open>\<open>cb\<close> is the completion callback; \<open>None\<close> as its result means that it does not return.\<close>
definition completeLine ::
    "hinter option \<Rightarrow> (string \<Rightarrow> string list option) \<Rightarrow> linenoiseState \<Rightarrow> string \<Rightarrow> (char option \<times> linenoiseState \<times> string) option" where
  "completeLine hc cb l inp =
     do { opts \<leftarrow> cb (c_str (ln_buf l));
          if opts = [] then Some (Some c_nul, l, inp) else complete_loop hc opts 0 l inp }"

definition linenoiseAddCompletion :: "bool \<Rightarrow> string \<Rightarrow> string list \<Rightarrow> string list" where
  "linenoiseAddCompletion ok str lc = (if ok then lc @ [str] else lc)"

section \<open>History\<close>

text \<open>
  The entries from the oldest to the latest, and the most there may be. \<open>ok\<close>: each allocation of the call, if it makes any, succeeds
  (changing the maximum allocates only when there is a history).\<close>
record ln_history =
  lh_list :: "string list"
  lh_max :: int

definition linenoiseHistoryAdd :: "bool \<Rightarrow> string \<Rightarrow> ln_history \<Rightarrow> int \<times> ln_history" where
  "linenoiseHistoryAdd ok line H =
     (let h = lh_list H in
      if lh_max H = 0 then (0, H)
      else if h \<noteq> [] \<and> last h = line then (0, H)
      else if \<not> ok then (0, H)
      else (1, H\<lparr>lh_list := (if int (length h) = lh_max H then drop 1 h else h) @ [line]\<rparr>))"

definition linenoiseHistorySetMaxLen :: "bool \<Rightarrow> int \<Rightarrow> ln_history \<Rightarrow> int \<times> ln_history" where
  "linenoiseHistorySetMaxLen ok len H =
     (if len < 1 then (0, H)
      else if \<not> ok then (0, H)
      else (1, \<lparr>lh_list = drop (length (lh_list H) - nat len) (lh_list H), lh_max = len\<rparr>))"

text \<open>The text written to the file, when it can be opened.\<close>
definition linenoiseHistorySave :: "bool \<Rightarrow> ln_history \<Rightarrow> int \<times> string option" where
  "linenoiseHistorySave can_open H =
     (if \<not> can_open then (- 1, None) else (0, Some (concat (map (\<lambda>e. e @ [c_nl]) (lh_list H)))))"

text \<open>The next line \<open>fgets\<close> gives for a buffer of \<open>n\<close> bytes, and the rest of the file.\<close>
definition fgets_line :: "nat \<Rightarrow> string \<Rightarrow> string \<times> string" where
  "fgets_line n s =
     (let a = takeWhile (\<lambda>c. c \<noteq> c_nl) s;
          t = take (n - 1) (if length a < length s then a @ [c_nl] else a) in
      (t, drop (length t) s))"

text \<open>The line up to its first carriage return, or without one up to its newline.\<close>
definition chop_line :: "string \<Rightarrow> string" where
  "chop_line b =
     (case strchr b c_cr of
        Some k \<Rightarrow> take k b
      | None \<Rightarrow> (case strchr b c_nl of Some k \<Rightarrow> take k b | None \<Rightarrow> b))"

lemma fgets_line_rest: "1 < n \<Longrightarrow> s \<noteq> [] \<Longrightarrow> length (snd (fgets_line n s)) < length s"
  by (cases s) (auto simp: fgets_line_def Let_def)

function load_loop :: "bool \<Rightarrow> string \<Rightarrow> ln_history \<Rightarrow> ln_history" where
  "load_loop ok s H =
     (if s = [] then H
      else let x = fgets_line LINENOISE_MAX_LINE s in
        load_loop ok (snd x) (snd (linenoiseHistoryAdd ok (chop_line (c_str (fst x))) H)))"
  by pat_completeness auto
termination
  by (relation "measure (\<lambda>(ok, s, H). length s)")
    (use fgets_line_rest in \<open>auto simp: LINENOISE_MAX_LINE_def\<close>)

declare load_loop.simps [simp del]

definition linenoiseHistoryLoad :: "bool \<Rightarrow> string option \<Rightarrow> ln_history \<Rightarrow> int \<times> ln_history" where
  "linenoiseHistoryLoad ok file H = (case file of None \<Rightarrow> (- 1, H) | Some s \<Rightarrow> (0, load_loop ok s H))"

section \<open>The loop over the keys\<close>

text \<open>The keys that edit the line or move through the history.\<close>
definition edit_key :: "hinter option \<Rightarrow> char \<Rightarrow> linenoiseState \<Rightarrow> ln_history \<Rightarrow> (linenoiseState \<times> ln_history) option" where
  "edit_key hc c l H =
     (let on_line = map_option (\<lambda>l1. (l1, H));
          on_history = map_option (\<lambda>(l1, h1). (l1, H\<lparr>lh_list := h1\<rparr>)) in
      if c = BACKSPACE \<or> c = CTRL_H then on_line (linenoiseEditBackspace hc l)
      else if c = CTRL_D then on_line (linenoiseEditDelete hc l)
      else if c = CTRL_T then on_line (edit_transpose hc l)
      else if c = CTRL_B then on_line (linenoiseEditMoveLeft hc l)
      else if c = CTRL_F then on_line (linenoiseEditMoveRight hc l)
      else if c = CTRL_P then on_history (linenoiseEditHistoryNext hc LINENOISE_HISTORY_PREV l (lh_list H))
      else if c = CTRL_N then on_history (linenoiseEditHistoryNext hc LINENOISE_HISTORY_NEXT l (lh_list H))
      else if c = CTRL_U then on_line (edit_kill_line hc l)
      else if c = CTRL_K then on_line (edit_kill_right hc l)
      else if c = CTRL_A then on_line (linenoiseEditMoveHome hc l)
      else if c = CTRL_E then on_line (linenoiseEditMoveEnd hc l)
      else if c = CTRL_L then on_line (refreshLine hc (l\<lparr>ln_out := ln_out l @ [ESC] @ ''[H'' @ [ESC] @ ''[2J''\<rparr>))
      else if c = CTRL_W then on_line (linenoiseEditDeletePrevWord hc l)
      else on_line (linenoiseEditInsert hc c l))"

text \<open>A byte of an escape sequence; at the end of the input it is what the stack holds.\<close>
definition next_byte :: "char \<Rightarrow> string \<Rightarrow> char \<times> string" where
  "next_byte junk inp = (case inp of [] \<Rightarrow> (junk, []) | c # r \<Rightarrow> (c, r))"

text \<open>An escape sequence; the keys it stands for are those of \<open>edit_key\<close>, Delete and the arrow keys.\<close>
definition edit_escape ::
    "hinter option \<Rightarrow> char \<Rightarrow> linenoiseState \<Rightarrow> ln_history \<Rightarrow> string \<Rightarrow> ((linenoiseState \<times> ln_history) option \<times> string)" where
  "edit_escape hc junk l H inp =
     (let (a, r1) = next_byte junk inp; (b, r2) = next_byte junk r1 in
      if a = CHR ''[''
      then if is_digit 10 b
        then let (t, r3) = next_byte junk r2 in
          (if t = CHR ''~'' \<and> b = CHR ''3'' then edit_key hc CTRL_D l H else Some (l, H), r3)
        else (if b = CHR ''A'' then edit_key hc CTRL_P l H
              else if b = CHR ''B'' then edit_key hc CTRL_N l H
              else if b = CHR ''C'' then edit_key hc CTRL_F l H
              else if b = CHR ''D'' then edit_key hc CTRL_B l H
              else if b = CHR ''H'' then edit_key hc CTRL_A l H
              else if b = CHR ''F'' then edit_key hc CTRL_E l H
              else Some (l, H), r2)
      else if a = CHR ''O''
      then (if b = CHR ''H'' then edit_key hc CTRL_A l H
            else if b = CHR ''F'' then edit_key hc CTRL_E l H
            else Some (l, H), r2)
      else (Some (l, H), r2))"

text \<open>Enter: the entry for the current line leaves the history, and the line is redrawn without hints.\<close>
definition edit_enter :: "hinter option \<Rightarrow> linenoiseState \<Rightarrow> ln_history \<Rightarrow> (int \<times> linenoiseState \<times> ln_history) option" where
  "edit_enter hc l H =
     (if lh_list H = [] then None
      else do { l1 \<leftarrow> (if hc \<noteq> None then refreshLine None l else Some l);
                Some (int (ln_len l1), l1, H\<lparr>lh_list := butlast (lh_list H)\<rparr>) })"

lemma complete_loop_rest:
  "complete_loop hc opts i l inp = Some (c, l1, r) \<Longrightarrow> length r \<le> length inp"
proof (induction hc opts i l inp rule: complete_loop.induct)
  case (2 hc opts i l c' inp)
  then show ?case by (auto simp: bind_eq_Some_conv le_SucI split: if_splits)
qed (auto simp: bind_eq_Some_conv)

lemma completeLine_rest: "completeLine hc cb l inp = Some (c, l1, r) \<Longrightarrow> length r \<le> length inp"
  by (auto simp: completeLine_def bind_eq_Some_conv complete_loop_rest split: if_splits)

lemma edit_escape_rest: "length (snd (edit_escape hc junk l H inp)) \<le> length inp"
  by (auto simp: edit_escape_def next_byte_def Let_def split: list.splits)

text \<open>What the loop does with the byte just read: the byte to handle, unless it ended in the completion.\<close>
definition read_key ::
    "hinter option \<Rightarrow> (string \<Rightarrow> string list option) option \<Rightarrow> char \<Rightarrow> linenoiseState \<Rightarrow> string \<Rightarrow>
     (char option \<times> linenoiseState \<times> string) option" where
  "read_key hc cb c l r =
     (case cb of
        Some f \<Rightarrow>
          if c = TAB
          then map_option (\<lambda>(d, l1, r1). (if d \<noteq> None \<and> 128 \<le> (of_char (the d) :: nat) then None else d, l1, r1)) (completeLine hc f l r)
          else Some (Some c, l, r)
      | None \<Rightarrow> Some (Some c, l, r))"

lemma read_key_rest: "read_key hc cb c l inp = Some (d, l1, r) \<Longrightarrow> length r \<le> length inp"
  by (auto simp: read_key_def completeLine_rest split: option.splits if_splits)

text \<open>The result is the count returned, the state, the history and the input that is left.\<close>
function edit_loop ::
    "hinter option \<Rightarrow> (string \<Rightarrow> string list option) option \<Rightarrow> char \<Rightarrow> linenoiseState \<Rightarrow> ln_history \<Rightarrow> string \<Rightarrow>
     (int \<times> linenoiseState \<times> ln_history \<times> string) option" where
  "edit_loop hc cb junk l H [] = Some (int (ln_len l), l, H, [])"
| "edit_loop hc cb junk l H (c # r) =
     (case read_key hc cb c l r of
        None \<Rightarrow> None
      | Some (None, l1, r1) \<Rightarrow> Some (int (ln_len l1), l1, H, r1)
      | Some (Some d, l1, r1) \<Rightarrow>
          if c = TAB \<and> cb \<noteq> None \<and> d = c_nul then edit_loop hc cb junk l1 H r1
          else if d = ENTER then map_option (\<lambda>(n, l2, H2). (n, l2, H2, r1)) (edit_enter hc l1 H)
          else if d = CTRL_C then Some (- 1, l1, H, r1)
          else if d = CTRL_D \<and> ln_len l1 = 0
          then (if lh_list H = [] then None else Some (- 1, l1, H\<lparr>lh_list := butlast (lh_list H)\<rparr>, r1))
          else if d = ESC
          then (case fst (edit_escape hc junk l1 H r1) of
                  None \<Rightarrow> None
                | Some (l2, H2) \<Rightarrow> edit_loop hc cb junk l2 H2 (snd (edit_escape hc junk l1 H r1)))
          else (case edit_key hc d l1 H of
                  None \<Rightarrow> None | Some (l2, H2) \<Rightarrow> edit_loop hc cb junk l2 H2 r1))"
  by pat_completeness auto
termination
proof (relation "measure (\<lambda>(hc, cb, junk, l, H, inp). length inp)", goal_cases)
  case (3 hc cb junk l H c r x y z d l1 r1)
  then have "read_key hc cb c l r = Some (Some d, l1, r1)" by simp
  from read_key_rest [OF this] edit_escape_rest [of hc junk l1 H r1] show ?case by simp
qed (auto simp: less_Suc_eq_le dest!: read_key_rest sym [of "Some _"])

text \<open>The whole edit of one line in the buffer \<open>buf\<close>, whose last byte is kept for the NUL.\<close>
definition linenoiseEdit ::
    "hinter option \<Rightarrow> (string \<Rightarrow> string list option) option \<Rightarrow> char \<Rightarrow> bool \<Rightarrow> nat \<Rightarrow> string \<Rightarrow> string \<Rightarrow> ln_history \<Rightarrow> string \<Rightarrow>
     (int \<times> linenoiseState \<times> ln_history \<times> string) option" where
  "linenoiseEdit hc cb junk ok cols prompt buf H inp =
     do { b \<leftarrow> store_at 0 c_nul buf;
          edit_loop hc cb junk
            \<lparr>ln_buf = b, ln_buflen = length buf - 1, ln_prompt = prompt, ln_pos = 0, ln_len = 0, ln_cols = cols,
             ln_history_index = 0, ln_out = prompt\<rparr>
            (snd (linenoiseHistoryAdd ok [] H)) inp }"

text \<open>\<open>raw\<close>: the terminal can be set to raw mode.\<close>
definition linenoiseRaw ::
    "bool \<Rightarrow> hinter option \<Rightarrow> (string \<Rightarrow> string list option) option \<Rightarrow> char \<Rightarrow> bool \<Rightarrow> nat \<Rightarrow> string \<Rightarrow> string \<Rightarrow> ln_history \<Rightarrow> string \<Rightarrow>
     (int \<times> string \<times> ln_history \<times> string) option" where
  "linenoiseRaw raw hc cb junk ok cols prompt buf H inp =
     (if buf = [] \<or> \<not> raw then Some (- 1, buf, H, inp)
      else map_option (\<lambda>(n, l, H1, r). (n, ln_buf l, H1, r)) (linenoiseEdit hc cb junk ok cols prompt buf H inp))"

text \<open>Input that is not a terminal: a line of any length; \<open>ok\<close>: the buffer could be enlarged.\<close>
definition linenoiseNoTTY :: "bool \<Rightarrow> string \<Rightarrow> string option \<times> string" where
  "linenoiseNoTTY ok inp =
     (let a = takeWhile (\<lambda>c. c \<noteq> c_nl) inp in
      if \<not> ok then (None, inp)
      else if inp = [] then (None, [])
      else (Some a, drop (length a + 1) inp))"

definition unsupported_term :: "string list" where
  "unsupported_term = [''dumb'', ''cons25'', ''emacs'']"

definition isUnsupportedTerm :: "string option \<Rightarrow> bool" where
  "isUnsupportedTerm term = (case term of None \<Rightarrow> False | Some t \<Rightarrow> \<exists>u \<in> set unsupported_term. strcaseeq t u)"

text \<open>The line returned (\<open>None\<close> inside for NULL), the history and the input that is left; \<open>buf\<close> is the array on the stack.\<close>
definition linenoise ::
    "bool \<Rightarrow> string option \<Rightarrow> bool \<Rightarrow> hinter option \<Rightarrow> (string \<Rightarrow> string list option) option \<Rightarrow> char \<Rightarrow> bool \<Rightarrow> nat \<Rightarrow> string \<Rightarrow> string \<Rightarrow>
     ln_history \<Rightarrow> string \<Rightarrow> (string option \<times> ln_history \<times> string) option" where
  "linenoise tty term raw hc cb junk ok cols prompt buf H inp =
     (if \<not> tty then (case linenoiseNoTTY ok inp of (line, r) \<Rightarrow> Some (map_option c_str line, H, r))
      else if isUnsupportedTerm term
      then (if inp = [] then Some (None, H, [])
            else let x = fgets_line LINENOISE_MAX_LINE inp in
              Some (Some (rev (dropWhile (\<lambda>c. c = c_nl \<or> c = c_cr) (rev (c_str (fst x))))), H, snd x))
      else do { (count, b, H1, r) \<leftarrow> linenoiseRaw raw hc cb junk ok cols prompt buf H inp;
                Some (if count = - 1 then None else Some (c_str b), H1, r) })"

end
