(* ===== verification/LinenoiseOps.thy ===== *)
theory LinenoiseOps
  imports Linenoise
begin

text \<open>
  Properties of the line editor: the redrawn window, the edit buffer as a pair of the text before and after the cursor, the line
  that a sequence of keys gives, and the history.
\<close>

section \<open>The window\<close>

text \<open>How far the line is scrolled to keep the cursor in the last column at most.\<close>
definition scrolled :: "nat \<Rightarrow> nat \<Rightarrow> nat \<Rightarrow> nat" where
  "scrolled plen cols pos = Suc (plen + pos) - cols"

lemma word_small_le: "a < 2 ^ 64 \<Longrightarrow> b < 2 ^ 64 \<Longrightarrow> (of_nat a :: 64 word) \<le> of_nat b \<longleftrightarrow> a \<le> b"
  by (simp add: word_le_nat_alt unsigned_of_nat take_bit_nat_eq_self)

lemma word_small_less: "a < 2 ^ 64 \<Longrightarrow> b < 2 ^ 64 \<Longrightarrow> (of_nat a :: 64 word) < of_nat b \<longleftrightarrow> a < b"
  by (simp add: word_less_nat_alt unsigned_of_nat take_bit_nat_eq_self)

lemma scroll_loop_eq:
  assumes "plen < cols" "pos \<le> len" "cols < 2 ^ 32" "len < 2 ^ 32"
  shows "scroll_loop (of_nat plen) (of_nat cols) off (of_nat len) (of_nat pos) =
    Some (off + scrolled plen cols pos, of_nat (len - scrolled plen cols pos), of_nat (pos - scrolled plen cols pos))"
  using assms
proof (induction pos arbitrary: off len)
  case 0
  then have "\<not> (of_nat cols :: 64 word) \<le> of_nat plen" using word_small_le [of cols plen] by simp
  then show ?case using 0 by (subst scroll_loop.simps) (simp add: scrolled_def)
next
  case (Suc p)
  have sum: "(of_nat plen + of_nat (Suc p) :: 64 word) = of_nat (plen + Suc p)" by simp
  have test: "(of_nat cols :: 64 word) \<le> of_nat (plen + Suc p) \<longleftrightarrow> cols \<le> plen + Suc p"
    using Suc.prems by (intro word_small_le) auto
  show ?case
  proof (cases "cols \<le> plen + Suc p")
    case True
    have l: "(of_nat len - 1 :: 64 word) = of_nat (len - 1)" and p: "(of_nat (Suc p) - 1 :: 64 word) = of_nat p"
      using Suc.prems by (simp_all add: of_nat_diff)
    have "scrolled plen cols (Suc p) = Suc (scrolled plen cols p)" using True by (simp add: scrolled_def)
    with Suc.IH [of "len - 1" "Suc off"] Suc.prems True test sum l p show ?thesis
      by (subst scroll_loop.simps) (simp del: of_nat_Suc)
  next
    case False
    then have "scrolled plen cols (Suc p) = 0" by (simp add: scrolled_def)
    with False test sum show ?thesis by (subst scroll_loop.simps) (simp del: of_nat_Suc)
  qed
qed

lemma trim_loop_eq:
  assumes "plen < cols" "cols < 2 ^ 32" "len < 2 ^ 32"
  shows "trim_loop (of_nat plen) (of_nat cols) (of_nat len) = Some (of_nat (min len (cols - plen)))"
  using assms
proof (induction len)
  case 0
  then have "\<not> (of_nat cols :: 64 word) < of_nat plen" using word_small_less [of cols plen] by simp
  then show ?case by (subst trim_loop.simps) simp
next
  case (Suc n)
  have sum: "(of_nat plen + of_nat (Suc n) :: 64 word) = of_nat (plen + Suc n)" by simp
  have test: "(of_nat cols :: 64 word) < of_nat (plen + Suc n) \<longleftrightarrow> cols < plen + Suc n"
    using Suc.prems by (intro word_small_less) auto
  have p: "(of_nat (Suc n) - 1 :: 64 word) = of_nat n" by simp
  show ?case
  proof (cases "cols < plen + Suc n")
    case True
    then have "min (Suc n) (cols - plen) = min n (cols - plen)" by simp
    with True Suc.IH Suc.prems test sum p show ?thesis by (subst trim_loop.simps) (simp del: of_nat_Suc min.bounded_iff)
  next
    case False
    then have "min (Suc n) (cols - plen) = Suc n" by simp
    with False test sum show ?thesis by (subst trim_loop.simps) (simp del: of_nat_Suc min.bounded_iff)
  qed
qed

section \<open>The buffer as text around the cursor\<close>

text \<open>The line is \<open>a @ b\<close> with the cursor after \<open>a\<close>; the buffer has room for \<open>cap\<close> characters and the NUL.\<close>
definition line_rep :: "nat \<Rightarrow> linenoiseState \<Rightarrow> string \<Rightarrow> string \<Rightarrow> bool" where
  "line_rep cap l a b \<longleftrightarrow> (\<exists>rest. ln_buf l = a @ b @ c_nul # rest) \<and> ln_pos l = length a \<and> ln_len l = length a + length b \<and>
     length (ln_buf l) = Suc cap \<and> ln_buflen l = cap \<and> length (ln_prompt l) < ln_cols l \<and> ln_cols l < 2 ^ 32 \<and> cap < 2 ^ 31"

text \<open>What redrawing writes, without the loops.\<close>
definition window :: "hinter option \<Rightarrow> linenoiseState \<Rightarrow> string" where
  "window hc l =
     (let plen = length (ln_prompt l); k = scrolled plen (ln_cols l) (ln_pos l) in
      [c_cr] @ ln_prompt l @ take (min (ln_len l - k) (ln_cols l - plen)) (drop k (ln_buf l)) @ refreshShowHints hc l @
      [ESC] @ ''[0K'' @ [c_cr, ESC, CHR ''[''] @ show_nat (plen + ln_pos l - k) @ ''C'')"

lemma line_rep_sizes: "line_rep cap l a b \<Longrightarrow> length a + length b \<le> cap"
  by (auto simp: line_rep_def)

lemma refresh_window:
  assumes "line_rep cap l a b"
  shows "refreshSingleLine hc l = Some (window hc l)"
proof -
  let ?plen = "length (ln_prompt l)"
  let ?k = "scrolled ?plen (ln_cols l) (ln_pos l)"
  have s: "?plen < ln_cols l" "ln_cols l < 2 ^ 32" "ln_pos l \<le> ln_len l" "ln_len l < 2 ^ 32"
    using line_rep_sizes [OF assms] assms by (auto simp: line_rep_def)
  have k: "?k \<le> ln_pos l" using s(1) by (simp add: scrolled_def)
  have len: "ln_len l - ?k < 2 ^ 32" using s(4) by simp
  note loops = scroll_loop_eq [OF s(1,3,2,4), of 0] trim_loop_eq [OF s(1,2) len]
  have "ln_len l < length (ln_buf l)" using line_rep_sizes [OF assms] assms by (simp add: line_rep_def)
  then have fits: "?k + min (ln_len l - ?k) (ln_cols l - ?plen) \<le> length (ln_buf l)" using k s(3) by linarith
  have u: "unat (of_nat (min (ln_len l - ?k) (ln_cols l - ?plen)) :: 64 word) = min (ln_len l - ?k) (ln_cols l - ?plen)"
    using len by (simp add: unsigned_of_nat take_bit_nat_eq_self)
  have p: "unat (of_nat (ln_pos l - ?k) + of_nat ?plen :: 64 word) = ?plen + ln_pos l - ?k"
  proof -
    have "(of_nat (ln_pos l - ?k) + of_nat ?plen :: 64 word) = of_nat (?plen + ln_pos l - ?k)" using k by (simp add: of_nat_diff)
    moreover have "?plen + ln_pos l < 2 ^ 32 + 2 ^ 32" using s by linarith
    then have "?plen + ln_pos l - ?k < 2 ^ 64" by simp
    ultimately show ?thesis by (simp add: unsigned_of_nat take_bit_nat_eq_self)
  qed
  show ?thesis using fits by (simp add: refreshSingleLine_def window_def Let_def loops u p)
qed

lemma refresh_rep:
  assumes "line_rep cap l a b"
  shows "\<exists>l'. refreshLine hc l = Some l' \<and> line_rep cap l' a b \<and> ln_history_index l' = ln_history_index l"
  using assms refresh_window [OF assms, of hc] by (auto simp: refreshLine_def line_rep_def)

section \<open>The keys on the text\<close>

type_synonym zipper = "string \<times> string"

definition z_left :: "zipper \<Rightarrow> zipper" where
  "z_left z = (case z of (a, b) \<Rightarrow> if a = [] then z else (butlast a, last a # b))"

definition z_right :: "zipper \<Rightarrow> zipper" where
  "z_right z = (case z of (a, b) \<Rightarrow> if b = [] then z else (a @ [hd b], tl b))"

definition z_swap :: "zipper \<Rightarrow> zipper" where
  "z_swap z = (case z of (a, b) \<Rightarrow>
     if a = [] \<or> b = [] then z
     else if tl b = [] then (butlast a @ [hd b], [last a]) else (butlast a @ [hd b, last a], tl b))"

definition z_word :: "zipper \<Rightarrow> zipper" where
  "z_word z = (case z of (a, b) \<Rightarrow>
     (rev (dropWhile (\<lambda>c. c \<noteq> CHR '' '') (dropWhile (\<lambda>c. c = CHR '' '') (rev a))), b))"

definition z_insert :: "nat \<Rightarrow> char \<Rightarrow> zipper \<Rightarrow> zipper" where
  "z_insert cap c z = (case z of (a, b) \<Rightarrow> if length a + length b < cap then (a @ [c], b) else z)"

text \<open>What a key means for the text around the cursor.\<close>
definition z_key :: "nat \<Rightarrow> char \<Rightarrow> zipper \<Rightarrow> zipper" where
  "z_key cap c z = (case z of (a, b) \<Rightarrow>
     if c = BACKSPACE \<or> c = CTRL_H then (butlast a, b)
     else if c = CTRL_D then (a, tl b)
     else if c = CTRL_T then z_swap z
     else if c = CTRL_B then z_left z
     else if c = CTRL_F then z_right z
     else if c = CTRL_U then ([], [])
     else if c = CTRL_K then (a, [])
     else if c = CTRL_A then ([], a @ b)
     else if c = CTRL_E then (a @ b, [])
     else if c = CTRL_L then z
     else if c = CTRL_W then z_word z
     else z_insert cap c z)"

text \<open>A result of an operation on the line: the new state shows the new text, and the place in the history is the same.\<close>
definition gives :: "nat \<Rightarrow> linenoiseState \<Rightarrow> linenoiseState option \<Rightarrow> zipper \<Rightarrow> bool" where
  "gives cap l r z \<longleftrightarrow> (\<exists>l'. r = Some l' \<and> line_rep cap l' (fst z) (snd z) \<and> ln_history_index l' = ln_history_index l)"

lemma gives_refresh: "line_rep cap l' a b \<Longrightarrow> ln_history_index l' = ln_history_index l \<Longrightarrow> gives cap l (refreshLine hc l') (a, b)"
  using refresh_rep [of cap l' a b hc] by (auto simp: gives_def)

lemma gives_same: "line_rep cap l a b \<Longrightarrow> gives cap l (Some l) (a, b)"
  by (simp add: gives_def)

lemma rep_bufD:
  assumes "line_rep cap l a b"
  obtains rest where "ln_buf l = a @ b @ c_nul # rest" "cap = length a + length b + length rest"
  using assms by (auto simp: line_rep_def)

text \<open>A new buffer and cursor in an otherwise unchanged state.\<close>
lemma line_rep_update:
  assumes "line_rep cap l a b" "buf = a' @ b' @ c_nul # rest" "length buf = length (ln_buf l)"
    "pos = length a'" "len = length a' + length b'"
  shows "line_rep cap (l\<lparr>ln_buf := buf, ln_pos := pos, ln_len := len\<rparr>) a' b'"
  using assms by (auto simp: line_rep_def)

lemma line_rep_fields:
  assumes "line_rep cap l a b" "ln_buf l' = a' @ b' @ c_nul # rest" "length (ln_buf l') = length (ln_buf l)"
    "ln_pos l' = length a'" "ln_len l' = length a' + length b'"
    "ln_buflen l' = ln_buflen l" "ln_prompt l' = ln_prompt l" "ln_cols l' = ln_cols l"
  shows "line_rep cap l' a' b'"
  using assms by (auto simp: line_rep_def)

lemma move_rep:
  assumes "line_rep cap l a b" "a' @ b' = a @ b" "pos = length a'"
  shows "line_rep cap (l\<lparr>ln_pos := pos\<rparr>) a' b'"
proof -
  from assms(1) obtain rest where r: "ln_buf l = a @ b @ c_nul # rest" by (rule rep_bufD)
  have "ln_buf l = a' @ b' @ c_nul # rest" using r assms(2) by (metis append_assoc)
  moreover have "length a' + length b' = length a + length b" using assms(2) by (metis length_append)
  ultimately show ?thesis using assms(1,3) by (auto simp: line_rep_def)
qed

lemma left_gives:
  assumes r: "line_rep cap l a b"
  shows "gives cap l (linenoiseEditMoveLeft hc l) (z_left (a, b))"
proof (cases a rule: rev_cases)
  case Nil
  with r show ?thesis by (simp add: linenoiseEditMoveLeft_def z_left_def line_rep_def [of _ l] gives_def)
next
  case (snoc xs x)
  have "line_rep cap (l\<lparr>ln_pos := length xs\<rparr>) xs (x # b)" by (rule move_rep [OF r]) (simp_all add: snoc)
  moreover have "ln_pos l = Suc (length xs)" using r snoc by (simp add: line_rep_def)
  ultimately show ?thesis by (simp add: linenoiseEditMoveLeft_def z_left_def snoc gives_refresh)
qed

lemma right_gives:
  assumes r: "line_rep cap l a b"
  shows "gives cap l (linenoiseEditMoveRight hc l) (z_right (a, b))"
proof (cases b)
  case Nil
  with r show ?thesis by (simp add: linenoiseEditMoveRight_def z_right_def line_rep_def [of _ l] gives_def)
next
  case (Cons y ys)
  have "line_rep cap (l\<lparr>ln_pos := Suc (length a)\<rparr>) (a @ [y]) ys" by (rule move_rep [OF r]) (simp_all add: Cons)
  moreover have "ln_pos l = length a" "ln_len l = length a + Suc (length ys)" using r Cons by (simp_all add: line_rep_def)
  ultimately show ?thesis by (simp add: linenoiseEditMoveRight_def z_right_def Cons gives_refresh)
qed

lemma home_gives:
  assumes r: "line_rep cap l a b"
  shows "gives cap l (linenoiseEditMoveHome hc l) ([], a @ b)"
proof -
  have "line_rep cap (l\<lparr>ln_pos := 0\<rparr>) [] (a @ b)" by (rule move_rep [OF r]) simp_all
  moreover have "ln_pos l = length a" using r by (simp add: line_rep_def)
  ultimately show ?thesis using r by (cases a) (simp_all add: linenoiseEditMoveHome_def gives_refresh gives_same)
qed

lemma end_gives:
  assumes r: "line_rep cap l a b"
  shows "gives cap l (linenoiseEditMoveEnd hc l) (a @ b, [])"
proof -
  have len: "ln_len l = length a + length b" "ln_pos l = length a" using r by (simp_all add: line_rep_def)
  have "line_rep cap (l\<lparr>ln_pos := ln_len l\<rparr>) (a @ b) []" by (rule move_rep [OF r]) (simp_all add: len)
  then show ?thesis using r len by (cases b) (simp_all add: linenoiseEditMoveEnd_def gives_refresh gives_same)
qed

lemma drop_to_last: "drop (length ys) (y # ys @ t) = last (y # ys) # t"
  by (induction ys arbitrary: y) auto

lemma delete_gives:
  assumes r: "line_rep cap l a b"
  shows "gives cap l (linenoiseEditDelete hc l) (a, tl b)"
proof (cases b)
  case Nil
  with r show ?thesis by (simp add: linenoiseEditDelete_def line_rep_def [of _ l] gives_def)
next
  case (Cons y ys)
  from r obtain rest where buf: "ln_buf l = a @ b @ c_nul # rest" "cap = length a + length b + length rest" by (rule rep_bufD)
  have len: "ln_len l = length a + Suc (length ys)" "ln_pos l = length a" using r Cons by (simp_all add: line_rep_def)
  have mv: "memmove (length a) (Suc (length a)) (length ys) (ln_buf l) = Some (a @ ys @ last b # c_nul # rest)"
    using drop_to_last [of ys y "c_nul # rest"] by (simp add: memmove_def buf Cons)
  have st: "store_at (length a + length ys) c_nul (a @ ys @ last b # c_nul # rest) = Some (a @ ys @ c_nul # c_nul # rest)"
    by (simp add: store_at_def list_update_append)
  have "line_rep cap (l\<lparr>ln_buf := a @ ys @ c_nul # c_nul # rest, ln_pos := length a, ln_len := length a + length ys\<rparr>) a ys"
    by (rule line_rep_update [OF r]) (simp_all add: buf Cons)
  moreover have "l\<lparr>ln_buf := a @ ys @ c_nul # c_nul # rest, ln_pos := length a, ln_len := length a + length ys\<rparr> =
      l\<lparr>ln_buf := a @ ys @ c_nul # c_nul # rest, ln_len := length a + length ys\<rparr>" using len(2) by simp
  ultimately show ?thesis using st len by (simp add: linenoiseEditDelete_def mv Cons gives_refresh)
qed

lemma backspace_gives:
  assumes r: "line_rep cap l a b"
  shows "gives cap l (linenoiseEditBackspace hc l) (butlast a, b)"
proof (cases a rule: rev_cases)
  case Nil
  with r show ?thesis by (simp add: linenoiseEditBackspace_def line_rep_def [of _ l] gives_def)
next
  case (snoc xs x)
  from r obtain rest where buf: "ln_buf l = a @ b @ c_nul # rest" "cap = length a + length b + length rest" by (rule rep_bufD)
  have len: "ln_len l = Suc (length xs) + length b" "ln_pos l = Suc (length xs)" using r snoc by (simp_all add: line_rep_def)
  have mv: "memmove (length xs) (Suc (length xs)) (length b) (ln_buf l) = Some (xs @ b @ last (x # b) # c_nul # rest)"
    using drop_to_last [of b x "c_nul # rest"] by (simp add: memmove_def buf snoc)
  have st: "store_at (length xs + length b) c_nul (xs @ b @ last (x # b) # c_nul # rest) = Some (xs @ b @ c_nul # c_nul # rest)"
    by (simp add: store_at_def list_update_append)
  have "line_rep cap (l\<lparr>ln_buf := xs @ b @ c_nul # c_nul # rest, ln_pos := length xs, ln_len := length xs + length b\<rparr>) xs b"
    by (rule line_rep_update [OF r]) (simp_all add: buf snoc)
  then show ?thesis using st len by (simp add: linenoiseEditBackspace_def mv snoc gives_refresh del: last.simps)
qed

lemma insert_gives:
  assumes r: "line_rep cap l a b"
  shows "gives cap l (linenoiseEditInsert hc c l) (z_insert cap c (a, b))"
proof -
  from r obtain rest where buf: "ln_buf l = a @ b @ c_nul # rest" "cap = length a + length b + length rest" by (rule rep_bufD)
  have len: "ln_len l = length a + length b" "ln_pos l = length a" "ln_buflen l = cap" using r by (simp_all add: line_rep_def)
  show ?thesis
  proof (cases rest)
    case Nil
    with r buf len show ?thesis by (simp add: linenoiseEditInsert_def z_insert_def gives_same)
  next
    case (Cons x xs)
    let ?buf = "a @ c # b @ c_nul # xs"
    have rep: "line_rep cap (l\<lparr>ln_buf := ?buf, ln_pos := Suc (length a), ln_len := Suc (length a + length b)\<rparr>) (a @ [c]) b"
      by (rule line_rep_update [OF r]) (simp_all add: buf Cons)
    have room: "length a + length b < cap" using buf(2) Cons by simp
    show ?thesis
    proof (cases b)
      case Nil
      have "store_at (length a) c (ln_buf l) = Some (a @ c # x # xs)" "store_at (Suc (length a)) c_nul (a @ c # x # xs) = Some ?buf"
        by (simp_all add: store_at_def buf Nil Cons list_update_append)
      moreover have "gives cap l (Some (l'\<lparr>ln_out := t\<rparr>)) (a @ [c], b)"
        if "line_rep cap l' (a @ [c]) b" "ln_history_index l' = ln_history_index l" for l' t
        using that by (simp add: gives_def line_rep_def)
      ultimately show ?thesis using rep room len Nil
        by (simp add: linenoiseEditInsert_def z_insert_def gives_refresh Let_def)
    next
      case (Cons y ys)
      have mv: "memmove (Suc (length a)) (length a) (length b) (ln_buf l) = Some (a @ y # b @ x # xs)"
        by (simp add: memmove_def buf \<open>rest = x # xs\<close> Cons)
      have st: "store_at (length a) c (a @ y # b @ x # xs) = Some (a @ c # b @ x # xs)"
        "store_at (Suc (length a + length b)) c_nul (a @ c # b @ x # xs) = Some ?buf"
        by (simp_all add: store_at_def list_update_append)
      have "line_rep cap (l\<lparr>ln_buf := ?buf, ln_len := Suc (length a + length b), ln_pos := Suc (length a)\<rparr>) (a @ [c]) b"
        using rep by (simp add: line_rep_def)
      moreover have "length b \<noteq> 0" using Cons by simp
      ultimately show ?thesis using room len mv st by (simp add: linenoiseEditInsert_def z_insert_def gives_refresh)
    qed
  qed
qed

lemma kill_line_gives:
  assumes r: "line_rep cap l a b"
  shows "gives cap l (edit_kill_line hc l) ([], [])"
proof -
  have "ln_buf l \<noteq> []" using r by (auto simp: line_rep_def)
  then obtain x xs where b: "ln_buf l = x # xs" by (cases "ln_buf l") auto
  have "line_rep cap (l\<lparr>ln_buf := c_nul # xs, ln_pos := 0, ln_len := 0\<rparr>) [] []"
    by (rule line_rep_update [OF r]) (simp_all add: b)
  then show ?thesis by (simp add: edit_kill_line_def store_at_def b gives_refresh)
qed

lemma kill_right_gives:
  assumes r: "line_rep cap l a b"
  shows "gives cap l (edit_kill_right hc l) (a, [])"
proof -
  from r obtain rest where buf: "ln_buf l = a @ b @ c_nul # rest" by (rule rep_bufD)
  obtain x xs where x: "b @ c_nul # rest = x # xs" by (cases b) auto
  have st: "store_at (length a) c_nul (ln_buf l) = Some (a @ c_nul # xs)" by (simp add: store_at_def buf x)
  have "line_rep cap (l\<lparr>ln_buf := a @ c_nul # xs, ln_pos := length a, ln_len := length a\<rparr>) a []"
    by (rule line_rep_update [OF r]) (simp_all add: buf x)
  moreover have "ln_pos l = length a" using r by (simp add: line_rep_def)
  ultimately have "line_rep cap (l\<lparr>ln_buf := a @ c_nul # xs, ln_len := length a\<rparr>) a []" by (simp add: line_rep_def)
  then show ?thesis using st \<open>ln_pos l = length a\<close> by (simp add: edit_kill_right_def gives_refresh)
qed

lemma swap_gives:
  assumes r: "line_rep cap l a b"
  shows "gives cap l (edit_transpose hc l) (z_swap (a, b))"
proof -
  from r obtain rest where buf: "ln_buf l = a @ b @ c_nul # rest" by (rule rep_bufD)
  have len: "ln_len l = length a + length b" "ln_pos l = length a" using r by (simp_all add: line_rep_def)
  show ?thesis
  proof (cases "a = [] \<or> b = []")
    case True
    with r len show ?thesis by (auto simp: edit_transpose_def z_swap_def gives_same)
  next
    case False
    then obtain xs x y ys where ab: "a = xs @ [x]" "b = y # ys" by (cases a rule: rev_cases; cases b) auto
    let ?buf = "xs @ y # x # ys @ c_nul # rest"
    have upd: "(ln_buf l)[length xs := y, Suc (length xs) := x] = ?buf" by (simp add: buf ab list_update_append)
    have nth: "ln_buf l ! length xs = x" "ln_buf l ! Suc (length xs) = y" by (simp_all add: buf ab nth_append)
    have rep: "line_rep cap (l\<lparr>ln_buf := ?buf, ln_pos := Suc (length xs)\<rparr>) (xs @ [y]) (x # ys)"
      "line_rep cap (l\<lparr>ln_buf := ?buf, ln_pos := Suc (Suc (length xs))\<rparr>) (xs @ [y, x]) ys"
      by (rule line_rep_fields [OF r]; simp add: buf ab len)+
    have "Suc (length xs) < length (ln_buf l)" by (simp add: buf ab)
    then have "edit_transpose hc l = refreshLine hc (l\<lparr>ln_buf := ?buf,
        ln_pos := if ys = [] then Suc (length xs) else Suc (Suc (length xs))\<rparr>)"
      using len ab upd nth by (simp add: edit_transpose_def)
    then show ?thesis using rep ab by (auto simp: z_swap_def gives_refresh)
  qed
qed

lemma back_while_eq: "back_while P (a @ t) (length a) = length (dropWhile P (rev a))"
  by (induction a arbitrary: t rule: rev_induct) (simp_all add: nth_append)

lemma rev_dropWhile_split: "\<exists>u. a = rev (dropWhile P (rev a)) @ u"
  by (metis rev_append rev_rev_ident takeWhile_dropWhile_id)

lemma word_gives:
  assumes r: "line_rep cap l a b"
  shows "gives cap l (linenoiseEditDeletePrevWord hc l) (z_word (a, b))"
proof -
  let ?a1 = "rev (dropWhile (\<lambda>c. c = CHR '' '') (rev a))"
  let ?a2 = "rev (dropWhile (\<lambda>c. c \<noteq> CHR '' '') (rev ?a1))"
  from r obtain rest where buf: "ln_buf l = a @ b @ c_nul # rest" by (rule rep_bufD)
  have len: "ln_len l = length a + length b" "ln_pos l = length a" using r by (simp_all add: line_rep_def)
  obtain u1 where u1: "a = ?a1 @ u1" using rev_dropWhile_split by blast
  obtain u2 where u2: "?a1 = ?a2 @ u2" using rev_dropWhile_split by blast
  have p1: "back_while (\<lambda>c. c = CHR '' '') (ln_buf l) (length a) = length ?a1"
    unfolding buf by (simp add: back_while_eq)
  have "ln_buf l = ?a1 @ u1 @ b @ c_nul # rest" using buf u1 by (metis append_assoc)
  then have p2: "back_while (\<lambda>c. c \<noteq> CHR '' '') (ln_buf l) (length ?a1) = length ?a2"
    using back_while_eq [of "\<lambda>c. c \<noteq> CHR '' ''" ?a1 "u1 @ b @ c_nul # rest"] by simp
  obtain u where u: "a = ?a2 @ u" using u1 u2 by (metis append_assoc)
  have le: "length ?a2 \<le> length a" using arg_cong [OF u, of length] by simp
  define t where "t = drop (length ?a2 + Suc (length b)) (ln_buf l)"
  have mv: "memmove (length ?a2) (length a) (Suc (length b)) (ln_buf l) = Some (?a2 @ b @ c_nul # t)"
  proof -
    have "take (length ?a2) (ln_buf l) = ?a2" using buf u by (metis append_assoc append_eq_conv_conj)
    moreover have "take (Suc (length b)) (drop (length a) (ln_buf l)) = b @ [c_nul]" by (simp add: buf)
    ultimately show ?thesis using le by (simp add: memmove_def t_def buf)
  qed
  have "line_rep cap (l\<lparr>ln_buf := ?a2 @ b @ c_nul # t, ln_pos := length ?a2, ln_len := length b + length ?a2\<rparr>) ?a2 b"
  proof (rule line_rep_update [OF r refl])
    have "length (ln_buf l) = length a + length b + Suc (length rest)" by (simp add: buf)
    then show "length (?a2 @ b @ c_nul # t) = length (ln_buf l)" using le by (simp add: t_def)
  qed simp_all
  then show ?thesis using mv p1 p2 len le
    by (simp add: linenoiseEditDeletePrevWord_def z_word_def gives_refresh Let_def)
qed

text \<open>The keys that edit the line, and not those that end it, start an escape sequence or move through the history.\<close>
definition editing :: "bool \<Rightarrow> char \<Rightarrow> bool" where
  "editing completion c \<longleftrightarrow> c \<notin> {ENTER, CTRL_C, ESC, CTRL_P, CTRL_N} \<and> (completion \<longrightarrow> c \<noteq> TAB)"

definition on_line :: "nat \<Rightarrow> linenoiseState \<Rightarrow> ln_history \<Rightarrow> (linenoiseState \<times> ln_history) option \<Rightarrow> zipper \<Rightarrow> bool" where
  "on_line cap l H res z \<longleftrightarrow> (\<exists>r. res = map_option (\<lambda>l1. (l1, H)) r \<and> gives cap l r z)"

lemma on_line_if:
  "(P \<Longrightarrow> on_line cap l H o1 z1) \<Longrightarrow> (\<not> P \<Longrightarrow> on_line cap l H o2 z2) \<Longrightarrow>
     on_line cap l H (if P then o1 else o2) (if P then z1 else z2)"
  by simp

lemma on_line_op: "gives cap l r z \<Longrightarrow> on_line cap l H (map_option (\<lambda>l1. (l1, H)) r) z"
  by (auto simp: on_line_def)

lemma key_gives:
  assumes r: "line_rep cap l a b" and e: "editing cp c"
  shows "\<exists>l'. edit_key hc c l H = Some (l', H) \<and> line_rep cap l' (fst (z_key cap c (a, b))) (snd (z_key cap c (a, b))) \<and>
    ln_history_index l' = ln_history_index l"
proof -
  have clear: "gives cap l (refreshLine hc (l\<lparr>ln_out := t\<rparr>)) (a, b)" for t
    by (rule gives_refresh) (use r in \<open>simp_all add: line_rep_def\<close>)
  have np: "(c = CTRL_P) = False" "(c = CTRL_N) = False" using e by (auto simp: editing_def)
  have "on_line cap l H (edit_key hc c l H) (z_key cap c (a, b))"
    unfolding edit_key_def z_key_def Let_def np if_False prod.case
    by (intro on_line_if on_line_op backspace_gives delete_gives swap_gives left_gives right_gives kill_line_gives [OF r]
        kill_right_gives [OF r] home_gives end_gives word_gives insert_gives clear r)
  then show ?thesis by (auto simp: on_line_def gives_def)
qed

section \<open>A line\<close>

text \<open>What a sequence of keys gives; Ctrl-D on an empty line ends the input.\<close>
fun z_run :: "nat \<Rightarrow> string \<Rightarrow> zipper \<Rightarrow> zipper option" where
  "z_run cap [] z = Some z"
| "z_run cap (c # cs) z = (if c = CTRL_D \<and> z = ([], []) then None else z_run cap cs (z_key cap c z))"

lemma read_editing: "editing (cb \<noteq> None) c \<Longrightarrow> read_key hc cb c l r = Some (Some c, l, r)"
  by (auto simp: read_key_def editing_def split: option.split)

lemma edit_loop_keys:
  assumes "line_rep cap l a b" "\<forall>c \<in> set ks. editing (cb \<noteq> None) c" "z_run cap ks (a, b) = Some (a', b')"
  shows "\<exists>l'. edit_loop hc cb junk l H (ks @ inp) = edit_loop hc cb junk l' H inp \<and> line_rep cap l' a' b'"
  using assms
proof (induction ks arbitrary: l a b)
  case Nil
  then show ?case by auto
next
  case (Cons c ks)
  have e: "editing (cb \<noteq> None) c" and nd: "\<not> (c = CTRL_D \<and> ln_len l = 0)"
    using Cons.prems by (auto simp: line_rep_def split: if_splits)
  obtain a1 b1 where z: "z_key cap c (a, b) = (a1, b1)" by (cases "z_key cap c (a, b)")
  from key_gives [OF Cons.prems(1) e, of hc H] z obtain l1 where
    l1: "edit_key hc c l H = Some (l1, H)" "line_rep cap l1 a1 b1" by auto
  have "z_run cap ks (a1, b1) = Some (a', b')" using Cons.prems(3) z by (simp split: if_splits)
  from Cons.IH [OF l1(2) _ this] Cons.prems(2) obtain l' where
    l': "edit_loop hc cb junk l1 H (ks @ inp) = edit_loop hc cb junk l' H inp" "line_rep cap l' a' b'" by auto
  have "c \<noteq> ENTER" "c \<noteq> CTRL_C" "c \<noteq> ESC" "\<not> (c = TAB \<and> cb \<noteq> None \<and> c = c_nul)"
    using e by (auto simp: editing_def)
  then have "edit_loop hc cb junk l H ((c # ks) @ inp) = edit_loop hc cb junk l1 H (ks @ inp)"
    using read_editing [OF e, of hc l "ks @ inp"] l1(1) nd by auto
  with l' show ?case by auto
qed

lemma c_str_nul: "c_str (x @ c_nul # r) = c_str x"
  by (induction x) (simp_all add: c_str_def)

lemma c_str_rep:
  assumes "line_rep cap l a b"
  shows "c_str (ln_buf l) = c_str (a @ b)"
proof -
  from assms obtain rest where "ln_buf l = a @ b @ c_nul # rest" by (rule rep_bufD)
  then show ?thesis using c_str_nul [of "a @ b" rest] by simp
qed

lemma enter_rep:
  assumes "line_rep cap l a b" "lh_list H \<noteq> []"
  shows "\<exists>l'. edit_enter hc l H = Some (int (length a + length b), l', H\<lparr>lh_list := butlast (lh_list H)\<rparr>) \<and> line_rep cap l' a b"
proof -
  obtain l' where "refreshLine None l = Some l'" "line_rep cap l' a b" using refresh_rep [OF assms(1)] by blast
  moreover from this(2) assms(1) have "ln_len l' = length a + length b" "ln_len l = length a + length b" by (simp_all add: line_rep_def)
  ultimately show ?thesis using assms by (cases hc) (auto simp: edit_enter_def)
qed

lemma edit_start_rep:
  assumes "length prompt < cols" "cols < 2 ^ 32" "length buf \<le> 2 ^ 31" "store_at 0 c_nul buf = Some b"
  shows "line_rep (length buf - 1) \<lparr>ln_buf = b, ln_buflen = length buf - 1, ln_prompt = prompt, ln_pos = 0, ln_len = 0,
    ln_cols = cols, ln_history_index = 0, ln_out = out\<rparr> [] []"
  using assms by (cases buf) (auto simp: line_rep_def store_at_def)

text \<open>A whole line.\<close>
lemma linenoise_keys:
  assumes "z_run (length buf - 1) ks ([], []) = Some (a, b)" "\<forall>c \<in> set ks. editing (cb \<noteq> None) c"
    and "length prompt < cols" "cols < 2 ^ 32" "buf \<noteq> []" "length buf \<le> 2 ^ 31" "\<not> isUnsupportedTerm tm"
    and "1 \<le> lh_max H" "lh_list H = [] \<or> last (lh_list H) \<noteq> []"
  shows "linenoise True tm True hc cb junk True cols prompt buf H (ks @ ENTER # rest) =
      Some (Some (c_str (a @ b)), H\<lparr>lh_list := (if int (length (lh_list H)) = lh_max H then drop 1 (lh_list H) else lh_list H)\<rparr>, rest) \<and>
    length (a @ b) < length buf"
proof -
  let ?cap = "length buf - 1"
  let ?H = "snd (linenoiseHistoryAdd True [] H)"
  let ?h = "if int (length (lh_list H)) = lh_max H then drop 1 (lh_list H) else lh_list H"
  have H: "?H = H\<lparr>lh_list := ?h @ [[]]\<rparr>" using assms(8,9) by (auto simp: linenoiseHistoryAdd_def)
  obtain b0 where b0: "store_at 0 c_nul buf = Some b0" using assms(5) by (auto simp: store_at_def)
  from edit_loop_keys [OF edit_start_rep [OF assms(3,4,6) b0, of prompt] assms(2,1), of hc junk ?H "ENTER # rest"] obtain l where
    l: "linenoiseEdit hc cb junk True cols prompt buf H (ks @ ENTER # rest) = edit_loop hc cb junk l ?H (ENTER # rest)"
      "line_rep ?cap l a b" by (auto simp: linenoiseEdit_def b0)
  have "ENTER \<noteq> TAB" by (simp add: ENTER_def TAB_def)
  then have rd: "read_key hc cb ENTER l rest = Some (Some ENTER, l, rest)" by (simp add: read_key_def split: option.split)
  from enter_rep [OF l(2), of ?H hc] H obtain l' where
    l': "edit_enter hc l ?H = Some (int (length a + length b), l', ?H\<lparr>lh_list := ?h\<rparr>)" "line_rep ?cap l' a b" by auto
  have "linenoiseEdit hc cb junk True cols prompt buf H (ks @ ENTER # rest) =
      Some (int (length a + length b), l', H\<lparr>lh_list := ?h\<rparr>, rest)"
    using l(1) rd l'(1) H \<open>ENTER \<noteq> TAB\<close> by simp
  moreover have "length (a @ b) < length buf" using line_rep_sizes [OF l(2)] assms(5) by (cases buf) auto
  ultimately show ?thesis using assms(5,7) c_str_rep [OF l'(2)] by (simp add: linenoise_def linenoiseRaw_def)
qed

text \<open>
  C22. Editing a line on a terminal that is wider than the prompt. For every sequence of editing keys (characters, moves,
  deletions, transposition, kill, word deletion, clear screen) followed by Enter, \<open>linenoise\<close> returns the text that these keys give on a pair of the text before and
  after the cursor, where a character beyond the capacity of the buffer is ignored. No access is outside the buffer, the line
  together with its NUL fits in it, the rest of the input is untouched, and the history is as before, except that a full history has lost its oldest entry.
\<close>
theorem linenoise_line:
  assumes "z_run (length buf - 1) ks ([], []) = Some (a, b)" "\<forall>c \<in> set ks. editing (cb \<noteq> None) c"
    and "length prompt < cols" "cols < 2 ^ 32" "buf \<noteq> []" "length buf \<le> 2 ^ 31" "\<not> isUnsupportedTerm tm"
    and "1 \<le> lh_max H" "lh_list H = [] \<or> last (lh_list H) \<noteq> []"
  shows "linenoise True tm True hc cb junk True cols prompt buf H (ks @ ENTER # rest) =
      Some (Some (c_str (a @ b)), H\<lparr>lh_list := (if int (length (lh_list H)) = lh_max H then drop 1 (lh_list H) else lh_list H)\<rparr>, rest) \<and>
    length (a @ b) < length buf"
  by (rule linenoise_keys [OF assms])

theorem linenoise_line_witness:
  "linenoise True None True None None c_nul True 80 ''> '' (replicate 8 c_nul) \<lparr>lh_list = [''ls''], lh_max = 5\<rparr>
     (''hexlo'' @ [CTRL_B, CTRL_B, BACKSPACE, CHR ''l'', ENTER] @ ''next'') =
   Some (Some ''hello'', \<lparr>lh_list = [''ls''], lh_max = 5\<rparr>, ''next'')"
proof -
  let ?ks = "''hexlo'' @ [CTRL_B, CTRL_B, BACKSPACE, CHR ''l'']"
  have run: "z_run (length (replicate 8 c_nul) - 1) ?ks ([], []) = Some (''hel'', ''lo'')" by code_simp
  have keys: "\<forall>c \<in> set ?ks. editing (None \<noteq> (None :: (string \<Rightarrow> string list option) option)) c" by code_simp
  have str: "c_str (''hel'' @ ''lo'') = ''hello''" by code_simp
  have "\<not> isUnsupportedTerm None" by (simp add: isUnsupportedTerm_def)
  from linenoise_line [OF run keys _ _ _ _ this, of "''> ''" 80 "\<lparr>lh_list = [''ls''], lh_max = 5\<rparr>" None c_nul "''next''"] str
  show ?thesis by simp
qed

section \<open>Redrawing stays on the line\<close>

text \<open>
  C32. Redrawing a line on a terminal wider than the prompt. The two loops over 64-bit counters end, and what is written is the prompt,
  the part of the line from the scroll position on, the hint and the cursor movement of the closed form \<open>window\<close>. The scroll position is not behind the
  cursor, the cursor ends in a column of the terminal, and prompt and text together fit in its width.
\<close>
theorem redraw_window:
  assumes "line_rep cap l a b"
  shows "refreshSingleLine hc l = Some (window hc l) \<and>
    (let plen = length (ln_prompt l); k = scrolled plen (ln_cols l) (ln_pos l) in
     k \<le> ln_pos l \<and> plen + ln_pos l - k < ln_cols l \<and> plen + min (ln_len l - k) (ln_cols l - plen) \<le> ln_cols l \<and>
     (plen + ln_pos l < ln_cols l \<longrightarrow> k = 0))"
  using assms refresh_window [OF assms, of hc] by (auto simp: line_rep_def scrolled_def Let_def)

definition line1 :: linenoiseState where
  "line1 = \<lparr>ln_buf = ''abcdef'' @ [c_nul, c_nul], ln_buflen = 7, ln_prompt = ''> '', ln_pos = 6, ln_len = 6, ln_cols = 6,
     ln_history_index = 0, ln_out = []\<rparr>"

theorem redraw_window_witness:
  "refreshSingleLine None line1 = Some ([c_cr] @ ''> def'' @ [ESC] @ ''[0K'' @ [c_cr, ESC, CHR ''[''] @ ''5C'')"
proof -
  have "line_rep 7 line1 ''abcdef'' []" by (auto simp: line_rep_def line1_def)
  moreover have "window None line1 = [c_cr] @ ''> def'' @ [ESC] @ ''[0K'' @ [c_cr, ESC, CHR ''[''] @ ''5C''" by code_simp
  ultimately show ?thesis using redraw_window by fastforce
qed

section \<open>The history\<close>

definition hist_inv :: "ln_history \<Rightarrow> bool" where
  "hist_inv H \<longleftrightarrow> 1 \<le> lh_max H \<and> int (length (lh_list H)) \<le> lh_max H \<and> distinct_adj (lh_list H)"

definition storable :: "string \<Rightarrow> bool" where
  "storable e \<longleftrightarrow> c_nl \<notin> set e \<and> c_cr \<notin> set e \<and> c_nul \<notin> set e \<and> length e < LINENOISE_MAX_LINE - 1"

lemma distinct_adj_drop: "distinct_adj xs \<Longrightarrow> distinct_adj (drop n xs)"
  by (metis append_take_drop_id distinct_adj_append_iff)

lemma add_inv:
  assumes "hist_inv H"
  shows "hist_inv (snd (linenoiseHistoryAdd ok e H))"
proof -
  let ?h = "lh_list H"
  have "distinct_adj (drop k ?h @ [e])" if "?h = [] \<or> last ?h \<noteq> e" for k
    using assms that distinct_adj_drop [of ?h k] by (cases "k < length ?h") (auto simp: hist_inv_def distinct_adj_append_iff)
  from this [of 0] this [of 1] assms show ?thesis
    by (auto simp: hist_inv_def linenoiseHistoryAdd_def Let_def)
qed

lemma set_max_inv: "hist_inv H \<Longrightarrow> hist_inv (snd (linenoiseHistorySetMaxLen ok n H))"
  by (auto simp: hist_inv_def linenoiseHistorySetMaxLen_def distinct_adj_drop)

lemma fgets_storable:
  assumes "storable e"
  shows "fgets_line LINENOISE_MAX_LINE (e @ c_nl # r) = (e @ [c_nl], r)"
proof -
  have "takeWhile (\<lambda>c. c \<noteq> c_nl) (e @ c_nl # r) = e"
    using assms by (subst takeWhile_append2) (auto simp: storable_def)
  then show ?thesis using assms by (simp add: fgets_line_def storable_def LINENOISE_MAX_LINE_def Suc_le_eq)
qed

lemma chop_storable:
  assumes "storable e"
  shows "chop_line (c_str (e @ [c_nl])) = e"
proof -
  have "c_str (e @ [c_nl]) = e @ [c_nl]"
    using assms by (auto simp: c_str_def storable_def c_nl_def c_nul_def takeWhile_eq_all_conv)
  moreover have "strchr (e @ [c_nl]) c_cr = None" using assms by (simp add: strchr_None storable_def c_nl_def c_cr_def)
  ultimately show ?thesis using assms by (simp add: chop_line_def storable_def)
qed

lemma load_entries:
  assumes "distinct_adj (ys @ xs)" "int (length (ys @ xs)) \<le> m" "\<forall>e \<in> set xs. storable e"
  shows "load_loop True (concat (map (\<lambda>e. e @ [c_nl]) xs)) \<lparr>lh_list = ys, lh_max = m\<rparr> = \<lparr>lh_list = ys @ xs, lh_max = m\<rparr>"
  using assms
proof (induction xs arbitrary: ys)
  case Nil
  then show ?case by (simp add: load_loop.simps)
next
  case (Cons x xs)
  have x: "storable x" and ne: "ys = [] \<or> last ys \<noteq> x" and m: "int (length ys) < m"
    using Cons.prems by (auto simp: distinct_adj_append_iff)
  have add: "snd (linenoiseHistoryAdd True x \<lparr>lh_list = ys, lh_max = m\<rparr>) = \<lparr>lh_list = ys @ [x], lh_max = m\<rparr>"
    using ne m by (auto simp: linenoiseHistoryAdd_def)
  have "load_loop True (concat (map (\<lambda>e. e @ [c_nl]) xs)) \<lparr>lh_list = ys @ [x], lh_max = m\<rparr> = \<lparr>lh_list = ys @ x # xs, lh_max = m\<rparr>"
    using Cons.IH [of "ys @ [x]"] Cons.prems by simp
  then show ?case using add fgets_storable [OF x] chop_storable [OF x] by (subst load_loop.simps) (simp add: Let_def)
qed

lemma recall_length:
  "linenoiseEditHistoryNext hc dir l h = Some (l1, h1) \<Longrightarrow> length h1 = length h"
  by (auto simp: linenoiseEditHistoryNext_def Let_def bind_eq_Some_conv split: if_splits)

text \<open>
  Editing a recalled line changes the entry it came from: in a history of \<open>a\<close> and \<open>b\<close> the line \<open>b\<close> is recalled with Ctrl-P and
  changed to \<open>a\<close>, then Ctrl-P and Enter. The history now holds \<open>a\<close> twice in a row, and loading its file gives one entry only.\<close>
lemma recall_makes_repetition:
  "linenoise True None True None None c_nul True 80 ''> '' (replicate 8 c_nul) \<lparr>lh_list = [''a'', ''b''], lh_max = 5\<rparr>
     [CTRL_P, BACKSPACE, CHR ''a'', CTRL_P, ENTER] = Some (Some ''a'', \<lparr>lh_list = [''a'', ''a''], lh_max = 5\<rparr>, []) \<and>
   \<not> hist_inv \<lparr>lh_list = [''a'', ''a''], lh_max = 5\<rparr> \<and>
   linenoiseHistoryLoad True (snd (linenoiseHistorySave True \<lparr>lh_list = [''a'', ''a''], lh_max = 5\<rparr>)) \<lparr>lh_list = [], lh_max = 5\<rparr> =
     (0, \<lparr>lh_list = [''a''], lh_max = 5\<rparr>)"
  by code_simp

text \<open>
  C33. A history with at most its maximum number of lines and without the same line twice in a row stays one when a line is
  added or the maximum is changed, whether or not memory is left. Recalling lines with the keys keeps the number of entries but not the
  absence of repetitions (\<open>recall_makes_repetition\<close>). Saving a history of this kind, whose lines fit in the line buffer, and
  loading the file into an empty history of the same maximum gives it back.
\<close>
theorem history_roundtrip:
  assumes "hist_inv H"
  shows "(\<forall>ok e. hist_inv (snd (linenoiseHistoryAdd ok e H))) \<and> (\<forall>ok n. hist_inv (snd (linenoiseHistorySetMaxLen ok n H))) \<and>
    (\<forall>hc dir l l1 h1. linenoiseEditHistoryNext hc dir l (lh_list H) = Some (l1, h1) \<longrightarrow> length h1 = length (lh_list H)) \<and>
    ((\<forall>e \<in> set (lh_list H). storable e) \<longrightarrow>
      linenoiseHistoryLoad True (snd (linenoiseHistorySave True H)) \<lparr>lh_list = [], lh_max = lh_max H\<rparr> = (0, H))"
  using add_inv [OF assms] set_max_inv [OF assms] load_entries [of "[]" "lh_list H" "lh_max H"] assms recall_length
  by (auto simp: linenoiseHistoryLoad_def linenoiseHistorySave_def hist_inv_def)

theorem history_roundtrip_witness:
  "linenoiseHistoryLoad True (Some (''ls'' @ [c_nl] @ ''help'' @ [c_nl])) \<lparr>lh_list = [], lh_max = 2\<rparr> =
     (0, \<lparr>lh_list = [''ls'', ''help''], lh_max = 2\<rparr>)"
proof -
  let ?H = "\<lparr>lh_list = [''ls'', ''help''], lh_max = 2\<rparr>"
  have "hist_inv ?H" by (simp add: hist_inv_def)
  moreover have "\<forall>e \<in> set (lh_list ?H). storable e" by code_simp
  ultimately show ?thesis using history_roundtrip [of ?H] by (simp add: linenoiseHistorySave_def)
qed

end
