(* ===== verification/KiloRow.thy ===== *)
theory KiloRow
  imports Prelude Linenoise Logger
begin

text \<open>
  The text editor of src/kilo.c, first part: the editor's state, its rows, how a row is rendered for the screen and
  highlighted, and the functions that insert, delete and change rows. A row keeps the bytes allocated for it: \<open>erow_chars\<close>
  with the terminating NUL at \<open>erow_size\<close> and perhaps more behind it, \<open>erow_render\<close> with its NUL, \<open>erow_hl\<close> with one
  code per rendered character (empty for NULL). The array \<open>E.row\<close> is a list; \<open>E_numrows\<close> is the counter beside it. \<open>None\<close>
  as a result: the code reads or writes outside of these. Memory does not run out, and no counter reaches \<open>2^31\<close>.
\<close>

section \<open>State\<close>

definition HL_NORMAL :: nat where "HL_NORMAL = 0"
definition HL_NONPRINT :: nat where "HL_NONPRINT = 1"
definition HL_COMMENT :: nat where "HL_COMMENT = 2"
definition HL_MLCOMMENT :: nat where "HL_MLCOMMENT = 3"
definition HL_KEYWORD1 :: nat where "HL_KEYWORD1 = 4"
definition HL_KEYWORD2 :: nat where "HL_KEYWORD2 = 5"
definition HL_STRING :: nat where "HL_STRING = 6"
definition HL_NUMBER :: nat where "HL_NUMBER = 7"
definition HL_MATCH :: nat where "HL_MATCH = 8"

definition HL_HIGHLIGHT_STRINGS :: nat where "HL_HIGHLIGHT_STRINGS = 1"
definition HL_HIGHLIGHT_NUMBERS :: nat where "HL_HIGHLIGHT_NUMBERS = 2"

lemmas HL_defs = HL_NORMAL_def HL_NONPRINT_def HL_COMMENT_def HL_MLCOMMENT_def HL_KEYWORD1_def
  HL_KEYWORD2_def HL_STRING_def HL_NUMBER_def HL_MATCH_def

record editorSyntax =
  filematch :: "string list"
  syn_keywords :: "string list"
  singleline_comment_start :: "char \<times> char"
  multiline_comment_start :: "char \<times> char"
  multiline_comment_end :: "char \<times> char"
  syn_flags :: nat

record erow =
  erow_idx :: nat
  erow_size :: nat
  erow_rsize :: nat
  erow_chars :: string
  erow_render :: string
  erow_hl :: "nat list"
  erow_hl_oc :: bool

record editorConfig =
  E_cx :: int
  E_cy :: int
  E_rowoff :: int
  E_coloff :: int
  E_screenrows :: int
  E_screencols :: int
  E_numrows :: nat
  E_rawmode :: bool
  E_row :: "erow list"
  E_dirty :: nat
  E_filename :: "string option"
  E_statusmsg :: string
  E_statusmsg_time :: int
  E_syntax :: "editorSyntax option"

definition C_HL_extensions :: "string list" where "C_HL_extensions = [''.c'', ''.cpp'']"

definition C_HL_keywords :: "string list" where
  "C_HL_keywords =
     [''switch'', ''if'', ''while'', ''for'', ''break'', ''continue'', ''return'', ''else'',
      ''struct'', ''union'', ''typedef'', ''static'', ''enum'', ''class'',
      ''int|'', ''long|'', ''double|'', ''float|'', ''char|'', ''unsigned|'', ''signed|'',
      ''void|'']"

definition HLDB :: "editorSyntax list" where
  "HLDB = [\<lparr>filematch = C_HL_extensions, syn_keywords = C_HL_keywords,
             singleline_comment_start = (CHR ''/'', CHR ''/''),
             multiline_comment_start = (CHR ''/'', CHR ''*''),
             multiline_comment_end = (CHR ''*'', CHR ''/''),
             syn_flags = HL_HIGHLIGHT_STRINGS + HL_HIGHLIGHT_NUMBERS\<rparr>]"

section \<open>C library functions\<close>

definition c_isprint :: "char \<Rightarrow> bool" where
  "c_isprint c \<longleftrightarrow> 32 \<le> (of_char c :: nat) \<and> (of_char c :: nat) \<le> 126"

text \<open>\<open>strstr\<close> on C strings: the offset of the first occurrence.\<close>
fun strstr :: "string \<Rightarrow> string \<Rightarrow> nat option" where
  "strstr [] t = (if t = [] then Some 0 else None)"
| "strstr (x # s) t = (if take (length t) (x # s) = t then Some 0 else map_option Suc (strstr s t))"

text \<open>\<open>realloc\<close>: the bytes that are new are written before anything reads them.\<close>
definition realloc :: "nat \<Rightarrow> string \<Rightarrow> string" where
  "realloc n b = take n b @ replicate (n - length b) c_nul"

definition memset :: "nat \<Rightarrow> 'a \<Rightarrow> nat \<Rightarrow> 'a list \<Rightarrow> 'a list option" where
  "memset i v n b = (if i + n \<le> length b then Some (take i b @ replicate n v @ drop (i + n) b) else None)"

text \<open>\<open>memcpy(b + i, s, n)\<close>.\<close>
definition memcpy :: "nat \<Rightarrow> string \<Rightarrow> nat \<Rightarrow> string \<Rightarrow> string option" where
  "memcpy i s n b =
     (if i + n \<le> length b \<and> n \<le> length s then Some (take i b @ take n s @ drop (i + n) b) else None)"

definition set_hl :: "nat \<Rightarrow> nat \<Rightarrow> nat list \<Rightarrow> nat list option" where
  "set_hl i v hl = (if i < length hl then Some (hl[i := v]) else None)"

text \<open>An assignment through the pointer \<open>E.row + k\<close>.\<close>
definition upd_row :: "nat \<Rightarrow> (erow \<Rightarrow> erow) \<Rightarrow> editorConfig \<Rightarrow> editorConfig" where
  "upd_row k f E = E\<lparr>E_row := (E_row E)[k := f (E_row E ! k)]\<rparr>"

section \<open>Syntax highlighting\<close>

definition is_separator :: "char \<Rightarrow> bool" where
  "is_separator c \<longleftrightarrow> c = c_nul \<or> c_isspace c \<or> strchr '',.()+-/*=~%[];'' c \<noteq> None"

definition editorRowHasOpenComment :: "erow \<Rightarrow> bool option" where
  "editorRowHasOpenComment row =
     (if erow_hl row \<noteq> [] \<and> erow_rsize row \<noteq> 0
      then do { h \<leftarrow> nth_opt (erow_hl row) (erow_rsize row - 1);
                if h = HL_MLCOMMENT
                then if erow_rsize row < 2 then Some True
                  else do { a \<leftarrow> nth_opt (erow_render row) (erow_rsize row - 2);
                            b \<leftarrow> nth_opt (erow_render row) (erow_rsize row - 1);
                            Some (a \<noteq> CHR ''*'' \<or> b \<noteq> CHR ''/'') }
                else Some False }
      else Some False)"

text \<open>The locals of the scan: \<open>i\<close> (with \<open>p\<close> at \<open>render + i\<close>), \<open>prev_sep\<close>, \<open>in_string\<close>, \<open>in_comment\<close>, and \<open>row->hl\<close>.\<close>
record scan_state =
  sx_i :: nat
  sx_sep :: bool
  sx_str :: "char option"
  sx_com :: bool
  sx_hl :: "nat list"

text \<open>
  The first keyword at \<open>p\<close> (no keyword of the table is empty or holds a NUL): its length and whether it is of the second
  colour. \<open>memcmp\<close> stops at the first difference.
\<close>
fun keyword_at :: "string list \<Rightarrow> string \<Rightarrow> (nat \<times> bool) option" where
  "keyword_at [] p = None"
| "keyword_at (kw # kws) p =
     (let kw2 = (kw \<noteq> [] \<and> last kw = CHR ''|''); klen = (if kw2 then length kw - 1 else length kw) in
      if take klen p = take klen kw \<and> klen < length p \<and> is_separator (p ! klen) then Some (klen, kw2)
      else keyword_at kws p)"

text \<open>One turn of the loop; the flag is set where it executes \<open>return\<close>.\<close>
definition syntax_step :: "editorSyntax \<Rightarrow> nat \<Rightarrow> string \<Rightarrow> scan_state \<Rightarrow> (scan_state \<times> bool) option" where
  "syntax_step syn sz b s =
     (let i = sx_i s; hl = sx_hl s; scs = singleline_comment_start syn;
          mcs = multiline_comment_start syn; mce = multiline_comment_end syn in
      do { c \<leftarrow> nth_opt b i;
           c1 \<leftarrow> nth_opt b (i + 1);
           if sx_sep s \<and> c = fst scs \<and> c1 = snd scs
           then if i \<le> sz then do { h \<leftarrow> memset i HL_COMMENT (sz - i) hl; Some (s\<lparr>sx_hl := h\<rparr>, True) } else None
           else if sx_com s
           then do { h \<leftarrow> set_hl i HL_MLCOMMENT hl;
                     if c = fst mce \<and> c1 = snd mce
                     then do { h2 \<leftarrow> set_hl (i + 1) HL_MLCOMMENT h;
                               Some (s\<lparr>sx_hl := h2, sx_i := i + 2, sx_com := False, sx_sep := True\<rparr>, False) }
                     else Some (s\<lparr>sx_hl := h, sx_sep := False, sx_i := i + 1\<rparr>, False) }
           else if c = fst mcs \<and> c1 = snd mcs
           then do { h \<leftarrow> set_hl i HL_MLCOMMENT hl;
                     h2 \<leftarrow> set_hl (i + 1) HL_MLCOMMENT h;
                     Some (s\<lparr>sx_hl := h2, sx_i := i + 2, sx_com := True, sx_sep := False\<rparr>, False) }
           else if sx_str s \<noteq> None
           then do { h \<leftarrow> set_hl i HL_STRING hl;
                     if c = CHR 0x5C
                     then do { h2 \<leftarrow> set_hl (i + 1) HL_STRING h;
                               Some (s\<lparr>sx_hl := h2, sx_i := i + 2, sx_sep := False\<rparr>, False) }
                     else Some (s\<lparr>sx_hl := h, sx_str := (if sx_str s = Some c then None else sx_str s), sx_i := i + 1\<rparr>, False) }
           else if c = CHR 0x22 \<or> c = CHR 0x27
           then do { h \<leftarrow> set_hl i HL_STRING hl;
                     Some (s\<lparr>sx_str := Some c, sx_hl := h, sx_i := i + 1, sx_sep := False\<rparr>, False) }
           else if \<not> c_isprint c
           then do { h \<leftarrow> set_hl i HL_NONPRINT hl;
                     Some (s\<lparr>sx_hl := h, sx_i := i + 1, sx_sep := False\<rparr>, False) }
           else if (is_digit 10 c \<and> (sx_sep s \<or> nth_opt hl (i - 1) = Some HL_NUMBER)) \<or>
                   (c = CHR ''.'' \<and> 0 < i \<and> nth_opt hl (i - 1) = Some HL_NUMBER)
           then do { h \<leftarrow> set_hl i HL_NUMBER hl;
                     Some (s\<lparr>sx_hl := h, sx_i := i + 1, sx_sep := False\<rparr>, False) }
           else case (if sx_sep s then keyword_at (syn_keywords syn) (drop i b) else None) of
               Some (klen, kw2) \<Rightarrow>
                 do { h \<leftarrow> memset i (if kw2 then HL_KEYWORD2 else HL_KEYWORD1) klen hl;
                      Some (s\<lparr>sx_hl := h, sx_i := i + klen, sx_sep := False\<rparr>, False) }
             | None \<Rightarrow> Some (s\<lparr>sx_sep := is_separator c, sx_i := i + 1\<rparr>, False) })"

text \<open>Each turn moves \<open>i\<close>, or (for a keyword of length 0) clears \<open>prev_sep\<close>.\<close>
definition scan_measure :: "nat \<Rightarrow> scan_state \<Rightarrow> nat" where
  "scan_measure n s = 2 * (n - sx_i s) + (if sx_sep s then 1 else 0)"

lemma syntax_step_progress:
  assumes "syntax_step syn sz b s = Some (s', False)"
  shows "sx_i s < length b \<and> (sx_i s < sx_i s' \<or> (sx_i s' = sx_i s \<and> sx_sep s \<and> \<not> sx_sep s'))"
  using assms
  by (auto simp: syntax_step_def Let_def bind_eq_Some_conv split: if_splits option.splits)

function syntax_loop :: "editorSyntax \<Rightarrow> nat \<Rightarrow> string \<Rightarrow> scan_state \<Rightarrow> (scan_state \<times> bool) option" where
  "syntax_loop syn sz b s =
     (case nth_opt b (sx_i s) of
        None \<Rightarrow> None
      | Some c \<Rightarrow>
          if c = c_nul then Some (s, False)
          else case syntax_step syn sz b s of
              None \<Rightarrow> None
            | Some (s', ret) \<Rightarrow> if ret then Some (s', True) else syntax_loop syn sz b s')"
  by pat_completeness auto
termination
proof (relation "measure (\<lambda>(syn, sz, b, s). scan_measure (length b) s)", goal_cases)
  case (2 syn sz b s c st s' ret)
  then show ?case
    using syntax_step_progress [of syn sz b s s'] by (auto simp: scan_measure_def)
qed simp

declare syntax_loop.simps [simp del]

text \<open>\<open>row\<close> is the pointer \<open>E.row + k\<close>.\<close>
partial_function (option) editorUpdateSyntax :: "nat \<Rightarrow> editorConfig \<Rightarrow> editorConfig option" where
  "editorUpdateSyntax k E =
     Option.bind (nth_opt (E_row E) k) (\<lambda>row.
       let E1 = upd_row k (\<lambda>r. r\<lparr>erow_hl := replicate (erow_rsize row) HL_NORMAL\<rparr>) E in
       case E_syntax E of
         None \<Rightarrow> Some E1
       | Some syn \<Rightarrow>
           Option.bind (if 0 < erow_idx row
                        then Option.bind (nth_opt (E_row E1) (erow_idx row - 1)) editorRowHasOpenComment
                        else Some False) (\<lambda>in_comment.
           Option.bind (syntax_loop syn (erow_size row) (erow_render row)
                \<lparr>sx_i = length (takeWhile c_isspace (c_str (erow_render row))), sx_sep = True, sx_str = None,
                 sx_com = in_comment, sx_hl = replicate (erow_rsize row) HL_NORMAL\<rparr>) (\<lambda>(s, ret).
             let E2 = upd_row k (\<lambda>r. r\<lparr>erow_hl := sx_hl s\<rparr>) E1 in
             if ret then Some E2
             else Option.bind (editorRowHasOpenComment (E_row E2 ! k)) (\<lambda>oc.
                  Option.bind (if erow_hl_oc row \<noteq> oc \<and> erow_idx row + 1 < E_numrows E
                               then editorUpdateSyntax (erow_idx row + 1) E2 else Some E2) (\<lambda>E3.
                    Some (upd_row k (\<lambda>r. r\<lparr>erow_hl_oc := oc\<rparr>) E3))))))"

declare editorUpdateSyntax.simps [code]

definition editorSyntaxToColor :: "nat \<Rightarrow> int" where
  "editorSyntaxToColor hl =
     (if hl = HL_COMMENT \<or> hl = HL_MLCOMMENT then 36
      else if hl = HL_KEYWORD1 then 33
      else if hl = HL_KEYWORD2 then 32
      else if hl = HL_STRING then 35
      else if hl = HL_NUMBER then 31
      else if hl = HL_MATCH then 34
      else 37)"

text \<open>The first entry of the table with a pattern that matches.\<close>
definition pattern_matches :: "string \<Rightarrow> string \<Rightarrow> bool" where
  "pattern_matches filename pat =
     (case strstr filename pat of
        None \<Rightarrow> False
      | Some p \<Rightarrow> take 1 pat \<noteq> ''.'' \<or> p + length pat = length filename)"

definition editorSelectSyntaxHighlight :: "string \<Rightarrow> editorConfig \<Rightarrow> editorConfig" where
  "editorSelectSyntaxHighlight filename E =
     (case filter (\<lambda>s. \<exists>pat \<in> set (filematch s). pattern_matches filename pat) HLDB of
        [] \<Rightarrow> E
      | s # _ \<Rightarrow> E\<lparr>E_syntax := Some s\<rparr>)"

section \<open>Rows\<close>

text \<open>\<open>row->render[idx++] = c\<close> in an array of \<open>cap\<close> bytes.\<close>
definition render_put :: "nat \<Rightarrow> string \<Rightarrow> char \<Rightarrow> string option" where
  "render_put cap acc c = (if length acc < cap then Some (acc @ [c]) else None)"

function pad_loop :: "nat \<Rightarrow> string \<Rightarrow> string option" where
  "pad_loop cap acc =
     (if (length acc + 1) mod 8 \<noteq> 0
      then if length acc < cap then pad_loop cap (acc @ [CHR '' '']) else None
      else Some acc)"
  by pat_completeness auto
termination
  by (relation "measure (\<lambda>(cap, acc). cap - length acc)") auto

declare pad_loop.simps [simp del]

fun render_loop :: "nat \<Rightarrow> string \<Rightarrow> string \<Rightarrow> string option" where
  "render_loop cap [] acc = Some acc"
| "render_loop cap (c # cs) acc =
     (if c = c_tab
      then do { a \<leftarrow> render_put cap acc (CHR '' ''); a2 \<leftarrow> pad_loop cap a; render_loop cap cs a2 }
      else do { a \<leftarrow> render_put cap acc c; render_loop cap cs a })"

definition editorUpdateRow :: "nat \<Rightarrow> editorConfig \<Rightarrow> editorConfig option" where
  "editorUpdateRow k E =
     do { row \<leftarrow> nth_opt (E_row E) k;
          if erow_size row \<le> length (erow_chars row)
          then let cs = take (erow_size row) (erow_chars row);
                   tabs = length (filter (\<lambda>c. c = c_tab) cs);
                   nonprint = 0;
                   cap = erow_size row + tabs * 8 + nonprint * 9 + 1 in
            do { r \<leftarrow> render_loop cap cs [];
                 r2 \<leftarrow> render_put cap r c_nul;
                 editorUpdateSyntax k (upd_row k (\<lambda>w. w\<lparr>erow_rsize := length r, erow_render := r2\<rparr>) E) }
          else None }"

text \<open>\<open>s\<close> is what can be read at the pointer; the byte behind the \<open>len\<close> bytes is copied too.\<close>
definition editorInsertRow :: "nat \<Rightarrow> string \<Rightarrow> nat \<Rightarrow> editorConfig \<Rightarrow> editorConfig option" where
  "editorInsertRow at s len E =
     (if E_numrows E < at then Some E
      else if len + 1 \<le> length s
      then let new = \<lparr>erow_idx = at, erow_size = len, erow_rsize = 0, erow_chars = take (len + 1) s,
                       erow_render = [], erow_hl = [], erow_hl_oc = False\<rparr>;
               below = (if at \<noteq> E_numrows E
                        then map (\<lambda>r. r\<lparr>erow_idx := erow_idx r + 1\<rparr>) (drop at (E_row E)) else []) in
        do { E1 \<leftarrow> editorUpdateRow at (E\<lparr>E_row := take at (E_row E) @ new # below\<rparr>);
             Some (E1\<lparr>E_numrows := E_numrows E1 + 1, E_dirty := E_dirty E1 + 1\<rparr>) }
      else None)"

definition editorDelRow :: "nat \<Rightarrow> editorConfig \<Rightarrow> editorConfig" where
  "editorDelRow at E =
     (if E_numrows E \<le> at then E
      else E\<lparr>E_row := take at (E_row E) @ map (\<lambda>r. r\<lparr>erow_idx := erow_idx r + 1\<rparr>) (drop (at + 1) (E_row E)),
             E_numrows := E_numrows E - 1, E_dirty := E_dirty E + 1\<rparr>)"

text \<open>The bytes of a row that are copied out; the buffer with its length.\<close>
definition row_bytes :: "erow \<Rightarrow> string option" where
  "row_bytes r = (if erow_size r \<le> length (erow_chars r) then Some (take (erow_size r) (erow_chars r)) else None)"

fun editorRowsToString :: "erow list \<Rightarrow> string option" where
  "editorRowsToString [] = Some []"
| "editorRowsToString (r # rs) =
     do { b \<leftarrow> row_bytes r; t \<leftarrow> editorRowsToString rs; Some (b @ [c_nl] @ t) }"

definition editorRowInsertChar :: "nat \<Rightarrow> int \<Rightarrow> char \<Rightarrow> editorConfig \<Rightarrow> editorConfig option" where
  "editorRowInsertChar k at c E =
     do { row \<leftarrow> nth_opt (E_row E) k;
          let sz = erow_size row in
          do { (b, n) \<leftarrow> (if int sz < at
                 then let padlen = nat at - sz in
                   do { b1 \<leftarrow> memset sz (CHR '' '') padlen (realloc (sz + padlen + 2) (erow_chars row));
                        b2 \<leftarrow> store_at (sz + padlen + 1) c_nul b1;
                        Some (b2, sz + padlen + 1) }
                 else if 0 \<le> at
                 then do { b1 \<leftarrow> memmove (nat at + 1) (nat at) (sz - nat at + 1) (realloc (sz + 2) (erow_chars row));
                           Some (b1, sz + 1) }
                 else None);
               b3 \<leftarrow> store_at (nat at) c b;
               E1 \<leftarrow> editorUpdateRow k (upd_row k (\<lambda>r. r\<lparr>erow_chars := b3, erow_size := n\<rparr>) E);
               Some (E1\<lparr>E_dirty := E_dirty E1 + 1\<rparr>) } }"

definition editorRowAppendString :: "nat \<Rightarrow> string \<Rightarrow> nat \<Rightarrow> editorConfig \<Rightarrow> editorConfig option" where
  "editorRowAppendString k s len E =
     do { row \<leftarrow> nth_opt (E_row E) k;
          let sz = erow_size row in
          do { b1 \<leftarrow> memcpy sz s len (realloc (sz + len + 1) (erow_chars row));
               b2 \<leftarrow> store_at (sz + len) c_nul b1;
               E1 \<leftarrow> editorUpdateRow k (upd_row k (\<lambda>r. r\<lparr>erow_chars := b2, erow_size := sz + len\<rparr>) E);
               Some (E1\<lparr>E_dirty := E_dirty E1 + 1\<rparr>) } }"

text \<open>The row is rendered with the old size: the NUL that has moved down is taken for a character.\<close>
definition editorRowDelChar :: "nat \<Rightarrow> int \<Rightarrow> editorConfig \<Rightarrow> editorConfig option" where
  "editorRowDelChar k at E =
     do { row \<leftarrow> nth_opt (E_row E) k;
          if int (erow_size row) \<le> at then Some E
          else if 0 \<le> at
          then do { b \<leftarrow> memmove (nat at) (nat at + 1) (erow_size row - nat at) (erow_chars row);
                    E1 \<leftarrow> editorUpdateRow k (upd_row k (\<lambda>r. r\<lparr>erow_chars := b\<rparr>) E);
                    Some ((upd_row k (\<lambda>r. r\<lparr>erow_size := erow_size r - 1\<rparr>) E1)\<lparr>E_dirty := E_dirty E1 + 1\<rparr>) }
          else None }"

end
