(* ===== verification/Kilo.thy ===== *)
theory Kilo
  imports KiloRow
begin

text \<open>
  The text editor of src/kilo.c, second part: reading keys and the window size from the terminal, the commands on the text
  and the cursor, loading and saving, drawing the screen, searching, and the main loop. The terminal's input is the list
  of what \<open>read\<close> delivers, \<open>None\<close> for a timeout; behind the list there are only timeouts. What is written to the terminal
  is collected in \<open>K_out\<close>. The results of the system calls come from \<open>kilo_env\<close>: the n-th call of \<open>time\<close> returns
  \<open>kv_clock n\<close>, the n-th save meets \<open>kv_save n\<close>. \<open>None\<close> as a result: the code leaves its arrays, or waits for ever.
\<close>

section \<open>Keys\<close>

definition KEY_NULL :: int where "KEY_NULL = 0"
definition CTRL_C_KEY :: int where "CTRL_C_KEY = 3"
definition CTRL_D_KEY :: int where "CTRL_D_KEY = 4"
definition CTRL_F_KEY :: int where "CTRL_F_KEY = 6"
definition CTRL_H_KEY :: int where "CTRL_H_KEY = 8"
definition TAB_KEY :: int where "TAB_KEY = 9"
definition CTRL_L_KEY :: int where "CTRL_L_KEY = 12"
definition ENTER_KEY :: int where "ENTER_KEY = 13"
definition CTRL_Q :: int where "CTRL_Q = 17"
definition CTRL_S :: int where "CTRL_S = 19"
definition CTRL_U_KEY :: int where "CTRL_U_KEY = 21"
definition ESC_KEY :: int where "ESC_KEY = 27"
definition BACKSPACE_KEY :: int where "BACKSPACE_KEY = 127"
definition ARROW_LEFT :: int where "ARROW_LEFT = 1000"
definition ARROW_RIGHT :: int where "ARROW_RIGHT = 1001"
definition ARROW_UP :: int where "ARROW_UP = 1002"
definition ARROW_DOWN :: int where "ARROW_DOWN = 1003"
definition DEL_KEY :: int where "DEL_KEY = 1004"
definition HOME_KEY :: int where "HOME_KEY = 1005"
definition END_KEY :: int where "END_KEY = 1006"
definition PAGE_UP :: int where "PAGE_UP = 1007"
definition PAGE_DOWN :: int where "PAGE_DOWN = 1008"

lemmas key_defs = KEY_NULL_def CTRL_C_KEY_def CTRL_D_KEY_def CTRL_F_KEY_def CTRL_H_KEY_def TAB_KEY_def CTRL_L_KEY_def ENTER_KEY_def
  CTRL_Q_def CTRL_S_def CTRL_U_KEY_def ESC_KEY_def BACKSPACE_KEY_def ARROW_LEFT_def ARROW_RIGHT_def ARROW_UP_def
  ARROW_DOWN_def DEL_KEY_def HOME_KEY_def END_KEY_def PAGE_UP_def PAGE_DOWN_def

text \<open>A \<open>char\<close>, which is signed, as an \<open>int\<close>, and back.\<close>
definition int_of_char :: "char \<Rightarrow> int" where
  "int_of_char c = (let n = of_char c in if n < 128 then n else n - 256)"

definition char_of_int :: "int \<Rightarrow> char" where
  "char_of_int n = char_of (n mod 256)"

definition c_esc :: char where "c_esc = CHR 0x1B"

text \<open>Behind an ESC. A sequence that is not known is dropped and, as \<open>c\<close> still holds ESC, the next bytes are taken for another one.\<close>
fun readkey_esc :: "char option list \<Rightarrow> int \<times> char option list" where
  "readkey_esc [] = (ESC_KEY, [])"
| "readkey_esc (None # r) = (ESC_KEY, r)"
| "readkey_esc [Some a] = (ESC_KEY, [])"
| "readkey_esc (Some a # None # r) = (ESC_KEY, r)"
| "readkey_esc (Some a # Some b # r) =
     (if a = CHR ''[''
      then if is_digit 10 b
        then (case r of
                [] \<Rightarrow> (ESC_KEY, [])
              | None # r2 \<Rightarrow> (ESC_KEY, r2)
              | Some d # r2 \<Rightarrow>
                  if d = CHR ''~'' \<and> b = CHR ''3'' then (DEL_KEY, r2)
                  else if d = CHR ''~'' \<and> b = CHR ''5'' then (PAGE_UP, r2)
                  else if d = CHR ''~'' \<and> b = CHR ''6'' then (PAGE_DOWN, r2)
                  else readkey_esc r2)
        else if b = CHR ''A'' then (ARROW_UP, r)
        else if b = CHR ''B'' then (ARROW_DOWN, r)
        else if b = CHR ''C'' then (ARROW_RIGHT, r)
        else if b = CHR ''D'' then (ARROW_LEFT, r)
        else if b = CHR ''H'' then (HOME_KEY, r)
        else if b = CHR ''F'' then (END_KEY, r)
        else readkey_esc r
      else if a = CHR ''O''
      then if b = CHR ''H'' then (HOME_KEY, r)
        else if b = CHR ''F'' then (END_KEY, r)
        else readkey_esc r
      else readkey_esc r)"

definition editorReadKey :: "char option list \<Rightarrow> (int \<times> char option list) option" where
  "editorReadKey inp =
     (case dropWhile (\<lambda>x. x = None) inp of
        [] \<Rightarrow> None
      | x # r \<Rightarrow> (case x of None \<Rightarrow> None
                 | Some c \<Rightarrow> Some (if int_of_char c = ESC_KEY then readkey_esc r else (int_of_char c, r))))"

section \<open>The terminal\<close>

record termios =
  c_iflag :: u32
  c_oflag :: u32
  c_cflag :: u32
  c_lflag :: u32
  c_vmin :: nat
  c_vtime :: nat

definition BRKINT :: u32 where "BRKINT = 0x2"
definition ICRNL :: u32 where "ICRNL = 0x100"
definition INPCK :: u32 where "INPCK = 0x10"
definition ISTRIP :: u32 where "ISTRIP = 0x20"
definition IXON :: u32 where "IXON = 0x400"
definition OPOST :: u32 where "OPOST = 0x1"
definition CS8 :: u32 where "CS8 = 0x30"
definition ECHO :: u32 where "ECHO = 0x8"
definition ICANON :: u32 where "ICANON = 0x2"
definition IEXTEN :: u32 where "IEXTEN = 0x8000"
definition ISIG :: u32 where "ISIG = 0x1"

text \<open>What a save meets: whether \<open>open\<close> and \<open>ftruncate\<close> succeed, how much \<open>write\<close> takes (\<open>None\<close>: -1), \<open>strerror(errno)\<close>.\<close>
record save_io =
  sv_open :: bool
  sv_trunc :: bool
  sv_write :: "nat \<Rightarrow> nat option"
  sv_err :: string

record kilo_env =
  kv_isatty :: bool
  kv_tcgetattr :: bool
  kv_tcsetattr :: bool
  kv_winsize :: "(int \<times> int) option"
  kv_fopen_err :: bool
  kv_clock :: "nat \<Rightarrow> int"
  kv_save :: "nat \<Rightarrow> save_io"

text \<open>The editor with the world around it; \<open>K_quit\<close> is the static \<open>quit_times\<close>.\<close>
record kilo =
  K_E :: editorConfig
  K_exiting :: bool
  K_quit :: nat
  K_in :: "char option list"
  K_out :: string
  K_files :: "string \<rightharpoonup> string"
  K_ticks :: nat
  K_saves :: nat
  K_term :: termios
  K_orig :: termios
  K_atexit :: nat

definition disableRawMode :: "kilo_env \<Rightarrow> kilo \<Rightarrow> kilo" where
  "disableRawMode v w =
     (if E_rawmode (K_E w)
      then w\<lparr>K_term := (if kv_tcsetattr v then K_orig w else K_term w), K_E := (K_E w)\<lparr>E_rawmode := False\<rparr>\<rparr>
      else w)"

definition editorAtExit :: "kilo_env \<Rightarrow> kilo \<Rightarrow> kilo" where
  "editorAtExit v w =
     (let w1 = disableRawMode v w in
      w1\<lparr>K_out := K_out w1 @ [c_esc] @ ''[H'' @ [c_esc] @ ''[2J'' @ ''Finished editing file '' @
            (case E_filename (K_E w1) of None \<Rightarrow> ''(null)'' | Some f \<Rightarrow> f) @ [c_nl]\<rparr>)"

definition raw_termios :: "termios \<Rightarrow> termios" where
  "raw_termios t =
     t\<lparr>c_iflag := c_iflag t AND NOT (BRKINT OR ICRNL OR INPCK OR ISTRIP OR IXON),
       c_oflag := c_oflag t AND NOT OPOST,
       c_cflag := c_cflag t OR CS8,
       c_lflag := c_lflag t AND NOT (ECHO OR ICANON OR IEXTEN OR ISIG),
       c_vmin := 0, c_vtime := 1\<rparr>"

definition enableRawMode :: "kilo_env \<Rightarrow> kilo \<Rightarrow> int \<times> kilo" where
  "enableRawMode v w =
     (if E_rawmode (K_E w) then (0, w)
      else if \<not> kv_isatty v then (- 1, w)
      else let w1 = w\<lparr>K_atexit := K_atexit w + 1\<rparr> in
        if \<not> kv_tcgetattr v then (- 1, w1)
        else let w2 = w1\<lparr>K_orig := K_term w1\<rparr> in
          if \<not> kv_tcsetattr v then (- 1, w2)
          else (0, w2\<lparr>K_term := raw_termios (K_orig w2), K_E := (K_E w2)\<lparr>E_rawmode := True\<rparr>\<rparr>))"

text \<open>The terminal's report, up to its \<open>R\<close>, at most \<open>n\<close> bytes.\<close>
fun read_report :: "nat \<Rightarrow> char option list \<Rightarrow> string \<times> char option list" where
  "read_report 0 r = ([], r)"
| "read_report (Suc n) [] = ([], [])"
| "read_report (Suc n) (None # r) = ([], r)"
| "read_report (Suc n) (Some c # r) =
     (if c = CHR ''R'' then ([], r) else (let (s, r2) = read_report n r in (c # s, r2)))"

text \<open>\<open>%d\<close> of \<open>sscanf\<close>.\<close>
definition scan_int :: "string \<Rightarrow> (int \<times> string) option" where
  "scan_int s =
     (let (neg, s2) = strtol_sign (dropWhile c_isspace s); ds = takeWhile (is_digit 10) s2 in
      if ds = [] then None
      else Some (if neg then - int (digits_value 10 ds) else int (digits_value 10 ds), dropWhile (is_digit 10) s2))"

definition getCursorPosition :: "kilo \<Rightarrow> (int \<times> int) option \<times> kilo" where
  "getCursorPosition w =
     (let (buf, r) = read_report 31 (K_in w);
          w1 = w\<lparr>K_out := K_out w @ [c_esc] @ ''[6n'', K_in := r\<rparr>;
          res = (if take 2 buf \<noteq> [c_esc, CHR ''[''] then None
                 else do { (rows, s) \<leftarrow> scan_int (c_str (drop 2 buf));
                           if take 1 s \<noteq> '';'' then None
                           else do { (cols, _) \<leftarrow> scan_int (drop 1 s); Some (rows, cols) } }) in
      (res, w1))"

text \<open>The answers to two queries, the second with the cursor in the corner.\<close>
definition query_window :: "kilo \<Rightarrow> (int \<times> int) option \<times> kilo" where
  "query_window w =
     (let (p, w1) = getCursorPosition w in
      case p of
        None \<Rightarrow> (None, w1)
      | Some (orow, ocol) \<Rightarrow>
          let (q, w2) = getCursorPosition (w1\<lparr>K_out := K_out w1 @ [c_esc] @ ''[999C'' @ [c_esc] @ ''[999B''\<rparr>) in
          case q of
            None \<Rightarrow> (None, w2)
          | Some rc \<Rightarrow> (Some rc, w2\<lparr>K_out := K_out w2 @
               snprintf 32 ([c_esc] @ ''['' @ show_int orow @ '';'' @ show_int ocol @ ''H'')\<rparr>))"

definition getWindowSize :: "kilo_env \<Rightarrow> kilo \<Rightarrow> (int \<times> int) option \<times> kilo" where
  "getWindowSize v w =
     (case kv_winsize v of
        None \<Rightarrow> query_window w
      | Some (rows, cols) \<Rightarrow> if cols = 0 then query_window w else (Some (rows, cols), w))"

section \<open>Editing\<close>

definition filerow :: "editorConfig \<Rightarrow> int" where "filerow E = E_rowoff E + E_cy E"
definition filecol :: "editorConfig \<Rightarrow> int" where "filecol E = E_coloff E + E_cx E"

text \<open>\<open>(r >= E.numrows) ? NULL : &E.row[r]\<close>, read.\<close>
definition row_at :: "editorConfig \<Rightarrow> int \<Rightarrow> erow option option" where
  "row_at E r =
     (if int (E_numrows E) \<le> r then Some None
      else if r < 0 then None
      else map_option Some (nth_opt (E_row E) (nat r)))"

text \<open>\<open>while (E.numrows <= filerow) editorInsertRow(E.numrows, "", 0)\<close>, \<open>n\<close> times.\<close>
fun insert_rows :: "nat \<Rightarrow> editorConfig \<Rightarrow> editorConfig option" where
  "insert_rows 0 E = Some E"
| "insert_rows (Suc n) E = do { E1 \<leftarrow> editorInsertRow (E_numrows E) [c_nul] 0 E; insert_rows n E1 }"

definition editorInsertChar :: "int \<Rightarrow> editorConfig \<Rightarrow> editorConfig option" where
  "editorInsertChar c E =
     do { row \<leftarrow> row_at E (filerow E);
          E1 \<leftarrow> (if row = None then insert_rows (nat (filerow E + 1 - int (E_numrows E))) E else Some E);
          E2 \<leftarrow> editorRowInsertChar (nat (filerow E)) (filecol E) (char_of_int c) E1;
          let E3 = (if E_cx E2 = E_screencols E2 - 1 then E2\<lparr>E_coloff := E_coloff E2 + 1\<rparr>
                    else E2\<lparr>E_cx := E_cx E2 + 1\<rparr>) in
          Some (E3\<lparr>E_dirty := E_dirty E3 + 1\<rparr>) }"

text \<open>The label \<open>fixcursor\<close>.\<close>
definition newline_cursor :: "editorConfig \<Rightarrow> editorConfig" where
  "newline_cursor E =
     (if E_cy E = E_screenrows E - 1 then E\<lparr>E_rowoff := E_rowoff E + 1\<rparr> else E\<lparr>E_cy := E_cy E + 1\<rparr>)
     \<lparr>E_cx := 0, E_coloff := 0\<rparr>"

definition editorInsertNewline :: "editorConfig \<Rightarrow> editorConfig option" where
  "editorInsertNewline E =
     do { r \<leftarrow> row_at E (filerow E);
          case r of
            None \<Rightarrow> if filerow E = int (E_numrows E)
                     then map_option newline_cursor (editorInsertRow (nat (filerow E)) [c_nul] 0 E)
                     else Some E
          | Some row \<Rightarrow>
              let fr = nat (filerow E);
                  fc = (if int (erow_size row) \<le> filecol E then int (erow_size row) else filecol E) in
              if fc = 0 then map_option newline_cursor (editorInsertRow fr [c_nul] 0 E)
              else if fc < 0 then None
              else do { E1 \<leftarrow> editorInsertRow (fr + 1) (drop (nat fc) (erow_chars row)) (erow_size row - nat fc) E;
                        r1 \<leftarrow> nth_opt (E_row E1) fr;
                        b \<leftarrow> store_at (nat fc) c_nul (erow_chars r1);
                        E2 \<leftarrow> editorUpdateRow fr (upd_row fr (\<lambda>x. x\<lparr>erow_chars := b, erow_size := nat fc\<rparr>) E1);
                        Some (newline_cursor E2) } }"

text \<open>Where column 0 is deleted the line goes behind the one above it; the cursor goes between them.\<close>
definition join_cursor :: "int \<Rightarrow> editorConfig \<Rightarrow> editorConfig" where
  "join_cursor fc E =
     (let E1 = (if E_cy E = 0 then E\<lparr>E_rowoff := E_rowoff E - 1\<rparr> else E\<lparr>E_cy := E_cy E - 1\<rparr>);
          E2 = E1\<lparr>E_cx := fc\<rparr> in
      if E_screencols E2 \<le> E_cx E2
      then let shift = (E_screencols E2 - E_cx E2) + 1 in
        E2\<lparr>E_cx := E_cx E2 - shift, E_coloff := E_coloff E2 + shift\<rparr>
      else E2)"

definition editorDelChar :: "editorConfig \<Rightarrow> editorConfig option" where
  "editorDelChar E =
     (let fr = filerow E; fc = filecol E in
      do { r \<leftarrow> row_at E fr;
           case r of
             None \<Rightarrow> Some E
           | Some row \<Rightarrow>
               if fc = 0 \<and> fr = 0 then Some E
               else if fc = 0
               then do { above \<leftarrow> nth_opt (E_row E) (nat (fr - 1));
                         E1 \<leftarrow> editorRowAppendString (nat (fr - 1)) (erow_chars row) (erow_size row) E;
                         let E3 = join_cursor (int (erow_size above)) (editorDelRow (nat fr) E1) in
                         Some (E3\<lparr>E_dirty := E_dirty E3 + 1\<rparr>) }
               else do { E1 \<leftarrow> editorRowDelChar (nat fr) (fc - 1) E;
                         let E2 = (if E_cx E1 = 0 \<and> E_coloff E1 \<noteq> 0 then E1\<lparr>E_coloff := E_coloff E1 - 1\<rparr>
                                   else E1\<lparr>E_cx := E_cx E1 - 1\<rparr>) in
                         do { E3 \<leftarrow> editorUpdateRow (nat fr) E2;
                              Some (E3\<lparr>E_dirty := E_dirty E3 + 1\<rparr>) } } })"

section \<open>Loading and saving\<close>

definition editorSetStatusMessage :: "kilo_env \<Rightarrow> string \<Rightarrow> kilo \<Rightarrow> kilo" where
  "editorSetStatusMessage v msg w =
     w\<lparr>K_E := (K_E w)\<lparr>E_statusmsg := snprintf 80 msg, E_statusmsg_time := kv_clock v (K_ticks w)\<rparr>,
       K_ticks := K_ticks w + 1\<rparr>"

text \<open>\<open>getline\<close>: the bytes up to and with the next newline, and those behind it.\<close>
definition getline :: "string \<Rightarrow> string \<times> string" where
  "getline s =
     (let a = takeWhile (\<lambda>c. c \<noteq> c_nl) s in
      if length a < length s then (a @ [c_nl], drop (length a + 1) s) else (a, []))"

text \<open>The row made of it: a last newline, or a last carriage return, is cut off.\<close>
definition strip_eol :: "string \<Rightarrow> string" where
  "strip_eol l = (if l \<noteq> [] \<and> (last l = c_nl \<or> last l = c_cr) then butlast l else l)"

lemma getline_shorter: "s \<noteq> [] \<Longrightarrow> length (snd (getline s)) < length s"
  by (auto simp: getline_def Let_def)

function load_rows :: "string \<Rightarrow> editorConfig \<Rightarrow> editorConfig option" where
  "load_rows s E =
     (if s = [] then Some E
      else let l = strip_eol (fst (getline s)) in
        case editorInsertRow (E_numrows E) (l @ [c_nul]) (length l) E of
          None \<Rightarrow> None
        | Some E1 \<Rightarrow> load_rows (snd (getline s)) E1)"
  by pat_completeness auto
termination
  by (relation "measure (\<lambda>(s, E). length s)") (use getline_shorter in auto)

declare load_rows.simps [simp del]

text \<open>The file is missing (1), cannot be opened for another reason (the process exits), or is read (0).\<close>
definition editorOpen :: "kilo_env \<Rightarrow> string \<Rightarrow> kilo \<Rightarrow> (int \<times> kilo) proc option" where
  "editorOpen v filename w =
     (let E1 = (K_E w)\<lparr>E_dirty := 0, E_filename := Some filename\<rparr> in
      if kv_fopen_err v then Some Exits
      else case K_files w filename of
          None \<Rightarrow> Some (Return (1, w\<lparr>K_E := E1\<rparr>))
        | Some s \<Rightarrow> do { E2 \<leftarrow> load_rows s E1;
                         Some (Return (0, w\<lparr>K_E := E2\<lparr>E_dirty := 0\<rparr>\<rparr>)) })"

text \<open>A file cut or filled up to \<open>n\<close> bytes, and its first bytes overwritten.\<close>
definition ftruncate :: "nat \<Rightarrow> string \<Rightarrow> string" where
  "ftruncate n s = take n s @ replicate (n - length s) c_nul"

definition overwrite :: "string \<Rightarrow> string \<Rightarrow> string" where
  "overwrite b s = b @ drop (length b) s"

definition file_bytes :: "(string \<rightharpoonup> string) \<Rightarrow> string \<Rightarrow> string" where
  "file_bytes files name = (case files name of None \<Rightarrow> [] | Some s \<Rightarrow> s)"

text \<open>What \<open>write\<close> has written.\<close>
definition written :: "save_io \<Rightarrow> string \<Rightarrow> string" where
  "written io buf = (case sv_write io (length buf) of None \<Rightarrow> [] | Some n \<Rightarrow> take n buf)"

definition put_file :: "string \<Rightarrow> string \<Rightarrow> kilo \<Rightarrow> kilo" where
  "put_file name s w = w\<lparr>K_files := (K_files w)(name \<mapsto> s)\<rparr>"

definition save_failed :: "kilo_env \<Rightarrow> save_io \<Rightarrow> kilo \<Rightarrow> int \<times> kilo" where
  "save_failed v io w = (1, editorSetStatusMessage v (''Can't save! I/O error: '' @ sv_err io) w)"

text \<open>With the file name and the text: \<open>open\<close> (which creates the file), \<open>ftruncate\<close>, \<open>write\<close>.\<close>
definition save_file :: "kilo_env \<Rightarrow> save_io \<Rightarrow> string \<Rightarrow> string \<Rightarrow> kilo \<Rightarrow> int \<times> kilo" where
  "save_file v io filename buf w =
     (let len = length buf; old = file_bytes (K_files w) filename in
      if \<not> sv_open io then save_failed v io w
      else if \<not> sv_trunc io then save_failed v io (put_file filename old w)
      else let w2 = put_file filename (overwrite (written io buf) (ftruncate len old)) w in
        if sv_write io len \<noteq> Some len then save_failed v io w2
        else (0, editorSetStatusMessage v (show_nat len @ '' bytes written on disk'')
                   (w2\<lparr>K_E := (K_E w2)\<lparr>E_dirty := 0\<rparr>\<rparr>)))"

definition editorSave :: "kilo_env \<Rightarrow> kilo \<Rightarrow> (int \<times> kilo) option" where
  "editorSave v w =
     do { buf \<leftarrow> editorRowsToString (take (E_numrows (K_E w)) (E_row (K_E w)));
          let io = kv_save v (K_saves w); w1 = w\<lparr>K_saves := K_saves w + 1\<rparr> in
          Some (case E_filename (K_E w) of
                  None \<Rightarrow> save_failed v io w1
                | Some filename \<Rightarrow> save_file v io filename buf w1) }"

section \<open>The screen\<close>

text \<open>The buffer is the bytes appended to it.\<close>
definition abAppend :: "string \<Rightarrow> string \<Rightarrow> int \<Rightarrow> string option" where
  "abAppend ab s len = (if 0 \<le> len \<and> nat len \<le> length s then Some (ab @ take (nat len) s) else None)"

definition KILO_VERSION :: string where "KILO_VERSION = ''0.0.1''"

definition welcome_text :: string where
  "welcome_text = snprintf 80 (''Kilo editor -- verison '' @ KILO_VERSION @ [c_esc] @ ''[0K'' @ [c_cr, c_nl])"

text \<open>The first line of an empty file; a negative \<open>padding\<close> is counted down for ever.\<close>
definition draw_welcome :: "int \<Rightarrow> string option" where
  "draw_welcome cols =
     (let d = cols - int (length welcome_text); padding = (if d < 0 then - ((- d) div 2) else d div 2) in
      if padding < 0 then None
      else Some ((if padding \<noteq> 0 then ''~'' else []) @ replicate (nat padding - 1) (CHR '' '') @ welcome_text))"

fun draw_cells :: "(char \<times> nat) list \<Rightarrow> int \<Rightarrow> string" where
  "draw_cells [] current_color = []"
| "draw_cells ((c, h) # xs) current_color =
     (if h = HL_NONPRINT
      then [c_esc] @ ''[7m'' @ [if int_of_char c \<le> 26 then char_of_int (64 + int_of_char c) else CHR ''?''] @
           [c_esc] @ ''[0m'' @ draw_cells xs current_color
      else if h = HL_NORMAL
      then (if current_color \<noteq> - 1 then [c_esc] @ ''[39m'' else []) @ [c] @ draw_cells xs (- 1)
      else let color = editorSyntaxToColor h in
        (if color \<noteq> current_color then snprintf 16 ([c_esc] @ ''['' @ show_int color @ ''m'') else []) @ [c] @
        draw_cells xs color)"

text \<open>The part of a row that fits, from column \<open>coloff\<close> on.\<close>
definition row_cells :: "editorConfig \<Rightarrow> erow \<Rightarrow> (char \<times> nat) list option" where
  "row_cells E r =
     (let len = int (erow_rsize r) - E_coloff E in
      if len \<le> 0 then Some []
      else let n = (if E_screencols E < len then E_screencols E else len); from = nat (E_coloff E) in
        if E_coloff E < 0 \<or> length (erow_hl r) < from + nat n \<or> length (erow_render r) < from + nat n then None
        else Some (zip (take (nat n) (drop from (erow_render r))) (take (nat n) (drop from (erow_hl r)))))"

definition draw_line :: "editorConfig \<Rightarrow> int \<Rightarrow> string option" where
  "draw_line E y =
     do { r \<leftarrow> row_at E (E_rowoff E + y);
          case r of
            None \<Rightarrow> if E_numrows E = 0 \<and> y = E_screenrows E div 3 then draw_welcome (E_screencols E)
                     else Some (''~'' @ [c_esc] @ ''[0K'' @ [c_cr, c_nl])
          | Some row \<Rightarrow>
              do { cells \<leftarrow> row_cells E row;
                   Some (draw_cells cells (- 1) @ [c_esc] @ ''[39m'' @ [c_esc] @ ''[0K'' @ [c_cr, c_nl]) } }"

fun draw_lines :: "editorConfig \<Rightarrow> nat \<Rightarrow> nat \<Rightarrow> string option" where
  "draw_lines E y 0 = Some []"
| "draw_lines E y (Suc n) = do { a \<leftarrow> draw_line E (int y); b \<leftarrow> draw_lines E (Suc y) n; Some (a @ b) }"

text \<open>The loop that fills the status line: \<open>n\<close> columns are left.\<close>
fun status_fill :: "nat \<Rightarrow> string \<Rightarrow> string" where
  "status_fill 0 rstatus = []"
| "status_fill (Suc n) rstatus = (if Suc n = length rstatus then rstatus else CHR '' '' # status_fill n rstatus)"

definition status_line :: "editorConfig \<Rightarrow> string option" where
  "status_line E =
     (let name = (case E_filename E of None \<Rightarrow> ''(null)'' | Some f \<Rightarrow> f);
          full = take 20 name @ '' - '' @ show_nat (E_numrows E) @ '' lines '' @
                 (if E_dirty E \<noteq> 0 then ''(modified)'' else []);
          status = snprintf 80 full;
          rstatus = snprintf 80 (show_int (filerow E + 1) @ ''/'' @ show_nat (E_numrows E));
          len = (if E_screencols E < int (length full) then E_screencols E else int (length full)) in
      do { a \<leftarrow> abAppend [] status len; Some (a @ status_fill (nat (E_screencols E - len)) rstatus) })"

text \<open>The column of the cursor, tabs counted; \<open>n\<close> characters from \<open>j\<close> on are to its left.\<close>
fun cursor_column :: "erow \<Rightarrow> nat \<Rightarrow> int \<Rightarrow> int \<Rightarrow> int option" where
  "cursor_column row 0 j cx = Some cx"
| "cursor_column row (Suc n) j cx =
     (if j < int (erow_size row)
      then if j < 0 then None
        else do { c \<leftarrow> nth_opt (erow_chars row) (nat j);
                  cursor_column row n (j + 1) ((if c = c_tab then cx + (7 - cx mod 8) else cx) + 1) }
      else cursor_column row n (j + 1) (cx + 1))"

definition screen_text :: "editorConfig \<Rightarrow> int \<Rightarrow> string option" where
  "screen_text E tnow =
     do { lines \<leftarrow> draw_lines E 0 (nat (E_screenrows E));
          status \<leftarrow> status_line E;
          let msg = E_statusmsg E; msglen = int (length msg) in
          do { m \<leftarrow> (if msg \<noteq> [] \<and> tnow - E_statusmsg_time E < 5
                     then abAppend [] msg (if msglen \<le> E_screencols E then msglen else E_screencols E) else Some []);
               row \<leftarrow> row_at E (filerow E);
               cx \<leftarrow> (case row of None \<Rightarrow> Some 1 | Some r \<Rightarrow> cursor_column r (nat (E_cx E)) (E_coloff E) 1);
               Some ([c_esc] @ ''[?25l'' @ [c_esc] @ ''[H'' @ lines @
                     [c_esc] @ ''[0K'' @ [c_esc] @ ''[7m'' @ status @ [c_esc] @ ''[0m'' @ [c_cr, c_nl] @
                     [c_esc] @ ''[0K'' @ m @
                     snprintf 32 ([c_esc] @ ''['' @ show_int (E_cy E + 1) @ '';'' @ show_int cx @ ''H'') @
                     [c_esc] @ ''[?25h'') } }"

text \<open>\<open>time\<close> is called only when there is a message.\<close>
definition editorRefreshScreen :: "kilo_env \<Rightarrow> kilo \<Rightarrow> kilo option" where
  "editorRefreshScreen v w =
     do { t \<leftarrow> screen_text (K_E w) (kv_clock v (K_ticks w));
          Some (w\<lparr>K_out := K_out w @ t, K_ticks := K_ticks w + (if E_statusmsg (K_E w) \<noteq> [] then 1 else 0)\<rparr>) }"

section \<open>Searching\<close>

definition KILO_QUERY_LEN :: nat where "KILO_QUERY_LEN = 256"

record find_state =
  fi_query :: string
  fi_last :: int
  fi_next :: int
  fi_saved :: "(nat \<times> nat list) option"

definition FIND_RESTORE_HL :: "find_state \<Rightarrow> editorConfig \<Rightarrow> find_state \<times> editorConfig" where
  "FIND_RESTORE_HL f E =
     (case fi_saved f of
        None \<Rightarrow> (f, E)
      | Some (k, hl) \<Rightarrow> (f\<lparr>fi_saved := None\<rparr>, upd_row k (\<lambda>r. r\<lparr>erow_hl := hl\<rparr>) E))"

text \<open>The rows are tried in turn, \<open>n\<close> of them are left: the row and the offset of the match.\<close>
fun find_row :: "editorConfig \<Rightarrow> string \<Rightarrow> int \<Rightarrow> int \<Rightarrow> nat \<Rightarrow> (nat \<times> nat) option option" where
  "find_row E q step current 0 = Some None"
| "find_row E q step current (Suc n) =
     (let c1 = current + step;
          c2 = (if c1 = - 1 then int (E_numrows E) - 1 else if c1 = int (E_numrows E) then 0 else c1) in
      if c2 < 0 then None
      else do { r \<leftarrow> nth_opt (E_row E) (nat c2);
                case strstr (c_str (erow_render r)) q of
                  Some off \<Rightarrow> Some (Some (nat c2, off))
                | None \<Rightarrow> find_row E q step c2 n })"

text \<open>The match is marked and the cursor set on it.\<close>
definition find_show :: "nat \<Rightarrow> nat \<Rightarrow> find_state \<Rightarrow> editorConfig \<Rightarrow> (find_state \<times> editorConfig) option" where
  "find_show k off f E =
     do { row \<leftarrow> nth_opt (E_row E) k;
          (f1, E1) \<leftarrow> (if erow_hl row \<noteq> []
             then do { h \<leftarrow> memset off HL_MATCH (length (fi_query f)) (erow_hl row);
                       Some (f\<lparr>fi_saved := Some (k, erow_hl row)\<rparr>, upd_row k (\<lambda>r. r\<lparr>erow_hl := h\<rparr>) E) }
             else Some (f, E));
          let diff = (if E_screencols E1 < int off then int off - E_screencols E1 else 0) in
          Some (f1\<lparr>fi_last := int k\<rparr>,
                E1\<lparr>E_cy := 0, E_cx := int off - diff, E_rowoff := int k, E_coloff := diff\<rparr>) }"

definition find_search :: "find_state \<Rightarrow> editorConfig \<Rightarrow> (find_state \<times> editorConfig) option" where
  "find_search f0 E =
     (let f = (if fi_last f0 = - 1 then f0\<lparr>fi_next := 1\<rparr> else f0) in
      if fi_next f = 0 then Some (f, E)
      else do { m \<leftarrow> find_row E (fi_query f) (fi_next f) (fi_last f) (E_numrows E);
                let (f1, E1) = FIND_RESTORE_HL (f\<lparr>fi_next := 0\<rparr>) E in
                case m of None \<Rightarrow> Some (f1, E1) | Some (k, off) \<Rightarrow> find_show k off f1 E1 })"

text \<open>
  What a key does to the query; \<open>None\<close>: \<open>isprint\<close> is asked about a number that is no character (the keys Home, End, Page Up, Page
  Down).
\<close>
definition find_key :: "int \<Rightarrow> find_state \<Rightarrow> find_state option" where
  "find_key c f =
     (if c = DEL_KEY \<or> c = CTRL_H_KEY \<or> c = BACKSPACE_KEY then Some (f\<lparr>fi_query := butlast (fi_query f), fi_last := - 1\<rparr>)
      else if c = ARROW_RIGHT \<or> c = ARROW_DOWN then Some (f\<lparr>fi_next := 1\<rparr>)
      else if c = ARROW_LEFT \<or> c = ARROW_UP then Some (f\<lparr>fi_next := - 1\<rparr>)
      else if 256 \<le> c then None
      else if c_isprint (char_of_int c) \<and> length (fi_query f) < KILO_QUERY_LEN
      then Some (f\<lparr>fi_query := fi_query f @ [char_of_int c], fi_last := - 1\<rparr>)
      else Some f)"

lemma readkey_esc_rest: "length (snd (readkey_esc r)) \<le> length r"
proof (induction r rule: readkey_esc.induct)
  case (5 a b r)
  show ?case
  proof (cases "a = CHR ''['' \<and> is_digit 10 b")
    case True
    then show ?thesis using 5(1) by (auto split: list.split option.split simp: le_SucI)
  next
    case False
    then show ?thesis using 5(2-4) by (simp add: le_SucI)
  qed
qed simp_all

lemma editorReadKey_shorter:
  assumes "editorReadKey inp = Some (c, r)"
  shows "length r < length inp"
proof -
  obtain x y where xy: "dropWhile (\<lambda>x. x = None) inp = Some x # y"
      "(c, r) = (if int_of_char x = ESC_KEY then readkey_esc y else (int_of_char x, y))"
    using assms by (auto simp: editorReadKey_def split: list.splits option.splits)
  have "length (Some x # y) \<le> length inp"
    using length_dropWhile_le [of "\<lambda>x. x = None" inp] by (simp only: xy(1))
  moreover have "length r \<le> length y"
    using xy(2) readkey_esc_rest [of y] by (metis order_refl snd_conv)
  ultimately show ?thesis by simp
qed

lemma editorRefreshScreen_in: "editorRefreshScreen v w = Some w1 \<Longrightarrow> K_in w1 = K_in w"
  by (auto simp: editorRefreshScreen_def bind_eq_Some_conv)

text \<open>The prompt and the key of one turn.\<close>
definition find_prompt :: "kilo_env \<Rightarrow> find_state \<Rightarrow> kilo \<Rightarrow> (int \<times> kilo) option" where
  "find_prompt v f w =
     do { w1 \<leftarrow> editorRefreshScreen v
            (editorSetStatusMessage v (''Search: '' @ fi_query f @ '' (Use ESC/Arrows/Enter)'') w);
          (c, r) \<leftarrow> editorReadKey (K_in w1);
          Some (c, w1\<lparr>K_in := r\<rparr>) }"

lemma find_prompt_shorter: "find_prompt v f w = Some (c, w1) \<Longrightarrow> length (K_in w1) < length (K_in w)"
  by (auto simp: find_prompt_def bind_eq_Some_conv editorSetStatusMessage_def
        dest!: editorRefreshScreen_in editorReadKey_shorter)

text \<open>\<open>E0\<close> is the state in which the search began, with the cursor to go back to.\<close>
function editorFind_loop :: "kilo_env \<Rightarrow> editorConfig \<Rightarrow> find_state \<Rightarrow> kilo \<Rightarrow> kilo option" where
  "editorFind_loop v E0 f w =
     (case find_prompt v f w of
        None \<Rightarrow> None
      | Some (c, w1) \<Rightarrow>
          if c = ESC_KEY \<or> c = ENTER_KEY
          then let E1 = (if c = ESC_KEY
                         then (K_E w1)\<lparr>E_cx := E_cx E0, E_cy := E_cy E0, E_coloff := E_coloff E0, E_rowoff := E_rowoff E0\<rparr>
                         else K_E w1) in
            Some (editorSetStatusMessage v [] (w1\<lparr>K_E := snd (FIND_RESTORE_HL f E1)\<rparr>))
          else case find_key c f of
              None \<Rightarrow> None
            | Some f1 \<Rightarrow>
                (case find_search f1 (K_E w1) of
                   None \<Rightarrow> None
                 | Some (f2, E2) \<Rightarrow> editorFind_loop v E0 f2 (w1\<lparr>K_E := E2\<rparr>)))"
  by pat_completeness auto
termination
  by (relation "measure (\<lambda>(v, E0, f, w). length (K_in w))") (auto dest: find_prompt_shorter)

declare editorFind_loop.simps [simp del]

definition editorFind :: "kilo_env \<Rightarrow> kilo \<Rightarrow> kilo option" where
  "editorFind v w = editorFind_loop v (K_E w) \<lparr>fi_query = [], fi_last = - 1, fi_next = 0, fi_saved = None\<rparr> w"

section \<open>Events\<close>

text \<open>Cursor left of the last column of the row the cursor is in.\<close>
definition fix_cursor :: "editorConfig \<Rightarrow> editorConfig option" where
  "fix_cursor E =
     do { row \<leftarrow> row_at E (filerow E);
          let rowlen = (case row of None \<Rightarrow> 0 | Some r \<Rightarrow> int (erow_size r)) in
          if rowlen < filecol E
          then let cx = E_cx E - (filecol E - rowlen) in
            Some (if cx < 0 then E\<lparr>E_coloff := E_coloff E + cx, E_cx := 0\<rparr> else E\<lparr>E_cx := cx\<rparr>)
          else Some E }"

definition move_left :: "editorConfig \<Rightarrow> editorConfig option" where
  "move_left E =
     (if E_cx E = 0
      then if E_coloff E \<noteq> 0 then Some (E\<lparr>E_coloff := E_coloff E - 1\<rparr>)
        else if 0 < filerow E
        then do { r \<leftarrow> nth_opt (E_row E) (nat (filerow E - 1));
                  let sz = int (erow_size r); E1 = E\<lparr>E_cy := E_cy E - 1\<rparr> in
                  Some (if E_screencols E - 1 < sz
                        then E1\<lparr>E_coloff := sz - E_screencols E + 1, E_cx := E_screencols E - 1\<rparr>
                        else E1\<lparr>E_cx := sz\<rparr>) }
        else Some E
      else Some (E\<lparr>E_cx := E_cx E - 1\<rparr>))"

definition move_right :: "editorConfig \<Rightarrow> editorConfig option" where
  "move_right E =
     do { row \<leftarrow> row_at E (filerow E);
          case row of
            None \<Rightarrow> Some E
          | Some r \<Rightarrow>
              if filecol E < int (erow_size r)
              then Some (if E_cx E = E_screencols E - 1 then E\<lparr>E_coloff := E_coloff E + 1\<rparr> else E\<lparr>E_cx := E_cx E + 1\<rparr>)
              else if filecol E = int (erow_size r)
              then let E1 = E\<lparr>E_cx := 0, E_coloff := 0\<rparr> in
                Some (if E_cy E1 = E_screenrows E1 - 1 then E1\<lparr>E_rowoff := E_rowoff E1 + 1\<rparr> else E1\<lparr>E_cy := E_cy E1 + 1\<rparr>)
              else Some E }"

definition move_up :: "editorConfig \<Rightarrow> editorConfig" where
  "move_up E =
     (if E_cy E = 0 then if E_rowoff E \<noteq> 0 then E\<lparr>E_rowoff := E_rowoff E - 1\<rparr> else E
      else E\<lparr>E_cy := E_cy E - 1\<rparr>)"

definition move_down :: "editorConfig \<Rightarrow> editorConfig" where
  "move_down E =
     (if filerow E < int (E_numrows E)
      then if E_cy E = E_screenrows E - 1 then E\<lparr>E_rowoff := E_rowoff E + 1\<rparr> else E\<lparr>E_cy := E_cy E + 1\<rparr>
      else E)"

definition editorMoveCursor :: "int \<Rightarrow> editorConfig \<Rightarrow> editorConfig option" where
  "editorMoveCursor key E =
     do { E1 \<leftarrow> (if key = ARROW_LEFT then move_left E
                 else if key = ARROW_RIGHT then move_right E
                 else if key = ARROW_UP then Some (move_up E)
                 else if key = ARROW_DOWN then Some (move_down E)
                 else Some E);
          fix_cursor E1 }"

definition KILO_QUIT_TIMES :: nat where "KILO_QUIT_TIMES = 3"

fun move_times :: "int \<Rightarrow> nat \<Rightarrow> editorConfig \<Rightarrow> editorConfig option" where
  "move_times key 0 E = Some E"
| "move_times key (Suc n) E = do { E1 \<leftarrow> editorMoveCursor key E; move_times key n E1 }"

definition page_move :: "int \<Rightarrow> editorConfig \<Rightarrow> editorConfig option" where
  "page_move c E =
     (let E1 = (if c = PAGE_UP \<and> E_cy E \<noteq> 0 then E\<lparr>E_cy := 0\<rparr>
                else if c = PAGE_DOWN \<and> E_cy E \<noteq> E_screenrows E - 1 then E\<lparr>E_cy := E_screenrows E - 1\<rparr>
                else E) in
      if E_screenrows E1 < 0 then None
      else move_times (if c = PAGE_UP then ARROW_UP else ARROW_DOWN) (nat (E_screenrows E1)) E1)"

text \<open>The keys that act on the text and the cursor.\<close>
definition edit_command :: "int \<Rightarrow> editorConfig \<Rightarrow> editorConfig option" where
  "edit_command c E =
     (if c = ENTER_KEY then editorInsertNewline E
      else if c = CTRL_C_KEY then Some E
      else if c = BACKSPACE_KEY \<or> c = CTRL_H_KEY \<or> c = DEL_KEY then editorDelChar E
      else if c = PAGE_UP \<or> c = PAGE_DOWN then page_move c E
      else if c = ARROW_UP \<or> c = ARROW_DOWN \<or> c = ARROW_LEFT \<or> c = ARROW_RIGHT then editorMoveCursor c E
      else if c = CTRL_L_KEY then Some E
      else if c = ESC_KEY then Some E
      else editorInsertChar c E)"

text \<open>What \<open>editorProcessKeypress\<close> does with the key it has read.\<close>
definition process_key :: "kilo_env \<Rightarrow> int \<Rightarrow> kilo \<Rightarrow> kilo option" where
  "process_key v c w =
     (if c = CTRL_Q \<and> E_dirty (K_E w) \<noteq> 0 \<and> K_quit w \<noteq> 0
      then Some ((editorSetStatusMessage v (''WARNING!!! File has unsaved changes. '' @
             ''Press Ctrl-Q '' @ show_nat (K_quit w) @ '' more times to quit.'') w)\<lparr>K_quit := K_quit w - 1\<rparr>)
      else do { w1 \<leftarrow> (if c = CTRL_Q then Some (w\<lparr>K_exiting := True\<rparr>)
                       else if c = CTRL_S then map_option snd (editorSave v w)
                       else if c = CTRL_F_KEY then editorFind v w
                       else map_option (\<lambda>E. w\<lparr>K_E := E\<rparr>) (edit_command c (K_E w)));
                Some (w1\<lparr>K_quit := KILO_QUIT_TIMES\<rparr>) })"

definition editorProcessKeypress :: "kilo_env \<Rightarrow> kilo \<Rightarrow> kilo option" where
  "editorProcessKeypress v w =
     do { (c, r) \<leftarrow> editorReadKey (K_in w); process_key v c (w\<lparr>K_in := r\<rparr>) }"

definition editorFileWasModified :: "editorConfig \<Rightarrow> nat" where
  "editorFileWasModified E = E_dirty E"

text \<open>Where the size is not found the old one stays, and the editor is left at once.\<close>
definition initEditor :: "kilo_env \<Rightarrow> kilo \<Rightarrow> kilo" where
  "initEditor v w =
     (let E1 = (K_E w)\<lparr>E_cx := 0, E_cy := 0, E_rowoff := 0, E_coloff := 0, E_numrows := 0, E_row := [], E_dirty := 0,
                        E_filename := None, E_syntax := None\<rparr>;
          (p, w1) = getWindowSize v (w\<lparr>K_E := E1\<rparr>);
          w2 = (case p of
                  None \<Rightarrow> w1\<lparr>K_exiting := True\<rparr>
                | Some (rows, cols) \<Rightarrow> w1\<lparr>K_E := (K_E w1)\<lparr>E_screenrows := rows, E_screencols := cols\<rparr>\<rparr>) in
      w2\<lparr>K_E := (K_E w2)\<lparr>E_screenrows := E_screenrows (K_E w2) - 2\<rparr>\<rparr>)"

lemma save_file_in: "K_in (snd (save_file v io n b w)) = K_in w"
  by (simp add: save_file_def save_failed_def put_file_def editorSetStatusMessage_def Let_def)

lemma editorSave_in: "editorSave v w = Some (r, w1) \<Longrightarrow> K_in w1 = K_in w"
  using save_file_in [of v "kv_save v (K_saves w)"]
  by (auto simp: editorSave_def Let_def bind_eq_Some_conv save_failed_def editorSetStatusMessage_def
        split: option.splits) (metis kilo.select_convs(4) kilo.surjective kilo.update_convs(8) snd_conv)

lemma editorFind_loop_in: "editorFind_loop v E0 f w = Some w1 \<Longrightarrow> length (K_in w1) \<le> length (K_in w)"
proof (induction v E0 f w rule: editorFind_loop.induct)
  case (1 v E0 f w)
  from 1(2) obtain c wp where p: "find_prompt v f w = Some (c, wp)"
    by (subst (asm) editorFind_loop.simps) (auto split: option.splits)
  note shorter = find_prompt_shorter [OF p]
  show ?case
  proof (cases "c = ESC_KEY \<or> c = ENTER_KEY")
    case True
    then have "K_in w1 = K_in wp"
      using 1(2) p by (subst (asm) editorFind_loop.simps) (auto simp: editorSetStatusMessage_def Let_def)
    then show ?thesis using shorter by simp
  next
    case False
    then obtain f1 f2 E2 where "find_key c f = Some f1" "find_search f1 (K_E wp) = Some (f2, E2)"
        "editorFind_loop v E0 f2 (wp\<lparr>K_E := E2\<rparr>) = Some w1"
      using 1(2) p by (subst (asm) editorFind_loop.simps) (auto split: option.splits)
    then have "length (K_in w1) \<le> length (K_in wp)"
      using 1(1) [OF p refl False, of f1 "(f2, E2)" f2 E2] by simp
    then show ?thesis using shorter by simp
  qed
qed

lemma editorProcessKeypress_shorter:
  assumes "editorProcessKeypress v w = Some w1"
  shows "length (K_in w1) < length (K_in w)"
proof -
  obtain c r where cr: "editorReadKey (K_in w) = Some (c, r)" "process_key v c (w\<lparr>K_in := r\<rparr>) = Some w1"
    using assms by (auto simp: editorProcessKeypress_def bind_eq_Some_conv)
  have "length (K_in w1) \<le> length r"
    using cr(2) editorFind_loop_in
    by (fastforce simp: process_key_def editorFind_def editorSetStatusMessage_def bind_eq_Some_conv
          dest!: editorSave_in split: if_splits)
  then show ?thesis using editorReadKey_shorter [OF cr(1)] by simp
qed

function kilo_loop :: "kilo_env \<Rightarrow> kilo \<Rightarrow> kilo option" where
  "kilo_loop v w =
     (if K_exiting w then Some w
      else case editorRefreshScreen v w of
          None \<Rightarrow> None
        | Some w1 \<Rightarrow> (case editorProcessKeypress v w1 of None \<Rightarrow> None | Some w2 \<Rightarrow> kilo_loop v w2))"
  by pat_completeness auto
termination
  by (relation "measure (\<lambda>(v, w). length (K_in w))")
    (auto dest!: editorProcessKeypress_shorter editorRefreshScreen_in)

declare kilo_loop.simps [simp del]

definition kilo_main :: "kilo_env \<Rightarrow> string \<Rightarrow> kilo \<Rightarrow> kilo proc option" where
  "kilo_main v filename w =
     (let w1 = initEditor v w;
          w2 = w1\<lparr>K_E := editorSelectSyntaxHighlight filename (K_E w1)\<rparr> in
      do { p \<leftarrow> editorOpen v filename w2;
           case p of
             Exits \<Rightarrow> Some Exits
           | Return (_, w3) \<Rightarrow>
               let w4 = snd (enableRawMode v w3);
                   w5 = editorSetStatusMessage v ''HELP: Ctrl-S = save | Ctrl-Q = quit | Ctrl-F = find'' w4 in
               do { w6 \<leftarrow> kilo_loop v w5;
                    Some (Return ((editorAtExit v w6)\<lparr>K_exiting := False\<rparr>)) } })"

end
