(* ===== verification/KiloRender.thy ===== *)
theory KiloRender
  imports Kilo
begin

text \<open>
  How rows are rendered: the rendering loop of \<open>editorUpdateRow\<close> against a reference for the expansion of tabs, the column of the
  cursor on the screen, and the row invariant that the functions on rows keep.
\<close>

section \<open>Tabs\<close>

text \<open>The text from column \<open>col\<close> on: a tab goes to the next column that is 7 modulo 8.\<close>
fun expand_tabs :: "nat \<Rightarrow> string \<Rightarrow> string" where
  "expand_tabs col [] = []"
| "expand_tabs col (c # cs) =
     (if c = c_tab then let n = 8 - (col + 1) mod 8 in replicate n (CHR '' '') @ expand_tabs (col + n) cs
      else c # expand_tabs (col + 1) cs)"

abbreviation count_tabs :: "string \<Rightarrow> nat" where
  "count_tabs s \<equiv> length (filter (\<lambda>c. c = c_tab) s)"

lemma expand_tabs_append:
  "expand_tabs col (a @ b) = expand_tabs col a @ expand_tabs (col + length (expand_tabs col a)) b"
  by (induction a arbitrary: col) (auto simp: Let_def add.assoc)

lemma expand_tabs_length: "length (expand_tabs col s) \<le> length s + 7 * count_tabs s"
proof (induction s arbitrary: col)
  case (Cons c s)
  show ?case
  proof (cases "c = c_tab")
    case True
    have "8 - (col + 1) mod 8 \<le> 8" by simp
    then show ?thesis using Cons [of "col + (8 - (col + 1) mod 8)"] True by (simp add: Let_def)
  next
    case False
    then show ?thesis using Cons [of "Suc col"] by simp
  qed
qed simp

lemma expand_tabs_length_ge: "length s \<le> length (expand_tabs col s)"
proof (induction s arbitrary: col)
  case (Cons c s)
  have "(col + 1) mod 8 < 8" by simp
  then have "1 \<le> 8 - (col + 1) mod 8" by linarith
  then show ?case
    using Cons [of "Suc col"] Cons [of "col + (8 - (col + 1) mod 8)"] by (auto simp: Let_def)
qed simp

lemma expand_tabs_id: "c_tab \<notin> set s \<Longrightarrow> expand_tabs col s = s"
  by (induction s arbitrary: col) auto

text \<open>The loop fills up to the tab stop.\<close>
lemma pad_loop_eq:
  assumes "length acc + (7 - length acc mod 8) \<le> cap"
  shows "pad_loop cap acc = Some (acc @ replicate (7 - length acc mod 8) (CHR '' ''))"
  using assms
proof (induction cap acc rule: pad_loop.induct)
  case (1 cap acc)
  show ?case
  proof (cases "(length acc + 1) mod 8 = 0")
    case True
    then have "length acc mod 8 = 7" by presburger
    then show ?thesis using True by (simp add: pad_loop.simps)
  next
    case False
    define m where "m = length acc mod 8"
    have m: "m < 7" using False unfolding m_def by presburger
    then have next1: "length (acc @ [CHR '' '']) mod 8 = m + 1"
      using False unfolding m_def by simp presburger
    have cap: "length acc < cap" using 1(2) m unfolding m_def by linarith
    have "7 - m = Suc (6 - m)" using m by linarith
    then have rep: "CHR '' '' # replicate (6 - m) (CHR '' '') = replicate (7 - m) (CHR '' '')" by simp
    have "pad_loop cap (acc @ [CHR '' '']) = Some ((acc @ [CHR '' '']) @ replicate (7 - (m + 1)) (CHR '' ''))"
      using 1(1) [OF _ cap] False 1(2) next1 m unfolding m_def by simp
    then show ?thesis using False cap rep unfolding m_def [symmetric] by (simp add: pad_loop.simps [of cap acc])
  qed
qed

lemma render_loop_eq:
  "length acc + length s + 8 * count_tabs s \<le> cap \<Longrightarrow>
     render_loop cap s acc = Some (acc @ expand_tabs (length acc) s)"
proof (induction s arbitrary: acc)
  case (Cons c s)
  show ?case
  proof (cases "c = c_tab")
    case True
    define n where "n = 7 - (length acc + 1) mod 8"
    have n: "8 - (length acc + 1) mod 8 = Suc n" unfolding n_def by presburger
    have n7: "n \<le> 7" unfolding n_def by simp
    have pad: "pad_loop cap (acc @ [CHR '' '']) = Some ((acc @ [CHR '' '']) @ replicate n (CHR '' ''))"
      using pad_loop_eq [of "acc @ [CHR '' '']" cap] Cons(2) True unfolding n_def by simp
    have "render_loop cap s ((acc @ [CHR '' '']) @ replicate n (CHR '' ''))
        = Some (((acc @ [CHR '' '']) @ replicate n (CHR '' '')) @ expand_tabs (length acc + Suc n) s)"
      using Cons(1) [of "(acc @ [CHR '' '']) @ replicate n (CHR '' '')"] Cons(2) True n7 by simp
    moreover have "length acc < cap" using Cons(2) True by simp
    ultimately show ?thesis using True pad n by (simp add: render_put_def)
  next
    case False
    then show ?thesis using Cons(1) [of "acc @ [c]"] Cons(2) by (simp add: render_put_def)
  qed
qed simp

section \<open>Rows\<close>

text \<open>A row whose bytes are the text \<open>t\<close>, and one that is rendered as well.\<close>
definition chars_rep :: "string \<Rightarrow> erow \<Rightarrow> bool" where
  "chars_rep t r \<longleftrightarrow> erow_size r = length t \<and> take (length t + 1) (erow_chars r) = t @ [c_nul]"

definition rendered :: "string \<Rightarrow> erow \<Rightarrow> bool" where
  "rendered t r \<longleftrightarrow> erow_rsize r = length (expand_tabs 0 t) \<and> erow_render r = expand_tabs 0 t @ [c_nul] \<and>
     length (erow_hl r) = erow_rsize r"

definition row_rep :: "string \<Rightarrow> erow \<Rightarrow> bool" where
  "row_rep t r \<longleftrightarrow> chars_rep t r \<and> rendered t r"

lemma chars_repD:
  assumes "chars_rep t r"
  shows "erow_size r = length t" "length t < length (erow_chars r)" "take (length t) (erow_chars r) = t"
    "row_bytes r = Some t"
proof -
  show sz: "erow_size r = length t" using assms by (simp add: chars_rep_def)
  have tk: "take (length t + 1) (erow_chars r) = t @ [c_nul]" using assms by (simp add: chars_rep_def)
  then have "length (take (length t + 1) (erow_chars r)) = length t + 1" by simp
  then show len: "length t < length (erow_chars r)" by (simp add: min_def split: if_splits)
  have "take (length t) (take (length t + 1) (erow_chars r)) = take (length t) (t @ [c_nul])" using tk by simp
  then show "take (length t) (erow_chars r) = t" by (simp add: min_def)
  then show "row_bytes r = Some t" using sz len by (simp add: row_bytes_def)
qed

lemma chars_repI: "erow_size r = length t \<Longrightarrow> erow_chars r = t @ c_nul # rest \<Longrightarrow> chars_rep t r"
  by (simp add: chars_rep_def)

lemma chars_repE:
  assumes "chars_rep t r"
  obtains rest where "erow_chars r = t @ c_nul # rest"
proof
  show "erow_chars r = t @ c_nul # drop (length t + 1) (erow_chars r)"
    using assms append_take_drop_id [of "length t + 1" "erow_chars r"] by (simp add: chars_rep_def)
qed

lemma editorUpdateRow_eq:
  assumes "k < length (E_row E)" and "chars_rep t (E_row E ! k)"
  shows "editorUpdateRow k E =
    editorUpdateSyntax k
      (upd_row k (\<lambda>r. r\<lparr>erow_rsize := length (expand_tabs 0 t), erow_render := expand_tabs 0 t @ [c_nul]\<rparr>) E)"
proof -
  note cr = chars_repD [OF assms(2)]
  have "render_loop (length t + count_tabs t * 8 + 1) t [] = Some (expand_tabs 0 t)"
    using render_loop_eq [of "[]" t "length t + count_tabs t * 8 + 1"] by simp
  moreover have "length (expand_tabs 0 t) < length t + count_tabs t * 8 + 1"
    using expand_tabs_length [of 0 t] by linarith
  ultimately show ?thesis
    using assms(1) cr by (simp add: editorUpdateRow_def render_put_def Let_def)
qed

text \<open>
  C24. The rendering of a row is the reference expansion of its tabs, computed inside the array that the function has
  allocated for it; the highlighting is then updated.\<close>
theorem update_row_expands:
  assumes "k < length (E_row E)" and "chars_rep t (E_row E ! k)"
  shows "editorUpdateRow k E =
    editorUpdateSyntax k
      (upd_row k (\<lambda>r. r\<lparr>erow_rsize := length (expand_tabs 0 t), erow_render := expand_tabs 0 t @ [c_nul]\<rparr>) E)"
  by (rule editorUpdateRow_eq [OF assms])

lemma upd_row_simps [simp]:
  "E_row (upd_row k f E) = (E_row E)[k := f (E_row E ! k)]"
  "E_cx (upd_row k f E) = E_cx E" "E_cy (upd_row k f E) = E_cy E"
  "E_rowoff (upd_row k f E) = E_rowoff E" "E_coloff (upd_row k f E) = E_coloff E"
  "E_numrows (upd_row k f E) = E_numrows E" "E_dirty (upd_row k f E) = E_dirty E"
  "E_syntax (upd_row k f E) = E_syntax E" "E_screencols (upd_row k f E) = E_screencols E"
  "E_screenrows (upd_row k f E) = E_screenrows E" "E_filename (upd_row k f E) = E_filename E"
  by (simp_all add: upd_row_def)

lemma upd_row_upd_row: "k < length (E_row E) \<Longrightarrow> upd_row k f (upd_row k g E) = upd_row k (\<lambda>r. f (g r)) E"
  by (simp add: upd_row_def)

text \<open>Without a syntax every character is of the normal colour, and nothing else happens.\<close>
definition render_as :: "string \<Rightarrow> erow \<Rightarrow> erow" where
  "render_as t r = r\<lparr>erow_rsize := length (expand_tabs 0 t), erow_render := expand_tabs 0 t @ [c_nul],
                     erow_hl := replicate (length (expand_tabs 0 t)) HL_NORMAL\<rparr>"

lemma editorUpdateRow_plain:
  assumes "E_syntax E = None" and "k < length (E_row E)" and "chars_rep t (E_row E ! k)"
  shows "editorUpdateRow k E = Some (upd_row k (render_as t) E)"
proof -
  have "editorUpdateSyntax k F = Some (upd_row k (\<lambda>r. r\<lparr>erow_hl := replicate (erow_rsize (E_row F ! k)) HL_NORMAL\<rparr>) F)"
    if "E_syntax F = None" "k < length (E_row F)" for F
    using that by (subst editorUpdateSyntax.simps) (simp add: Let_def)
  then show ?thesis
    using assms by (simp add: editorUpdateRow_eq upd_row_upd_row) (simp add: upd_row_def render_as_def)
qed

lemma row_rep_render_as [simp]: "chars_rep t r \<Longrightarrow> row_rep t (render_as t r)"
  by (simp add: row_rep_def rendered_def chars_rep_def render_as_def)

lemma row_rep_chars: "row_rep t r \<Longrightarrow> chars_rep t r"
  by (simp add: row_rep_def)

section \<open>The cursor on the screen\<close>

lemma cursor_column_from:
  assumes "chars_rep t r" and "j + n \<le> length t"
  shows "cursor_column r n (int j) (1 + int col) =
    Some (1 + int (col + length (expand_tabs col (take n (drop j t)))))"
  using assms(2)
proof (induction n arbitrary: j col)
  case (Suc n)
  note cr = chars_repD [OF assms(1)]
  have j: "j < length t" using Suc(2) by simp
  have c: "erow_chars r ! j = t ! j"
    using cr(3) j by (metis nth_take)
  have split: "take (Suc n) (drop j t) = t ! j # take n (drop (Suc j) t)"
    using j by (simp add: Cons_nth_drop_Suc [symmetric])
  have unf: "cursor_column r (Suc n) (int j) (1 + int col) =
      cursor_column r n (int (Suc j)) ((if t ! j = c_tab then (1 + int col) + (7 - (1 + int col) mod 8) else 1 + int col) + 1)"
    using j c cr(1,2) by (simp add: add.commute)
  show ?case
  proof (cases "t ! j = c_tab")
    case True
    define m where "m = 8 - (col + 1) mod 8"
    have "int m = 8 - (1 + int col) mod 8"
      unfolding m_def by (simp add: of_nat_diff zmod_int add.commute)
    then have step: "(1 + int col) + (7 - (1 + int col) mod 8) + 1 = 1 + int (col + m)" by simp
    have "cursor_column r (Suc n) (int j) (1 + int col) = cursor_column r n (int (Suc j)) (1 + int (col + m))"
      unfolding unf by (simp only: True step simp_thms if_True)
    moreover have "expand_tabs col (take (Suc n) (drop j t))
        = replicate m (CHR '' '') @ expand_tabs (col + m) (take n (drop (Suc j) t))"
      unfolding split True by (simp add: m_def Let_def)
    ultimately show ?thesis
      using Suc(1) [of "Suc j" "col + m"] Suc(2) by simp
  next
    case False
    then show ?thesis
      using Suc(1) [of "Suc j" "Suc col"] Suc(2) unf split by (simp add: algebra_simps)
  qed
qed simp

end
