(* ===== verification/KiloOps.thy ===== *)
theory KiloOps
  imports KiloRender
begin

text \<open>
  The commands of src/kilo.c on the text and the cursor against an abstract text buffer: a list of lines and a position in
  it. The statements are about a file without syntax highlighting; \<open>KiloSyntax\<close> carries them over to the others.
\<close>

section \<open>The abstract buffer\<close>

text \<open>The lines, the row and the column of the cursor. The row may lie below the last line.\<close>
type_synonym buffer = "string list \<times> nat \<times> nat"

definition line_at :: "string list \<Rightarrow> nat \<Rightarrow> string" where
  "line_at ls r = (if r < length ls then ls ! r else [])"

definition buf_insert :: "char \<Rightarrow> buffer \<Rightarrow> buffer" where
  "buf_insert c b =
     (let (ls, r, k) = b; full = ls @ replicate (r + 1 - length ls) []; l = full ! r in
      (full[r := take k l @ c # drop k l], r, k + 1))"

definition buf_newline :: "buffer \<Rightarrow> buffer" where
  "buf_newline b =
     (let (ls, r, k) = b in
      if length ls < r then b
      else if r = length ls then (ls @ [[]], r + 1, 0)
      else (take r ls @ [take k (ls ! r), drop k (ls ! r)] @ drop (r + 1) ls, r + 1, 0))"

definition buf_delete :: "buffer \<Rightarrow> buffer" where
  "buf_delete b =
     (let (ls, r, k) = b in
      if length ls \<le> r \<or> (r = 0 \<and> k = 0) then b
      else if k = 0 then (take (r - 1) ls @ [ls ! (r - 1) @ ls ! r] @ drop (r + 1) ls, r - 1, length (ls ! (r - 1)))
      else (ls[r := take (k - 1) (ls ! r) @ drop k (ls ! r)], r, k - 1))"

definition buf_left :: "buffer \<Rightarrow> buffer" where
  "buf_left b =
     (let (ls, r, k) = b in
      if 0 < k then (ls, r, k - 1) else if 0 < r then (ls, r - 1, length (ls ! (r - 1))) else b)"

definition buf_right :: "buffer \<Rightarrow> buffer" where
  "buf_right b =
     (let (ls, r, k) = b in
      if length ls \<le> r then b else if k < length (ls ! r) then (ls, r, k + 1) else (ls, r + 1, 0))"

definition buf_up :: "buffer \<Rightarrow> buffer" where
  "buf_up b = (let (ls, r, k) = b in (ls, r - 1, min k (length (line_at ls (r - 1)))))"

definition buf_down :: "buffer \<Rightarrow> buffer" where
  "buf_down b =
     (let (ls, r, k) = b; r2 = (if r < length ls then r + 1 else r) in (ls, r2, min k (length (line_at ls r2))))"

definition buf_command :: "int \<Rightarrow> buffer \<Rightarrow> buffer" where
  "buf_command c b =
     (if c = ENTER_KEY then buf_newline b
      else if c = BACKSPACE_KEY \<or> c = CTRL_H_KEY \<or> c = DEL_KEY then buf_delete b
      else if c = ARROW_LEFT then buf_left b
      else if c = ARROW_RIGHT then buf_right b
      else if c = ARROW_UP then buf_up b
      else if c = ARROW_DOWN then buf_down b
      else if c = CTRL_C_KEY \<or> c = CTRL_L_KEY \<or> c = ESC_KEY then b
      else buf_insert (char_of_int c) b)"

section \<open>The editor represents a buffer\<close>

definition text_rep :: "string list \<Rightarrow> editorConfig \<Rightarrow> bool" where
  "text_rep ls E \<longleftrightarrow> E_numrows E = length (E_row E) \<and> list_all2 row_rep ls (E_row E)"

definition plain :: "editorConfig \<Rightarrow> bool" where
  "plain E \<longleftrightarrow> E_syntax E = None"

text \<open>The cursor in the text; its part on the screen is not negative.\<close>
definition cursor_rep :: "string list \<Rightarrow> nat \<Rightarrow> nat \<Rightarrow> editorConfig \<Rightarrow> bool" where
  "cursor_rep ls r k E \<longleftrightarrow>
     filerow E = int r \<and> filecol E = int k \<and> k \<le> length (line_at ls r) \<and>
     0 \<le> E_cx E \<and> 0 \<le> E_coloff E \<and> 0 \<le> E_cy E \<and> 0 \<le> E_rowoff E"

definition buf_rep :: "buffer \<Rightarrow> editorConfig \<Rightarrow> bool" where
  "buf_rep b E = (case b of (ls, r, k) \<Rightarrow> plain E \<and> text_rep ls E \<and> cursor_rep ls r k E)"

lemma text_rep_len: "text_rep ls E \<Longrightarrow> E_numrows E = length ls \<and> length (E_row E) = length ls"
  by (auto simp: text_rep_def dest: list_all2_lengthD)

lemma text_rep_nth: "text_rep ls E \<Longrightarrow> i < length ls \<Longrightarrow> row_rep (ls ! i) (E_row E ! i)"
  by (simp add: text_rep_def list_all2_nthD)

lemma text_rep_cong: "text_rep ls E \<Longrightarrow> E_row F = E_row E \<Longrightarrow> E_numrows F = E_numrows E \<Longrightarrow> text_rep ls F"
  by (simp add: text_rep_def)

text \<open>The row the cursor is in.\<close>
lemma row_at_rep:
  assumes "text_rep ls E"
  shows "row_at E (int r) = Some (if r < length ls then Some (E_row E ! r) else None)"
  using text_rep_len [OF assms] by (auto simp: row_at_def)

section \<open>Rows\<close>

text \<open>The fields that the functions on rows change.\<close>
definition set_buf :: "erow list \<Rightarrow> nat \<Rightarrow> editorConfig \<Rightarrow> editorConfig" where
  "set_buf rs d E = E\<lparr>E_row := rs, E_numrows := length rs, E_dirty := d\<rparr>"

lemma set_buf_simps [simp]:
  "E_row (set_buf rs d E) = rs" "E_numrows (set_buf rs d E) = length rs" "E_dirty (set_buf rs d E) = d"
  "E_cx (set_buf rs d E) = E_cx E" "E_cy (set_buf rs d E) = E_cy E"
  "E_rowoff (set_buf rs d E) = E_rowoff E" "E_coloff (set_buf rs d E) = E_coloff E"
  "E_syntax (set_buf rs d E) = E_syntax E" "E_filename (set_buf rs d E) = E_filename E"
  "E_screencols (set_buf rs d E) = E_screencols E" "E_screenrows (set_buf rs d E) = E_screenrows E"
  "filerow (set_buf rs d E) = filerow E" "filecol (set_buf rs d E) = filecol E"
  "set_buf rs d (set_buf rs2 d2 E) = set_buf rs d E"
  by (simp_all add: set_buf_def filerow_def filecol_def)

lemma text_rep_set_buf [simp]: "text_rep ls (set_buf rs d E) \<longleftrightarrow> list_all2 row_rep ls rs"
  by (simp add: text_rep_def)

lemma row_rep_idx [simp]: "row_rep t (r\<lparr>erow_idx := i\<rparr>) \<longleftrightarrow> row_rep t r"
  by (simp add: row_rep_def chars_rep_def rendered_def)

lemma list_all2_row_shift [simp]:
  "list_all2 row_rep ls (map (\<lambda>r. r\<lparr>erow_idx := f r\<rparr>) rs) = list_all2 row_rep ls rs"
  by (simp add: list_all2_map2)

lemma editorInsertRow_rep:
  assumes E: "plain E" "text_rep ls E" and at: "at \<le> length ls" and s: "take (length t + 1) s = t @ [c_nul]"
  obtains rs where "editorInsertRow at s (length t) E = Some (set_buf rs (E_dirty E + 1) E)"
    and "list_all2 row_rep (take at ls @ t # drop at ls) rs"
proof -
  note len = text_rep_len [OF E(2)]
  define new where "new = \<lparr>erow_idx = at, erow_size = length t, erow_rsize = 0, erow_chars = t @ [c_nul],
      erow_render = [], erow_hl = [], erow_hl_oc = False\<rparr>"
  define below where "below = map (\<lambda>r. r\<lparr>erow_idx := erow_idx r + 1\<rparr>) (drop at (E_row E))"
  define F where "F = E\<lparr>E_row := take at (E_row E) @ new # below\<rparr>"
  have new: "chars_rep t new" by (simp add: new_def chars_rep_def)
  have F: "E_syntax F = None" "at < length (E_row F)" "E_row F ! at = new"
    using E(1) at len by (simp_all add: F_def plain_def nth_append)
  have "length (take (length t + 1) s) = length t + 1" using s by simp
  then have "length t + 1 \<le> length s" by simp
  moreover have "(if at \<noteq> E_numrows E then below else []) = below"
    using at len by (simp add: below_def)
  ultimately have "editorInsertRow at s (length t) E =
      do { E1 \<leftarrow> editorUpdateRow at F; Some (E1\<lparr>E_numrows := E_numrows E1 + 1, E_dirty := E_dirty E1 + 1\<rparr>) }"
    using at len s
    by (simp add: editorInsertRow_def F_def new_def below_def Let_def del: list_all2_row_shift cong: if_cong)
  also have "\<dots> = Some ((upd_row at (render_as t) F)\<lparr>E_numrows := E_numrows E + 1, E_dirty := E_dirty E + 1\<rparr>)"
    using editorUpdateRow_plain [OF F(1,2)] new F(3) by (simp add: F_def)
  also have "\<dots> = Some (set_buf (take at (E_row E) @ render_as t new # below) (E_dirty E + 1) E)"
    using at len F by (simp add: set_buf_def upd_row_def F_def list_update_append below_def)
  finally show thesis
    by (rule that) (use E(2) new in \<open>auto simp: text_rep_def below_def intro!: list_all2_appendI\<close>)
qed

text \<open>New contents for a row.\<close>
lemma set_row_rep:
  assumes E: "plain E" "text_rep ls E" and k: "k < length ls"
    and t: "chars_rep t ((E_row E ! k)\<lparr>erow_chars := b, erow_size := n\<rparr>)"
  obtains rs where "editorUpdateRow k (upd_row k (\<lambda>r. r\<lparr>erow_chars := b, erow_size := n\<rparr>) E) = Some (set_buf rs (E_dirty E) E)"
    and "list_all2 row_rep (ls[k := t]) rs"
proof -
  note len = text_rep_len [OF E(2)]
  define F where "F = upd_row k (\<lambda>r. r\<lparr>erow_chars := b, erow_size := n\<rparr>) E"
  define r where "r = (E_row E ! k)\<lparr>erow_chars := b, erow_size := n\<rparr>"
  have "editorUpdateRow k F = Some (upd_row k (render_as t) F)"
    using E(1) k len t by (intro editorUpdateRow_plain) (simp_all add: F_def plain_def)
  moreover have "upd_row k (render_as t) F = set_buf ((E_row E)[k := render_as t r]) (E_dirty E) E"
    using k len by (simp add: F_def upd_row_def set_buf_def r_def)
  moreover have "list_all2 row_rep (ls[k := t]) ((E_row E)[k := render_as t r])"
    using E(2) t by (simp add: text_rep_def r_def list_all2_update_cong)
  ultimately show thesis using that unfolding F_def by simp
qed

lemma realloc_chars:
  assumes "chars_rep t r" and "length t < n"
  obtains y where "realloc n (erow_chars r) = t @ c_nul # y" "length y = n - length t - 1"
proof -
  obtain rest where rest: "erow_chars r = t @ c_nul # rest" using assms(1) by (rule chars_repE)
  define y where "y = take (n - length t - 1) rest @ replicate (n - length (erow_chars r)) c_nul"
  have "realloc n (erow_chars r) = t @ c_nul # y"
    using assms(2) by (simp add: realloc_def rest y_def take_Cons')
  moreover have "length y = n - length t - 1" using assms(2) by (simp add: y_def rest)
  ultimately show thesis by (rule that)
qed

text \<open>A character at \<open>at\<close>, behind as many spaces as are missing.\<close>
definition put_char :: "nat \<Rightarrow> char \<Rightarrow> string \<Rightarrow> string" where
  "put_char at c t = take at (t @ replicate (at - length t) (CHR '' '')) @ c # drop at t"

lemma editorRowInsertChar_rep:
  assumes E: "plain E" "text_rep ls E" and k: "k < length ls"
  obtains rs where "editorRowInsertChar k (int at) c E = Some (set_buf rs (E_dirty E + 1) E)"
    and "list_all2 row_rep (ls[k := put_char at c (ls ! k)]) rs"
proof -
  note result = that
  note len = text_rep_len [OF E(2)]
  define row where "row = E_row E ! k"
  define t where "t = ls ! k"
  have cr: "chars_rep t row" using text_rep_nth [OF E(2) k] by (simp add: row_def t_def row_rep_chars)
  have nth: "nth_opt (E_row E) k = Some row" using k len by (simp add: row_def)
  note sz = chars_repD(1) [OF cr]
  have final: thesis
    if n: "n = length (put_char at c t)"
      and b: "editorRowInsertChar k (int at) c E =
        do { E1 \<leftarrow> editorUpdateRow k (upd_row k (\<lambda>r. r\<lparr>erow_chars := b, erow_size := n\<rparr>) E);
             Some (E1\<lparr>E_dirty := E_dirty E1 + 1\<rparr>) }"
      and bb: "b = put_char at c t @ [c_nul]" for b n
  proof -
    have "chars_rep (put_char at c t) ((E_row E ! k)\<lparr>erow_chars := b, erow_size := n\<rparr>)"
      using n bb by (simp add: chars_rep_def)
    then obtain rs where rs: "editorUpdateRow k (upd_row k (\<lambda>r. r\<lparr>erow_chars := b, erow_size := n\<rparr>) E) = Some (set_buf rs (E_dirty E) E)"
        "list_all2 row_rep (ls[k := put_char at c t]) rs"
      using set_row_rep [OF E k] by blast
    show thesis
      by (rule result [of rs]) (use rs b in \<open>simp_all add: t_def set_buf_def\<close>)
  qed
  show thesis
  proof (cases "length t < at")
    case True
    define p where "p = at - length t"
    have at: "at = length t + p" "0 < p" using True by (simp_all add: p_def)
    obtain y where y: "realloc (length t + p + 2) (erow_chars row) = t @ c_nul # y" "length y = p + 1"
      using realloc_chars [OF cr, of "length t + p + 2"] at by auto
    define b where "b = put_char at c t @ [c_nul]"
    have m: "memset (length t) (CHR '' '') p (t @ c_nul # y) = Some (t @ replicate p (CHR '' '') @ drop (p - 1) y)"
      using y(2) at by (auto simp: memset_def drop_Cons')
    have d: "length (drop (p - 1) y) = 2" using y(2) at by simp
    then obtain u v where uv: "drop (p - 1) y = [u, v]"
      by (auto simp: numeral_2_eq_2 length_Suc_conv simp del: length_drop)
    have st: "store_at (length t + p + 1) c_nul (t @ replicate p (CHR '' '') @ [u, v])
        = Some (t @ replicate p (CHR '' '') @ [u, c_nul])"
      by (simp add: store_at_def list_update_append)
    have st2: "store_at at c (t @ replicate p (CHR '' '') @ [u, c_nul]) = Some b"
      using at by (simp add: store_at_def list_update_append b_def put_char_def)
    show thesis
      by (rule final [of "length t + p + 1" b])
        (use True nth sz y(1) m uv st st2 at in \<open>simp_all add: nat_int_add editorRowInsertChar_def Let_def put_char_def b_def p_def [symmetric]\<close>)
  next
    case False
    obtain y where y: "realloc (length t + 2) (erow_chars row) = t @ c_nul # y" "length y = 1"
      using realloc_chars [OF cr, of "length t + 2"] by auto
    define b where "b = put_char at c t @ [c_nul]"
    define b0 where "b0 = t @ c_nul # y"
    have b0: "length b0 = length t + 2" using y(2) by (simp add: b0_def)
    have m: "memmove (at + 1) at (length t - at + 1) b0 = Some (take (at + 1) b0 @ drop at t @ [c_nul])"
      using b0 False by (simp add: memmove_def) (simp add: b0_def)
    have tk: "take (at + 1) b0 = take at t @ [b0 ! at]"
      using False b0 by (simp add: take_Suc_conv_app_nth) (simp add: b0_def)
    have st: "store_at at c (take (at + 1) b0 @ drop at t @ [c_nul]) = Some b"
      using False unfolding tk by (simp add: store_at_def list_update_append b_def put_char_def)
    show thesis
      by (rule final [of "length t + 1" b])
        (use False nth sz y(1) m st in \<open>simp_all add: editorRowInsertChar_def Let_def put_char_def b_def b0_def\<close>)
  qed
qed

lemma editorRowAppendString_rep:
  assumes E: "plain E" "text_rep ls E" and k: "k < length ls" and s: "take (length u) s = u"
  obtains rs where "editorRowAppendString k s (length u) E = Some (set_buf rs (E_dirty E + 1) E)"
    and "list_all2 row_rep (ls[k := ls ! k @ u]) rs"
proof -
  note len = text_rep_len [OF E(2)]
  define row where "row = E_row E ! k"
  define t where "t = ls ! k"
  have cr: "chars_rep t row" using text_rep_nth [OF E(2) k] by (simp add: row_def t_def row_rep_chars)
  have nth: "nth_opt (E_row E) k = Some row" using k len by (simp add: row_def)
  obtain y where y: "realloc (length t + length u + 1) (erow_chars row) = t @ c_nul # y" "length y = length u"
    using realloc_chars [OF cr, of "length t + length u + 1"] by auto
  have "length (take (length u) s) = length u" using s by simp
  then have "length u \<le> length s" by simp
  then have m: "memcpy (length t) s (length u) (t @ c_nul # y) = Some (t @ u @ drop (length u) (c_nul # y))"
    using s y(2) by (simp add: memcpy_def)
  have "length (drop (length u) (c_nul # y)) = 1" using y(2) by simp
  then obtain z where z: "drop (length u) (c_nul # y) = [z]"
    by (auto simp: length_Suc_conv simp del: length_drop)
  have st: "store_at (length t + length u) c_nul (t @ u @ [z]) = Some (t @ u @ [c_nul])"
    by (simp add: store_at_def list_update_append)
  have "chars_rep (t @ u) ((E_row E ! k)\<lparr>erow_chars := t @ u @ [c_nul], erow_size := length t + length u\<rparr>)"
    by (simp add: chars_rep_def)
  then obtain rs where rs: "editorUpdateRow k (upd_row k (\<lambda>r. r\<lparr>erow_chars := t @ u @ [c_nul], erow_size := length t + length u\<rparr>) E)
        = Some (set_buf rs (E_dirty E) E)" "list_all2 row_rep (ls[k := t @ u]) rs"
    using set_row_rep [OF E k] by blast
  show thesis
    by (rule that [of rs])
      (use nth chars_repD(1) [OF cr] y(1) m z st rs in
        \<open>simp_all add: editorRowAppendString_def Let_def t_def set_buf_def\<close>)
qed

text \<open>The row that \<open>editorRowDelChar\<close> leaves is right but for its rendering.\<close>
lemma editorRowDelChar_rep:
  assumes E: "plain E" "text_rep ls E" and k: "k < length ls" and at: "at < length (ls ! k)"
  obtains r where "editorRowDelChar k (int at) E = Some (set_buf ((E_row E)[k := r]) (E_dirty E + 1) E)"
    and "chars_rep (take at (ls ! k) @ drop (at + 1) (ls ! k)) r"
proof -
  note len = text_rep_len [OF E(2)]
  define row where "row = E_row E ! k"
  define t where "t = ls ! k"
  define t2 where "t2 = take at t @ drop (at + 1) t"
  have cr: "chars_rep t row" using text_rep_nth [OF E(2) k] by (simp add: row_def t_def row_rep_chars)
  then obtain rest where rest: "erow_chars row = t @ c_nul # rest" by (rule chars_repE)
  define b where "b = t2 @ c_nul # c_nul # rest"
  define r1 where "r1 = row\<lparr>erow_chars := b\<rparr>"
  have m: "memmove at (at + 1) (length t - at) (erow_chars row) = Some b"
    using at by (simp add: memmove_def rest b_def t2_def t_def)
  have "length t = Suc (length t2)" using at by (simp add: t2_def t_def)
  then have c1: "chars_rep (t2 @ [c_nul]) r1"
    using chars_repD(1) [OF cr] by (simp add: chars_rep_def r1_def b_def)
  have "editorUpdateRow k (upd_row k (\<lambda>r. r\<lparr>erow_chars := b\<rparr>) E)
      = Some (upd_row k (render_as (t2 @ [c_nul])) (upd_row k (\<lambda>r. r\<lparr>erow_chars := b\<rparr>) E))"
    using E(1) k len c1 by (intro editorUpdateRow_plain) (simp_all add: plain_def r1_def row_def)
  then have up: "editorUpdateRow k (upd_row k (\<lambda>r. r\<lparr>erow_chars := b\<rparr>) E)
      = Some (upd_row k (\<lambda>r. render_as (t2 @ [c_nul]) (r\<lparr>erow_chars := b\<rparr>)) E)"
    using k len by (simp add: upd_row_upd_row)
  define r2 where "r2 = (render_as (t2 @ [c_nul]) r1)\<lparr>erow_size := erow_size row - 1\<rparr>"
  have "chars_rep t2 r2"
    using \<open>length t = Suc (length t2)\<close> chars_repD(1) [OF cr] by (simp add: chars_rep_def r2_def render_as_def r1_def b_def)
  moreover have "editorRowDelChar k (int at) E = Some (set_buf ((E_row E)[k := r2]) (E_dirty E + 1) E)"
  proof -
    have "nth_opt (E_row E) k = Some row" "\<not> int (erow_size row) \<le> int at"
      using k len at chars_repD(1) [OF cr] by (simp_all add: row_def t_def)
    then show ?thesis
      using m up chars_repD(1) [OF cr] k len
      by (simp add: editorRowDelChar_def)
        (simp add: upd_row_def set_buf_def r2_def r1_def row_def render_as_def)
  qed
  ultimately show thesis using that by (simp add: t2_def t_def)
qed

lemma editorDelRow_rep:
  assumes "text_rep ls E" and "at < length ls"
  obtains rs where "editorDelRow at E = set_buf rs (E_dirty E + 1) E"
    and "list_all2 row_rep (take at ls @ drop (at + 1) ls) rs"
proof -
  note len = text_rep_len [OF assms(1)]
  define rs where "rs = take at (E_row E) @ map (\<lambda>r. r\<lparr>erow_idx := erow_idx r + 1\<rparr>) (drop (at + 1) (E_row E))"
  have "length rs = E_numrows E - 1" using len assms(2) by (simp add: rs_def)
  then have "editorDelRow at E = set_buf rs (E_dirty E + 1) E"
    using len assms(2) unfolding set_buf_def by (simp add: editorDelRow_def rs_def)
  moreover have "list_all2 row_rep (take at ls @ drop (at + 1) ls) rs"
    unfolding rs_def using assms(1) by (intro list_all2_appendI) (auto simp: text_rep_def)
  ultimately show thesis by (rule that)
qed

lemma insert_rows_rep:
  assumes "plain E" and "text_rep ls E"
  shows "\<exists>rs. insert_rows n E = Some (set_buf rs (E_dirty E + n) E) \<and> list_all2 row_rep (ls @ replicate n []) rs"
  using assms
proof (induction n arbitrary: E ls)
  case 0
  have "E = set_buf (E_row E) (E_dirty E) E"
    using 0(2) by (simp add: set_buf_def text_rep_def)
  then show ?case using 0(2) by (auto simp: text_rep_def)
next
  case (Suc n)
  note len = text_rep_len [OF Suc(3)]
  obtain rs where rs: "editorInsertRow (length ls) [c_nul] 0 E = Some (set_buf rs (E_dirty E + 1) E)"
      "list_all2 row_rep (ls @ [[]]) rs"
    using editorInsertRow_rep [OF Suc(2,3), of "length ls" "[]" "[c_nul]"] by auto
  have "plain (set_buf rs (E_dirty E + 1) E)" "text_rep (ls @ [[]]) (set_buf rs (E_dirty E + 1) E)"
    using Suc(2) rs(2) by (simp_all add: plain_def)
  from Suc(1) [OF this] show ?case using rs(1) len by (auto simp: replicate_app_Cons_same)
qed

section \<open>Commands\<close>

text \<open>What no command changes, and: the command returns, and its result represents the buffer \<open>b\<close>.\<close>
definition frame :: "editorConfig \<Rightarrow> editorConfig \<Rightarrow> bool" where
  "frame E F \<longleftrightarrow> E_filename F = E_filename E \<and> E_screencols F = E_screencols E \<and> E_screenrows F = E_screenrows E"

definition yields :: "editorConfig option \<Rightarrow> editorConfig \<Rightarrow> buffer \<Rightarrow> bool" where
  "yields res E b \<longleftrightarrow> (\<exists>F. res = Some F \<and> buf_rep b F \<and> frame E F)"

lemma yieldsI: "res = Some F \<Longrightarrow> buf_rep b F \<Longrightarrow> frame E F \<Longrightarrow> yields res E b"
  by (auto simp: yields_def)

lemma buf_repI: "plain E \<Longrightarrow> text_rep ls E \<Longrightarrow> cursor_rep ls r k E \<Longrightarrow> buf_rep (ls, r, k) E"
  by (simp add: buf_rep_def)

lemma buf_repD:
  assumes "buf_rep (ls, r, k) E"
  shows "plain E" "text_rep ls E" "cursor_rep ls r k E" "filerow E = int r" "filecol E = int k"
    "k \<le> length (line_at ls r)" "0 \<le> E_cx E" "0 \<le> E_coloff E" "0 \<le> E_cy E" "0 \<le> E_rowoff E"
  using assms by (simp_all add: buf_rep_def cursor_rep_def)

lemmas fields = plain_def frame_def filerow_def filecol_def cursor_rep_def set_buf_simps

lemma put_char_inside: "k \<le> length t \<Longrightarrow> put_char k c t = take k t @ c # drop k t"
  by (simp add: put_char_def)

lemma editorInsertChar_yields:
  assumes "buf_rep (ls, r, k) E"
  shows "yields (editorInsertChar c E) E (buf_insert (char_of_int c) (ls, r, k))"
proof -
  note b = buf_repD [OF assms]
  note len = text_rep_len [OF b(2)]
  define full where "full = ls @ replicate (r + 1 - length ls) []"
  obtain rs d where rs: "(if row_at E (int r) = Some None
        then insert_rows (nat (filerow E + 1 - int (E_numrows E))) E else Some E) = Some (set_buf rs d E)"
      "list_all2 row_rep full rs"
  proof (cases "r < length ls")
    case True
    have "E = set_buf (E_row E) (E_dirty E) E" using b(2) by (simp add: set_buf_def text_rep_def)
    then show thesis
      using that [of "E_row E" "E_dirty E"] True b(2) row_at_rep [OF b(2), of r] by (simp add: full_def text_rep_def)
  next
    case False
    then have "nat (filerow E + 1 - int (E_numrows E)) = r + 1 - length ls" using b(4) len by simp
    then show thesis
      using that insert_rows_rep [OF b(1,2), of "r + 1 - length ls"] False row_at_rep [OF b(2), of r]
      by (auto simp: full_def)
  qed
  define E1 where "E1 = set_buf rs d E"
  have E1: "plain E1" "text_rep full E1" using b(1) rs(2) by (simp_all add: E1_def plain_def)
  have r: "r < length full" by (simp add: full_def)
  have "full ! r = line_at ls r" by (auto simp: full_def line_at_def nth_append)
  then have k: "k \<le> length (full ! r)" using b(6) by simp
  obtain rs2 where rs2: "editorRowInsertChar r (int k) (char_of_int c) E1 = Some (set_buf rs2 (E_dirty E1 + 1) E1)"
      "list_all2 row_rep (full[r := put_char k (char_of_int c) (full ! r)]) rs2"
    using editorRowInsertChar_rep [OF E1 r] by blast
  define ls2 where "ls2 = full[r := put_char k (char_of_int c) (full ! r)]"
  define E2 where "E2 = set_buf rs2 (E_dirty E1 + 1) E1"
  define E3 where "E3 = (if E_cx E2 = E_screencols E2 - 1 then E2\<lparr>E_coloff := E_coloff E2 + 1\<rparr> else E2\<lparr>E_cx := E_cx E2 + 1\<rparr>)"
  have "editorInsertChar c E = Some (E3\<lparr>E_dirty := E_dirty E3 + 1\<rparr>)"
    using rs(1) rs2(1) row_at_rep [OF b(2), of r] b(4,5)
    by (simp add: editorInsertChar_def E3_def E2_def E1_def split del: if_split cong: if_cong)
       (auto simp: Let_def)
  moreover have "buf_insert (char_of_int c) (ls, r, k) = (ls2, r, k + 1)"
    using put_char_inside [OF k] by (simp add: buf_insert_def Let_def full_def ls2_def)
  moreover have "length (line_at ls2 r) = length (full ! r) + 1"
    using r k by (simp add: line_at_def ls2_def put_char_def)
  then have "buf_rep (ls2, r, k + 1) (E3\<lparr>E_dirty := E_dirty E3 + 1\<rparr>)"
    using b rs2(2) k
    by (intro buf_repI) (auto simp: E3_def E2_def E1_def fields ls2_def text_rep_def)
  moreover have "frame E (E3\<lparr>E_dirty := E_dirty E3 + 1\<rparr>)"
    by (simp add: E3_def E2_def E1_def frame_def)
  ultimately show ?thesis by (auto intro: yieldsI)
qed

text \<open>Behind a new line the cursor is in column 0 of the next row.\<close>
lemma newline_cursor_rep:
  assumes "plain E" "text_rep ls2 E" "filerow E = int r" "0 \<le> E_cy E" "0 \<le> E_rowoff E"
  shows "buf_rep (ls2, r + 1, 0) (newline_cursor E)" and "frame E (newline_cursor E)"
  using assms
  by (auto simp: newline_cursor_def fields text_rep_def intro!: buf_repI)

lemma editorInsertNewline_yields:
  assumes "buf_rep (ls, r, k) E"
  shows "yields (editorInsertNewline E) E (buf_newline (ls, r, k))"
proof -
  note b = buf_repD [OF assms]
  note len = text_rep_len [OF b(2)]
  have moved: "yields (map_option newline_cursor x) E (ls2, r + 1, 0)"
    if "x = Some (set_buf rs d E)" "list_all2 row_rep ls2 rs" for x rs d ls2
  proof (rule yieldsI)
    show "map_option newline_cursor x = Some (newline_cursor (set_buf rs d E))" using that(1) by simp
    show "buf_rep (ls2, r + 1, 0) (newline_cursor (set_buf rs d E))"
      by (rule newline_cursor_rep) (use b that(2) in \<open>simp_all add: plain_def\<close>)
    show "frame E (newline_cursor (set_buf rs d E))" by (auto simp: frame_def newline_cursor_def)
  qed
  consider "length ls < r" | "r = length ls" | "r < length ls" "k = 0" | "r < length ls" "0 < k" by linarith
  then show ?thesis
  proof cases
    case 1
    then show ?thesis
      using b(4) len row_at_rep [OF b(2), of r] assms
      by (intro yieldsI [of _ E]) (simp_all add: editorInsertNewline_def buf_newline_def frame_def)
  next
    case 2
    obtain rs where "editorInsertRow r [c_nul] 0 E = Some (set_buf rs (E_dirty E + 1) E)"
        "list_all2 row_rep (ls @ [[]]) rs"
      using editorInsertRow_rep [OF b(1,2), of r "[]" "[c_nul]"] 2 by auto
    from moved [OF this] show ?thesis
      using 2 b(4) len row_at_rep [OF b(2), of r] by (simp add: editorInsertNewline_def buf_newline_def)
  next
    case 3
    obtain rs where "editorInsertRow r [c_nul] 0 E = Some (set_buf rs (E_dirty E + 1) E)"
        "list_all2 row_rep (take r ls @ [] # drop r ls) rs"
      using editorInsertRow_rep [OF b(1,2), of r "[]" "[c_nul]"] 3 by auto
    from moved [OF this] show ?thesis
      using 3 b(4,5) len row_at_rep [OF b(2), of r]
      by (simp add: editorInsertNewline_def buf_newline_def Let_def Cons_nth_drop_Suc)
  next
    case 4
    define t where "t = ls ! r"
    have k: "k \<le> length t" using b(6) 4 by (simp add: t_def line_at_def)
    have cr: "chars_rep t (E_row E ! r)" using text_rep_nth [OF b(2) 4(1)] by (simp add: t_def row_rep_chars)
    then obtain rest where rest: "erow_chars (E_row E ! r) = t @ c_nul # rest" by (rule chars_repE)
    have "take (length (drop k t) + 1) (drop k (erow_chars (E_row E ! r))) = drop k t @ [c_nul]"
      using k by (simp add: rest)
    then obtain rs where rs: "editorInsertRow (r + 1) (drop k (erow_chars (E_row E ! r))) (length t - k) E
          = Some (set_buf rs (E_dirty E + 1) E)" "list_all2 row_rep (take (r + 1) ls @ drop k t # drop (r + 1) ls) rs"
      using editorInsertRow_rep [OF b(1,2), of "r + 1" "drop k t"] 4(1) by auto
    define E1 where "E1 = set_buf rs (E_dirty E + 1) E"
    define ls1 where "ls1 = take (r + 1) ls @ drop k t # drop (r + 1) ls"
    have E1: "plain E1" "text_rep ls1 E1" using b(1) rs(2) by (simp_all add: E1_def plain_def ls1_def)
    have r1: "r < length ls1" "ls1 ! r = t" using 4(1) by (simp_all add: ls1_def nth_append t_def)
    have c1: "chars_rep t (E_row E1 ! r)" using text_rep_nth [OF E1(2) r1(1)] r1(2) by (simp add: row_rep_chars)
    then obtain rest1 where rest1: "erow_chars (E_row E1 ! r) = t @ c_nul # rest1" by (rule chars_repE)
    define b1 where "b1 = (t @ c_nul # rest1)[k := c_nul]"
    have b1: "b1 = take k t @ c_nul # drop (k + 1) (t @ c_nul # rest1)"
      using k by (simp add: b1_def upd_conv_take_nth_drop)
    have "chars_rep (take k t) ((E_row E1 ! r)\<lparr>erow_chars := b1, erow_size := k\<rparr>)"
      using k by (simp add: b1 chars_rep_def)
    then obtain rs2 where rs2:
        "editorUpdateRow r (upd_row r (\<lambda>x. x\<lparr>erow_chars := b1, erow_size := k\<rparr>) E1) = Some (set_buf rs2 (E_dirty E1) E1)"
        "list_all2 row_rep (ls1[r := take k t]) rs2"
      using set_row_rep [OF E1 r1(1)] by blast
    have ls2: "ls1[r := take k t] = take r ls @ [take k t, drop k t] @ drop (r + 1) ls"
      using 4(1) by (simp add: ls1_def list_update_append take_Suc_conv_app_nth)
    have sz: "erow_size (E_row E ! r) = length t" using cr by (simp add: chars_rep_def)
    have st: "store_at k c_nul (erow_chars (E_row E1 ! r)) = Some b1"
      using k by (simp add: rest1 store_at_def b1_def)
    have nth: "nth_opt (E_row E1) r = Some (E_row E1 ! r)" using text_rep_len [OF E1(2)] r1(1) by simp
    have ins: "editorInsertRow (r + 1) (drop k (erow_chars (E_row E ! r))) (length t - k) E = Some E1"
      using rs(1) by (simp add: E1_def)
    have "editorInsertNewline E = map_option newline_cursor (Some (set_buf rs2 (E_dirty E1) E1))"
      using 4 b(4,5) k row_at_rep [OF b(2), of r] sz ins st nth rs2(1)
      by (auto simp: editorInsertNewline_def Let_def)
    moreover have "set_buf rs2 (E_dirty E1) E1 = set_buf rs2 (E_dirty E1) E" by (simp add: E1_def)
    ultimately show ?thesis
      using moved [OF _ rs2(2) [unfolded ls2], of "Some (set_buf rs2 (E_dirty E1) E)" "E_dirty E1"] 4
      by (simp add: buf_newline_def t_def)
  qed
qed

lemma editorDelChar_join:
  assumes rep: "buf_rep (ls, r, 0) E" and r: "0 < r" "r < length ls"
  obtains rs d where "editorDelChar E = Some ((join_cursor (int (length (ls ! (r - 1)))) (set_buf rs d E))\<lparr>E_dirty := d + 1\<rparr>)"
    and "list_all2 row_rep (take (r - 1) ls @ [ls ! (r - 1) @ ls ! r] @ drop (r + 1) ls) rs"
proof -
  note b = buf_repD [OF rep]
  note len = text_rep_len [OF b(2)]
  define t where "t = ls ! r"
  define a where "a = ls ! (r - 1)"
  have r1: "r - 1 < length ls" using r by simp
  have cr: "chars_rep t (E_row E ! r)" using text_rep_nth [OF b(2) r(2)] by (simp add: t_def row_rep_chars)
  have ca: "erow_size (E_row E ! (r - 1)) = length a"
    using chars_repD(1) [OF row_rep_chars [OF text_rep_nth [OF b(2) r1]]] by (simp add: a_def)
  obtain rs where rs: "editorRowAppendString (r - 1) (erow_chars (E_row E ! r)) (length t) E = Some (set_buf rs (E_dirty E + 1) E)"
      "list_all2 row_rep (ls[r - 1 := a @ t]) rs"
    using editorRowAppendString_rep [OF b(1,2) r1 chars_repD(3) [OF cr]] by (auto simp: a_def)
  define E1 where "E1 = set_buf rs (E_dirty E + 1) E"
  have E1: "text_rep (ls[r - 1 := a @ t]) E1" using rs(2) by (simp add: E1_def)
  obtain rs2 where rs2: "editorDelRow r E1 = set_buf rs2 (E_dirty E1 + 1) E1"
      "list_all2 row_rep (take r (ls[r - 1 := a @ t]) @ drop (r + 1) (ls[r - 1 := a @ t])) rs2"
    using editorDelRow_rep [OF E1, of r] r by auto
  have ls2: "take r (ls[r - 1 := a @ t]) @ drop (r + 1) (ls[r - 1 := a @ t]) = take (r - 1) ls @ [a @ t] @ drop (r + 1) ls"
    using r r1 by (cases r) (simp_all add: take_Suc_conv_app_nth take_update_swap list_update_append)
  define d where "d = E_dirty E1 + 1"
  define E3 where "E3 = join_cursor (int (length a)) (set_buf rs2 d E)"
  have "editorDelChar E = Some (E3\<lparr>E_dirty := E_dirty E3 + 1\<rparr>)"
    using r b(4,5) row_at_rep [OF b(2), of r] len r1 ca rs(1) rs2(1) chars_repD(1) [OF cr]
    by (simp add: editorDelChar_def E3_def E1_def d_def nat_diff_distrib Let_def)
  moreover have "E_dirty E3 = d" by (simp add: E3_def join_cursor_def Let_def)
  ultimately show thesis
    using that [of d rs2] rs2(2) [unfolded ls2] by (simp add: E3_def a_def t_def)
qed

lemma editorDelChar_yields:
  assumes "buf_rep (ls, r, k) E" and "0 < E_screencols E"
    and fits: "k = 0 \<Longrightarrow> 0 < r \<Longrightarrow> r < length ls \<Longrightarrow> int (length (ls ! (r - 1))) \<le> E_screencols E + 1"
  shows "yields (editorDelChar E) E (buf_delete (ls, r, k))"
proof -
  note b = buf_repD [OF assms(1)]
  note len = text_rep_len [OF b(2)]
  consider "length ls \<le> r \<or> (r = 0 \<and> k = 0)" | "r < length ls" "0 < r" "k = 0" | "r < length ls" "0 < k" by linarith
  then show ?thesis
  proof cases
    case 1
    then show ?thesis
      using b(4,5) row_at_rep [OF b(2), of r] assms(1)
      by (intro yieldsI [of _ E]) (auto simp: editorDelChar_def buf_delete_def frame_def)
  next
    case 2
    define t where "t = ls ! r"
    define a where "a = ls ! (r - 1)"
    have r1: "r - 1 < length ls" using 2 by simp
    obtain rs d where del: "editorDelChar E = Some ((join_cursor (int (length a)) (set_buf rs d E))\<lparr>E_dirty := d + 1\<rparr>)"
        "list_all2 row_rep (take (r - 1) ls @ [a @ t] @ drop (r + 1) ls) rs"
      using editorDelChar_join assms(1) 2 unfolding a_def t_def by blast
    define F where "F = (join_cursor (int (length a)) (set_buf rs d E))\<lparr>E_dirty := d + 1\<rparr>"
    have zero: "E_cx E = 0" "E_coloff E = 0" using b(5,7,8) 2(3) by (simp_all add: filecol_def)
    have "int (length a) \<le> E_screencols E + 1" using fits 2 by (simp add: a_def)
    then have "buf_rep (take (r - 1) ls @ [a @ t] @ drop (r + 1) ls, r - 1, length a) F"
      using b del(2) 2 r1 assms(2) zero
      by (intro buf_repI)
        (auto simp: F_def join_cursor_def fields text_rep_def line_at_def nth_append Let_def)
    moreover have "frame E F" by (simp add: F_def frame_def join_cursor_def Let_def)
    moreover have "buf_delete (ls, r, k) = (take (r - 1) ls @ [a @ t] @ drop (r + 1) ls, r - 1, length a)"
      using 2 by (simp add: buf_delete_def a_def t_def)
    ultimately show ?thesis using del(1) by (auto intro: yieldsI simp: F_def)
  next
    case 3
    define t where "t = ls ! r"
    define t2 where "t2 = take (k - 1) t @ drop k t"
    have k: "k \<le> length t" using b(6) 3 by (simp add: t_def line_at_def)
    have row: "row_at E (int r) = Some (Some (E_row E ! r))" using 3 row_at_rep [OF b(2), of r] by simp
    obtain r1 where r1: "editorRowDelChar r (int (k - 1)) E = Some (set_buf ((E_row E)[r := r1]) (E_dirty E + 1) E)"
        "chars_rep t2 r1"
    proof -
      have "k - 1 < length (ls ! r)" "Suc (k - 1) = k" using 3 k by (simp_all add: t_def)
      then show thesis
        using editorRowDelChar_rep [OF b(1,2) 3(1), of "k - 1"] that by (simp add: t_def t2_def) metis
    qed
    define E1 where "E1 = set_buf ((E_row E)[r := r1]) (E_dirty E + 1) E"
    define E2 where "E2 = (if E_cx E1 = 0 \<and> E_coloff E1 \<noteq> 0 then E1\<lparr>E_coloff := E_coloff E1 - 1\<rparr> else E1\<lparr>E_cx := E_cx E1 - 1\<rparr>)"
    have rows: "E_row E2 = (E_row E)[r := r1]" "E_syntax E2 = None" "E_numrows E2 = length ls"
      using b(1) len by (simp_all add: E2_def E1_def plain_def)
    have up: "editorUpdateRow r E2 = Some (upd_row r (render_as t2) E2)"
      using rows r1(2) 3 len by (intro editorUpdateRow_plain) simp_all
    define E3 where "E3 = upd_row r (render_as t2) E2"
    have del: "editorRowDelChar r (int k - 1) E = Some E1"
      using r1(1) 3 by (simp add: E1_def of_nat_diff)
    have "editorDelChar E = Some (E3\<lparr>E_dirty := E_dirty E3 + 1\<rparr>)"
      using 3 b(4,5) row del up
      by (simp add: editorDelChar_def E3_def E2_def Let_def split del: if_split)
    moreover have "buf_delete (ls, r, k) = (ls[r := t2], r, k - 1)"
      using 3 by (simp add: buf_delete_def t_def t2_def)
    moreover have "E_row E3 = (E_row E)[r := render_as t2 r1]" "E_numrows E3 = length ls" "E_syntax E3 = None"
      using rows 3 len by (simp_all add: E3_def)
    moreover have "list_all2 row_rep (ls[r := t2]) ((E_row E)[r := render_as t2 r1])"
      using b(2) r1(2) by (simp add: text_rep_def list_all2_update_cong)
    moreover have "cursor_rep (ls[r := t2]) r (k - 1) E3"
      using b 3 k by (auto simp: E3_def E2_def E1_def cursor_rep_def filerow_def filecol_def line_at_def t2_def)
    then have "cursor_rep (ls[r := t2]) r (k - 1) (E3\<lparr>E_dirty := E_dirty E3 + 1\<rparr>)"
      by (simp add: cursor_rep_def filerow_def filecol_def)
    moreover have "frame E (E3\<lparr>E_dirty := E_dirty E3 + 1\<rparr>)"
      by (simp add: E3_def E2_def E1_def frame_def)
    ultimately show ?thesis
      using len by (auto intro!: yieldsI buf_repI simp: plain_def text_rep_def)
  qed
qed

lemma row_length:
  assumes "text_rep ls E"
  shows "(case (if r < length ls then Some (E_row E ! r) else None) of None \<Rightarrow> 0 | Some w \<Rightarrow> int (erow_size w))
    = int (length (line_at ls r))"
  using chars_repD(1) [OF row_rep_chars [OF text_rep_nth [OF assms]]] by (simp add: line_at_def)

lemma fix_cursor_yields:
  assumes "plain E" "text_rep ls E" "filerow E = int r" "filecol E = int k"
    "0 \<le> E_cx E" "0 \<le> E_coloff E" "0 \<le> E_cy E" "0 \<le> E_rowoff E"
  shows "yields (fix_cursor E) E (ls, r, min k (length (line_at ls r)))"
proof -
  define n where "n = length (line_at ls r)"
  define cx where "cx = E_cx E - (int k - int n)"
  define F where "F = (if int n < int k then if cx < 0 then E\<lparr>E_coloff := E_coloff E + cx, E_cx := 0\<rparr> else E\<lparr>E_cx := cx\<rparr> else E)"
  have "fix_cursor E = Some F"
    using row_at_rep [OF assms(2), of r] row_length [OF assms(2), of r] assms(3,4)
    by (simp add: fix_cursor_def Let_def F_def cx_def n_def)
  moreover have "buf_rep (ls, r, min k n) F"
    using assms by (intro buf_repI) (auto simp: F_def fields text_rep_def cx_def n_def)
  moreover have "frame E F" by (simp add: F_def frame_def)
  ultimately show ?thesis unfolding n_def by (rule yieldsI)
qed

lemma yields_frame: "yields res F b \<Longrightarrow> frame E F \<Longrightarrow> yields res E b"
  by (auto simp: yields_def frame_def)

lemma move_yields:
  assumes "buf_rep (ls, r, k) F" "frame E F"
  shows "yields (fix_cursor F) E (ls, r, k)"
proof -
  note b = buf_repD [OF assms(1)]
  have "yields (fix_cursor F) F (ls, r, min k (length (line_at ls r)))"
    using b by (intro fix_cursor_yields)
  then show ?thesis using b(6) yields_frame [OF _ assms(2)] by (simp add: min_absorb1)
qed

lemma editorMoveCursor_left:
  assumes "buf_rep (ls, r, k) E" and "0 < E_screencols E"
    and "k = 0 \<Longrightarrow> 0 < r \<Longrightarrow> r \<le> length ls \<and> 0 < E_cy E"
  shows "yields (editorMoveCursor ARROW_LEFT E) E (buf_left (ls, r, k))"
proof -
  note b = buf_repD [OF assms(1)]
  note len = text_rep_len [OF b(2)]
  have mv: "editorMoveCursor ARROW_LEFT E = Option.bind (move_left E) fix_cursor"
    by (simp add: editorMoveCursor_def)
  consider "0 < k" | "k = 0" "r = 0" | "k = 0" "0 < r" by linarith
  then show ?thesis
  proof cases
    case 1
    define F where "F = (if E_cx E = 0 then E\<lparr>E_coloff := E_coloff E - 1\<rparr> else E\<lparr>E_cx := E_cx E - 1\<rparr>)"
    have "move_left E = Some F" using b(5,7,8) 1 by (auto simp: move_left_def F_def filecol_def)
    moreover have "buf_rep (ls, r, k - 1) F"
      using b 1 by (intro buf_repI) (auto simp: F_def fields text_rep_def)
    moreover have "frame E F" by (simp add: F_def frame_def)
    ultimately show ?thesis using 1 unfolding mv buf_left_def by (simp add: move_yields)
  next
    case 2
    then have "move_left E = Some E" using b(4,5,7,8) by (auto simp: move_left_def filecol_def)
    then show ?thesis using 2 move_yields [OF assms(1)] unfolding mv by (simp add: buf_left_def frame_def)
  next
    case 3
    define n where "n = length (ls ! (r - 1))"
    define F where "F = (if E_screencols E - 1 < int n
        then E\<lparr>E_cy := E_cy E - 1, E_coloff := int n - E_screencols E + 1, E_cx := E_screencols E - 1\<rparr>
        else E\<lparr>E_cy := E_cy E - 1, E_cx := int n\<rparr>)"
    have g: "r \<le> length ls" "0 < E_cy E" using assms(3) 3 by auto
    have zero: "E_cx E = 0" "E_coloff E = 0" using b(5,7,8) 3(1) by (simp_all add: filecol_def)
    have idx: "nat (int r - 1) = r - Suc 0" by simp
    have r1: "r - 1 < length ls" using g(1) 3(2) by simp
    have "erow_size (E_row E ! (r - 1)) = n"
      using chars_repD(1) [OF row_rep_chars [OF text_rep_nth [OF b(2) r1]]] by (simp add: n_def)
    then have "move_left E = Some F"
      using zero b(4) 3 r1 len idx by (simp add: move_left_def F_def Let_def cong: if_cong)
    moreover have "buf_rep (ls, r - 1, n) F"
      using b g 3 r1 assms(2) zero
      by (intro buf_repI) (auto simp: F_def fields text_rep_def line_at_def n_def)
    moreover have "frame E F" by (simp add: F_def frame_def)
    ultimately show ?thesis using 3 unfolding mv buf_left_def n_def by (simp add: move_yields)
  qed
qed

lemma editorMoveCursor_right:
  assumes "buf_rep (ls, r, k) E"
  shows "yields (editorMoveCursor ARROW_RIGHT E) E (buf_right (ls, r, k))"
proof -
  note b = buf_repD [OF assms]
  have mv: "editorMoveCursor ARROW_RIGHT E = Option.bind (move_right E) fix_cursor"
    by (simp add: editorMoveCursor_def key_defs)
  note row = row_at_rep [OF b(2), of r]
  consider "length ls \<le> r" | "r < length ls" "k < length (ls ! r)" | "r < length ls" "k = length (ls ! r)"
    using b(6) by (fastforce simp: line_at_def)
  then show ?thesis
  proof cases
    case 1
    then have "move_right E = Some E" using row b(4) by (simp add: move_right_def)
    then show ?thesis using 1 move_yields [OF assms] unfolding mv by (simp add: buf_right_def frame_def)
  next
    case 2
    have sz: "erow_size (E_row E ! r) = length (ls ! r)"
      using chars_repD(1) [OF row_rep_chars [OF text_rep_nth [OF b(2) 2(1)]]] .
    define F where "F = (if E_cx E = E_screencols E - 1 then E\<lparr>E_coloff := E_coloff E + 1\<rparr> else E\<lparr>E_cx := E_cx E + 1\<rparr>)"
    have "move_right E = Some F" using row b(4,5) 2 sz by (simp add: move_right_def F_def)
    moreover have "buf_rep (ls, r, k + 1) F"
      using b 2 by (intro buf_repI) (auto simp: F_def fields text_rep_def line_at_def)
    moreover have "frame E F" by (simp add: F_def frame_def)
    ultimately show ?thesis using 2 unfolding mv buf_right_def by (simp add: move_yields)
  next
    case 3
    have sz: "erow_size (E_row E ! r) = length (ls ! r)"
      using chars_repD(1) [OF row_rep_chars [OF text_rep_nth [OF b(2) 3(1)]]] .
    define F where "F = (let E1 = E\<lparr>E_cx := 0, E_coloff := 0\<rparr> in
        if E_cy E1 = E_screenrows E1 - 1 then E1\<lparr>E_rowoff := E_rowoff E1 + 1\<rparr> else E1\<lparr>E_cy := E_cy E1 + 1\<rparr>)"
    have "move_right E = Some F" using row b(4,5) 3 sz by (simp add: move_right_def F_def Let_def)
    moreover have "buf_rep (ls, r + 1, 0) F"
      using b 3 by (intro buf_repI) (auto simp: F_def fields text_rep_def Let_def)
    moreover have "frame E F" by (simp add: F_def frame_def Let_def)
    ultimately show ?thesis using 3 unfolding mv buf_right_def by (simp add: move_yields)
  qed
qed

lemma editorMoveCursor_up:
  assumes "buf_rep (ls, r, k) E"
  shows "yields (editorMoveCursor ARROW_UP E) E (buf_up (ls, r, k))"
proof -
  note b = buf_repD [OF assms]
  have "yields (fix_cursor (move_up E)) (move_up E) (ls, r - 1, min k (length (line_at ls (r - 1))))"
    using b by (intro fix_cursor_yields) (auto simp: move_up_def fields text_rep_def)
  moreover have "frame E (move_up E)" by (simp add: move_up_def frame_def)
  ultimately show ?thesis
    by (auto simp: editorMoveCursor_def key_defs buf_up_def intro: yields_frame)
qed

lemma editorMoveCursor_down:
  assumes "buf_rep (ls, r, k) E"
  shows "yields (editorMoveCursor ARROW_DOWN E) E (buf_down (ls, r, k))"
proof -
  note b = buf_repD [OF assms]
  define r2 where "r2 = (if r < length ls then r + 1 else r)"
  have "yields (fix_cursor (move_down E)) (move_down E) (ls, r2, min k (length (line_at ls r2)))"
    using b text_rep_len [OF b(2)] by (intro fix_cursor_yields) (auto simp: move_down_def fields text_rep_def r2_def)
  moreover have "frame E (move_down E)" by (simp add: move_down_def frame_def)
  ultimately show ?thesis
    by (auto simp: editorMoveCursor_def key_defs buf_down_def r2_def Let_def intro: yields_frame)
qed

text \<open>
  Where a key is safe: a line that is joined to the one above it must not send the cursor too far to the right, and
  the cursor must not go left from the first line of the screen, nor from below the last line, to the line above.\<close>
definition key_safe :: "int \<Rightarrow> buffer \<Rightarrow> editorConfig \<Rightarrow> bool" where
  "key_safe c b E \<longleftrightarrow> c \<noteq> PAGE_UP \<and> c \<noteq> PAGE_DOWN \<and>
     (case b of (ls, r, k) \<Rightarrow>
        (c \<in> {BACKSPACE_KEY, CTRL_H_KEY, DEL_KEY} \<and> k = 0 \<and> 0 < r \<and> r < length ls \<longrightarrow>
           int (length (ls ! (r - 1))) \<le> E_screencols E + 1) \<and>
        (c = ARROW_LEFT \<and> k = 0 \<and> 0 < r \<longrightarrow> r \<le> length ls \<and> 0 < E_cy E))"

lemma edit_command_yields:
  assumes "buf_rep b E" and "0 < E_screencols E" and "key_safe c b E"
  shows "yields (edit_command c E) E (buf_command c b)"
proof -
  obtain ls r k where b: "b = (ls, r, k)" by (cases b)
  note rep = assms(1) [unfolded b]
  have same: "yields (Some E) E (ls, r, k)" using rep by (simp add: yields_def frame_def)
  consider "c = ENTER_KEY" | "c \<in> {BACKSPACE_KEY, CTRL_H_KEY, DEL_KEY}" | "c = ARROW_LEFT" | "c = ARROW_RIGHT" | "c = ARROW_UP"
    | "c = ARROW_DOWN" | "c \<in> {CTRL_C_KEY, CTRL_L_KEY, ESC_KEY}"
    | "c \<notin> {ENTER_KEY, BACKSPACE_KEY, CTRL_H_KEY, DEL_KEY, ARROW_LEFT, ARROW_RIGHT, ARROW_UP, ARROW_DOWN, CTRL_C_KEY, CTRL_L_KEY, ESC_KEY}"
    by auto
  then show ?thesis
  proof cases
    case 1
    then show ?thesis using editorInsertNewline_yields [OF rep] by (simp add: b edit_command_def buf_command_def)
  next
    case 2
    have "yields (editorDelChar E) E (buf_delete (ls, r, k))"
      using editorDelChar_yields [OF rep assms(2)] assms(3) 2 by (auto simp: key_safe_def b)
    then show ?thesis using 2 by (auto simp: b edit_command_def buf_command_def key_defs)
  next
    case 3
    have "yields (editorMoveCursor ARROW_LEFT E) E (buf_left (ls, r, k))"
      using editorMoveCursor_left [OF rep assms(2)] assms(3) 3 by (auto simp: key_safe_def b)
    then show ?thesis using 3 by (simp add: b edit_command_def buf_command_def key_defs)
  next
    case 4
    then show ?thesis using editorMoveCursor_right [OF rep] by (simp add: b edit_command_def buf_command_def key_defs)
  next
    case 5
    then show ?thesis using editorMoveCursor_up [OF rep] by (simp add: b edit_command_def buf_command_def key_defs)
  next
    case 6
    then show ?thesis using editorMoveCursor_down [OF rep] by (simp add: b edit_command_def buf_command_def key_defs)
  next
    case 7
    then show ?thesis using same by (auto simp: b edit_command_def buf_command_def key_defs)
  next
    case 8
    then show ?thesis
      using editorInsertChar_yields [OF rep, of c] assms(3) by (simp add: b edit_command_def buf_command_def key_safe_def)
  qed
qed

text \<open>
  C2. In a file without highlighting every editing and arrow key, where it is safe (\<open>key_safe\<close>), does to the editor what the
  abstract buffer says: the command returns, the rows hold the lines of the buffer, rendered, and the cursor is where it should be.\<close>
theorem edit_command_refines:
  assumes "buf_rep b E" and "0 < E_screencols E" and "key_safe c b E"
  shows "\<exists>F. edit_command c E = Some F \<and> buf_rep (buf_command c b) F"
  using edit_command_yields [OF assms] by (auto simp: yields_def)

text \<open>A small file: two lines, the cursor at the start of the second.\<close>
definition row_of :: "nat \<Rightarrow> string \<Rightarrow> erow" where
  "row_of i t = \<lparr>erow_idx = i, erow_size = length t, erow_rsize = length (expand_tabs 0 t), erow_chars = t @ [c_nul],
     erow_render = expand_tabs 0 t @ [c_nul], erow_hl = replicate (length (expand_tabs 0 t)) HL_NORMAL, erow_hl_oc = False\<rparr>"

definition config_of :: "string list \<Rightarrow> int \<Rightarrow> int \<Rightarrow> int \<Rightarrow> int \<Rightarrow> editorConfig" where
  "config_of ls cx cy rowoff cols =
     \<lparr>E_cx = cx, E_cy = cy, E_rowoff = rowoff, E_coloff = 0, E_screenrows = 24, E_screencols = cols,
      E_numrows = length ls, E_rawmode = True, E_row = map (\<lambda>i. row_of i (ls ! i)) [0..<length ls], E_dirty = 0,
      E_filename = Some ''notes'', E_statusmsg = [], E_statusmsg_time = 0, E_syntax = None\<rparr>"

lemma row_rep_row_of [simp]: "row_rep t (row_of i t)"
  by (simp add: row_of_def row_rep_def rendered_def chars_rep_def)

lemma text_rep_config_of [simp]: "text_rep ls (config_of ls cx cy rowoff cols)"
  by (simp add: text_rep_def config_of_def list_all2_conv_all_nth)

lemma buf_rep_config_of:
  assumes "0 \<le> cx" "0 \<le> cy" "0 \<le> rowoff" "cx \<le> int (length (line_at ls (nat (rowoff + cy))))"
  shows "buf_rep (ls, nat (rowoff + cy), nat cx) (config_of ls cx cy rowoff cols)"
proof (intro buf_repI)
  show "cursor_rep ls (nat (rowoff + cy)) (nat cx) (config_of ls cx cy rowoff cols)"
    using assms by (simp add: cursor_rep_def filerow_def filecol_def config_of_def nat_le_iff)
next
  show "plain (config_of ls cx cy rowoff cols)" by (simp add: plain_def config_of_def)
qed simp

lemma update_row_expands_witness:
  "editorUpdateRow 0 (config_of [c_tab # ''ab''] 0 0 0 80) =
    editorUpdateSyntax 0 (upd_row 0 (\<lambda>r. r\<lparr>erow_rsize := 9, erow_render := ''       ab'' @ [c_nul]\<rparr>)
      (config_of [c_tab # ''ab''] 0 0 0 80))"
proof -
  have e: "expand_tabs 0 (c_tab # ''ab'') = ''       ab''" by code_simp
  have "chars_rep (c_tab # ''ab'') (E_row (config_of [c_tab # ''ab''] 0 0 0 80) ! 0)"
    by (simp add: config_of_def row_of_def chars_rep_def)
  then have "editorUpdateRow 0 (config_of [c_tab # ''ab''] 0 0 0 80) =
    editorUpdateSyntax 0 (upd_row 0 (\<lambda>r. r\<lparr>erow_rsize := length (''       ab''), erow_render := ''       ab'' @ [c_nul]\<rparr>)
      (config_of [c_tab # ''ab''] 0 0 0 80))"
    unfolding e [symmetric] by (intro update_row_expands) (simp add: config_of_def)
  moreover have "length (''       ab'') = 9" by simp
  ultimately show ?thesis by (simp only:)
qed

lemma edit_command_refines_witness:
  "\<exists>F. edit_command BACKSPACE_KEY (config_of [''ab'', ''cd''] 0 1 0 80) = Some F \<and> buf_rep ([''abcd''], 0, 2) F"
proof -
  have "buf_rep ([''ab'', ''cd''], 1, 0) (config_of [''ab'', ''cd''] 0 1 0 80)"
    using buf_rep_config_of [of 0 1 0 "[''ab'', ''cd'']" 80] by simp
  moreover have "buf_command BACKSPACE_KEY ([''ab'', ''cd''], 1, 0) = ([''abcd''], 0, 2)"
    by (simp add: buf_command_def buf_delete_def key_defs)
  moreover have "0 < E_screencols (config_of [''ab'', ''cd''] 0 1 0 80)"
      "key_safe BACKSPACE_KEY ([''ab'', ''cd''], 1, 0) (config_of [''ab'', ''cd''] 0 1 0 80)"
    by (simp_all add: key_safe_def key_defs config_of_def)
  ultimately show ?thesis
    using edit_command_refines [of "([''ab'', ''cd''], 1, 0)" "config_of [''ab'', ''cd''] 0 1 0 80" BACKSPACE_KEY] by simp
qed

section \<open>Where keys are not safe\<close>

text \<open>Above the first row of the file.\<close>
lemma move_up_out:
  assumes "0 \<le> E_cx E" "0 \<le> E_coloff E" "E_cy E < 0" "int (E_numrows E) = int (length (E_row E))"
    "E_rowoff E + E_cy E = int m" "int m < int (E_numrows E)"
  shows "move_times ARROW_UP (Suc m) E = None"
  using assms
proof (induction m arbitrary: E)
  case 0
  then have "fix_cursor (move_up E) = None"
    by (simp add: fix_cursor_def move_up_def row_at_def filerow_def)
  then show ?case by (simp add: editorMoveCursor_def key_defs)
next
  case (Suc m)
  define G where "G = E\<lparr>E_cy := E_cy E - 1\<rparr>"
  have up: "move_up E = G" using Suc(4) by (simp add: move_up_def G_def)
  have fr: "filerow G = int m" "E_numrows G = E_numrows E" "E_row G = E_row E"
    using Suc(6) by (simp_all add: G_def filerow_def)
  have m: "m < length (E_row E)" "m < E_numrows E" using Suc(5,7) by simp_all
  obtain F where F: "fix_cursor G = Some F" "0 \<le> E_cx F" "0 \<le> E_coloff F" "E_cy F = E_cy G" "E_rowoff F = E_rowoff G"
      "E_numrows F = E_numrows G" "E_row F = E_row G"
  proof -
    have r: "row_at G (filerow G) = Some (Some (E_row E ! m))" using fr m by (simp add: row_at_def)
    define n where "n = int (erow_size (E_row E ! m))"
    define cx where "cx = E_cx G - (filecol G - n)"
    define F where "F = (if n < filecol G then if cx < 0 then G\<lparr>E_coloff := E_coloff G + cx, E_cx := 0\<rparr> else G\<lparr>E_cx := cx\<rparr> else G)"
    have "fix_cursor G = Some F" using r by (simp add: fix_cursor_def Let_def n_def cx_def F_def)
    moreover have "0 \<le> E_cx G" "0 \<le> E_coloff G" "0 \<le> n" using Suc(2,3) by (simp_all add: G_def n_def)
    ultimately show thesis
      by (intro that [of F]) (auto simp: F_def cx_def filecol_def)
  qed
  have "move_times ARROW_UP (Suc m) F = None"
    by (rule Suc(1)) (use F Suc(4-7) in \<open>simp_all add: G_def\<close>)
  then show ?case using F(1) up by (simp add: editorMoveCursor_def key_defs)
qed

text \<open>
  Going left from the first character of the first line on a scrolled screen sends the cursor above the screen, and
  going up from there above the first row of the file: the editor then reads a row in front of its array.\<close>
theorem left_from_top_leaves_array:
  assumes "text_rep ls E" and "E_cx E = 0" "E_coloff E = 0" "E_cy E = 0" "E_rowoff E = int r"
    and "0 < r" "r \<le> length ls" and "0 < E_screencols E"
  shows "Option.bind (editorMoveCursor ARROW_LEFT E) (move_times ARROW_UP r) = None"
proof -
  note len = text_rep_len [OF assms(1)]
  have idx: "nat (int r - 1) = r - 1" "r - 1 < length ls" using assms(6,7) by simp_all
  define n where "n = int (erow_size (E_row E ! (r - 1)))"
  define F where "F = (if E_screencols E - 1 < n
      then E\<lparr>E_cy := - 1, E_coloff := n - E_screencols E + 1, E_cx := E_screencols E - 1\<rparr>
      else E\<lparr>E_cy := - 1, E_cx := n\<rparr>)"
  have "move_left E = Some F"
    using assms idx len by (simp add: move_left_def filerow_def Let_def F_def n_def cong: if_cong)
  moreover have "row_at F (filerow F) = Some (Some (E_row E ! (r - 1)))" "filecol F = n"
    using assms(3,5,6) idx len by (simp_all add: row_at_def filerow_def filecol_def F_def)
  then have "fix_cursor F = Some F" by (simp add: fix_cursor_def n_def)
  moreover have "move_times ARROW_UP (Suc (r - 1)) F = None"
    by (rule move_up_out) (use assms len idx in \<open>auto simp: F_def n_def\<close>)
  ultimately show ?thesis using assms(6) by (simp add: editorMoveCursor_def)
qed

lemma left_from_top_leaves_array_witness:
  "Option.bind (editorMoveCursor ARROW_LEFT (config_of [''a'', ''b'', ''c''] 0 0 2 80)) (move_times ARROW_UP 2) = None"
  by (rule left_from_top_leaves_array [of "[''a'', ''b'', ''c'']"]) (simp, simp_all add: config_of_def)

text \<open>
  C38. Joining a line to one that is more than a column longer than the screen moves the view to a negative column: the
  joined text is right, but the next drawing of the screen reads in front of the row.\<close>
theorem join_long_line_breaks_view:
  assumes "buf_rep (ls, r, 0) E" and "0 < r" "r < length ls"
    and "E_screencols E + 1 < int (length (ls ! (r - 1)))" and "0 < E_screenrows E"
  shows "\<exists>F. editorDelChar E = Some F \<and> text_rep (fst (buf_delete (ls, r, 0))) F \<and> E_coloff F < 0 \<and> screen_text F t = None"
proof -
  note b = buf_repD [OF assms(1)]
  define a where "a = ls ! (r - 1)"
  define ls2 where "ls2 = take (r - 1) ls @ [a @ ls ! r] @ drop (r + 1) ls"
  obtain rs d where del: "editorDelChar E = Some ((join_cursor (int (length a)) (set_buf rs d E))\<lparr>E_dirty := d + 1\<rparr>)"
      "list_all2 row_rep ls2 rs"
    using editorDelChar_join [OF assms(1-3)] unfolding a_def ls2_def by blast
  define F where "F = (join_cursor (int (length a)) (set_buf rs d E))\<lparr>E_dirty := d + 1\<rparr>"
  have F: "E_row F = rs" "E_numrows F = length rs" "E_screenrows F = E_screenrows E"
    by (simp_all add: F_def join_cursor_def Let_def)
  have zero: "E_cx E = 0" "E_coloff E = 0" using b(5,7,8) by (simp_all add: filecol_def)
  have neg: "E_coloff F < 0" using assms(4) zero by (simp add: F_def join_cursor_def Let_def a_def)
  have ro: "0 \<le> E_rowoff F" "E_rowoff F \<le> int r - 1"
    using b(4,9,10) assms(2) by (auto simp: F_def join_cursor_def Let_def filerow_def)
  have "length rs = length ls - 1" using list_all2_lengthD [OF del(2)] assms(2,3) by (simp add: ls2_def)
  then have ix: "nat (E_rowoff F) < length rs" using ro assms(2,3) by linarith
  then have "row_at F (E_rowoff F + int 0) = Some (Some (rs ! nat (E_rowoff F)))"
    using ro F by (simp add: row_at_def)
  moreover have "row_cells F (rs ! nat (E_rowoff F)) = None"
    using neg by (simp add: row_cells_def Let_def)
  ultimately have "draw_line F (int 0) = None" by (simp add: draw_line_def)
  moreover obtain n where "nat (E_screenrows F) = Suc n" using assms(5) F(3) by (cases "nat (E_screenrows F)") auto
  ultimately have "screen_text F t = None" by (simp add: screen_text_def)
  moreover have "fst (buf_delete (ls, r, 0)) = ls2" using assms(2,3) by (simp add: buf_delete_def ls2_def a_def)
  ultimately show ?thesis
    using del neg F unfolding F_def [symmetric] by (intro exI [of _ F]) (simp add: text_rep_def)
qed

lemma join_long_line_breaks_view_witness:
  "\<exists>F. editorDelChar (config_of [''abcdefgh'', ''ij''] 0 1 0 5) = Some F \<and> E_coloff F < 0 \<and> screen_text F 0 = None"
proof -
  have "buf_rep ([''abcdefgh'', ''ij''], 1, 0) (config_of [''abcdefgh'', ''ij''] 0 1 0 5)"
    using buf_rep_config_of [of 0 1 0 "[''abcdefgh'', ''ij'']" 5] by simp
  from join_long_line_breaks_view [OF this, of 0] show ?thesis
    by (auto simp: config_of_def)
qed

end
