(* ===== verification/KiloFile.thy ===== *)
theory KiloFile
  imports KiloOps
begin

text \<open>
  Loading and saving in src/kilo.c: the text of the rows against the bytes of the file, the round trips between them, what
  a save that fails leaves behind, and the protection of unsaved changes.
\<close>

section \<open>Lines and files\<close>

definition file_of :: "string list \<Rightarrow> string" where
  "file_of ls = concat (map (\<lambda>l. l @ [c_nl]) ls)"

function text_lines :: "string \<Rightarrow> string list" where
  "text_lines s = (if s = [] then [] else strip_eol (fst (getline s)) # text_lines (snd (getline s)))"
  by pat_completeness auto
termination
  by (relation "measure length") (use getline_shorter in auto)

declare text_lines.simps [simp del]

lemma text_lines_Nil [simp]: "text_lines [] = []"
  by (simp add: text_lines.simps)

lemma takeWhile_id: "c \<notin> set l \<Longrightarrow> takeWhile (\<lambda>x. x \<noteq> c) l = l"
  by (induction l) auto

lemma getline_line [simp]: "c_nl \<notin> set l \<Longrightarrow> getline (l @ c_nl # s) = (l @ [c_nl], s)"
  by (simp add: getline_def Let_def takeWhile_tail takeWhile_id)

lemma file_of_simps [simp]: "file_of [] = []" "file_of (l # ls) = l @ c_nl # file_of ls"
  by (simp_all add: file_of_def)


lemma getline_cases:
  assumes "s \<noteq> []"
  obtains (line) l r where "s = l @ c_nl # r" "c_nl \<notin> set l" "getline s = (l @ [c_nl], r)"
    | (last) "c_nl \<notin> set s" "getline s = (s, [])"
proof (cases "c_nl \<in> set s")
  case True
  then obtain l r where lr: "s = l @ c_nl # r" "c_nl \<notin> set l" by (metis split_list_first)
  show ?thesis by (rule line [OF lr]) (simp add: lr)
next
  case False
  then show ?thesis using last takeWhile_id [of c_nl s] by (simp add: getline_def Let_def)
qed

text \<open>A file that ends in a newline, or is empty, is the file of its lines; otherwise one is missing.\<close>
lemma file_of_text_lines:
  "file_of (text_lines s) = (if s = [] \<or> last s = c_nl then s else strip_eol s @ [c_nl])"
proof (induction s rule: text_lines.induct)
  case (1 s)
  show ?case
  proof (cases "s = []")
    case False
    then show ?thesis
    proof (cases rule: getline_cases)
      case (line l r)
      have "file_of (text_lines s) = l @ c_nl # file_of (text_lines r)"
        using False line(3) by (simp add: text_lines.simps [of s] strip_eol_def)
      moreover have "strip_eol s = l @ c_nl # strip_eol r" if "r \<noteq> []" "last r \<noteq> c_nl"
        using that by (auto simp: line(1) strip_eol_def butlast_append)
      ultimately show ?thesis using 1 False line by auto
    next
      case last
      then have "last s \<noteq> c_nl" using False by (metis last_in_set)
      then show ?thesis using False last by (simp add: text_lines.simps [of s])
    qed
  qed simp
qed

section \<open>Rows and files\<close>

lemma editorRowsToString_rep: "list_all2 row_rep ls rs \<Longrightarrow> editorRowsToString rs = Some (file_of ls)"
  by (induction ls rs rule: list_all2_induct) (simp_all add: chars_repD(4) [OF row_rep_chars])

lemma load_rows_rep:
  assumes "plain E" and "text_rep ls E"
  shows "\<exists>rs d. load_rows s E = Some (set_buf rs d E) \<and> list_all2 row_rep (ls @ text_lines s) rs"
  using assms
proof (induction s E arbitrary: ls rule: load_rows.induct)
  case (1 s E)
  show ?case
  proof (cases "s = []")
    case True
    have "set_buf (E_row E) (E_dirty E) E = E" using 1(3) by (simp add: set_buf_def text_rep_def)
    then show ?thesis using True 1(3) by (metis append_Nil2 text_lines_Nil load_rows.simps text_rep_def)
  next
    case False
    define l where "l = strip_eol (fst (getline s))"
    note len = text_rep_len [OF 1(3)]
    obtain rs where rs: "editorInsertRow (E_numrows E) (l @ [c_nul]) (length l) E = Some (set_buf rs (E_dirty E + 1) E)"
        "list_all2 row_rep (ls @ [l]) rs"
      using editorInsertRow_rep [OF 1(2,3), of "length ls" l "l @ [c_nul]"] len by auto
    define E1 where "E1 = set_buf rs (E_dirty E + 1) E"
    have E1: "plain E1" "text_rep (ls @ [l]) E1" using 1(2) rs(2) by (simp_all add: E1_def plain_def)
    have "\<exists>rs2 d. load_rows (snd (getline s)) E1 = Some (set_buf rs2 d E1) \<and>
        list_all2 row_rep ((ls @ [l]) @ text_lines (snd (getline s))) rs2"
      by (rule 1(1)) (use False E1 rs(1) in \<open>simp_all add: l_def E1_def\<close>)
    moreover have "load_rows s E = load_rows (snd (getline s)) E1"
      using False rs(1) by (subst load_rows.simps) (simp add: l_def Let_def E1_def)
    moreover have "text_lines s = l # text_lines (snd (getline s))"
      using False by (simp add: text_lines.simps [of s] l_def)
    ultimately show ?thesis by (auto simp: E1_def)
  qed
qed

text \<open>An editor without rows reads a file.\<close>
lemma editorOpen_rep:
  assumes "plain (K_E w)" "E_row (K_E w) = []" "E_numrows (K_E w) = 0" and "\<not> kv_fopen_err v" and "K_files w f = Some s"
  shows "\<exists>rs. editorOpen v f w = Some (Return (0, w\<lparr>K_E := (set_buf rs 0 (K_E w))\<lparr>E_filename := Some f\<rparr>\<rparr>)) \<and>
    list_all2 row_rep (text_lines s) rs"
proof -
  define E1 where "E1 = (K_E w)\<lparr>E_dirty := 0, E_filename := Some f\<rparr>"
  have "plain E1" "text_rep [] E1" using assms(1-3) by (simp_all add: E1_def plain_def text_rep_def)
  then obtain rs d where rs: "load_rows s E1 = Some (set_buf rs d E1)" "list_all2 row_rep (text_lines s) rs"
    using load_rows_rep [of E1 "[]" s] by auto
  have "(set_buf rs d E1)\<lparr>E_dirty := 0\<rparr> = (set_buf rs 0 (K_E w))\<lparr>E_filename := Some f\<rparr>"
    by (simp add: E1_def set_buf_def)
  then show ?thesis
    using assms(4,5) rs by (intro exI [of _ rs]) (simp add: editorOpen_def E1_def [symmetric] Let_def)
qed

definition save_ok :: "save_io \<Rightarrow> bool" where
  "save_ok io \<longleftrightarrow> sv_open io \<and> sv_trunc io \<and> (\<forall>n. sv_write io n = Some n)"

lemma text_rep_other [simp]:
  "text_rep ls (E\<lparr>E_dirty := d\<rparr>) = text_rep ls E" "text_rep ls (E\<lparr>E_statusmsg := m\<rparr>) = text_rep ls E"
  "text_rep ls (E\<lparr>E_statusmsg_time := i\<rparr>) = text_rep ls E" "text_rep ls (E\<lparr>E_filename := f\<rparr>) = text_rep ls E"
  "text_rep ls (E\<lparr>E_rawmode := b\<rparr>) = text_rep ls E"
  by (simp_all add: text_rep_def)

lemma buf_rep_other [simp]:
  "buf_rep b (E\<lparr>E_dirty := d\<rparr>) = buf_rep b E" "buf_rep b (E\<lparr>E_statusmsg := m\<rparr>) = buf_rep b E"
  "buf_rep b (E\<lparr>E_statusmsg_time := i\<rparr>) = buf_rep b E" "buf_rep b (E\<lparr>E_rawmode := q\<rparr>) = buf_rep b E"
  by (simp_all add: buf_rep_def plain_def cursor_rep_def filerow_def filecol_def split: prod.splits)

lemma editorSave_plain:
  assumes "text_rep ls (K_E w)" and "E_filename (K_E w) = Some f" and "save_ok (kv_save v (K_saves w))"
  shows "\<exists>w2. editorSave v w = Some (0, w2) \<and> K_files w2 = (K_files w)(f \<mapsto> file_of ls) \<and> E_dirty (K_E w2) = 0 \<and>
    (buf_rep b (K_E w) \<longrightarrow> buf_rep b (K_E w2)) \<and> frame (K_E w) (K_E w2) \<and>
    E_numrows (K_E w2) = E_numrows (K_E w) \<and> K_in w2 = K_in w \<and> K_exiting w2 = K_exiting w \<and> text_rep ls (K_E w2)"
proof -
  have buf: "editorRowsToString (take (E_numrows (K_E w)) (E_row (K_E w))) = Some (file_of ls)"
    using assms(1) by (simp add: text_rep_def editorRowsToString_rep)
  define w2 where "w2 = snd (save_file v (kv_save v (K_saves w)) f (file_of ls) (w\<lparr>K_saves := K_saves w + 1\<rparr>))"
  have "save_file v (kv_save v (K_saves w)) f (file_of ls) (w\<lparr>K_saves := K_saves w + 1\<rparr>) = (0, w2)"
    using assms(3) by (simp add: w2_def save_file_def save_ok_def Let_def)
  then have "editorSave v w = Some (0, w2)"
    using assms(2) by (simp add: editorSave_def buf Let_def)
  moreover have "K_files w2 = (K_files w)(f \<mapsto> file_of ls)" "E_dirty (K_E w2) = 0" "text_rep ls (K_E w2)"
      "buf_rep b (K_E w) \<longrightarrow> buf_rep b (K_E w2)" "frame (K_E w) (K_E w2)" "E_numrows (K_E w2) = E_numrows (K_E w)"
      "K_in w2 = K_in w" "K_exiting w2 = K_exiting w"
    using assms(1,3)
    by (simp_all add: w2_def save_file_def save_ok_def put_file_def written_def overwrite_def ftruncate_def
          editorSetStatusMessage_def frame_def Let_def)
  ultimately show ?thesis by blast
qed

lemma editorSave_rep:
  assumes "text_rep ls (K_E w)" and "E_filename (K_E w) = Some f" and "save_ok (kv_save v (K_saves w))"
  shows "\<exists>w2. editorSave v w = Some (0, w2) \<and> K_files w2 = (K_files w)(f \<mapsto> file_of ls) \<and> E_dirty (K_E w2) = 0 \<and>
    text_rep ls (K_E w2)"
  using editorSave_plain [OF assms] by blast

text \<open>An editor before it opens a file, in a world where nothing fails.\<close>
definition env_fine :: kilo_env where
  "env_fine = \<lparr>kv_isatty = True, kv_tcgetattr = True, kv_tcsetattr = True, kv_winsize = Some (26, 80), kv_fopen_err = False,
     kv_clock = (\<lambda>_. 0), kv_save = (\<lambda>_. \<lparr>sv_open = True, sv_trunc = True, sv_write = Some, sv_err = ''EIO''\<rparr>)\<rparr>"

definition env_full :: kilo_env where
  "env_full = env_fine\<lparr>kv_save := (\<lambda>_. \<lparr>sv_open = True, sv_trunc = True, sv_write = (\<lambda>_. Some 2), sv_err = ''ENOSPC''\<rparr>)\<rparr>"

definition term0 :: termios where
  "term0 = \<lparr>c_iflag = 0x500, c_oflag = 5, c_cflag = 0xBF, c_lflag = 0x8A3B, c_vmin = 1, c_vtime = 0\<rparr>"

definition kilo_of :: "editorConfig \<Rightarrow> (string \<rightharpoonup> string) \<Rightarrow> char option list \<Rightarrow> kilo" where
  "kilo_of E files inp = \<lparr>K_E = E, K_exiting = False, K_quit = KILO_QUIT_TIMES, K_in = inp, K_out = [], K_files = files,
     K_ticks = 0, K_saves = 0, K_term = term0, K_orig = term0, K_atexit = 0\<rparr>"

lemma save_ok_env_fine [simp]: "save_ok (kv_save env_fine n)"
  by (simp add: save_ok_def env_fine_def)

lemma plain_config_of [simp]: "plain (config_of ls cx cy rowoff cols)"
  by (simp add: plain_def config_of_def)

lemma config_of_empty [simp]: "E_row (config_of [] cx cy rowoff cols) = []" "E_numrows (config_of [] cx cy rowoff cols) = 0"
  by (simp_all add: config_of_def)

lemma kilo_of_simps [simp]:
  "K_E (kilo_of E files inp) = E" "K_files (kilo_of E files inp) = files" "K_in (kilo_of E files inp) = inp"
  "K_quit (kilo_of E files inp) = 3" "K_exiting (kilo_of E files inp) = False"
  by (simp_all add: kilo_of_def KILO_QUIT_TIMES_def)

lemma config_of_filename [simp]: "E_filename (config_of ls cx cy rowoff cols) = Some ''notes''"
  by (simp add: config_of_def)



text \<open>
  Opening a file and saving it again leaves the file as it was when it is empty or ends in a newline; otherwise the
  missing newline is added, for a carriage return at the end if there is one.\<close>
theorem open_save_roundtrip:
  assumes "plain (K_E w)" "E_row (K_E w) = []" "E_numrows (K_E w) = 0" "\<not> kv_fopen_err v" and "K_files w f = Some s"
    and "save_ok (kv_save v (K_saves w))"
  shows "\<exists>w1 w2. editorOpen v f w = Some (Return (0, w1)) \<and> editorSave v w1 = Some (0, w2) \<and>
    K_files w2 f = Some (if s = [] \<or> last s = c_nl then s else strip_eol s @ [c_nl])"
proof -
  obtain rs where rs: "editorOpen v f w = Some (Return (0, w\<lparr>K_E := (set_buf rs 0 (K_E w))\<lparr>E_filename := Some f\<rparr>\<rparr>))"
      "list_all2 row_rep (text_lines s) rs"
    using editorOpen_rep [OF assms(1-5)] by blast
  define w1 where "w1 = w\<lparr>K_E := (set_buf rs 0 (K_E w))\<lparr>E_filename := Some f\<rparr>\<rparr>"
  have "text_rep (text_lines s) (K_E w1)" "E_filename (K_E w1) = Some f" "K_saves w1 = K_saves w"
    using rs(2) by (simp_all add: w1_def text_rep_def)
  then obtain w2 where "editorSave v w1 = Some (0, w2)" "K_files w2 = (K_files w1)(f \<mapsto> file_of (text_lines s))"
    using editorSave_rep [of "text_lines s" w1 f v] assms(6) by auto
  then show ?thesis
    using rs(1) file_of_text_lines [of s] unfolding w1_def by (intro exI) (auto simp del: if_split)
qed

lemma open_save_roundtrip_witness:
  "\<exists>w1 w2. editorOpen env_fine ''f'' (kilo_of (config_of [] 0 0 0 80) [''f'' \<mapsto> ''ab''] []) = Some (Return (0, w1)) \<and>
     editorSave env_fine w1 = Some (0, w2) \<and> K_files w2 ''f'' = Some (''ab'' @ [c_nl])"
  using open_save_roundtrip [of "kilo_of (config_of [] 0 0 0 80) [''f'' \<mapsto> ''ab''] []" env_fine "''f''" "''ab''"]
  by (simp add: c_nl_def c_cr_def strip_eol_def env_fine_def save_ok_def)

text \<open>
  A save whose \<open>write\<close> falls short returns 1 and keeps the changes marked as unsaved, but the file is no longer what it
  was: it has the new length, the written part of the new text, and behind it what is left of the old one.\<close>
theorem short_write_damages_file:
  assumes "text_rep ls (K_E w)" and "E_filename (K_E w) = Some f" and "K_files w f = Some old"
    and "sv_open (kv_save v (K_saves w))" "sv_trunc (kv_save v (K_saves w))"
    and "sv_write (kv_save v (K_saves w)) (length (file_of ls)) = Some n" "n < length (file_of ls)"
  shows "\<exists>w2. editorSave v w = Some (1, w2) \<and> E_dirty (K_E w2) = E_dirty (K_E w) \<and>
    K_files w2 f = Some (take n (file_of ls) @ drop n (ftruncate (length (file_of ls)) old)) \<and>
    length (the (K_files w2 f)) = length (file_of ls)"
proof -
  have buf: "editorRowsToString (take (E_numrows (K_E w)) (E_row (K_E w))) = Some (file_of ls)"
    using assms(1) by (simp add: text_rep_def editorRowsToString_rep)
  define io where "io = kv_save v (K_saves w)"
  define w2 where "w2 = snd (save_file v io f (file_of ls) (w\<lparr>K_saves := K_saves w + 1\<rparr>))"
  have io: "sv_open io" "sv_trunc io" "sv_write io (length (file_of ls)) = Some n"
    using assms(4-6) by (simp_all add: io_def)
  then have "save_file v io f (file_of ls) (w\<lparr>K_saves := K_saves w + 1\<rparr>) = (1, w2)"
    using assms(7) by (simp add: w2_def save_file_def save_failed_def Let_def)
  then have "editorSave v w = Some (1, w2)"
    using assms(2) by (simp add: editorSave_def buf Let_def io_def)
  moreover have "E_dirty (K_E w2) = E_dirty (K_E w)"
      "K_files w2 f = Some (take n (file_of ls) @ drop n (ftruncate (length (file_of ls)) old))"
    using assms(3,7) io
    by (simp_all add: w2_def save_file_def save_failed_def put_file_def written_def overwrite_def file_bytes_def
          editorSetStatusMessage_def Let_def)
  ultimately show ?thesis using assms(7) by (simp add: ftruncate_def)
qed

lemma short_write_damages_file_witness:
  "\<exists>w2. editorSave env_full (kilo_of (config_of [''ab'', ''c''] 0 0 0 80) [''notes'' \<mapsto> ''wxyz''] []) = Some (1, w2) \<and>
     K_files w2 ''notes'' = Some (''abyz'' @ [c_nul])"
  using short_write_damages_file [of "[''ab'', ''c'']" "kilo_of (config_of [''ab'', ''c''] 0 0 0 80) [''notes'' \<mapsto> ''wxyz''] []"
      "''notes''" "''wxyz''" env_full 2]
  by (auto simp: env_full_def ftruncate_def)

section \<open>Unsaved changes\<close>

lemma save_file_exiting: "K_exiting (snd (save_file v io n b w)) = K_exiting w"
  by (simp add: save_file_def save_failed_def put_file_def editorSetStatusMessage_def Let_def)

lemma editorSave_exiting:
  assumes "editorSave v w = Some (r, w1)"
  shows "K_exiting w1 = K_exiting w"
proof (cases "E_filename (K_E w)")
  case None
  then show ?thesis
    using assms by (auto simp: editorSave_def Let_def bind_eq_Some_conv save_failed_def editorSetStatusMessage_def)
next
  case (Some f)
  then obtain buf where "save_file v (kv_save v (K_saves w)) f buf (w\<lparr>K_saves := K_saves w + 1\<rparr>) = (r, w1)"
    using assms by (auto simp: editorSave_def Let_def bind_eq_Some_conv)
  from arg_cong [OF this, of "\<lambda>x. K_exiting (snd x)"] show ?thesis by (simp add: save_file_exiting)
qed

lemma find_prompt_exiting: "find_prompt v f w = Some (c, w1) \<Longrightarrow> K_exiting w1 = K_exiting w"
  by (auto simp: find_prompt_def editorRefreshScreen_def editorSetStatusMessage_def bind_eq_Some_conv)

lemma editorFind_loop_exiting: "editorFind_loop v E0 f w = Some w1 \<Longrightarrow> K_exiting w1 = K_exiting w"
proof (induction v E0 f w rule: editorFind_loop.induct)
  case (1 v E0 f w)
  from 1(2) obtain c wp where p: "find_prompt v f w = Some (c, wp)"
    by (subst (asm) editorFind_loop.simps) (auto split: option.splits)
  show ?case
  proof (cases "c = ESC_KEY \<or> c = ENTER_KEY")
    case True
    then have "K_exiting w1 = K_exiting wp"
      using 1(2) p by (subst (asm) editorFind_loop.simps) (auto simp: editorSetStatusMessage_def Let_def)
    then show ?thesis using find_prompt_exiting [OF p] by simp
  next
    case False
    then obtain f1 f2 E2 where "find_key c f = Some f1" "find_search f1 (K_E wp) = Some (f2, E2)"
        "editorFind_loop v E0 f2 (wp\<lparr>K_E := E2\<rparr>) = Some w1"
      using 1(2) p by (subst (asm) editorFind_loop.simps) (auto split: option.splits)
    then have "K_exiting w1 = K_exiting wp"
      using 1(1) [OF p refl False, of f1 "(f2, E2)" f2 E2] by simp
    then show ?thesis using find_prompt_exiting [OF p] by simp
  qed
qed

text \<open>A key either is a Ctrl-Q that is counted, or sets the counter back; only Ctrl-Q ends the editor.\<close>
lemma process_key_quit:
  assumes "process_key v c w = Some w1"
  shows "(c = CTRL_Q \<and> E_dirty (K_E w) \<noteq> 0 \<and> K_quit w \<noteq> 0 \<and> K_quit w1 = K_quit w - 1 \<and> K_exiting w1 = K_exiting w) \<or>
    (\<not> (c = CTRL_Q \<and> E_dirty (K_E w) \<noteq> 0 \<and> K_quit w \<noteq> 0) \<and> K_quit w1 = 3 \<and>
      (if c = CTRL_Q then K_exiting w1 \<and> K_E w1 = K_E w else K_exiting w1 = K_exiting w))"
proof (cases "c = CTRL_Q \<and> E_dirty (K_E w) \<noteq> 0 \<and> K_quit w \<noteq> 0")
  case True
  then show ?thesis using assms by (auto simp: process_key_def editorSetStatusMessage_def)
next
  case False
  then obtain w2 where w2: "(if c = CTRL_Q then Some (w\<lparr>K_exiting := True\<rparr>)
       else if c = CTRL_S then map_option snd (editorSave v w)
       else if c = CTRL_F_KEY then editorFind v w
       else map_option (\<lambda>E. w\<lparr>K_E := E\<rparr>) (edit_command c (K_E w))) = Some w2" "w1 = w2\<lparr>K_quit := 3\<rparr>"
    using assms by (auto simp: process_key_def bind_eq_Some_conv KILO_QUIT_TIMES_def simp del: if_split_asm split del: if_split)
  have "if c = CTRL_Q then K_exiting w2 \<and> K_E w2 = K_E w else K_exiting w2 = K_exiting w"
    using w2(1) editorSave_exiting editorFind_loop_exiting
    by (auto simp: editorFind_def split: if_splits)
  then show ?thesis using False w2(2) by simp
qed

lemma quit_counter:
  "fold_opt (process_key v) ks w = Some w1 \<Longrightarrow> K_quit w = 3 \<Longrightarrow>
     K_quit w1 \<le> 3 \<and> (\<exists>pre. ks = pre @ replicate (3 - K_quit w1) CTRL_Q)"
proof (induction ks arbitrary: w1 rule: rev_induct)
  case (snoc c ks)
  then obtain wm where wm: "fold_opt (process_key v) ks w = Some wm" "process_key v c wm = Some w1"
    by (auto simp: fold_opt_append split: option.splits)
  then obtain pre where pre: "K_quit wm \<le> 3" "ks = pre @ replicate (3 - K_quit wm) CTRL_Q"
    using snoc by blast
  from process_key_quit [OF wm(2)] show ?case
  proof (elim disjE conjE)
    assume c: "c = CTRL_Q" "K_quit wm \<noteq> 0" "K_quit w1 = K_quit wm - 1"
    then have "3 - K_quit w1 = Suc (3 - K_quit wm)" using pre(1) by simp
    then have "ks @ [c] = pre @ replicate (3 - K_quit w1) CTRL_Q"
      using pre(2) c(1) by (simp add: replicate_append_same)
    then show ?thesis using c pre(1) by auto
  qed simp
qed simp

text \<open>
  C29. The editor is never left with unsaved changes but by four Ctrl-Q in a row: any other key between them starts the
  count again.\<close>
theorem quit_keeps_changes:
  assumes "K_quit w = 3" and "fold_opt (process_key v) ks w = Some w1" and "\<not> K_exiting w1"
    and "process_key v c w1 = Some w2" and "K_exiting w2" and "E_dirty (K_E w2) \<noteq> 0"
  shows "\<exists>pre. ks @ [c] = pre @ replicate 4 CTRL_Q"
proof -
  from process_key_quit [OF assms(4)] have c: "c = CTRL_Q" "K_quit w1 = 0"
    using assms(3,5,6) by (auto split: if_splits)
  then obtain pre where "ks = pre @ replicate 3 CTRL_Q"
    using quit_counter [OF assms(2,1)] by auto
  then have "ks @ [c] = pre @ replicate 4 CTRL_Q" using c(1) by (simp add: eval_nat_numeral)
  then show ?thesis by blast
qed

lemma quit_keeps_changes_witness:
  "\<exists>pre. replicate 3 CTRL_Q @ [CTRL_Q] = pre @ replicate 4 CTRL_Q"
proof -
  define w where "w = kilo_of ((config_of [] 0 0 0 80)\<lparr>E_dirty := 1\<rparr>) Map.empty []"
  define w1 where "w1 = the (fold_opt (process_key env_fine) (replicate 3 CTRL_Q) w)"
  define w2 where "w2 = the (process_key env_fine CTRL_Q w1)"
  have w1: "fold_opt (process_key env_fine) (replicate 3 CTRL_Q) w = Some w1" "K_quit w1 = 0" "\<not> K_exiting w1" "E_dirty (K_E w1) = 1"
    by (simp_all add: w1_def w_def process_key_def editorSetStatusMessage_def eval_nat_numeral)
  then have "process_key env_fine CTRL_Q w1 = Some w2" "K_exiting w2" "E_dirty (K_E w2) \<noteq> 0"
    by (simp_all add: w2_def process_key_def)
  then show ?thesis
    using quit_keeps_changes [OF _ w1(1,3), of CTRL_Q w2] by (simp add: w_def)
qed

end
