(* ===== verification/KiloSession.thy ===== *)
theory KiloSession
  imports KiloFile
begin

text \<open>
  A whole session with the editor of src/kilo.c: drawing the screen never fails while the editor represents a buffer, so
  that the main loop runs over any text that is typed, and what is typed and saved is in the file at the end.
\<close>

section \<open>Drawing the screen\<close>

lemma length_show_nat: "n < 10 ^ d \<Longrightarrow> 0 < d \<Longrightarrow> length (show_nat n) \<le> d"
proof (induction d arbitrary: n)
  case (Suc d)
  show ?case
  proof (cases "n < 10")
    case False
    then have "n div 10 < 10 ^ d" "0 < d" using Suc(2) by (auto simp: less_mult_imp_div_less intro: gr0I)
    then show ?thesis using Suc(1) [of "n div 10"] False by (subst show_nat.simps) simp
  qed (simp add: show_nat.simps [of n])
qed simp

text \<open>The screen is wide enough for the first line of an empty file, and the number of lines is one that \<open>%d\<close> can print.\<close>
definition screen_ok :: "editorConfig \<Rightarrow> bool" where
  "screen_ok E \<longleftrightarrow> int (length welcome_text) \<le> E_screencols E + 1 \<and> E_numrows E < 10 ^ 10"

lemma cursor_column_defined:
  "chars_rep t r \<Longrightarrow> 0 \<le> j \<Longrightarrow> \<exists>x. cursor_column r n j cx = Some x"
proof (induction n arbitrary: j cx)
  case (Suc n)
  note cr = chars_repD [OF Suc(2)]
  show ?case
  proof (cases "j < int (erow_size r)")
    case True
    then have "nth_opt (erow_chars r) (nat j) = Some (erow_chars r ! nat j)" using Suc(3) cr(1,2) by simp
    then show ?thesis using Suc(1) [OF Suc(2), of "j + 1"] Suc(3) True by simp
  next
    case False
    then show ?thesis using Suc(1) [OF Suc(2), of "j + 1"] Suc(3) by simp
  qed
qed simp

lemma row_cells_defined:
  assumes "row_rep t r" and "0 \<le> E_coloff E"
  shows "\<exists>cs. row_cells E r = Some cs"
proof -
  have r: "erow_rsize r \<le> length (erow_render r)" "length (erow_hl r) = erow_rsize r"
    using assms(1) by (simp_all add: row_rep_def rendered_def)
  define n where "n = (if E_screencols E < int (erow_rsize r) - E_coloff E then E_screencols E else int (erow_rsize r) - E_coloff E)"
  have "nat (E_coloff E) + nat n \<le> erow_rsize r" if "0 < int (erow_rsize r) - E_coloff E"
    using that assms(2) by (auto simp: n_def)
  then show ?thesis
    using assms(2) r by (cases "0 < int (erow_rsize r) - E_coloff E") (simp_all add: row_cells_def Let_def n_def [symmetric])
qed

lemma draw_welcome_defined: "int (length welcome_text) \<le> cols + 1 \<Longrightarrow> \<exists>s. draw_welcome cols = Some s"
  by (auto simp: draw_welcome_def Let_def)

lemma draw_line_defined:
  assumes "buf_rep b E" and "screen_ok E" and "0 \<le> y"
  shows "\<exists>s. draw_line E y = Some s"
proof -
  obtain ls r k where b: "b = (ls, r, k)" by (cases b)
  note rep = buf_repD [OF assms(1) [unfolded b]]
  have y: "E_rowoff E + y = int (nat (E_rowoff E + y))" using rep(10) assms(3) by simp
  note row = row_at_rep [OF rep(2), of "nat (E_rowoff E + y)", folded y]
  show ?thesis
  proof (cases "nat (E_rowoff E + y) < length ls")
    case True
    obtain cs where "row_cells E (E_row E ! nat (E_rowoff E + y)) = Some cs"
      using row_cells_defined [OF text_rep_nth [OF rep(2) True] rep(8)] by blast
    then show ?thesis using row True by (simp add: draw_line_def)
  next
    case False
    then show ?thesis
      using row draw_welcome_defined [of "E_screencols E"] assms(2) by (auto simp: draw_line_def screen_ok_def)
  qed
qed

lemma draw_lines_defined:
  assumes "buf_rep b E" and "screen_ok E"
  shows "\<exists>s. draw_lines E y n = Some s"
proof (induction n arbitrary: y)
  case (Suc n)
  obtain a where "draw_line E (int y) = Some a" using draw_line_defined [OF assms, of "int y"] by auto
  then show ?case using Suc [of "Suc y"] by auto
qed simp

lemma status_line_defined:
  assumes "screen_ok E"
  shows "\<exists>s. status_line E = Some s"
proof -
  have n: "length (show_nat (E_numrows E)) \<le> 10"
    by (rule length_show_nat) (use assms in \<open>simp_all add: screen_ok_def\<close>)
  define name where "name = (case E_filename E of None \<Rightarrow> ''(null)'' | Some f \<Rightarrow> f)"
  define full where "full = take 20 name @ '' - '' @ show_nat (E_numrows E) @ '' lines '' @
                 (if E_dirty E \<noteq> 0 then ''(modified)'' else [])"
  have "length (take 20 name) \<le> 20" by simp
  then have full: "length full \<le> 60" using n by (simp add: full_def del: length_take)
  have cols: "0 \<le> E_screencols E" using assms by (simp add: screen_ok_def welcome_text_def KILO_VERSION_def snprintf_def)
  define len where "len = (if E_screencols E < int (length full) then E_screencols E else int (length full))"
  define rstatus where "rstatus = snprintf 80 (show_int (filerow E + 1) @ ''/'' @ show_nat (E_numrows E))"
  have "status_line E = do { a \<leftarrow> abAppend [] (snprintf 80 full) len; Some (a @ status_fill (nat (E_screencols E - len)) rstatus) }"
    by (simp only: status_line_def Let_def name_def full_def len_def rstatus_def)
  moreover have "0 \<le> len" "nat len \<le> length (snprintf 80 full)"
    using full cols by (auto simp: len_def snprintf_def)
  ultimately show ?thesis by (simp add: abAppend_def)
qed

lemma editorRefreshScreen_defined:
  assumes "buf_rep b (K_E w)" and "screen_ok (K_E w)"
  obtains t i where "editorRefreshScreen v w = Some (w\<lparr>K_out := t, K_ticks := i\<rparr>)"
proof -
  obtain ls r k where b: "b = (ls, r, k)" by (cases b)
  define E where "E = K_E w"
  note rep = buf_repD [OF assms(1) [unfolded b], folded E_def]
  obtain a where a: "draw_lines E 0 (nat (E_screenrows E)) = Some a"
    using draw_lines_defined [OF assms] E_def by blast
  obtain s where s: "status_line E = Some s" using status_line_defined assms(2) E_def by blast
  have cols: "0 \<le> E_screencols E"
    using assms(2) by (simp add: E_def screen_ok_def welcome_text_def KILO_VERSION_def snprintf_def)
  define len where "len = (if int (length (E_statusmsg E)) \<le> E_screencols E then int (length (E_statusmsg E)) else E_screencols E)"
  have m: "abAppend [] (E_statusmsg E) len = Some (take (nat len) (E_statusmsg E))"
    using cols by (auto simp: abAppend_def len_def)
  have "\<exists>x. (case (if r < length ls then Some (E_row E ! r) else None) of None \<Rightarrow> Some 1
      | Some q \<Rightarrow> cursor_column q (nat (E_cx E)) (E_coloff E) 1) = Some x"
    using cursor_column_defined [OF row_rep_chars [OF text_rep_nth [OF rep(2)]] rep(8)] by auto
  then obtain x where "(case (if r < length ls then Some (E_row E ! r) else None) of None \<Rightarrow> Some 1
      | Some q \<Rightarrow> cursor_column q (nat (E_cx E)) (E_coloff E) 1) = Some x" by blast
  then have "\<exists>t. screen_text E now1 = Some t" for now1
    using a s m row_at_rep [OF rep(2), of r] rep(4)
    by (simp add: screen_text_def Let_def len_def [symmetric])
  then obtain t where "screen_text (K_E w) (kv_clock v (K_ticks w)) = Some t" unfolding E_def by blast
  then have "editorRefreshScreen v w = Some (w\<lparr>K_out := K_out w @ t, K_ticks := K_ticks w + (if E_statusmsg (K_E w) \<noteq> [] then 1 else 0)\<rparr>)"
    by (simp add: editorRefreshScreen_def)
  then show thesis by (rule that)
qed

section \<open>Typing\<close>

definition typable :: "char \<Rightarrow> bool" where
  "typable c \<longleftrightarrow> c_isprint c \<or> c = c_cr"

lemma typable_key:
  assumes "typable c"
  shows "int_of_char c = 13 \<and> c = c_cr \<or> 32 \<le> int_of_char c \<and> int_of_char c \<le> 126 \<and> c \<noteq> c_cr"
    and "char_of_int (int_of_char c) = c"
proof -
  have "(of_char c :: int) = int (of_char c :: nat)" by (cases c) (simp add: of_char_def)
  then show "int_of_char c = 13 \<and> c = c_cr \<or> 32 \<le> int_of_char c \<and> int_of_char c \<le> 126 \<and> c \<noteq> c_cr"
    using assms by (auto simp: typable_def c_isprint_def int_of_char_def c_cr_def Let_def)
  have "((of_char c :: int) - 256) mod 256 = of_char c" by simp
  then have "char_of ((of_char c :: int) - 256) = c"
    by (metis char_of_mod_256 char_of_char)
  then show "char_of_int (int_of_char c) = c"
    by (simp add: char_of_int_def int_of_char_def Let_def)
qed

lemma typable_safe:
  assumes "typable c"
  shows "key_safe (int_of_char c) b E" "int_of_char c \<noteq> CTRL_Q" "int_of_char c \<noteq> CTRL_S" "int_of_char c \<noteq> CTRL_F_KEY"
    "int_of_char c \<noteq> ESC_KEY"
  using typable_key(1) [OF assms] by (auto simp: key_safe_def key_defs split: prod.splits)

lemma buf_command_typed:
  assumes "typable c"
  shows "buf_command (int_of_char c) b = (if c = c_cr then buf_newline b else buf_insert c b)"
  using typable_key [OF assms] by (auto simp: buf_command_def key_defs)

text \<open>One turn of the main loop.\<close>
lemma kilo_loop_typed:
  assumes rep: "buf_rep b (K_E w)" and ok: "screen_ok (K_E w)" and w: "\<not> K_exiting w" "K_in w = Some c # rest"
    and c: "typable c"
  obtains w2 where "kilo_loop v w = kilo_loop v w2" "\<not> K_exiting w2" "K_in w2 = rest"
    "buf_rep (buf_command (int_of_char c) b) (K_E w2)" "frame (K_E w) (K_E w2)"
    "K_files w2 = K_files w" "K_saves w2 = K_saves w"
proof -
  obtain t i where t: "editorRefreshScreen v w = Some (w\<lparr>K_out := t, K_ticks := i\<rparr>)"
    using editorRefreshScreen_defined [OF rep ok] by blast
  have "0 < E_screencols (K_E w)"
    using ok by (simp add: screen_ok_def welcome_text_def KILO_VERSION_def snprintf_def)
  from edit_command_yields [OF rep this typable_safe(1) [OF c]]
  obtain F where F: "edit_command (int_of_char c) (K_E w) = Some F" "buf_rep (buf_command (int_of_char c) b) F" "frame (K_E w) F"
    by (auto simp: yields_def)
  define w2 where "w2 = w\<lparr>K_out := t, K_ticks := i, K_in := rest, K_E := F, K_quit := KILO_QUIT_TIMES\<rparr>"
  have "editorReadKey (K_in w) = Some (int_of_char c, rest)"
    using w(2) typable_safe(5) [OF c] by (simp add: editorReadKey_def)
  then have "editorProcessKeypress v (w\<lparr>K_out := t, K_ticks := i\<rparr>) = Some w2"
    using typable_safe(2-4) [OF c] F(1) by (simp add: editorProcessKeypress_def process_key_def w2_def)
  then have "kilo_loop v w = kilo_loop v w2"
    using t w(1) by (subst kilo_loop.simps) simp
  then show thesis
    by (rule that) (use F w in \<open>simp_all add: w2_def\<close>)
qed

text \<open>What has been typed into an empty file, as a buffer.\<close>
definition newline_of :: "char \<Rightarrow> char" where
  "newline_of c = (if c = c_cr then c_nl else c)"

definition typed_state :: "string \<Rightarrow> buffer \<Rightarrow> bool" where
  "typed_state s b \<longleftrightarrow>
     (if set s \<subseteq> {c_cr} then b = (replicate (length s) [], length s, 0)
      else \<exists>ls l. b = (ls @ [l], length ls, length l) \<and> file_of (ls @ [l]) = map newline_of s @ [c_nl] \<and>
             length ls < length s)"

lemma file_of_append [simp]: "file_of (a @ b) = file_of a @ file_of b"
  by (simp add: file_of_def)

lemma file_of_empty_lines: "file_of (replicate n []) = replicate n c_nl"
  by (induction n) simp_all

lemma newlines_only: "set s \<subseteq> {c_cr} \<Longrightarrow> map newline_of s = replicate (length s) c_nl"
  by (induction s) (auto simp: newline_of_def)

lemma typed_state_step:
  assumes "typed_state s b" and "typable c"
  shows "typed_state (s @ [c]) (buf_command (int_of_char c) b)"
proof (cases "set s \<subseteq> {c_cr}")
  case True
  then have b: "b = (replicate (length s) [], length s, 0)" using assms(1) by (simp add: typed_state_def)
  show ?thesis
  proof (cases "c = c_cr")
    case c: True
    then show ?thesis
      using True b assms(2) by (simp add: typed_state_def buf_command_typed buf_newline_def replicate_append_same)
  next
    case c: False
    have "buf_insert c b = (replicate (length s) [] @ [[c]], length s, 1)"
      by (simp add: b buf_insert_def Let_def nth_append list_update_append)
    then show ?thesis
      using True c assms(2) newlines_only [OF True]
      by (simp add: typed_state_def buf_command_typed file_of_empty_lines newline_of_def)
  qed
next
  case False
  then obtain ls l where b: "b = (ls @ [l], length ls, length l)" "file_of (ls @ [l]) = map newline_of s @ [c_nl]"
      "length ls < length s"
    using assms(1) by (auto simp: typed_state_def)
  show ?thesis
  proof (cases "c = c_cr")
    case c: True
    have "buf_newline b = ((ls @ [l]) @ [[]], length (ls @ [l]), length ([] :: string))"
      by (simp add: b(1) buf_newline_def)
    moreover have "file_of ((ls @ [l]) @ [[]]) = map newline_of (s @ [c]) @ [c_nl]"
      using b(2) c by (simp add: newline_of_def)
    ultimately show ?thesis
      using False c assms(2) b(3) unfolding typed_state_def buf_command_typed [OF assms(2)]
      by (simp del: file_of_append)
  next
    case c: False
    have "buf_insert c b = (ls @ [l @ [c]], length ls, length (l @ [c]))"
      by (simp add: b(1) buf_insert_def Let_def)
    moreover have "file_of (ls @ [l @ [c]]) = map newline_of (s @ [c]) @ [c_nl]"
      using b(2) c by (simp add: newline_of_def)
    ultimately show ?thesis
      using False c b(3) unfolding typed_state_def buf_command_typed [OF assms(2)]
      by (auto simp del: file_of_append simp: less_SucI)
  qed
qed

lemma typed_state_lines: "typed_state s b \<Longrightarrow> length (fst b) \<le> length s"
  by (auto simp: typed_state_def split: if_splits)

lemma typed_state_file:
  "typed_state s b \<Longrightarrow> file_of (fst b) = (if set s \<subseteq> {c_cr} then map newline_of s else map newline_of s @ [c_nl])"
  by (auto simp: typed_state_def file_of_empty_lines newlines_only split: if_splits)

lemma screen_ok_frame:
  "screen_ok E \<Longrightarrow> frame E F \<Longrightarrow> E_numrows F < 10 ^ 10 \<Longrightarrow> screen_ok F"
  by (simp add: screen_ok_def frame_def)

text \<open>The main loop over a text.\<close>
lemma kilo_loop_text:
  assumes "typed_state s b" and "buf_rep b (K_E w)" and "screen_ok (K_E w)" and "\<not> K_exiting w"
    and "K_in w = map Some cs @ rest" and "\<forall>c \<in> set cs. typable c" and "length s + length cs < 10 ^ 10"
  shows "\<exists>b2 w2. kilo_loop v w = kilo_loop v w2 \<and> typed_state (s @ cs) b2 \<and> buf_rep b2 (K_E w2) \<and> screen_ok (K_E w2) \<and>
    \<not> K_exiting w2 \<and> K_in w2 = rest \<and> frame (K_E w) (K_E w2) \<and> K_files w2 = K_files w \<and> K_saves w2 = K_saves w"
  using assms
proof (induction cs arbitrary: s b w)
  case Nil
  then show ?case by (intro exI [of _ b] exI [of _ w]) (simp add: frame_def)
next
  case (Cons c cs)
  have c: "typable c" using Cons(7) by simp
  have "K_in w = Some c # (map Some cs @ rest)" using Cons(6) by simp
  from kilo_loop_typed [OF Cons(3-5) this c, of v]
  obtain w1 where w1: "kilo_loop v w = kilo_loop v w1" "\<not> K_exiting w1" "K_in w1 = map Some cs @ rest"
      "buf_rep (buf_command (int_of_char c) b) (K_E w1)" "frame (K_E w) (K_E w1)"
      "K_files w1 = K_files w" "K_saves w1 = K_saves w" .
  note st = typed_state_step [OF Cons(2) c]
  define b1 where "b1 = buf_command (int_of_char c) b"
  have "E_numrows (K_E w1) = length (fst b1)"
    using w1(4) unfolding b1_def [symmetric] by (cases b1) (auto dest!: buf_repD(2) text_rep_len)
  then have "E_numrows (K_E w1) < 10 ^ 10"
    using typed_state_lines [OF st] Cons(8) unfolding b1_def [symmetric] by simp
  then have ok: "screen_ok (K_E w1)" using screen_ok_frame [OF Cons(4) w1(5)] by blast
  have "\<exists>b2 w2. kilo_loop v w1 = kilo_loop v w2 \<and> typed_state ((s @ [c]) @ cs) b2 \<and> buf_rep b2 (K_E w2) \<and> screen_ok (K_E w2) \<and>
    \<not> K_exiting w2 \<and> K_in w2 = rest \<and> frame (K_E w1) (K_E w2) \<and> K_files w2 = K_files w1 \<and> K_saves w2 = K_saves w1"
    by (rule Cons(1) [OF st w1(4) ok w1(2,3)]) (use Cons(7,8) in simp_all)
  then show ?case using w1 by (auto simp: frame_def)
qed

text \<open>Ctrl-S and Ctrl-Q behind it.\<close>
definition chr_ctrl_s :: char where "chr_ctrl_s = CHR 0x13"
definition chr_ctrl_q :: char where "chr_ctrl_q = CHR 0x11"

lemma read_ctrl:
  "editorReadKey (Some chr_ctrl_s # r) = Some (CTRL_S, r)" "editorReadKey (Some chr_ctrl_q # r) = Some (CTRL_Q, r)"
  by (simp_all add: editorReadKey_def chr_ctrl_s_def chr_ctrl_q_def int_of_char_def key_defs Let_def)

lemma kilo_loop_save_quit:
  assumes rep: "buf_rep b (K_E w)" and ok: "screen_ok (K_E w)" and w: "\<not> K_exiting w"
    and inp: "K_in w = Some chr_ctrl_s # Some chr_ctrl_q # rest" and f: "E_filename (K_E w) = Some f"
    and io: "save_ok (kv_save v (K_saves w))"
  shows "\<exists>w2. kilo_loop v w = Some w2 \<and> K_files w2 = (K_files w)(f \<mapsto> file_of (fst b)) \<and> K_in w2 = rest"
proof -
  obtain ls r k where b: "b = (ls, r, k)" by (cases b)
  note tr = buf_repD(2) [OF rep [unfolded b]]
  obtain t i where t: "editorRefreshScreen v w = Some (w\<lparr>K_out := t, K_ticks := i\<rparr>)"
    using editorRefreshScreen_defined [OF rep ok] by blast
  define wa where "wa = w\<lparr>K_out := t, K_ticks := i, K_in := Some chr_ctrl_q # rest\<rparr>"
  have "text_rep ls (K_E wa)" "E_filename (K_E wa) = Some f" "save_ok (kv_save v (K_saves wa))"
    using tr f io by (simp_all add: wa_def)
  from editorSave_plain [OF this] obtain wb where wb: "editorSave v wa = Some (0, wb)" "K_files wb = (K_files wa)(f \<mapsto> file_of ls)"
      "E_dirty (K_E wb) = 0" "buf_rep b (K_E wa) \<longrightarrow> buf_rep b (K_E wb)" "frame (K_E wa) (K_E wb)"
      "E_numrows (K_E wb) = E_numrows (K_E wa)" "K_in wb = K_in wa" "K_exiting wb = K_exiting wa"
    by blast
  define wc where "wc = wb\<lparr>K_quit := KILO_QUIT_TIMES\<rparr>"
  have "editorProcessKeypress v (w\<lparr>K_out := t, K_ticks := i\<rparr>) = Some wc"
    using inp wb(1) by (simp add: editorProcessKeypress_def read_ctrl process_key_def key_defs wa_def wc_def)
  then have l1: "kilo_loop v w = kilo_loop v wc" using t w by (subst kilo_loop.simps) simp
  have repc: "buf_rep b (K_E wc)" using wb(4) rep by (simp add: wc_def wa_def)
  have okc: "screen_ok (K_E wc)"
    using ok wb(5,6) by (simp add: wc_def wa_def screen_ok_def frame_def)
  obtain t2 i2 where t2: "editorRefreshScreen v wc = Some (wc\<lparr>K_out := t2, K_ticks := i2\<rparr>)"
    using editorRefreshScreen_defined [OF repc okc] by blast
  define wd where "wd = wc\<lparr>K_out := t2, K_ticks := i2, K_in := rest, K_exiting := True, K_quit := KILO_QUIT_TIMES\<rparr>"
  have "editorProcessKeypress v (wc\<lparr>K_out := t2, K_ticks := i2\<rparr>) = Some wd"
    using wb(3,7) by (simp add: editorProcessKeypress_def read_ctrl process_key_def wa_def wc_def wd_def)
  moreover have "\<not> K_exiting wc" using wb(8) w by (simp add: wc_def wa_def)
  ultimately have "kilo_loop v wc = kilo_loop v wd" using t2 by (subst kilo_loop.simps) simp
  also have "\<dots> = Some wd" by (subst kilo_loop.simps) (simp add: wd_def)
  finally show ?thesis using l1 wb(2) by (simp add: wd_def wc_def wa_def b)
qed

section \<open>A session\<close>

lemma select_none:
  assumes "\<forall>p \<in> set C_HL_extensions. \<not> pattern_matches f p"
  shows "editorSelectSyntaxHighlight f E = E"
  using assms by (simp add: editorSelectSyntaxHighlight_def HLDB_def)

lemma enableRawMode_frame:
  "K_files (snd (enableRawMode v w)) = K_files w \<and> K_in (snd (enableRawMode v w)) = K_in w \<and>
   K_saves (snd (enableRawMode v w)) = K_saves w \<and> K_exiting (snd (enableRawMode v w)) = K_exiting w \<and>
   (\<exists>b. K_E (snd (enableRawMode v w)) = (K_E w)\<lparr>E_rawmode := b\<rparr>)"
proof -
  have "\<exists>b. E = E\<lparr>E_rawmode := b\<rparr>" for E :: editorConfig by (rule exI [of _ "E_rawmode E"]) simp
  then show ?thesis by (auto simp: enableRawMode_def Let_def)
qed

text \<open>The session of a new file; \<open>rest\<close> is what is typed after it.\<close>
lemma new_file_session:
  assumes size: "kv_winsize v = Some (rows, cols)" "int (length welcome_text) \<le> cols + 1"
    and f: "\<not> kv_fopen_err v" "K_files w f = None" "\<forall>p \<in> set C_HL_extensions. \<not> pattern_matches f p"
    and io: "save_ok (kv_save v (K_saves w))" and w: "\<not> K_exiting w"
    and inp: "K_in w = map Some cs @ Some chr_ctrl_s # Some chr_ctrl_q # rest"
    and cs: "\<forall>c \<in> set cs. typable c" "length cs < 10 ^ 10"
  shows "\<exists>w2. kilo_main v f w = Some (Return w2) \<and> K_in w2 = rest \<and> \<not> K_exiting w2 \<and>
    K_files w2 = (K_files w)(f \<mapsto> (if set cs \<subseteq> {c_cr} then map newline_of cs else map newline_of cs @ [c_nl]))"
proof -
  define E1 where "E1 = (K_E w)\<lparr>E_cx := 0, E_cy := 0, E_rowoff := 0, E_coloff := 0, E_numrows := 0, E_row := [], E_dirty := 0,
      E_filename := None, E_syntax := None, E_screenrows := rows - 2, E_screencols := cols\<rparr>"
  have "cols \<noteq> 0" using size(2) by (auto simp: welcome_text_def KILO_VERSION_def snprintf_def)
  then have init: "initEditor v w = w\<lparr>K_E := E1\<rparr>"
    using size(1) by (simp add: initEditor_def getWindowSize_def E1_def)
  define w3 where "w3 = w\<lparr>K_E := E1\<lparr>E_dirty := 0, E_filename := Some f\<rparr>\<rparr>"
  have op: "editorOpen v f (w\<lparr>K_E := editorSelectSyntaxHighlight f E1\<rparr>) = Some (Return (1, w3))"
    using f by (simp add: select_none editorOpen_def w3_def Let_def)
  define w5 where "w5 = editorSetStatusMessage v ''HELP: Ctrl-S = save | Ctrl-Q = quit | Ctrl-F = find'' (snd (enableRawMode v w3))"
  obtain q where raw: "K_E (snd (enableRawMode v w3)) = (K_E w3)\<lparr>E_rawmode := q\<rparr>"
    using enableRawMode_frame by blast
  have w5: "K_files w5 = K_files w" "K_in w5 = K_in w" "K_saves w5 = K_saves w" "\<not> K_exiting w5"
    using enableRawMode_frame [of v w3] w by (simp_all add: w5_def editorSetStatusMessage_def w3_def)
  have rep: "buf_rep ([], 0, 0) (K_E w5)"
    using raw by (simp add: w5_def editorSetStatusMessage_def w3_def)
      (simp add: E1_def buf_rep_def plain_def text_rep_def cursor_rep_def filerow_def filecol_def)
  have ok: "screen_ok (K_E w5)" and name: "E_filename (K_E w5) = Some f"
    using raw size(2) by (simp_all add: w5_def editorSetStatusMessage_def w3_def E1_def screen_ok_def)
  have "typed_state [] ([], 0, 0)" by (simp add: typed_state_def)
  from kilo_loop_text [OF this rep ok w5(4), of cs "Some chr_ctrl_s # Some chr_ctrl_q # rest" v]
  obtain b2 wa where wa: "kilo_loop v w5 = kilo_loop v wa" "typed_state cs b2" "buf_rep b2 (K_E wa)" "screen_ok (K_E wa)"
      "\<not> K_exiting wa" "K_in wa = Some chr_ctrl_s # Some chr_ctrl_q # rest" "frame (K_E w5) (K_E wa)"
      "K_files wa = K_files w5" "K_saves wa = K_saves w5"
    using inp cs w5(2) by auto
  have "E_filename (K_E wa) = Some f" "save_ok (kv_save v (K_saves wa))"
    using wa(7,9) name io w5(3) by (simp_all add: frame_def)
  from kilo_loop_save_quit [OF wa(3-6) this]
  obtain wb where wb: "kilo_loop v wa = Some wb" "K_files wb = (K_files wa)(f \<mapsto> file_of (fst b2))" "K_in wb = rest"
    by blast
  have "kilo_main v f w = Some (Return ((editorAtExit v wb)\<lparr>K_exiting := False\<rparr>))"
    using init op wa(1) wb(1) by (simp add: kilo_main_def w5_def)
  moreover have "K_files (editorAtExit v wb) = K_files wb" "K_in (editorAtExit v wb) = K_in wb"
    by (simp_all add: editorAtExit_def disableRawMode_def Let_def)
  ultimately show ?thesis
    using wb(2,3) wa(8) w5(1) typed_state_file [OF wa(2)] by simp
qed

text \<open>
  C4. A new file: the editor is started on a name that does not exist and is not highlighted, any text of printable
  characters and Enter is typed, then Ctrl-S and Ctrl-Q. The editor returns, and the file holds the text, with a newline
  for each Enter and one behind the last line.\<close>
theorem typed_text_is_saved:
  assumes size: "kv_winsize v = Some (rows, cols)" "int (length welcome_text) \<le> cols + 1"
    and f: "\<not> kv_fopen_err v" "K_files w f = None" "\<forall>p \<in> set C_HL_extensions. \<not> pattern_matches f p"
    and io: "save_ok (kv_save v (K_saves w))" and w: "\<not> K_exiting w"
    and inp: "K_in w = map Some cs @ [Some chr_ctrl_s, Some chr_ctrl_q]"
    and cs: "\<forall>c \<in> set cs. typable c" "length cs < 10 ^ 10"
  shows "\<exists>w2. kilo_main v f w = Some (Return w2) \<and> K_in w2 = [] \<and> \<not> K_exiting w2 \<and>
    K_files w2 = (K_files w)(f \<mapsto> (if set cs \<subseteq> {c_cr} then map newline_of cs else map newline_of cs @ [c_nl]))"
  by (rule new_file_session [where rest = "[]"]) (use assms in simp_all)

lemma typed_text_is_saved_witness:
  "\<exists>w2. kilo_main env_fine ''notes'' (kilo_of (config_of [] 0 0 0 80) Map.empty
       (map Some (''ab'' @ [c_cr] @ ''c'') @ [Some chr_ctrl_s, Some chr_ctrl_q])) = Some (Return w2) \<and>
     K_files w2 ''notes'' = Some (''ab'' @ [c_nl] @ ''c'' @ [c_nl])"
proof -
  define w where "w = kilo_of (config_of [] 0 0 0 80) Map.empty
     (map Some (''ab'' @ [c_cr] @ ''c'') @ [Some chr_ctrl_s, Some chr_ctrl_q])"
  have "\<exists>w2. kilo_main env_fine ''notes'' w = Some (Return w2) \<and> K_in w2 = [] \<and> \<not> K_exiting w2 \<and>
    K_files w2 = (K_files w)(''notes'' \<mapsto> (if set (''ab'' @ [c_cr] @ ''c'') \<subseteq> {c_cr} then map newline_of (''ab'' @ [c_cr] @ ''c'')
      else map newline_of (''ab'' @ [c_cr] @ ''c'') @ [c_nl]))"
    by (rule typed_text_is_saved [where rows = 26 and cols = 80])
      (simp_all add: env_fine_def save_ok_def welcome_text_def KILO_VERSION_def snprintf_def w_def C_HL_extensions_def
        pattern_matches_def typable_def c_isprint_def kilo_of_def)
  then show ?thesis unfolding w_def [symmetric] by (auto simp: newline_of_def c_cr_def)
qed

text \<open>
  The cursor is drawn at the column where the text to its left, with its tabs expanded, ends: the loop that counts
  columns for the cursor agrees with the one that renders the row.\<close>
theorem cursor_drawn_after_text:
  assumes "row_rep t r" and "n \<le> length t"
  shows "cursor_column r n 0 1 = Some (1 + int (length (expand_tabs 0 (take n t)))) \<and>
    take (length (expand_tabs 0 (take n t))) (erow_render r) = expand_tabs 0 (take n t)"
proof
  show "cursor_column r n 0 1 = Some (1 + int (length (expand_tabs 0 (take n t))))"
    using cursor_column_from [OF row_rep_chars [OF assms(1)], of 0 n 0] assms(2) by simp
  have "expand_tabs 0 t = expand_tabs 0 (take n t) @ expand_tabs (length (expand_tabs 0 (take n t))) (drop n t)"
    using expand_tabs_append [of 0 "take n t" "drop n t"] by simp
  then show "take (length (expand_tabs 0 (take n t))) (erow_render r) = expand_tabs 0 (take n t)"
    using assms(1) unfolding row_rep_def rendered_def by (metis append.assoc append_eq_conv_conj)
qed

lemma cursor_drawn_after_text_witness:
  "cursor_column (row_of 0 (c_tab # ''ab'')) 2 0 1 = Some 9"
  using cursor_drawn_after_text [of "c_tab # ''ab''" "row_of 0 (c_tab # ''ab'')" 2]
  by (simp add: c_tab_def Let_def)

end
