(* ===== verification/KiloSyntax.thy ===== *)
theory KiloSyntax
  imports KiloSession
begin

text \<open>
  Syntax highlighting in src/kilo.c: it has no influence on what the commands do to the text and the cursor; the files that
  open without leaving the arrays, and the lines on which it does not.
\<close>

section \<open>Highlighting and the text\<close>

text \<open>The editor without highlighting.\<close>
definition plain_row :: "erow \<Rightarrow> erow" where
  "plain_row r = r\<lparr>erow_hl := replicate (erow_rsize r) HL_NORMAL, erow_hl_oc := False\<rparr>"

definition strip :: "editorConfig \<Rightarrow> editorConfig" where
  "strip E = E\<lparr>E_syntax := None, E_row := map plain_row (E_row E)\<rparr>"

lemma plain_row_simps [simp]:
  "erow_size (plain_row r) = erow_size r" "erow_chars (plain_row r) = erow_chars r" "erow_idx (plain_row r) = erow_idx r"
  "erow_rsize (plain_row r) = erow_rsize r" "plain_row (plain_row r) = plain_row r"
  "plain_row (r\<lparr>erow_hl := h\<rparr>) = plain_row r" "plain_row (r\<lparr>erow_hl_oc := q\<rparr>) = plain_row r"
  "plain_row (r\<lparr>erow_idx := i\<rparr>) = (plain_row r)\<lparr>erow_idx := i\<rparr>"
  by (simp_all add: plain_row_def)

lemma strip_simps [simp]:
  "E_row (strip E) = map plain_row (E_row E)" "E_numrows (strip E) = E_numrows E" "E_syntax (strip E) = None"
  "E_cx (strip E) = E_cx E" "E_cy (strip E) = E_cy E" "E_rowoff (strip E) = E_rowoff E" "E_coloff (strip E) = E_coloff E"
  "E_screencols (strip E) = E_screencols E" "E_screenrows (strip E) = E_screenrows E" "E_dirty (strip E) = E_dirty E"
  "filerow (strip E) = filerow E" "filecol (strip E) = filecol E"
  by (simp_all add: strip_def filerow_def filecol_def)

lemma strip_upd_row:
  assumes "k < length (E_row E)" and "plain_row (f (E_row E ! k)) = g (plain_row (E_row E ! k))"
  shows "strip (upd_row k f E) = upd_row k g (strip E)"
  using assms by (simp add: strip_def upd_row_def map_update)

text \<open>What the highlighting of a row can change.\<close>
definition highlighted :: "editorConfig \<Rightarrow> editorConfig \<Rightarrow> bool" where
  "highlighted E F \<longleftrightarrow> strip F = strip E \<and> E_syntax F = E_syntax E"

lemma highlighted_upd_hl:
  assumes "k < length (E_row E)" and "\<And>r. plain_row (f r) = plain_row r"
  shows "highlighted E (upd_row k f E)"
proof -
  have "map plain_row ((E_row E)[k := f (E_row E ! k)]) = map plain_row (E_row E)"
    using assms by (simp add: map_update list_update_same_conv)
  then show ?thesis by (simp add: highlighted_def strip_def upd_row_def)
qed

lemma highlighted_trans: "highlighted E F \<Longrightarrow> highlighted F G \<Longrightarrow> highlighted E G"
  by (simp add: highlighted_def)

lemma highlighted_length: "highlighted E F \<Longrightarrow> length (E_row F) = length (E_row E)"
  unfolding highlighted_def by (metis length_map strip_simps(1))

lemma editorUpdateSyntax_highlights:
  assumes "editorUpdateSyntax k E = Some F"
  shows "highlighted E F"
  using _ assms
proof (rule editorUpdateSyntax.raw_induct [where P = "\<lambda>k E F. highlighted E F"], goal_cases)
  case (1 upd k E F)
  then obtain row where row: "k < length (E_row E)" "row = E_row E ! k" by (auto simp: bind_eq_Some_conv)
  define E1 where "E1 = upd_row k (\<lambda>r. r\<lparr>erow_hl := replicate (erow_rsize row) HL_NORMAL\<rparr>) E"
  have h1: "highlighted E E1" unfolding E1_def by (rule highlighted_upd_hl [OF row(1)]) simp
  show ?case
  proof (cases "E_syntax E")
    case None
    then show ?thesis using 1(2) row h1 by (simp add: E1_def Let_def)
  next
    case (Some syn)
    define kont where "kont s ret = (let E2 = upd_row k (\<lambda>r. r\<lparr>erow_hl := sx_hl s\<rparr>) E1 in
        if ret then Some E2
        else Option.bind (editorRowHasOpenComment (E_row E2 ! k)) (\<lambda>oc.
             Option.bind (if erow_hl_oc row \<noteq> oc \<and> erow_idx row + 1 < E_numrows E
                          then upd (erow_idx row + 1) E2 else Some E2) (\<lambda>E3.
               Some (upd_row k (\<lambda>r. r\<lparr>erow_hl_oc := oc\<rparr>) E3))))" for s :: scan_state and ret
    have "nth_opt (E_row E) k = Some row" using row by simp
    with 1(2) Some have "Option.bind (if 0 < erow_idx row
          then Option.bind (nth_opt (E_row E1) (erow_idx row - 1)) editorRowHasOpenComment else Some False) (\<lambda>in_comment.
        Option.bind (syntax_loop syn (erow_size row) (erow_render row)
             \<lparr>sx_i = length (takeWhile c_isspace (c_str (erow_render row))), sx_sep = True, sx_str = None,
              sx_com = in_comment, sx_hl = replicate (erow_rsize row) HL_NORMAL\<rparr>) (\<lambda>(s, ret). kont s ret)) = Some F"
      by (simp only: Option.bind.simps option.case Let_def kont_def E1_def)
    then obtain s ret where E2: "kont s ret = Some F" by (auto simp: bind_eq_Some_conv)
    define E2 where "E2 = upd_row k (\<lambda>r. r\<lparr>erow_hl := sx_hl s\<rparr>) E1"
    have len1: "k < length (E_row E1)" using row(1) highlighted_length [OF h1] by simp
    have h2: "highlighted E E2"
      unfolding E2_def by (rule highlighted_trans [OF h1 highlighted_upd_hl [OF len1]]) simp
    show ?thesis
    proof (cases ret)
      case True
      then show ?thesis using E2 h2 by (simp add: E2_def kont_def)
    next
      case False
      then obtain oc E3 where E3: "F = upd_row k (\<lambda>r. r\<lparr>erow_hl_oc := oc\<rparr>) E3"
          "upd (erow_idx row + 1) E2 = Some E3 \<or> E3 = E2"
        using E2 unfolding kont_def E2_def [symmetric] by (auto simp: bind_eq_Some_conv Let_def split: if_splits)
      then have h3: "highlighted E E3" using 1(1) h2 highlighted_trans by blast
      have "k < length (E_row E3)" using row(1) highlighted_length [OF h3] by simp
      then show ?thesis
        unfolding E3(1) by (intro highlighted_trans [OF h3 highlighted_upd_hl]) simp_all
    qed
  qed
qed

lemma editorUpdateRow_strip:
  assumes "editorUpdateRow k E = Some F"
  shows "editorUpdateRow k (strip E) = Some (strip F) \<and> E_syntax F = E_syntax E \<and> length (E_row F) = length (E_row E) \<and> E_numrows F = E_numrows E"
proof -
  define row where "row = E_row E ! k"
  define cs where "cs = take (erow_size row) (erow_chars row)"
  define cap where "cap = erow_size row + length (filter (\<lambda>c. c = c_tab) cs) * 8 + 1"
  obtain r r2 where r: "k < length (E_row E)" "erow_size row \<le> length (erow_chars row)"
      "render_loop cap cs [] = Some r" "render_put cap r c_nul = Some r2"
      "editorUpdateSyntax k (upd_row k (\<lambda>w. w\<lparr>erow_rsize := length r, erow_render := r2\<rparr>) E) = Some F"
    using assms by (auto simp: editorUpdateRow_def bind_eq_Some_conv Let_def row_def cs_def cap_def split: if_splits)
  define E1 where "E1 = upd_row k (\<lambda>w. w\<lparr>erow_rsize := length r, erow_render := r2\<rparr>) E"
  define f where "f w = w\<lparr>erow_rsize := length r, erow_render := r2, erow_hl := replicate (length r) HL_NORMAL\<rparr>" for w :: erow
  have h: "highlighted E1 F" using editorUpdateSyntax_highlights r(5) by (simp add: E1_def)
  have "editorUpdateSyntax k G = Some (upd_row k (\<lambda>r. r\<lparr>erow_hl := replicate (erow_rsize (E_row G ! k)) HL_NORMAL\<rparr>) G)"
    if "E_syntax G = None" "k < length (E_row G)" for G
    using that by (subst editorUpdateSyntax.simps) (simp add: Let_def)
  then have "editorUpdateRow k (strip E) = Some (upd_row k f (strip E))"
    using r(1-4) by (simp add: editorUpdateRow_def row_def cs_def cap_def Let_def upd_row_upd_row)
      (simp add: upd_row_def f_def)
  also have "upd_row k f (strip E) = strip E1"
    unfolding E1_def using r(1) by (intro strip_upd_row [symmetric]) (simp_all add: plain_row_def f_def)
  moreover have "E_numrows F = E_numrows E1"
    using h unfolding highlighted_def by (metis strip_simps(2))
  ultimately show ?thesis
    using h highlighted_length [OF h] by (simp add: highlighted_def E1_def)
qed

text \<open>Updates of the fields that highlighting does not know.\<close>
lemma strip_other [simp]:
  "strip (E\<lparr>E_dirty := d\<rparr>) = (strip E)\<lparr>E_dirty := d\<rparr>" "strip (E\<lparr>E_cx := i\<rparr>) = (strip E)\<lparr>E_cx := i\<rparr>"
  "strip (E\<lparr>E_cy := i\<rparr>) = (strip E)\<lparr>E_cy := i\<rparr>" "strip (E\<lparr>E_coloff := i\<rparr>) = (strip E)\<lparr>E_coloff := i\<rparr>"
  "strip (E\<lparr>E_rowoff := i\<rparr>) = (strip E)\<lparr>E_rowoff := i\<rparr>" "strip (E\<lparr>E_numrows := n\<rparr>) = (strip E)\<lparr>E_numrows := n\<rparr>"
  "strip (E\<lparr>E_row := rs\<rparr>) = (strip E)\<lparr>E_row := map plain_row rs\<rparr>"
  by (simp_all add: strip_def)

lemma row_at_strip: "row_at (strip E) r = map_option (map_option plain_row) (row_at E r)"
  by (auto simp: row_at_def nth_opt_def)

lemma upd_chars_strip:
  "k < length (E_row E) \<Longrightarrow> strip (upd_row k (\<lambda>r. r\<lparr>erow_chars := b, erow_size := n\<rparr>) E)
     = upd_row k (\<lambda>r. r\<lparr>erow_chars := b, erow_size := n\<rparr>) (strip E)"
  by (rule strip_upd_row) (simp_all add: plain_row_def)

lemma editorInsertRow_strip:
  assumes "editorInsertRow at s len E = Some F"
  shows "editorInsertRow at s len (strip E) = Some (strip F)"
proof (cases "E_numrows E < at")
  case False
  define new where "new = \<lparr>erow_idx = at, erow_size = len, erow_rsize = 0, erow_chars = take (len + 1) s,
      erow_render = [], erow_hl = [], erow_hl_oc = False\<rparr>"
  define below where "below E = (if at \<noteq> E_numrows E
      then map (\<lambda>r. r\<lparr>erow_idx := erow_idx r + 1\<rparr>) (drop at (E_row E)) else [])" for E :: editorConfig
  define E1 where "E1 = E\<lparr>E_row := take at (E_row E) @ new # below E\<rparr>"
  obtain E2 where E2: "editorUpdateRow at E1 = Some E2" "len + 1 \<le> length s"
      "F = E2\<lparr>E_numrows := E_numrows E2 + 1, E_dirty := E_dirty E2 + 1\<rparr>"
    using assms False by (auto simp: editorInsertRow_def Let_def bind_eq_Some_conv E1_def new_def below_def split: if_splits)
  have "plain_row new = new" by (simp add: plain_row_def new_def)
  moreover have "map plain_row (below E) = below (strip E)"
    by (simp add: below_def drop_map)
  ultimately have "strip E1 = (strip E)\<lparr>E_row := take at (E_row (strip E)) @ new # below (strip E)\<rparr>"
    by (simp add: E1_def take_map)
  moreover have "editorUpdateRow at (strip E1) = Some (strip E2)" using editorUpdateRow_strip [OF E2(1)] by simp
  ultimately have "editorUpdateRow at ((strip E)\<lparr>E_row := take at (E_row (strip E)) @ new # below (strip E)\<rparr>) = Some (strip E2)"
    by simp
  then show ?thesis
    using False E2(2,3) by (simp add: editorInsertRow_def Let_def new_def below_def)
qed (use assms in \<open>simp add: editorInsertRow_def\<close>)

lemma editorDelRow_strip: "editorDelRow at (strip E) = strip (editorDelRow at E)"
  by (simp add: editorDelRow_def take_map drop_map)

text \<open>The shape the functions on rows share: new bytes computed from the old ones, rendered, and counted as a change.\<close>
definition change_row :: "nat \<Rightarrow> (string \<Rightarrow> nat \<Rightarrow> (string \<times> nat) option) \<Rightarrow> editorConfig \<Rightarrow> editorConfig option" where
  "change_row k f E =
     do { row \<leftarrow> nth_opt (E_row E) k;
          (b, n) \<leftarrow> f (erow_chars row) (erow_size row);
          E1 \<leftarrow> editorUpdateRow k (upd_row k (\<lambda>r. r\<lparr>erow_chars := b, erow_size := n\<rparr>) E);
          Some (E1\<lparr>E_dirty := E_dirty E1 + 1\<rparr>) }"

lemma change_row_strip:
  assumes "change_row k f E = Some F"
  shows "change_row k f (strip E) = Some (strip F)"
proof -
  define row where "row = E_row E ! k"
  obtain b n E1 where k: "k < length (E_row E)" "f (erow_chars row) (erow_size row) = Some (b, n)"
      "editorUpdateRow k (upd_row k (\<lambda>r. r\<lparr>erow_chars := b, erow_size := n\<rparr>) E) = Some E1"
      "F = E1\<lparr>E_dirty := E_dirty E1 + 1\<rparr>"
    using assms by (auto simp: change_row_def bind_eq_Some_conv row_def)
  have "editorUpdateRow k (upd_row k (\<lambda>r. r\<lparr>erow_chars := b, erow_size := n\<rparr>) (strip E)) = Some (strip E1)"
    using editorUpdateRow_strip [OF k(3)] by (simp only: upd_chars_strip [OF k(1)])
  then show ?thesis using k by (simp add: change_row_def row_def)
qed

definition insert_char_bytes :: "int \<Rightarrow> char \<Rightarrow> string \<Rightarrow> nat \<Rightarrow> (string \<times> nat) option" where
  "insert_char_bytes at c chars sz =
     do { (b, n) \<leftarrow> (if int sz < at
            then let padlen = nat at - sz in
              do { b1 \<leftarrow> memset sz (CHR '' '') padlen (realloc (sz + padlen + 2) chars);
                   b2 \<leftarrow> store_at (sz + padlen + 1) c_nul b1;
                   Some (b2, sz + padlen + 1) }
            else if 0 \<le> at
            then do { b1 \<leftarrow> memmove (nat at + 1) (nat at) (sz - nat at + 1) (realloc (sz + 2) chars);
                      Some (b1, sz + 1) }
            else None);
          b3 \<leftarrow> store_at (nat at) c b;
          Some (b3, n) }"

lemma editorRowInsertChar_change: "editorRowInsertChar k at c = change_row k (insert_char_bytes at c)"
  by (rule ext) (simp add: editorRowInsertChar_def change_row_def insert_char_bytes_def Let_def split_def)

lemma editorRowAppendString_change:
  "editorRowAppendString k s len = change_row k (\<lambda>chars sz.
     do { b1 \<leftarrow> memcpy sz s len (realloc (sz + len + 1) chars);
          b2 \<leftarrow> store_at (sz + len) c_nul b1; Some (b2, sz + len) })"
  by (rule ext) (simp add: editorRowAppendString_def change_row_def Let_def)

lemma editorRowInsertChar_strip:
  "editorRowInsertChar k at c E = Some F \<Longrightarrow> editorRowInsertChar k at c (strip E) = Some (strip F)"
  unfolding editorRowInsertChar_change by (rule change_row_strip)

lemma editorRowAppendString_strip:
  "editorRowAppendString k s len E = Some F \<Longrightarrow> editorRowAppendString k s len (strip E) = Some (strip F)"
  unfolding editorRowAppendString_change by (rule change_row_strip)

lemma editorRowDelChar_strip:
  assumes "editorRowDelChar k at E = Some F"
  shows "editorRowDelChar k at (strip E) = Some (strip F)"
proof -
  define row where "row = E_row E ! k"
  have k: "k < length (E_row E)" using assms by (auto simp: editorRowDelChar_def bind_eq_Some_conv)
  show ?thesis
  proof (cases "int (erow_size row) \<le> at")
    case True
    then show ?thesis using assms k by (simp add: editorRowDelChar_def row_def)
  next
    case False
    then obtain b E1 where b: "0 \<le> at" "memmove (nat at) (nat at + 1) (erow_size row - nat at) (erow_chars row) = Some b"
        "editorUpdateRow k (upd_row k (\<lambda>r. r\<lparr>erow_chars := b\<rparr>) E) = Some E1"
        "F = (upd_row k (\<lambda>r. r\<lparr>erow_size := erow_size r - 1\<rparr>) E1)\<lparr>E_dirty := E_dirty E1 + 1\<rparr>"
      using assms k by (auto simp: editorRowDelChar_def bind_eq_Some_conv row_def split: if_splits)
    note up = editorUpdateRow_strip [OF b(3)]
    have "strip (upd_row k (\<lambda>r. r\<lparr>erow_chars := b\<rparr>) E) = upd_row k (\<lambda>r. r\<lparr>erow_chars := b\<rparr>) (strip E)"
      using k by (intro strip_upd_row) (simp_all add: plain_row_def)
    then have u: "editorUpdateRow k (upd_row k (\<lambda>r. r\<lparr>erow_chars := b\<rparr>) (strip E)) = Some (strip E1)"
      using up by simp
    have "k < length (E_row E1)" using up k by simp
    then have "strip (upd_row k (\<lambda>r. r\<lparr>erow_size := erow_size r - 1\<rparr>) E1)
        = upd_row k (\<lambda>r. r\<lparr>erow_size := erow_size r - 1\<rparr>) (strip E1)"
      by (intro strip_upd_row) (simp_all add: plain_row_def)
    then show ?thesis using False b(1,2,4) u k by (simp add: editorRowDelChar_def row_def)
  qed
qed

lemma insert_rows_strip: "insert_rows n E = Some F \<Longrightarrow> insert_rows n (strip E) = Some (strip F)"
  by (induction n arbitrary: E) (auto simp: bind_eq_Some_conv dest: editorInsertRow_strip)

lemma editorInsertChar_strip:
  assumes "editorInsertChar c E = Some F"
  shows "editorInsertChar c (strip E) = Some (strip F)"
proof -
  obtain row E1 E2 where r: "row_at E (filerow E) = Some row"
      "(if row = None then insert_rows (nat (filerow E + 1 - int (E_numrows E))) E else Some E) = Some E1"
      "editorRowInsertChar (nat (filerow E)) (filecol E) (char_of_int c) E1 = Some E2"
      "F = (let E3 = (if E_cx E2 = E_screencols E2 - 1 then E2\<lparr>E_coloff := E_coloff E2 + 1\<rparr> else E2\<lparr>E_cx := E_cx E2 + 1\<rparr>) in
            E3\<lparr>E_dirty := E_dirty E3 + 1\<rparr>)"
    using assms by (auto simp: editorInsertChar_def bind_eq_Some_conv Let_def)
  define fin where "fin E2 = (let E3 = (if E_cx E2 = E_screencols E2 - 1 then E2\<lparr>E_coloff := E_coloff E2 + 1\<rparr> else E2\<lparr>E_cx := E_cx E2 + 1\<rparr>) in
            E3\<lparr>E_dirty := E_dirty E3 + 1\<rparr>)" for E2 :: editorConfig
  have eq: "editorInsertChar c G = Option.bind (row_at G (filerow G)) (\<lambda>row.
      Option.bind (if row = None then insert_rows (nat (filerow G + 1 - int (E_numrows G))) G else Some G) (\<lambda>E1.
      Option.bind (editorRowInsertChar (nat (filerow G)) (filecol G) (char_of_int c) E1) (\<lambda>E2. Some (fin E2))))" for G
    by (simp add: editorInsertChar_def fin_def Let_def)
  have "fin (strip E2) = strip (fin E2)" by (simp add: fin_def Let_def)
  moreover have "(if map_option plain_row row = None then insert_rows (nat (filerow E + 1 - int (E_numrows E))) (strip E)
      else Some (strip E)) = Some (strip E1)"
    using r(2) insert_rows_strip by (auto split: if_splits)
  ultimately show ?thesis
    using r(1) r(4) [folded fin_def] editorRowInsertChar_strip [OF r(3)]
    unfolding eq by (simp add: row_at_strip split del: if_split cong: if_cong)
qed

lemma newline_cursor_strip: "newline_cursor (strip E) = strip (newline_cursor E)"
  by (simp add: newline_cursor_def)

lemma join_cursor_strip: "join_cursor fc (strip E) = strip (join_cursor fc E)"
  by (simp add: join_cursor_def Let_def)

lemma editorInsertNewline_strip:
  assumes "editorInsertNewline E = Some F"
  shows "editorInsertNewline (strip E) = Some (strip F)"
proof -
  obtain r where r: "row_at E (filerow E) = Some r" using assms by (auto simp: editorInsertNewline_def bind_eq_Some_conv)
  show ?thesis
  proof (cases r)
    case None
    have eq: "editorInsertNewline G = (if filerow E = int (E_numrows G)
        then map_option newline_cursor (editorInsertRow (nat (filerow E)) [c_nul] 0 G) else Some G)"
      if "row_at G (filerow G) = Some None" "filerow G = filerow E" for G
      using that by (simp add: editorInsertNewline_def)
    show ?thesis
      using assms r None eq [of E] eq [of "strip E"] editorInsertRow_strip
      by (auto simp: row_at_strip newline_cursor_strip split: if_splits)
  next
    case (Some row)
    define fr where "fr = nat (filerow E)"
    define fc where "fc = (if int (erow_size row) \<le> filecol E then int (erow_size row) else filecol E)"
    consider "fc = 0" | "fc < 0" | "0 < fc" by linarith
    then show ?thesis
    proof cases
      case 1
      have eq: "editorInsertNewline G = map_option newline_cursor (editorInsertRow fr [c_nul] 0 G)"
        if "row_at G (filerow G) = Some (Some w)" "filerow G = filerow E" "filecol G = filecol E" "erow_size w = erow_size row" for G w
      proof -
        have "(if int (erow_size w) \<le> filecol G then int (erow_size w) else filecol G) = 0"
          using that(3,4) 1 by (simp add: fc_def cong: if_cong)
        then show ?thesis
          using that(1,2) by (simp add: editorInsertNewline_def fr_def Let_def split del: if_split)
      qed
      obtain E1 where E1: "editorInsertRow fr [c_nul] 0 E = Some E1" "F = newline_cursor E1"
        using assms eq [of E row] r Some by auto
      show ?thesis
        using eq [of "strip E" "plain_row row"] r Some E1(2) editorInsertRow_strip [OF E1(1)]
        by (simp add: row_at_strip newline_cursor_strip)
    next
      case 2
      then show ?thesis using assms r Some unfolding fc_def by (auto simp: editorInsertNewline_def Let_def split: if_splits)
    next
      case 3
      then have nz: "\<not> fc = 0" "\<not> fc < 0" by simp_all
      have eq: "editorInsertNewline G =
        do { E1 \<leftarrow> editorInsertRow (fr + 1) (drop (nat fc) (erow_chars row)) (erow_size row - nat fc) G;
             r1 \<leftarrow> nth_opt (E_row E1) fr;
             b \<leftarrow> store_at (nat fc) c_nul (erow_chars r1);
             E2 \<leftarrow> editorUpdateRow fr (upd_row fr (\<lambda>x. x\<lparr>erow_chars := b, erow_size := nat fc\<rparr>) E1);
             Some (newline_cursor E2) }"
        if "row_at G (filerow G) = Some (Some w)" "filerow G = filerow E" "filecol G = filecol E"
          "erow_size w = erow_size row" "erow_chars w = erow_chars row" for G w
      proof -
        have fc: "(if int (erow_size w) \<le> filecol G then int (erow_size w) else filecol G) = fc"
          using that(3,4) by (simp add: fc_def cong: if_cong)
        show ?thesis
          using that(1,2,4,5) fc nz by (simp add: editorInsertNewline_def fr_def Let_def split del: if_split)
      qed
      obtain E1 b E2 where E1: "editorInsertRow (fr + 1) (drop (nat fc) (erow_chars row)) (erow_size row - nat fc) E = Some E1"
          "fr < length (E_row E1)" "store_at (nat fc) c_nul (erow_chars (E_row E1 ! fr)) = Some b"
          "editorUpdateRow fr (upd_row fr (\<lambda>x. x\<lparr>erow_chars := b, erow_size := nat fc\<rparr>) E1) = Some E2"
          "F = newline_cursor E2"
        using assms eq [of E row] r Some by (auto simp: bind_eq_Some_conv)
      have "editorUpdateRow fr (upd_row fr (\<lambda>x. x\<lparr>erow_chars := b, erow_size := nat fc\<rparr>) (strip E1)) = Some (strip E2)"
        using editorUpdateRow_strip [OF E1(4)] upd_chars_strip [OF E1(2)] by simp
      then show ?thesis
        using eq [of "strip E" "plain_row row"] r Some E1(2,3,5) editorInsertRow_strip [OF E1(1)]
        by (simp add: row_at_strip newline_cursor_strip)
    qed
  qed
qed

lemma editorDelChar_strip:
  assumes "editorDelChar E = Some F"
  shows "editorDelChar (strip E) = Some (strip F)"
proof -
  obtain r where r: "row_at E (filerow E) = Some r" using assms by (auto simp: editorDelChar_def bind_eq_Some_conv Let_def)
  consider "r = None \<or> (filecol E = 0 \<and> filerow E = 0)" | row where "r = Some row" "filecol E = 0" "filerow E \<noteq> 0"
    | row where "r = Some row" "filecol E \<noteq> 0"
    by (cases r) auto
  then show ?thesis
  proof cases
    case 1
    then show ?thesis using assms r by (cases r) (auto simp: editorDelChar_def row_at_strip Let_def)
  next
    case (2 row)
    then obtain E1 where E1: "nat (filerow E - 1) < length (E_row E)"
        "editorRowAppendString (nat (filerow E - 1)) (erow_chars row) (erow_size row) E = Some E1"
        "F = (let E3 = join_cursor (int (erow_size (E_row E ! nat (filerow E - 1)))) (editorDelRow (nat (filerow E)) E1) in
              E3\<lparr>E_dirty := E_dirty E3 + 1\<rparr>)"
      using assms r by (auto simp: editorDelChar_def bind_eq_Some_conv Let_def)
    then show ?thesis
      using 2 r editorRowAppendString_strip [OF E1(2)]
      by (simp add: editorDelChar_def row_at_strip Let_def editorDelRow_strip join_cursor_strip)
  next
    case (3 row)
    then obtain E1 E3 where E1: "editorRowDelChar (nat (filerow E)) (filecol E - 1) E = Some E1"
        "editorUpdateRow (nat (filerow E)) (if E_cx E1 = 0 \<and> E_coloff E1 \<noteq> 0 then E1\<lparr>E_coloff := E_coloff E1 - 1\<rparr>
           else E1\<lparr>E_cx := E_cx E1 - 1\<rparr>) = Some E3" "F = E3\<lparr>E_dirty := E_dirty E3 + 1\<rparr>"
      using assms r by (auto simp: editorDelChar_def bind_eq_Some_conv Let_def)
    have "editorUpdateRow (nat (filerow E)) (if E_cx (strip E1) = 0 \<and> E_coloff (strip E1) \<noteq> 0
        then (strip E1)\<lparr>E_coloff := E_coloff (strip E1) - 1\<rparr> else (strip E1)\<lparr>E_cx := E_cx (strip E1) - 1\<rparr>) = Some (strip E3)"
      using editorUpdateRow_strip [OF E1(2)] by (auto split: if_splits)
    then show ?thesis
      using 3 r E1(3) editorRowDelChar_strip [OF E1(1)]
      by (simp add: editorDelChar_def row_at_strip Let_def split del: if_split)
  qed
qed

lemma fix_cursor_strip: "fix_cursor (strip E) = map_option strip (fix_cursor E)"
proof (cases "row_at E (filerow E)")
  case (Some r)
  then show ?thesis by (cases r) (simp_all add: fix_cursor_def row_at_strip Let_def)
qed (simp add: fix_cursor_def row_at_strip)

lemma move_left_strip: "move_left (strip E) = map_option strip (move_left E)"
  by (auto simp: move_left_def Let_def nth_opt_def)

lemma move_right_strip: "move_right (strip E) = map_option strip (move_right E)"
proof (cases "row_at E (filerow E)")
  case (Some r)
  then show ?thesis by (cases r) (simp_all add: move_right_def row_at_strip Let_def)
qed (simp add: move_right_def row_at_strip)

lemma move_strip [simp]: "move_up (strip E) = strip (move_up E)" "move_down (strip E) = strip (move_down E)"
  by (simp_all add: move_up_def move_down_def)

lemma editorMoveCursor_strip: "editorMoveCursor key (strip E) = map_option strip (editorMoveCursor key E)"
proof -
  have "Option.bind (map_option strip x) fix_cursor = map_option strip (Option.bind x fix_cursor)" for x
    by (cases x) (simp_all add: fix_cursor_strip)
  then show ?thesis
    by (simp add: editorMoveCursor_def move_left_strip move_right_strip fix_cursor_strip)
qed

lemma move_times_strip: "move_times key n (strip E) = map_option strip (move_times key n E)"
proof (induction n arbitrary: E)
  case (Suc n)
  show ?case by (cases "editorMoveCursor key E") (simp_all add: editorMoveCursor_strip Suc)
qed simp

lemma page_move_strip: "page_move c (strip E) = map_option strip (page_move c E)"
proof -
  define E1 where "E1 = (if c = PAGE_UP \<and> E_cy E \<noteq> 0 then E\<lparr>E_cy := 0\<rparr>
                else if c = PAGE_DOWN \<and> E_cy E \<noteq> E_screenrows E - 1 then E\<lparr>E_cy := E_screenrows E - 1\<rparr> else E)"
  have "(if c = PAGE_UP \<and> E_cy (strip E) \<noteq> 0 then (strip E)\<lparr>E_cy := 0\<rparr>
                else if c = PAGE_DOWN \<and> E_cy (strip E) \<noteq> E_screenrows (strip E) - 1 then (strip E)\<lparr>E_cy := E_screenrows (strip E) - 1\<rparr>
                else strip E) = strip E1"
    by (simp add: E1_def)
  then show ?thesis
    unfolding page_move_def Let_def E1_def [symmetric] by (simp add: move_times_strip)
qed

text \<open>
  C5. Highlighting has no influence on editing: whenever a key is handled in a highlighted file, the same key in the file
  without highlighting gives the same text, rendering and cursor.\<close>
theorem highlighting_harmless:
  assumes "edit_command c E = Some F"
  shows "edit_command c (strip E) = Some (strip F)"
proof -
  consider "c = ENTER_KEY" | "c \<in> {BACKSPACE_KEY, CTRL_H_KEY, DEL_KEY}" | "c \<in> {PAGE_UP, PAGE_DOWN}"
    | "c \<in> {ARROW_UP, ARROW_DOWN, ARROW_LEFT, ARROW_RIGHT}" | "c \<in> {CTRL_C_KEY, CTRL_L_KEY, ESC_KEY}"
    | "c \<notin> {ENTER_KEY, BACKSPACE_KEY, CTRL_H_KEY, DEL_KEY, PAGE_UP, PAGE_DOWN, ARROW_UP, ARROW_DOWN, ARROW_LEFT, ARROW_RIGHT,
        CTRL_C_KEY, CTRL_L_KEY, ESC_KEY}"
    by auto
  then show ?thesis
  proof cases
    case 1
    then show ?thesis using assms by (simp add: edit_command_def editorInsertNewline_strip)
  next
    case 2
    then have "edit_command c G = editorDelChar G" for G by (auto simp: edit_command_def key_defs)
    then show ?thesis using assms by (simp add: editorDelChar_strip)
  next
    case 3
    then have "edit_command c G = page_move c G" for G by (auto simp: edit_command_def key_defs)
    then show ?thesis using assms by (simp add: page_move_strip)
  next
    case 4
    then have "edit_command c G = editorMoveCursor c G" for G by (auto simp: edit_command_def key_defs)
    then show ?thesis using assms by (simp add: editorMoveCursor_strip)
  next
    case 5
    then have "edit_command c G = Some G" for G by (auto simp: edit_command_def key_defs)
    then show ?thesis using assms by simp
  next
    case 6
    then have "edit_command c G = editorInsertChar c G" for G by (simp add: edit_command_def)
    then show ?thesis using assms by (simp add: editorInsertChar_strip)
  qed
qed

lemma highlighting_harmless_witness:
  "let E = (config_of [] 0 0 0 80)\<lparr>E_syntax := Some (hd HLDB)\<rparr> in
   \<exists>F. edit_command (int_of_char (CHR ''7'')) E = Some F \<and> edit_command (int_of_char (CHR ''7'')) (strip E) = Some (strip F)"
proof -
  define E where "E = (config_of [] 0 0 0 80)\<lparr>E_syntax := Some (hd HLDB)\<rparr>"
  have "edit_command (int_of_char (CHR ''7'')) E \<noteq> None" unfolding E_def by code_simp
  then show ?thesis using highlighting_harmless unfolding Let_def E_def by blast
qed

section \<open>Scanning a line\<close>

lemma memset_length: "memset i v n b = Some b2 \<Longrightarrow> length b2 = length b"
  by (auto simp: memset_def split: if_splits)

lemma set_hl_length: "set_hl i v b = Some b2 \<Longrightarrow> length b2 = length b"
  by (auto simp: set_hl_def split: if_splits)

lemma keyword_at_fits: "keyword_at kws p = Some (n, q) \<Longrightarrow> n < length p"
  by (induction kws) (auto simp: Let_def split: if_splits)

text \<open>The table entry for C.\<close>
definition C_syntax :: editorSyntax where
  "C_syntax = hd HLDB"

lemma C_syntax_simps [simp]:
  "singleline_comment_start C_syntax = (CHR ''/'', CHR ''/'')"
  "multiline_comment_start C_syntax = (CHR ''/'', CHR ''*'')"
  "multiline_comment_end C_syntax = (CHR ''*'', CHR ''/'')"
  by (simp_all add: C_syntax_def HLDB_def)

text \<open>
  A line without tabs and backslashes: the scan stays inside the array of colours. Its index is inside the line or at the
  NUL behind it.\<close>
lemma syntax_step_safe:
  assumes t: "c_tab \<notin> set t" "CHR 0x5C \<notin> set t" and s: "sx_i s < length t" "length (sx_hl s) = length t"
  shows "\<exists>s2 r. syntax_step C_syntax (length t) (t @ [c_nul]) s = Some (s2, r) \<and>
    length (sx_hl s2) = length t \<and> (\<not> r \<longrightarrow> sx_i s2 \<le> length t)"
proof -
  define i where "i = sx_i s"
  define b where "b = t @ [c_nul]"
  define c where "c = b ! i"
  define c1 where "c1 = b ! (i + 1)"
  have i: "i < length t" "length (sx_hl s) = length t" using s by (simp_all add: i_def)
  have nth: "nth_opt b i = Some c" "nth_opt b (i + 1) = Some c1" using i by (simp_all add: b_def c_def c1_def)
  have ct: "c = t ! i" using i by (simp add: c_def b_def nth_append)
  then have nb: "c \<noteq> CHR 0x5C" using t(2) i by (metis nth_mem)
  have last1: "i + 1 < length t" if "c1 = CHR ''/'' \<or> c1 = CHR ''*''"
  proof (rule ccontr)
    assume "\<not> i + 1 < length t"
    then have "c1 = c_nul" using i by (simp add: c1_def b_def nth_append)
    then show False using that by (auto simp: c_nul_def)
  qed
  have set1: "set_hl i v (sx_hl s) = Some ((sx_hl s)[i := v])" for v using i by (simp add: set_hl_def)
  have set2: "set_hl (i + 1) v ((sx_hl s)[i := v]) = Some ((sx_hl s)[i := v, i + 1 := v])"
    if "c1 = CHR ''/'' \<or> c1 = CHR ''*''" for v using last1 [OF that] i by (simp add: set_hl_def)
  have mem: "memset i HL_COMMENT (length t - i) (sx_hl s) = Some (take i (sx_hl s) @ replicate (length t - i) HL_COMMENT)"
    using i by (simp add: memset_def)
  define slash where "slash \<longleftrightarrow> sx_sep s \<and> c = CHR ''/'' \<and> c1 = CHR ''/''"
  define num where "num \<longleftrightarrow> (is_digit 10 c \<and> (sx_sep s \<or> nth_opt (sx_hl s) (i - 1) = Some HL_NUMBER)) \<or>
    (c = CHR ''.'' \<and> 0 < i \<and> nth_opt (sx_hl s) (i - 1) = Some HL_NUMBER)"
  define kw where "kw = (if sx_sep s then keyword_at (syn_keywords C_syntax) (drop i b) else None)"
  note step = syntax_step_def [of C_syntax "length t" b s, unfolded Let_def C_syntax_simps fst_conv snd_conv,
      folded i_def, unfolded nth Option.bind.simps, folded slash_def num_def kw_def]
  consider slash | "\<not> slash" "sx_com s" "c = CHR ''*'' \<and> c1 = CHR ''/''"
    | "\<not> slash" "sx_com s" "\<not> (c = CHR ''*'' \<and> c1 = CHR ''/'')"
    | "\<not> slash" "\<not> sx_com s" "c = CHR ''/'' \<and> c1 = CHR ''*''"
    | "\<not> slash" "\<not> sx_com s" "\<not> (c = CHR ''/'' \<and> c1 = CHR ''*'')" by blast
  then show ?thesis
  proof cases
    case 1
    then show ?thesis using mem i step by (auto simp: b_def)
  next
    case 2
    then show ?thesis using set1 set2 last1 i step by (auto simp: b_def)
  next
    case 3
    then show ?thesis using set1 i step by (auto simp: b_def)
  next
    case 4
    then show ?thesis using set1 set2 last1 i step by (auto simp: b_def)
  next
    case 5
    note step2 = step [unfolded if_not_P [OF 5(1)] if_not_P [OF 5(2)] if_not_P [OF 5(3)]]
    consider "sx_str s \<noteq> None \<or> c = CHR 0x22 \<or> c = CHR 0x27 \<or> \<not> c_isprint c \<or> num"
      | "sx_str s = None" "c \<noteq> CHR 0x22" "c \<noteq> CHR 0x27" "c_isprint c" "\<not> num" by blast
    then show ?thesis
    proof cases
      case 1
      then show ?thesis using set1 nb i step2 by (auto simp: b_def)
    next
      case 2
      show ?thesis
      proof (cases kw)
        case None
        then show ?thesis using 2 i step2 by (auto simp: b_def)
      next
        case (Some w)
        obtain n q where w: "w = (n, q)" by (cases w)
        then have "n < length (drop i b)"
          using Some by (auto simp: kw_def simp del: length_drop dest: keyword_at_fits split: if_splits)
        then have n: "i + n \<le> length t" using i by (simp add: b_def)
        then have "memset i v n (sx_hl s) = Some (take i (sx_hl s) @ replicate n v @ drop (i + n) (sx_hl s))" for v
          using i by (simp add: memset_def)
        then show ?thesis using 2 Some w n i step2 by (auto simp: b_def)
      qed
    qed
  qed
qed

lemma syntax_loop_safe:
  assumes "c_tab \<notin> set t" "CHR 0x5C \<notin> set t" and "sx_i s \<le> length t" "length (sx_hl s) = length t"
  shows "\<exists>s2 r. syntax_loop C_syntax (length t) (t @ [c_nul]) s = Some (s2, r) \<and> length (sx_hl s2) = length t"
  using assms(3,4)
proof (induction C_syntax "length t" "t @ [c_nul]" s rule: syntax_loop.induct)
  case (1 s)
  have nth: "nth_opt (t @ [c_nul]) (sx_i s) = Some ((t @ [c_nul]) ! sx_i s)" using 1(2) by simp
  show ?case
  proof (cases "(t @ [c_nul]) ! sx_i s = c_nul")
    case True
    then show ?thesis using nth 1(3) by (subst syntax_loop.simps) auto
  next
    case False
    then have "sx_i s \<noteq> length t" by auto
    then have "sx_i s < length t" using 1(2) by simp
    from syntax_step_safe [OF assms(1,2) this 1(3)] obtain s2 r where
      st: "syntax_step C_syntax (length t) (t @ [c_nul]) s = Some (s2, r)" "length (sx_hl s2) = length t"
        "\<not> r \<longrightarrow> sx_i s2 \<le> length t"
      by blast
    show ?thesis
    proof (cases r)
      case True
      then show ?thesis using nth False st by (subst syntax_loop.simps) auto
    next
      case r: False
      have "\<exists>s3 r. syntax_loop C_syntax (length t) (t @ [c_nul]) s2 = Some (s3, r) \<and> length (sx_hl s3) = length t"
        using 1(1) [OF nth False st(1) refl r] r st(2,3) by simp
      then show ?thesis using nth False st(1) r by (subst syntax_loop.simps) simp
    qed
  qed
qed

section \<open>Opening a highlighted file\<close>

lemma open_comment_defined:
  assumes "rendered t r"
  shows "\<exists>oc. editorRowHasOpenComment r = Some oc"
  using assms by (auto simp: editorRowHasOpenComment_def rendered_def)

text \<open>A file with the syntax of C, its rows numbered.\<close>
definition c_rep :: "string list \<Rightarrow> editorConfig \<Rightarrow> bool" where
  "c_rep ls E \<longleftrightarrow> text_rep ls E \<and> E_syntax E = Some C_syntax \<and> (\<forall>i < length ls. erow_idx (E_row E ! i) = i)"

definition calm :: "string \<Rightarrow> bool" where
  "calm t \<longleftrightarrow> c_tab \<notin> set t \<and> CHR 0x5C \<notin> set t"

text \<open>One row's highlighting, its steps named; \<open>E2\<close> is the state with the colours of the row.\<close>
lemma editorUpdateSyntax_steps:
  assumes "nth_opt (E_row E) k = Some row" and "E_syntax E = Some syn"
    and "upd_row k (\<lambda>r. r\<lparr>erow_hl := replicate (erow_rsize row) HL_NORMAL\<rparr>) E = E1"
    and "(if 0 < erow_idx row then Option.bind (nth_opt (E_row E1) (erow_idx row - 1)) editorRowHasOpenComment else Some False) = Some ic"
    and "syntax_loop syn (erow_size row) (erow_render row)
        \<lparr>sx_i = length (takeWhile c_isspace (c_str (erow_render row))), sx_sep = True, sx_str = None,
         sx_com = ic, sx_hl = replicate (erow_rsize row) HL_NORMAL\<rparr> = Some (s, ret)"
    and "upd_row k (\<lambda>r. r\<lparr>erow_hl := sx_hl s\<rparr>) E1 = E2"
    and "editorRowHasOpenComment (E_row E2 ! k) = Some oc"
  shows "editorUpdateSyntax k E = (if ret then Some E2
    else Option.bind (if erow_hl_oc row \<noteq> oc \<and> erow_idx row + 1 < E_numrows E
                      then editorUpdateSyntax (erow_idx row + 1) E2 else Some E2)
           (\<lambda>E3. Some (upd_row k (\<lambda>r. r\<lparr>erow_hl_oc := oc\<rparr>) E3)))"
  by (subst editorUpdateSyntax.simps)
    (simp only: assms Option.bind.simps option.case Let_def prod.case if_True if_False split: if_split)

text \<open>The new last row is highlighted; no row is behind it.\<close>
lemma update_last_row:
  assumes rs: "list_all2 row_rep ls rs" and calm: "calm t" and w: "chars_rep t w" "erow_idx w = length ls"
    and E: "E_row E = rs @ [w]" "E_numrows E = length ls" "E_syntax E = Some C_syntax"
  obtains w2 where "editorUpdateRow (length ls) E = Some (E\<lparr>E_row := rs @ [w2]\<rparr>)" "row_rep t w2" "erow_idx w2 = length ls"
proof -
  have len: "length rs = length ls" using rs by (simp add: list_all2_lengthD)
  have t: "c_tab \<notin> set t" "CHR 0x5C \<notin> set t" using calm by (simp_all add: calm_def)
  define k where "k = length ls"
  define w1 where "w1 = w\<lparr>erow_rsize := length t, erow_render := t @ [c_nul]\<rparr>"
  define E1 where "E1 = E\<lparr>E_row := rs @ [w1]\<rparr>"
  have k: "k < length (E_row E)" "E_row E ! k = w" using len E(1) by (simp_all add: k_def nth_append)
  have up: "editorUpdateRow k E = editorUpdateSyntax k E1"
    using editorUpdateRow_eq [of k E t] k w(1) len E(1)
    by (simp add: expand_tabs_id [OF t(1)] upd_row_def E1_def w1_def k_def list_update_append)
  define hl0 where "hl0 = replicate (length t) HL_NORMAL"
  define E2 where "E2 = E\<lparr>E_row := rs @ [w1\<lparr>erow_hl := hl0\<rparr>]\<rparr>"
  have upd: "upd_row k f (E\<lparr>E_row := rs @ [x]\<rparr>) = E\<lparr>E_row := rs @ [f x]\<rparr>" for f x
    using len by (simp add: upd_row_def k_def list_update_append nth_append)
  have prev: "\<exists>ic. (if 0 < erow_idx w1 then Option.bind (nth_opt (E_row E2) (erow_idx w1 - 1)) editorRowHasOpenComment else Some False) = Some ic"
  proof (cases "k = 0")
    case False
    then have "k - 1 < length ls" by (simp add: k_def)
    then have "row_rep (ls ! (k - 1)) (rs ! (k - 1))" using rs by (simp add: list_all2_nthD)
    then have "rendered (ls ! (k - 1)) (E_row E2 ! (k - 1))"
      using \<open>k - 1 < length ls\<close> len by (simp add: E2_def nth_append row_rep_def)
    moreover have "k - 1 < length (E_row E2)" using len by (simp add: E2_def k_def)
    ultimately show ?thesis using open_comment_defined w(2) by (auto simp: w1_def k_def)
  qed (auto simp: w1_def w(2) k_def)
  then obtain ic where ic: "(if 0 < erow_idx w1 then Option.bind (nth_opt (E_row E2) (erow_idx w1 - 1)) editorRowHasOpenComment else Some False) = Some ic"
    by blast
  define s0 where "s0 = \<lparr>sx_i = length (takeWhile c_isspace (c_str (t @ [c_nul]))), sx_sep = True, sx_str = None,
                 sx_com = ic, sx_hl = hl0\<rparr>"
  have "c_str (t @ [c_nul]) = takeWhile (\<lambda>c. c \<noteq> c_nul) t" by (simp add: c_str_def takeWhile_tail)
  then have "length (takeWhile c_isspace (c_str (t @ [c_nul]))) \<le> length t"
    by (metis length_takeWhile_le le_trans)
  then have "sx_i s0 \<le> length t" "length (sx_hl s0) = length t" by (simp_all add: s0_def hl0_def)
  from syntax_loop_safe [OF t this]
  obtain s ret where loop: "syntax_loop C_syntax (length t) (t @ [c_nul]) s0 = Some (s, ret)" "length (sx_hl s) = length t"
    by blast
  define w3 where "w3 = w1\<lparr>erow_hl := sx_hl s\<rparr>"
  have sh: "rendered t w3" using loop(2) by (simp add: rendered_def w3_def w1_def expand_tabs_id [OF t(1)])
  then obtain oc where oc: "editorRowHasOpenComment w3 = Some oc" using open_comment_defined by blast
  define w4 where "w4 = (if ret then w3 else w3\<lparr>erow_hl_oc := oc\<rparr>)"
  have w1: "nth_opt (E_row E1) k = Some w1" "erow_size w1 = length t" "erow_render w1 = t @ [c_nul]" "erow_rsize w1 = length t"
      "erow_idx w1 = k" "E_syntax E1 = Some C_syntax" "E_numrows E1 = k"
    using len E(2,3) w by (simp_all add: E1_def w1_def k_def nth_append chars_rep_def)
  have up1: "upd_row k (\<lambda>r. r\<lparr>erow_hl := replicate (erow_rsize w1) HL_NORMAL\<rparr>) E1 = E2"
    unfolding E1_def upd by (simp add: E2_def hl0_def w1(4))
  have up2: "upd_row k (\<lambda>r. r\<lparr>erow_hl := sx_hl s\<rparr>) E2 = E\<lparr>E_row := rs @ [w3]\<rparr>"
    unfolding E2_def upd by (simp add: w3_def)
  have nth3: "(rs @ [w3]) ! k = w3" using len by (simp add: k_def nth_append)
  have "editorUpdateSyntax k E1 = (if ret then Some (E\<lparr>E_row := rs @ [w3]\<rparr>)
    else Option.bind (if erow_hl_oc w1 \<noteq> oc \<and> erow_idx w1 + 1 < E_numrows E1
                      then editorUpdateSyntax (erow_idx w1 + 1) (E\<lparr>E_row := rs @ [w3]\<rparr>) else Some (E\<lparr>E_row := rs @ [w3]\<rparr>))
           (\<lambda>E3. Some (upd_row k (\<lambda>r. r\<lparr>erow_hl_oc := oc\<rparr>) E3)))"
    by (rule editorUpdateSyntax_steps [OF w1(1) w1(6) up1 ic])
      (use loop(1) up2 oc nth3 in \<open>simp_all add: w1 s0_def hl0_def\<close>)
  then have "editorUpdateSyntax k E1 = Some (E\<lparr>E_row := rs @ [w4]\<rparr>)"
    using w1(5,7) by (simp add: upd w4_def del: upd_row_simps)
  moreover have "erow_size w4 = erow_size w" "erow_chars w4 = erow_chars w" "erow_idx w4 = length ls"
    using w(2) by (simp_all add: w4_def w3_def w1_def)
  then have "chars_rep t w4" "erow_idx w4 = length ls" using w(1) by (simp_all add: chars_rep_def)
  moreover have "rendered t w4" using sh by (simp add: rendered_def w4_def)
  ultimately have "editorUpdateSyntax k E1 = Some (E\<lparr>E_row := rs @ [w4]\<rparr>)" "row_rep t w4" "erow_idx w4 = length ls"
    by (simp_all add: row_rep_def)
  then show thesis using up by (intro that [of w4]) (simp_all only: k_def [symmetric])
qed

lemma insert_last_calm:
  assumes "c_rep ls E" and "calm t"
  obtains F where "editorInsertRow (E_numrows E) (t @ [c_nul]) (length t) E = Some F" "c_rep (ls @ [t]) F"
proof -
  have E: "text_rep ls E" "E_syntax E = Some C_syntax" "\<And>i. i < length ls \<Longrightarrow> erow_idx (E_row E ! i) = i"
    using assms(1) by (simp_all add: c_rep_def)
  note len = text_rep_len [OF E(1)]
  have rs: "list_all2 row_rep ls (E_row E)" using E(1) by (simp add: text_rep_def)
  define w where "w = \<lparr>erow_idx = length ls, erow_size = length t, erow_rsize = 0, erow_chars = t @ [c_nul],
      erow_render = [], erow_hl = [], erow_hl_oc = False\<rparr>"
  have w: "chars_rep t w" "erow_idx w = length ls" by (simp_all add: w_def chars_rep_def)
  obtain w2 where w2: "editorUpdateRow (length ls) (E\<lparr>E_row := E_row E @ [w]\<rparr>) = Some (E\<lparr>E_row := E_row E @ [w2]\<rparr>)"
      "row_rep t w2" "erow_idx w2 = length ls"
    using update_last_row [OF rs assms(2) w, of "E\<lparr>E_row := E_row E @ [w]\<rparr>"] len E(2) by auto
  define F where "F = E\<lparr>E_row := E_row E @ [w2], E_numrows := length ls + 1, E_dirty := E_dirty E + 1\<rparr>"
  have "editorInsertRow (E_numrows E) (t @ [c_nul]) (length t) E = Some F"
    using len w2(1) by (simp add: editorInsertRow_def w_def F_def)
  moreover have "c_rep (ls @ [t]) F"
    using rs w2(2,3) E(2,3) len
    by (auto simp: c_rep_def text_rep_def F_def nth_append less_Suc_eq intro: list_all2_appendI)
  ultimately show thesis by (rule that)
qed

lemma load_rows_calm:
  assumes "c_rep ls E" and "\<forall>l \<in> set (text_lines s). calm l"
  shows "\<exists>F. load_rows s E = Some F \<and> c_rep (ls @ text_lines s) F"
  using assms
proof (induction s E arbitrary: ls rule: load_rows.induct)
  case (1 s E)
  show ?case
  proof (cases "s = []")
    case False
    define l where "l = strip_eol (fst (getline s))"
    have fl: "text_lines s = l # text_lines (snd (getline s))"
      using False by (simp add: text_lines.simps [of s] l_def)
    then have "calm l" using 1(3) by simp
    then obtain E1 where E1: "editorInsertRow (E_numrows E) (l @ [c_nul]) (length l) E = Some E1" "c_rep (ls @ [l]) E1"
      using insert_last_calm [OF 1(2)] by blast
    have "\<exists>F. load_rows (snd (getline s)) E1 = Some F \<and> c_rep ((ls @ [l]) @ text_lines (snd (getline s))) F"
      by (rule 1(1)) (use False E1 1(3) fl in \<open>simp_all add: l_def\<close>)
    moreover have "load_rows s E = load_rows (snd (getline s)) E1"
      using False E1(1) by (subst load_rows.simps) (simp add: l_def Let_def)
    ultimately show ?thesis using fl by simp
  qed (use 1(2) in \<open>auto simp: load_rows.simps\<close>)
qed

text \<open>
  C15. A C file none of whose lines has a tab or a backslash is opened: the highlighting of each line stays inside its
  array, and the rows hold the lines of the file.\<close>
theorem open_calm_c_file:
  assumes "E_syntax (K_E w) = Some C_syntax" "E_row (K_E w) = []" "E_numrows (K_E w) = 0" and "\<not> kv_fopen_err v"
    and "K_files w f = Some s" and "\<forall>l \<in> set (text_lines s). calm l"
  shows "\<exists>w2. editorOpen v f w = Some (Return (0, w2)) \<and> c_rep (text_lines s) (K_E w2) \<and> E_dirty (K_E w2) = 0"
proof -
  define E1 where "E1 = (K_E w)\<lparr>E_dirty := 0, E_filename := Some f\<rparr>"
  have "c_rep [] E1" using assms(1-3) by (simp add: E1_def c_rep_def text_rep_def)
  then obtain F where F: "load_rows s E1 = Some F" "c_rep (text_lines s) F"
    using load_rows_calm [OF _ assms(6), of "[]"] by auto
  then have "c_rep (text_lines s) (F\<lparr>E_dirty := 0\<rparr>)" by (simp add: c_rep_def text_rep_def)
  then show ?thesis
    using F(1) assms(4,5) by (simp add: editorOpen_def E1_def [symmetric] Let_def)
qed

lemma open_calm_c_file_witness:
  "\<exists>w2. editorOpen env_fine ''a.c''
     (kilo_of ((config_of [] 0 0 0 80)\<lparr>E_syntax := Some C_syntax\<rparr>) [''a.c'' \<mapsto> ''int x; // y'' @ [c_nl]] []) = Some (Return (0, w2)) \<and>
     c_rep [''int x; // y''] (K_E w2) \<and> E_dirty (K_E w2) = 0"
proof -
  have t: "text_lines (''int x; // y'' @ [c_nl]) = [''int x; // y'']"
    by (simp add: text_lines.simps getline_def strip_eol_def c_nl_def c_cr_def)
  show ?thesis
    unfolding t [symmetric]
    by (rule open_calm_c_file) (use t in \<open>simp_all add: env_fine_def calm_def c_tab_def\<close>)
qed

section \<open>Lines that are not safe\<close>

lemma expand_leading_tabs:
  "expand_tabs 0 (replicate (Suc n) c_tab @ u) = replicate (8 * n + 7) (CHR '' '') @ expand_tabs (8 * n + 7) u"
proof -
  have from_stop: "expand_tabs (8 * m + 7) (replicate n c_tab @ u) = replicate (8 * n) (CHR '' '') @ expand_tabs (8 * (m + n) + 7) u"
    for m
  proof (induction n arbitrary: m)
    case (Suc n)
    have "(8 * m + 7 + 1) mod 8 = 0" by presburger
    then have "expand_tabs (8 * m + 7) (replicate (Suc n) c_tab @ u)
        = replicate 8 (CHR '' '') @ expand_tabs (8 * Suc m + 7) (replicate n c_tab @ u)"
      by (simp add: Let_def add.commute)
    then show ?case using Suc [of "Suc m"]
      by (simp add: append_assoc [symmetric] replicate_add [symmetric] del: replicate.simps expand_tabs.simps append_assoc)
  qed simp
  have "expand_tabs 0 (replicate (Suc n) c_tab @ u)
      = replicate 7 (CHR '' '') @ expand_tabs (8 * 0 + 7) (replicate n c_tab @ u)"
    by (simp add: Let_def)
  then show ?thesis
    unfolding from_stop by (simp add: append_assoc [symmetric] replicate_add [symmetric] add.commute del: append_assoc)
qed

text \<open>A comment behind tabs in a line that is shorter than the column the comment is shown in.\<close>
definition tabbed_comment :: "string \<Rightarrow> bool" where
  "tabbed_comment t \<longleftrightarrow> (\<exists>n u. t = replicate (Suc n) c_tab @ ''//'' @ u \<and> length u < 7 * n + 4)"

lemma tabbed_comment_scan:
  assumes "t = replicate (Suc n) c_tab @ ''//'' @ u" and "length u < 7 * n + 4"
    and "sx_i s = 8 * n + 7" and "sx_sep s"
  shows "syntax_loop C_syntax (length t) (expand_tabs 0 t @ [c_nul]) s = None"
proof -
  define b where "b = expand_tabs 0 t @ [c_nul]"
  have "''//'' @ u = CHR ''/'' # CHR ''/'' # u" by simp
  then have b: "b = replicate (8 * n + 7) (CHR '' '') @ CHR ''/'' # CHR ''/'' # expand_tabs (8 * n + 9) u @ [c_nul]"
    unfolding b_def assms(1) expand_leading_tabs by (simp add: c_tab_def add.commute)
  have nth: "nth_opt b (sx_i s) = Some (CHR ''/'')" "nth_opt b (sx_i s + 1) = Some (CHR ''/'')"
    unfolding b assms(3) by (simp_all add: nth_append)
  have "\<not> sx_i s \<le> length t" using assms by simp
  then have "syntax_step C_syntax (length t) b s = None"
    using assms(4) nth by (simp add: syntax_step_def Let_def)
  then show ?thesis
    unfolding b_def [symmetric] using nth by (subst syntax_loop.simps) (simp add: c_nul_def)
qed

lemma takeWhile_replicate: "P a \<Longrightarrow> takeWhile P (replicate n a @ ys) = replicate n a @ takeWhile P ys"
  by (induction n) simp_all

lemma editorUpdateSyntax_stuck:
  assumes "nth_opt (E_row E) k = Some row" and "E_syntax E = Some syn"
    and "\<And>ic. syntax_loop syn (erow_size row) (erow_render row)
      \<lparr>sx_i = length (takeWhile c_isspace (c_str (erow_render row))), sx_sep = True, sx_str = None,
       sx_com = ic, sx_hl = replicate (erow_rsize row) HL_NORMAL\<rparr> = None"
  shows "editorUpdateSyntax k E = None"
proof -
  have stuck: "Option.bind x (\<lambda>ic. Option.bind (syntax_loop syn (erow_size row) (erow_render row)
      \<lparr>sx_i = length (takeWhile c_isspace (c_str (erow_render row))), sx_sep = True, sx_str = None,
       sx_com = ic, sx_hl = replicate (erow_rsize row) HL_NORMAL\<rparr>) (G ic)) = None" for x G
    by (cases x) (simp_all add: assms(3))
  show ?thesis
    by (subst editorUpdateSyntax.simps) (simp only: assms(1,2) Option.bind.simps Let_def option.case stuck)
qed

lemma tabbed_comment_update:
  assumes "tabbed_comment t" and "k < length (E_row E)" and "chars_rep t (E_row E ! k)" and "E_syntax E = Some C_syntax"
  shows "editorUpdateRow k E = None"
proof -
  obtain n u where t: "t = replicate (Suc n) c_tab @ ''//'' @ u" "length u < 7 * n + 4"
    using assms(1) by (auto simp: tabbed_comment_def)
  define E1 where "E1 = upd_row k (\<lambda>r. r\<lparr>erow_rsize := length (expand_tabs 0 t), erow_render := expand_tabs 0 t @ [c_nul]\<rparr>) E"
  have row: "nth_opt (E_row E1) k = Some (E_row E1 ! k)" "erow_render (E_row E1 ! k) = expand_tabs 0 t @ [c_nul]"
      "erow_size (E_row E1 ! k) = length t" "E_syntax E1 = Some C_syntax"
    using assms(2,4) chars_repD(1) [OF assms(3)] by (simp_all add: E1_def)
  have "''//'' @ u = CHR ''/'' # CHR ''/'' # u" by simp
  then have b: "expand_tabs 0 t = replicate (8 * n + 7) (CHR '' '') @ CHR ''/'' # CHR ''/'' # expand_tabs (8 * n + 9) u"
    unfolding t(1) expand_leading_tabs by (simp add: c_tab_def add.commute)
  have "takeWhile c_isspace (c_str (expand_tabs 0 t @ [c_nul])) = replicate (8 * n + 7) (CHR '' '')"
  proof -
    have sp: "c_isspace (CHR '' '')" "\<not> c_isspace (CHR ''/'')" "CHR '' '' \<noteq> c_nul" "CHR ''/'' \<noteq> c_nul"
      by (simp_all add: c_isspace_def c_nul_def)
    define v where "v = expand_tabs (8 * n + 9) u @ [c_nul]"
    have e: "expand_tabs 0 t @ [c_nul] = replicate (8 * n + 7) (CHR '' '') @ CHR ''/'' # CHR ''/'' # v"
      by (simp only: b v_def append_assoc append_Cons)
    show ?thesis unfolding e c_str_def using sp by (simp only: takeWhile_replicate takeWhile.simps if_True if_False simp_thms append_Nil2)
  qed
  then have start: "length (takeWhile c_isspace (c_str (expand_tabs 0 t @ [c_nul]))) = 8 * n + 7" by simp
  have "syntax_loop C_syntax (length t) (expand_tabs 0 t @ [c_nul])
      \<lparr>sx_i = 8 * n + 7, sx_sep = True, sx_str = None, sx_com = ic, sx_hl = h\<rparr> = None" for ic h
    by (rule tabbed_comment_scan [OF t]) simp_all
  then have "editorUpdateSyntax k E1 = None"
    by (intro editorUpdateSyntax_stuck [OF row(1,4)]) (simp only: row start)
  then show ?thesis using editorUpdateRow_eq [OF assms(2,3)] by (simp add: E1_def)
qed

lemma insert_last_syntax:
  assumes "editorInsertRow (E_numrows E) s len E = Some F" and "E_numrows E = length (E_row E)"
  shows "E_syntax F = E_syntax E \<and> E_numrows F = length (E_row F)"
proof -
  define G where "G = E\<lparr>E_row := E_row E @ [\<lparr>erow_idx = E_numrows E, erow_size = len, erow_rsize = 0,
      erow_chars = take (len + 1) s, erow_render = [], erow_hl = [], erow_hl_oc = False\<rparr>]\<rparr>"
  obtain E1 where E1: "editorUpdateRow (E_numrows E) G = Some E1" "F = E1\<lparr>E_numrows := E_numrows E1 + 1, E_dirty := E_dirty E1 + 1\<rparr>"
    using assms by (auto simp: editorInsertRow_def Let_def bind_eq_Some_conv G_def split: if_splits)
  show ?thesis
    using editorUpdateRow_strip [OF E1(1)] assms(2) unfolding E1(2) by (simp add: G_def)
qed

lemma load_rows_tabbed:
  assumes "E_syntax E = Some C_syntax" and "E_numrows E = length (E_row E)" and "\<exists>l \<in> set (text_lines s). tabbed_comment l"
  shows "load_rows s E = None"
  using assms
proof (induction s E rule: load_rows.induct)
  case (1 s E)
  have ne: "s \<noteq> []" using 1(4) by auto
  define l where "l = strip_eol (fst (getline s))"
  have fl: "text_lines s = l # text_lines (snd (getline s))"
    using ne by (simp add: text_lines.simps [of s] l_def)
  show ?case
  proof (cases "editorInsertRow (E_numrows E) (l @ [c_nul]) (length l) E")
    case None
    then show ?thesis using ne by (subst load_rows.simps) (simp add: l_def Let_def)
  next
    case (Some E1)
    have "\<not> tabbed_comment l"
    proof
      assume tl: "tabbed_comment l"
      define w where "w = \<lparr>erow_idx = E_numrows E, erow_size = length l, erow_rsize = 0, erow_chars = l @ [c_nul],
          erow_render = [], erow_hl = [], erow_hl_oc = False\<rparr>"
      have w: "chars_rep l w" by (rule chars_repI [where rest = "[]"]) (simp_all add: w_def)
      have "editorUpdateRow (E_numrows E) (E\<lparr>E_row := E_row E @ [w]\<rparr>) = None"
        by (rule tabbed_comment_update [OF tl]) (use 1(2,3) w in \<open>simp_all add: nth_append\<close>)
      then show False using Some 1(3) by (simp add: editorInsertRow_def w_def)
    qed
    then have "\<exists>l \<in> set (text_lines (snd (getline s))). tabbed_comment l" using 1(4) fl by simp
    then have "load_rows (snd (getline s)) E1 = None"
      using 1(1) [OF ne l_def Some] insert_last_syntax [OF Some 1(3)] 1(2) by simp
    then show ?thesis using ne Some by (subst load_rows.simps) (simp add: l_def Let_def)
  qed
qed

text \<open>
  C37. A C file with a line such as a tab and a short // comment cannot be opened: the comment is coloured from the column
  it is shown in to the length of the line in characters, which is smaller, so that the count given to memset wraps
  around. This holds for \<open>n + 1\<close> tabs when less than \<open>7 n + 4\<close> characters follow the slashes.\<close>
theorem tabbed_comment_crashes:
  assumes "K_files w f = Some s" and "\<not> kv_fopen_err v" and "E_syntax (K_E w) = Some C_syntax"
    and "E_numrows (K_E w) = length (E_row (K_E w))"
    and "replicate (Suc n) c_tab @ ''//'' @ u \<in> set (text_lines s)" and "length u < 7 * n + 4"
  shows "editorOpen v f w = None"
proof -
  have "tabbed_comment (replicate (Suc n) c_tab @ ''//'' @ u)" using assms(6) by (auto simp: tabbed_comment_def)
  then have "load_rows s ((K_E w)\<lparr>E_dirty := 0, E_filename := Some f\<rparr>) = None"
    using assms(3-5) by (intro load_rows_tabbed) auto
  then show ?thesis using assms(1,2) by (simp add: editorOpen_def Let_def)
qed

lemma tabbed_comment_crashes_witness:
  "editorOpen env_fine ''a.c''
     (kilo_of ((config_of [] 0 0 0 80)\<lparr>E_syntax := Some C_syntax\<rparr>) [''a.c'' \<mapsto> ''x;'' @ [c_nl, c_tab] @ ''// y'' @ [c_nl]] []) = None"
  by (rule tabbed_comment_crashes [where s = "''x;'' @ [c_nl, c_tab] @ ''// y'' @ [c_nl]" and n = 0 and u = "'' y''"])
    (simp_all add: env_fine_def kilo_of_def config_of_def text_lines.simps getline_def strip_eol_def c_nl_def c_tab_def c_cr_def)

end
