(* ===== verification/KiloFind.thy ===== *)
theory KiloFind
  imports KiloSession
begin

text \<open>
  The incremental search of src/kilo.c (\<open>editorFind\<close>): the rows are tried cyclically in the direction of the search, no access leaves the arrays, and
  when the search is left the text and its highlighting are as before.
\<close>

section \<open>The next match\<close>

text \<open>All \<open>n\<close> rows from the one after \<open>cur\<close> on, in steps of 1 or -1; the last is \<open>cur\<close> itself.\<close>
definition search_order :: "int \<Rightarrow> int \<Rightarrow> nat \<Rightarrow> nat list" where
  "search_order step cur n = map (\<lambda>i. nat ((cur + step * (int i + 1)) mod int n)) [0..<n]"

definition match_in :: "editorConfig \<Rightarrow> string \<Rightarrow> nat \<Rightarrow> nat option" where
  "match_in E q k = strstr (c_str (erow_render (E_row E ! k))) q"

definition first_match :: "editorConfig \<Rightarrow> string \<Rightarrow> nat list \<Rightarrow> (nat \<times> nat) option" where
  "first_match E q ks = map_option (\<lambda>k. (k, the (match_in E q k))) (find (\<lambda>k. match_in E q k \<noteq> None) ks)"

lemma wrap_mod:
  fixes c N :: int
  assumes "0 < N" "- 1 \<le> c" "c \<le> N"
  shows "(if c = - 1 then N - 1 else if c = N then 0 else c) = c mod N"
proof -
  have "(- 1) mod N = N - 1" using assms(1) by (simp add: zmod_minus1)
  then show ?thesis using assms by auto
qed

lemma find_row_from:
  assumes "E_numrows E = length (E_row E)" and "E_row E \<noteq> []" and "step = 1 \<or> step = - 1"
    and "- 1 \<le> cur" and "cur < int (E_numrows E)" and "step = 1 \<or> 0 \<le> cur"
  shows "find_row E q step cur m =
    Some (first_match E q (map (\<lambda>i. nat ((cur + step * (int i + 1)) mod int (E_numrows E))) [0..<m]))"
  using assms(4-6)
proof (induction m arbitrary: cur)
  case (Suc m)
  define N where "N = int (E_numrows E)"
  have N: "0 < N" using assms(1,2) by (cases "E_row E") (simp_all add: N_def)
  define c2 where "c2 = (cur + step) mod N"
  have "- 1 \<le> cur + step" "cur + step \<le> N" using assms(3) Suc(2-4) by (auto simp: N_def)
  from wrap_mod [OF N this] have wrap: "(if cur + step = - 1 then N - 1 else if cur + step = N then 0 else cur + step) = c2"
    by (simp add: c2_def)
  have c2: "0 \<le> c2" "c2 < N" using N by (simp_all add: c2_def)
  then have row: "nth_opt (E_row E) (nat c2) = Some (E_row E ! nat c2)" using assms(1) by (simp add: N_def)
  have rest: "(c2 + step * (int i + 1)) mod N = (cur + step * (int (Suc i) + 1)) mod N" for i
  proof -
    have "(c2 + step * (int i + 1)) mod N = (cur + step + step * (int i + 1)) mod N" by (simp only: c2_def mod_add_left_eq)
    also have "cur + step + step * (int i + 1) = cur + step * (int (Suc i) + 1)" by (simp add: algebra_simps)
    finally show ?thesis .
  qed
  have hd: "(cur + step * (int 0 + 1)) mod N = c2" by (simp add: c2_def)
  have "find_row E q step cur (Suc m) =
      (if c2 < 0 then None
       else do { r \<leftarrow> nth_opt (E_row E) (nat c2);
                 case strstr (c_str (erow_render r)) q of
                   Some off \<Rightarrow> Some (Some (nat c2, off))
                 | None \<Rightarrow> find_row E q step c2 m })"
    by (simp only: find_row.simps Let_def N_def [symmetric] wrap)
  also have "\<dots> = (case match_in E q (nat c2) of Some off \<Rightarrow> Some (Some (nat c2, off)) | None \<Rightarrow> find_row E q step c2 m)"
    using row c2(1) by (simp add: match_in_def)
  also have "find_row E q step c2 m =
      Some (first_match E q (map (\<lambda>i. nat ((cur + step * (int (Suc i) + 1)) mod N)) [0..<m]))"
    using Suc(1) [of c2] c2 unfolding N_def [symmetric] rest by simp
  also have "map (\<lambda>i. nat ((cur + step * (int (Suc i) + 1)) mod N)) [0..<m] = map (\<lambda>i. nat ((cur + step * (int i + 1)) mod N)) [1..<Suc m]"
    by (simp add: map_Suc_upt [symmetric] comp_def del: map_Suc_upt upt_Suc)
  finally show ?case
    unfolding N_def [symmetric] upt_conv_Cons [OF zero_less_Suc] list.map hd
    by (simp add: first_match_def del: upt_Suc split: option.split)
qed (simp add: first_match_def)

lemma find_row_order:
  assumes "E_numrows E = length (E_row E)" and "step = 1 \<or> step = - 1"
    and "- 1 \<le> cur" and "cur < int (E_numrows E)" and "step = 1 \<or> 0 \<le> cur"
  shows "find_row E q step cur (E_numrows E) = Some (first_match E q (search_order step cur (E_numrows E)))"
proof (cases "E_row E = []")
  case True
  then show ?thesis using assms(1) by (simp add: first_match_def search_order_def)
next
  case False
  then show ?thesis using find_row_from [OF assms(1) False assms(2-5)] by (simp add: search_order_def)
qed

section \<open>Safety\<close>

text \<open>The rows are rendered, with one colour per column.\<close>
definition find_wf :: "editorConfig \<Rightarrow> bool" where
  "find_wf E \<longleftrightarrow> E_numrows E = length (E_row E) \<and>
     (\<forall>r \<in> set (E_row E). length (erow_hl r) = erow_rsize r \<and> (\<exists>s. erow_render r = s @ [c_nul] \<and> length s = erow_rsize r))"

text \<open>What the search does not touch.\<close>
definition frozen :: "editorConfig \<Rightarrow> editorConfig" where
  "frozen E = E\<lparr>E_cx := 0, E_cy := 0, E_rowoff := 0, E_coloff := 0, E_statusmsg := [], E_statusmsg_time := 0\<rparr>"

definition find_ok :: "editorConfig \<Rightarrow> find_state \<Rightarrow> editorConfig \<Rightarrow> bool" where
  "find_ok E0 f E \<longleftrightarrow> frozen (snd (FIND_RESTORE_HL f E)) = frozen E0 \<and> find_wf E \<and> fi_next f \<in> {- 1, 0, 1} \<and>
     - 1 \<le> fi_last f \<and> fi_last f < int (E_numrows E0) \<and> E_numrows E = E_numrows E0"

lemma frozen_simps [simp]:
  "E_row (frozen E) = E_row E" "E_numrows (frozen E) = E_numrows E" "frozen (frozen E) = frozen E"
  "frozen (E\<lparr>E_cx := i\<rparr>) = frozen E" "frozen (E\<lparr>E_cy := i\<rparr>) = frozen E" "frozen (E\<lparr>E_rowoff := i\<rparr>) = frozen E"
  "frozen (E\<lparr>E_coloff := i\<rparr>) = frozen E" "frozen (E\<lparr>E_statusmsg := s\<rparr>) = frozen E" "frozen (E\<lparr>E_statusmsg_time := i\<rparr>) = frozen E"
  by (simp_all add: frozen_def)

lemma frozen_cong: "frozen E = frozen F \<Longrightarrow> E_row E = E_row F \<and> E_numrows E = E_numrows F"
  by (metis frozen_simps(1,2))

lemma find_wf_cong: "frozen E = frozen F \<Longrightarrow> find_wf E = find_wf F"
  unfolding find_wf_def by (auto dest!: frozen_cong)

lemma strstr_fits: "strstr s t = Some k \<Longrightarrow> k + length t \<le> length s"
proof (induction s t arbitrary: k rule: strstr.induct)
  case (2 x s t)
  show ?case
  proof (cases "take (length t) (x # s) = t")
    case True
    then have "length (take (length t) (x # s)) = length t" by simp
    then have "length t \<le> length (x # s)" by (simp only: length_take min_def split: if_splits)
    then show ?thesis using 2(2) True by simp
  qed (use 2 in auto)
qed (simp split: if_splits)

lemma match_fits:
  assumes "find_wf E" and "k < length (E_row E)" and "match_in E q k = Some off"
  shows "off + length q \<le> length (erow_hl (E_row E ! k))"
proof -
  have "E_row E ! k \<in> set (E_row E)" using assms(2) by simp
  then obtain s where s: "erow_render (E_row E ! k) = s @ [c_nul]" "length s = length (erow_hl (E_row E ! k))"
    using assms(1) by (fastforce simp: find_wf_def)
  have "c_str (s @ [c_nul]) = c_str s" by (induction s) (simp_all add: c_str_def)
  then have "off + length q \<le> length (c_str s)"
    using strstr_fits assms(3) s(1) by (fastforce simp: match_in_def)
  also have "\<dots> \<le> length s" by (simp add: c_str_def length_takeWhile_le)
  finally show ?thesis using s(2) by simp
qed

lemma first_match_in:
  assumes "first_match E q ks = Some (k, off)"
  shows "k \<in> set ks \<and> match_in E q k = Some off"
  using assms by (auto simp: first_match_def find_Some_iff)

lemma search_order_less: "k \<in> set (search_order step cur n) \<Longrightarrow> k < n"
  by (auto simp: search_order_def nat_less_iff)

lemma upd_row_back:
  assumes "k < length (E_row E)"
  shows "upd_row k (\<lambda>r. r\<lparr>erow_hl := erow_hl (E_row E ! k)\<rparr>) (upd_row k (\<lambda>r. r\<lparr>erow_hl := h\<rparr>) E) = E"
proof -
  have "E_row E ! k = (E_row E ! k)\<lparr>erow_hl := erow_hl (E_row E ! k)\<rparr>" by simp
  then show ?thesis using assms by (simp add: upd_row_def)
qed

text \<open>The match is shown.\<close>
lemma find_show_ok:
  assumes "find_wf E" and "k < E_numrows E" and "match_in E (fi_query f) k = Some off" and "fi_saved f = None" and "fi_next f = 0"
  shows "\<exists>f2 E2. find_show k off f E = Some (f2, E2) \<and> find_ok E f2 E2 \<and> fi_last f2 = int k \<and> filerow E2 = int k \<and>
    filecol E2 = int off \<and> fi_query f2 = fi_query f"
proof -
  have k: "k < length (E_row E)" using assms(1,2) by (simp add: find_wf_def)
  define row where "row = E_row E ! k"
  define d where "d = (if E_screencols E < int off then int off - E_screencols E else 0)"
  have fits: "off + length (fi_query f) \<le> length (erow_hl row)" using match_fits [OF assms(1) k assms(3)] by (simp add: row_def)
  have row: "nth_opt (E_row E) k = Some row" using k by (simp add: row_def)
  have r: "row \<in> set (E_row E)" using k by (simp add: row_def)
  show ?thesis
  proof (cases "erow_hl row = []")
    case True
    have "frozen (E\<lparr>E_cy := 0, E_cx := int off - d, E_rowoff := int k, E_coloff := d\<rparr>) = frozen E" by simp
    from find_wf_cong [OF this] show ?thesis
      using True row assms by (simp add: find_show_def d_def [symmetric] find_ok_def FIND_RESTORE_HL_def filerow_def filecol_def)
  next
    case False
    define h where "h = take off (erow_hl row) @ replicate (length (fi_query f)) HL_MATCH @ drop (off + length (fi_query f)) (erow_hl row)"
    define E1 where "E1 = upd_row k (\<lambda>r. r\<lparr>erow_hl := h\<rparr>) E"
    define E2 where "E2 = E1\<lparr>E_cy := 0, E_cx := int off - d, E_rowoff := int k, E_coloff := d\<rparr>"
    have h: "memset off HL_MATCH (length (fi_query f)) (erow_hl row) = Some h" "length h = length (erow_hl row)"
      using fits by (simp_all add: memset_def h_def)
    have show2: "find_show k off f E = Some (f\<lparr>fi_saved := Some (k, erow_hl row), fi_last := int k\<rparr>, E2)"
      using False row h(1) by (simp add: find_show_def E2_def E1_def d_def)
    have "find_wf E1"
      using assms(1) h(2) r k unfolding find_wf_def E1_def
      by (auto simp: row_def [symmetric] dest!: subsetD [OF set_update_subset_insert])
    then have wf: "find_wf E2" using find_wf_cong [of E2 E1] by (simp add: E2_def)
    have "frozen (upd_row k (\<lambda>r. r\<lparr>erow_hl := erow_hl row\<rparr>) E2) = frozen (upd_row k (\<lambda>r. r\<lparr>erow_hl := erow_hl row\<rparr>) E1)"
      by (simp add: E2_def upd_row_def frozen_def)
    also have "\<dots> = frozen E" using upd_row_back [OF k, of h] by (simp add: E1_def row_def)
    finally show ?thesis
      using show2 wf assms(2,5) by (simp add: find_ok_def FIND_RESTORE_HL_def filerow_def filecol_def E2_def E1_def)
  qed
qed

text \<open>The restored state shows the same characters.\<close>
lemma upd_hl_render: "erow_render (E_row (upd_row j (\<lambda>r. r\<lparr>erow_hl := h\<rparr>) E) ! k) = erow_render (E_row E ! k)"
proof (cases "j < length (E_row E)")
  case True
  then show ?thesis by (cases "j = k") (simp_all add: upd_row_def)
qed (simp add: upd_row_def list_update_beyond)

lemma restore_simps [simp]:
  "E_numrows (snd (FIND_RESTORE_HL f E)) = E_numrows E"
  "erow_render (E_row (snd (FIND_RESTORE_HL f E)) ! k) = erow_render (E_row E ! k)"
  "fst (FIND_RESTORE_HL f E) = f\<lparr>fi_saved := None\<rparr>"
  by (auto simp: FIND_RESTORE_HL_def upd_hl_render simp del: upd_row_simps(1) split: option.split)

lemma restore_match: "match_in (snd (FIND_RESTORE_HL f E)) q k = match_in E q k"
  by (simp add: match_in_def)

lemma restore_cong [simp]:
  "snd (FIND_RESTORE_HL (f\<lparr>fi_query := q\<rparr>) E) = snd (FIND_RESTORE_HL f E)"
  "snd (FIND_RESTORE_HL (f\<lparr>fi_last := i\<rparr>) E) = snd (FIND_RESTORE_HL f E)"
  "snd (FIND_RESTORE_HL (f\<lparr>fi_next := i\<rparr>) E) = snd (FIND_RESTORE_HL f E)"
  by (auto simp: FIND_RESTORE_HL_def split: option.splits)

lemma match_frozen: "frozen E = frozen F \<Longrightarrow> match_in E q k = match_in F q k"
  by (auto simp: match_in_def dest!: frozen_cong)

lemma first_match_cong: "(\<And>k. match_in E q k = match_in F q k) \<Longrightarrow> first_match E q ks = first_match F q ks"
  by (simp add: first_match_def)

text \<open>The direction in which the next turn searches; 0: it does not.\<close>
definition find_step :: "find_state \<Rightarrow> int" where
  "find_step f = (if fi_last f = - 1 then 1 else fi_next f)"

text \<open>One turn of the search.\<close>
lemma find_search_ok:
  assumes "find_wf E0" and "find_ok E0 f E"
  shows "\<exists>f2 E2. find_search f E = Some (f2, E2) \<and> find_ok E0 f2 E2 \<and> fi_query f2 = fi_query f \<and>
    (find_step f \<noteq> 0 \<longrightarrow>
      (case first_match E0 (fi_query f) (search_order (find_step f) (fi_last f) (E_numrows E0)) of
         None \<Rightarrow> E2 = snd (FIND_RESTORE_HL f E) \<and> fi_last f2 = fi_last f
       | Some (k, off) \<Rightarrow> fi_last f2 = int k \<and> filerow E2 = int k \<and> filecol E2 = int off))"
proof -
  define g where "g = f\<lparr>fi_next := find_step f\<rparr>"
  define R where "R = snd (FIND_RESTORE_HL f E)"
  have gq: "fi_query g = fi_query f" "fi_last g = fi_last f" "fi_next g = find_step f" by (simp_all add: g_def)
  have gdef: "(if fi_last f = - 1 then f\<lparr>fi_next := 1\<rparr> else f) = g" by (simp add: g_def find_step_def)
  note ok = assms(2) [unfolded find_ok_def, folded R_def]
  have R: "frozen R = frozen E0" "find_wf R" using ok find_wf_cong [of R E0] assms(1) by auto
  show ?thesis
  proof (cases "find_step f = 0")
    case True
    then have "fi_last f \<noteq> - 1" by (auto simp: find_step_def)
    then have "g = f" using True by (simp add: g_def find_step_def)
    then show ?thesis using True assms(2) gdef gq(3) by (simp add: find_search_def)
  next
    case False
    define ks where "ks = search_order (find_step f) (fi_last f) (E_numrows E0)"
    have same: "match_in E q k = match_in E0 q k" for q k
      using match_frozen [OF R(1)] restore_match [of f E] by (simp add: R_def)
    have "find_row E (fi_query f) (find_step f) (fi_last f) (E_numrows E) = Some (first_match E (fi_query f) ks)"
      unfolding ks_def using ok False find_row_order [of E "find_step f" "fi_last f" "fi_query f"]
      by (auto simp: find_wf_def find_step_def split: if_splits)
    then have row: "find_row E (fi_query f) (find_step f) (fi_last f) (E_numrows E) = Some (first_match E0 (fi_query f) ks)"
      using first_match_cong [of E "fi_query f" E0] same by simp
    define h where "h = f\<lparr>fi_next := 0, fi_saved := None\<rparr>"
    have rest: "FIND_RESTORE_HL (g\<lparr>fi_next := 0\<rparr>) E = (h, R)"
      by (rule prod_eqI) (simp_all add: g_def h_def R_def)
    have search: "find_search f E = (case first_match E0 (fi_query f) ks of None \<Rightarrow> Some (h, R) | Some (k, off) \<Rightarrow> find_show k off h R)"
      unfolding find_search_def gdef Let_def gq using False row rest by (simp split: option.split)
    show ?thesis
    proof (cases "first_match E0 (fi_query f) ks")
      case None
      have "find_ok E0 h R" using R ok frozen_cong [OF R(1)] by (simp add: find_ok_def h_def FIND_RESTORE_HL_def)
      then show ?thesis using None search by (simp add: ks_def h_def R_def)
    next
      case (Some p)
      obtain k off where p: "p = (k, off)" by (cases p)
      note fm = first_match_in [OF Some [unfolded p]]
      have "k < E_numrows R" using fm search_order_less [of k] ok by (auto simp: ks_def R_def)
      moreover have "match_in R (fi_query h) k = Some off" using fm match_frozen [OF R(1)] by (simp add: h_def)
      ultimately obtain f2 E2 where s: "find_show k off h R = Some (f2, E2)" "find_ok R f2 E2" "fi_last f2 = int k"
          "filerow E2 = int k" "filecol E2 = int off" "fi_query f2 = fi_query h"
        using find_show_ok [OF R(2), of k h off] by (auto simp: h_def)
      have "find_ok E0 f2 E2" using s(2) R(1) frozen_cong [OF R(1)] by (simp add: find_ok_def)
      then show ?thesis using Some p search s by (simp add: ks_def h_def)
    qed
  qed
qed

text \<open>
  C25. One turn of the search, from any state the search can be in, never leaves the arrays. When a search is due, in either direction from the last match, the cursor goes to
  the first row in cyclic order that holds the query, and to the first place in it; without such a row only the old mark is taken away. The
  text and its highlighting under the mark are as when the search began.\<close>
theorem search_finds_nearest:
  assumes "find_wf E0" and "find_ok E0 f E"
  shows "\<exists>f2 E2. find_search f E = Some (f2, E2) \<and> find_ok E0 f2 E2 \<and> fi_query f2 = fi_query f \<and>
    (find_step f \<noteq> 0 \<longrightarrow>
      (case first_match E0 (fi_query f) (search_order (find_step f) (fi_last f) (E_numrows E0)) of
         None \<Rightarrow> E2 = snd (FIND_RESTORE_HL f E) \<and> fi_last f2 = fi_last f
       | Some (k, off) \<Rightarrow> fi_last f2 = int k \<and> filerow E2 = int k \<and> filecol E2 = int off))"
  by (rule find_search_ok [OF assms])

section \<open>The whole search\<close>

lemma find_key_ok:
  assumes "find_key c f = Some f1" and "find_ok E0 f E"
  shows "find_ok E0 f1 E"
  using assms by (auto simp: find_key_def find_ok_def split: if_splits)

lemma find_ok_status:
  assumes "find_ok E0 f E"
  shows "find_ok E0 f (E\<lparr>E_statusmsg := s, E_statusmsg_time := i\<rparr>)"
proof -
  have "frozen (snd (FIND_RESTORE_HL f (E\<lparr>E_statusmsg := s, E_statusmsg_time := i\<rparr>))) = frozen (snd (FIND_RESTORE_HL f E))"
    by (auto simp: FIND_RESTORE_HL_def upd_row_def frozen_def split: option.split)
  moreover have "frozen (E\<lparr>E_statusmsg := s, E_statusmsg_time := i\<rparr>) = frozen E" by simp
  ultimately show ?thesis using assms find_wf_cong [of "E\<lparr>E_statusmsg := s, E_statusmsg_time := i\<rparr>" E] by (simp add: find_ok_def)
qed

lemma find_prompt_frame:
  assumes "find_prompt v f w = Some (c, w1)"
  shows "(\<exists>s i. K_E w1 = (K_E w)\<lparr>E_statusmsg := s, E_statusmsg_time := i\<rparr>) \<and> K_files w1 = K_files w \<and> K_exiting w1 = K_exiting w"
proof -
  define w0 where "w0 = editorSetStatusMessage v (''Search: '' @ fi_query f @ '' (Use ESC/Arrows/Enter)'') w"
  have w1: "K_E w1 = K_E w0" "K_files w1 = K_files w0" "K_exiting w1 = K_exiting w0"
    using assms unfolding find_prompt_def w0_def [symmetric] by (auto simp: editorRefreshScreen_def bind_eq_Some_conv)
  have set: "\<exists>s i. K_E (editorSetStatusMessage v m w) = (K_E w)\<lparr>E_statusmsg := s, E_statusmsg_time := i\<rparr>" for m
    by (simp add: editorSetStatusMessage_def) (intro exI, rule refl)
  then show ?thesis using w1 unfolding w0_def by (simp add: editorSetStatusMessage_def)
qed

definition cursor_of :: "editorConfig \<Rightarrow> int \<times> int \<times> int \<times> int" where
  "cursor_of E = (E_cx E, E_cy E, E_coloff E, E_rowoff E)"

lemma editorFind_loop_restores:
  assumes "editorFind_loop v E0 f w = Some w2" and "find_wf E1" and "find_ok E1 f (K_E w)"
  shows "frozen (K_E w2) = frozen E1 \<and> K_files w2 = K_files w \<and> K_exiting w2 = K_exiting w \<and>
    (cursor_of (K_E w2) = cursor_of E0 \<or> (\<exists>f2 E2. find_ok E1 f2 E2 \<and> cursor_of (K_E w2) = cursor_of E2))"
  using assms
proof (induction v E0 f w rule: editorFind_loop.induct)
  case (1 v E0 f w)
  from 1(2) obtain c wp where p: "find_prompt v f w = Some (c, wp)"
    by (subst (asm) editorFind_loop.simps) (auto split: option.splits)
  have ok: "find_ok E1 f (K_E wp)" and files: "K_files wp = K_files w" "K_exiting wp = K_exiting w"
    using find_prompt_frame [OF p] find_ok_status [OF 1(4)] by auto
  show ?case
  proof (cases "c = ESC_KEY \<or> c = ENTER_KEY")
    case True
    define Ec where "Ec = (if c = ESC_KEY
        then (K_E wp)\<lparr>E_cx := E_cx E0, E_cy := E_cy E0, E_coloff := E_coloff E0, E_rowoff := E_rowoff E0\<rparr> else K_E wp)"
    have w2: "w2 = editorSetStatusMessage v [] (wp\<lparr>K_E := snd (FIND_RESTORE_HL f Ec)\<rparr>)"
      using 1(2) p True by (subst (asm) editorFind_loop.simps) (simp add: Ec_def Let_def)
    have "frozen (snd (FIND_RESTORE_HL f Ec)) = frozen (snd (FIND_RESTORE_HL f (K_E wp)))"
      by (auto simp: Ec_def FIND_RESTORE_HL_def upd_row_def frozen_def split: option.split)
    moreover have "cursor_of (snd (FIND_RESTORE_HL f Ec)) = (if c = ESC_KEY then cursor_of E0 else cursor_of (K_E wp))"
      by (auto simp: Ec_def FIND_RESTORE_HL_def upd_row_def cursor_of_def split: option.split)
    ultimately show ?thesis
      using w2 ok files by (auto simp: editorSetStatusMessage_def find_ok_def cursor_of_def)
  next
    case False
    then obtain f1 f2 E2 where k: "find_key c f = Some f1" "find_search f1 (K_E wp) = Some (f2, E2)"
        "editorFind_loop v E0 f2 (wp\<lparr>K_E := E2\<rparr>) = Some w2"
      using 1(2) p by (subst (asm) editorFind_loop.simps) (auto split: option.splits)
    have "find_ok E1 f1 (K_E wp)" by (rule find_key_ok [OF k(1) ok])
    from find_search_ok [OF 1(3) this] k(2) have "find_ok E1 f2 E2" by auto
    then show ?thesis
      using 1(1) [OF p refl False k(1,2) refl k(3) 1(3)] files by simp
  qed
qed

text \<open>
  C30. The search leaves the text alone: whenever \<open>editorFind\<close> returns, all rows, their highlighting included, and every other field but the
  message and the cursor are as they were, and no file has changed. The cursor is where it was before, or where a turn of the search has put it.\<close>
theorem search_leaves_text:
  assumes "find_wf (K_E w)" and "editorFind v w = Some w2"
  shows "frozen (K_E w2) = frozen (K_E w) \<and> K_files w2 = K_files w \<and> K_exiting w2 = K_exiting w \<and>
    (cursor_of (K_E w2) = cursor_of (K_E w) \<or> (\<exists>f2 E2. find_ok (K_E w) f2 E2 \<and> cursor_of (K_E w2) = cursor_of E2))"
  using editorFind_loop_restores [of v "K_E w" _ w w2 "K_E w"] assms
  by (simp add: editorFind_def find_ok_def FIND_RESTORE_HL_def)

section \<open>Instances\<close>

lemma find_wf_config_of: "find_wf (config_of ls cx cy rowoff cols)"
  by (auto simp: find_wf_def config_of_def row_of_def)

lemma search_finds_nearest_witness:
  "\<exists>f2 E2. find_search \<lparr>fi_query = ''b'', fi_last = 0, fi_next = 1, fi_saved = None\<rparr> (config_of [''ab'', ''d'', ''cb''] 0 0 0 80) = Some (f2, E2) \<and>
     filerow E2 = 2 \<and> filecol E2 = 1"
proof -
  define E where "E = config_of [''ab'', ''d'', ''cb''] 0 0 0 80"
  define f where "f = \<lparr>fi_query = ''b'', fi_last = 0, fi_next = 1, fi_saved = None\<rparr>"
  have wf: "find_wf E" unfolding E_def by (rule find_wf_config_of)
  then have "find_ok E f E" by (simp add: find_ok_def f_def FIND_RESTORE_HL_def E_def config_of_def)
  moreover have "first_match E (fi_query f) (search_order (find_step f) (fi_last f) (E_numrows E)) = Some (2, 1)"
    unfolding E_def f_def by code_simp
  moreover have "find_step f \<noteq> 0" by (simp add: find_step_def f_def)
  ultimately have "\<exists>f2 E2. find_search f E = Some (f2, E2) \<and> filerow E2 = 2 \<and> filecol E2 = 1"
    using search_finds_nearest [OF wf, of f E] by auto
  then show ?thesis by (simp add: E_def f_def)
qed

lemma search_leaves_text_witness:
  "\<exists>w w2. K_in w = [Some (CHR ''b''), Some c_esc, None] \<and> editorFind env_fine w = Some w2 \<and> frozen (K_E w2) = frozen (K_E w)"
proof -
  define w where "w = kilo_of ((config_of [''ab'', ''d''] 0 0 0 80)\<lparr>E_screenrows := 2\<rparr>) Map.empty [Some (CHR ''b''), Some c_esc, None]"
  have "find_wf (K_E w)"
    using find_wf_config_of [of "[''ab'', ''d'']" 0 0 0 80] by (simp add: w_def find_wf_def)
  moreover have "editorFind env_fine w \<noteq> None" unfolding w_def by code_simp
  moreover have "K_in w = [Some (CHR ''b''), Some c_esc, None]" by (simp add: w_def)
  ultimately show ?thesis using search_leaves_text [of w env_fine] by blast
qed

end
