(* ===== verification/ShellThread.thy ===== *)
theory ShellThread
  imports ShellOps LinenoiseOps KiloSession
begin

text \<open>
  The thread of the shell (src/shell.c, \<open>thread_shell_init\<close> and \<open>thread_shell_fini\<close>): lines are read with the line editor, given to the command
  interpreter and remembered in the history and its file; the edit command runs the text editor on the same terminal. The
  bytes that arrive are those of the editor's model, where \<open>None\<close> is a time-out, which only the editor sees. A hint is
  written to an element of the hints heap that is released after each drawing of the line (see \<open>shell_hints\<close> in Shell); the thread's model keeps only the hint.
\<close>

section \<open>The thread\<close>

text \<open>
  What the thread meets: standard input is a terminal, \<open>TERM\<close>, raw mode works, the size of the terminal, the buffer on the
  stack and a byte that is never written, memory, the history file can be opened, \<open>conf.dying\<close> at each test of the
  loop, and what the text editor meets.
\<close>
record shell_tty =
  ty_tty :: bool
  ty_term :: "string option"
  ty_raw :: bool
  ty_rows :: int
  ty_cols :: nat
  ty_buf :: string
  ty_junk :: char
  ty_mem :: bool
  ty_hist :: bool
  ty_dying :: "nat \<Rightarrow> bool"
  ty_kilo :: kilo_env

text \<open>The files and the terminal are those of the editor's world.\<close>
record shell_thread =
  th_sh :: shell_st
  th_hist :: ln_history
  th_world :: kilo
  th_turn :: nat

definition HISTORY_FILE :: string where "HISTORY_FILE = ''state/.shell.history''"

fun bytes :: "char option list \<Rightarrow> string" where
  "bytes [] = []"
| "bytes (None # r) = bytes r"
| "bytes (Some c # r) = c # bytes r"

fun skip_bytes :: "nat \<Rightarrow> char option list \<Rightarrow> char option list" where
  "skip_bytes 0 r = r"
| "skip_bytes (Suc n) [] = []"
| "skip_bytes (Suc n) (None # r) = skip_bytes (Suc n) r"
| "skip_bytes (Suc n) (Some c # r) = skip_bytes n r"

definition history_save :: "shell_tty \<Rightarrow> shell_thread \<Rightarrow> shell_thread" where
  "history_save V t =
     (case snd (linenoiseHistorySave (ty_hist V) (th_hist t)) of
        None \<Rightarrow> t
      | Some s \<Rightarrow> t\<lparr>th_world := put_file HISTORY_FILE s (th_world t)\<rparr>)"

text \<open>The hints callback, as the line editor sees it.\<close>
definition shell_hinter :: "string \<Rightarrow> hinter" where
  "shell_hinter level buf =
     (if length buf < 2 then None
      else case hint_for level buf of
          Some (Some (color, bold, txt)) \<Rightarrow> Some (snprintf SHELL_HINT_MAX txt, color, bold)
        | _ \<Rightarrow> None)"

text \<open>One call of \<open>linenoise\<close> with the shell's prompt and callbacks.\<close>
definition shell_line :: "shell_env \<Rightarrow> shell_tty \<Rightarrow> shell_thread \<Rightarrow> (string option \<times> shell_thread) option" where
  "shell_line E V t =
     (let sh = th_sh t; inp = K_in (th_world t) in
      do { (line, H, r) \<leftarrow> linenoise (ty_tty V) (ty_term V) (ty_raw V) (Some (shell_hinter (sh_level sh)))
             (Some (\<lambda>buf. map_option fst (shell_completion E buf sh))) (ty_junk V) (ty_mem V) (ty_cols V) (sh_prompt sh)
             (ty_buf V) (th_hist t) (bytes inp);
           Some (line, t\<lparr>th_hist := H, th_world := (th_world t)\<lparr>K_in := skip_bytes (length (bytes inp) - length r) inp\<rparr>\<rparr>) })"

text \<open>
  What a command does outside the shell: the text editor runs; \<open>SIGTERM\<close> is handled at once and its handler
  ends the process (the flag), as a failed start of the editor does.
\<close>
fun perform :: "kilo_env \<Rightarrow> shell_out list \<Rightarrow> kilo \<Rightarrow> (bool \<times> kilo) option" where
  "perform v [] w = Some (False, w)"
| "perform v (e # es) w =
     (case e of
        KiloMain p \<Rightarrow>
          (case kilo_main v p w of
             None \<Rightarrow> None
           | Some Exits \<Rightarrow> Some (True, w)
           | Some (Return w1) \<Rightarrow> perform v es w1)
      | Raised s \<Rightarrow> if s = SIGTERM then Some (True, w) else perform v es w
      | _ \<Rightarrow> perform v es w)"

text \<open>The line above the last one is cleared.\<close>
definition turn_prompt :: "shell_tty \<Rightarrow> shell_thread \<Rightarrow> shell_thread" where
  "turn_prompt V t =
     t\<lparr>th_sh := emit [Out Stdout ([ESC] @ ''['' @ show_int (ty_rows V - 1) @ '';0'' @ [ESC] @ ''[K'')] (th_sh t)\<rparr>"

text \<open>A line is interpreted, and remembered unless the command fails; the flag is set when the process has ended.\<close>
definition run_line :: "shell_env \<Rightarrow> shell_tty \<Rightarrow> string \<Rightarrow> shell_thread \<Rightarrow> (bool \<times> shell_thread) option" where
  "run_line E V l t =
     (if l = [] then Some (False, t)
      else do { (rv, st) \<leftarrow> shell_command E (Some l) (th_sh t);
                (gone, w) \<leftarrow> perform (ty_kilo V) (drop (length (sh_out (th_sh t))) (sh_out st)) (th_world t);
                let t2 = t\<lparr>th_sh := st, th_world := w\<rparr> in
                if gone then Some (True, t2)
                else if rv \<noteq> - 1
                then Some (False, history_save V (t2\<lparr>th_hist := snd (linenoiseHistoryAdd (ty_mem V) l (th_hist t2))\<rparr>))
                else Some (False, t2) })"

text \<open>One turn of the loop.\<close>
definition shell_turn :: "shell_env \<Rightarrow> shell_tty \<Rightarrow> shell_thread \<Rightarrow> (bool \<times> shell_thread) option" where
  "shell_turn E V t =
     do { (line, t1) \<leftarrow> shell_line E V (turn_prompt V t);
          case line of None \<Rightarrow> Some (False, t1) | Some l \<Rightarrow> run_line E V l t1 }"

partial_function (option) shell_loop :: "shell_env \<Rightarrow> shell_tty \<Rightarrow> shell_thread \<Rightarrow> (bool \<times> shell_thread) option" where
  "shell_loop E V t =
     (if ty_dying V (th_turn t) then Some (False, t)
      else do { (gone, t1) \<leftarrow> shell_turn E V (t\<lparr>th_turn := Suc (th_turn t)\<rparr>);
                if gone then Some (True, t1) else shell_loop E V t1 })"

declare shell_loop.simps [code]

definition thread_shell_init :: "shell_env \<Rightarrow> shell_tty \<Rightarrow> shell_thread \<Rightarrow> (bool \<times> shell_thread) option" where
  "thread_shell_init E V t =
     do { n \<leftarrow> dconf_get_int (se_conf E) (Some ''shell.history-length'') 100;
          let H1 = snd (linenoiseHistorySetMaxLen (ty_mem V) n (th_hist t));
              H2 = snd (linenoiseHistoryLoad (ty_mem V) (if ty_hist V then K_files (th_world t) HISTORY_FILE else None) H1) in
          do { st1 \<leftarrow> Log E LOG_INFO 0 ''Ready to accept requests'' (th_sh t);
               jail \<leftarrow> dconf_get_str (se_conf E) (Some ''jail.name'') None;
               st2 \<leftarrow> Log E LOG_SHELL 1 (''jailfs shell starting. You are managing jail '' @ [CHR 0x27] @ pr_str jail @ [CHR 0x27]) st1;
               st3 \<leftarrow> Log E LOG_SHELL 0 (''Try '' @ [CHR 0x27] @ ''help'' @ [CHR 0x27] @ '' or ? for a list of available commands or '' @
                   [CHR 0x27] @ ''shutdown'' @ [CHR 0x27] @ '' to halt the service'' @ [c_nl] @ ''Tab completion is enabled.'') st2;
               shell_loop E V (t\<lparr>th_sh := shell_level_set ''main'' st3, th_hist := H2\<rparr>) } }"

text \<open>The end of the thread, where the log is closed too.\<close>
definition thread_shell_fini :: "shell_tty \<Rightarrow> shell_thread \<Rightarrow> shell_thread option" where
  "thread_shell_fini V t =
     (let t1 = history_save V t in do { st \<leftarrow> log_close (th_sh t1); Some (t1\<lparr>th_sh := st\<rparr>) })"

section \<open>Input\<close>

lemma bytes_append [simp]: "bytes (a @ b) = bytes a @ bytes b"
  by (induction a rule: bytes.induct) simp_all

lemma bytes_Some [simp]: "bytes (map Some s) = s"
  by (induction s) simp_all

lemma skip_bytes_Some [simp]: "skip_bytes (length s) (map Some s @ r) = r"
  by (induction s) simp_all

lemma skip_bytes_none: "bytes r = [] \<Longrightarrow> bytes (skip_bytes n r) = []"
  by (induction n r rule: skip_bytes.induct) simp_all

section \<open>The end of the input\<close>

lemma linenoise_eof:
  "\<exists>line H1. linenoise tty tm raw hc cb junk ok cols prompt buf H [] = Some (line, H1, []) \<and> (line = None \<or> line = Some [])"
proof (cases "\<not> tty \<or> isUnsupportedTerm tm \<or> buf = [] \<or> \<not> raw")
  case False
  then obtain b where "store_at 0 c_nul buf = Some b" "c_str b = []"
    by (cases buf) (auto simp: store_at_def c_str_def)
  with False show ?thesis by (simp add: linenoise_def linenoiseRaw_def linenoiseEdit_def)
qed (auto simp: linenoise_def linenoiseNoTTY_def linenoiseRaw_def)

text \<open>A turn at the end of the input: the line above is cleared, and no command is run.\<close>
definition clear_line :: "shell_tty \<Rightarrow> shell_out" where
  "clear_line V = Out Stdout ([ESC] @ ''['' @ show_int (ty_rows V - 1) @ '';0'' @ [ESC] @ ''[K'')"

lemma shell_turn_eof:
  assumes "bytes (K_in (th_world t)) = []"
  shows "\<exists>t1. shell_turn E V t = Some (False, t1) \<and> bytes (K_in (th_world t1)) = [] \<and> th_turn t1 = th_turn t \<and>
    th_sh t1 = emit [clear_line V] (th_sh t) \<and> K_files (th_world t1) = K_files (th_world t)"
proof -
  obtain line H1 where l: "linenoise (ty_tty V) (ty_term V) (ty_raw V) (Some (shell_hinter (sh_level (th_sh (turn_prompt V t)))))
      (Some (\<lambda>buf. map_option fst (shell_completion E buf (th_sh (turn_prompt V t))))) (ty_junk V) (ty_mem V) (ty_cols V)
      (sh_prompt (th_sh (turn_prompt V t))) (ty_buf V) (th_hist (turn_prompt V t)) [] = Some (line, H1, [])"
    "line = None \<or> line = Some []"
    using linenoise_eof by metis
  have w: "th_world (turn_prompt V t) = th_world t" "th_turn (turn_prompt V t) = th_turn t"
    "th_sh (turn_prompt V t) = emit [clear_line V] (th_sh t)" by (simp_all add: turn_prompt_def clear_line_def)
  have "shell_line E V (turn_prompt V t) =
      Some (line, (turn_prompt V t)\<lparr>th_hist := H1, th_world := (th_world t)\<lparr>K_in := skip_bytes 0 (K_in (th_world t))\<rparr>\<rparr>)"
    using l(1) assms by (simp add: shell_line_def Let_def w(1))
  then show ?thesis using l(2) assms w by (auto simp: shell_turn_def run_line_def)
qed

text \<open>\<open>n\<close> turns of the loop, none of which ends it.\<close>
fun shell_turns :: "shell_env \<Rightarrow> shell_tty \<Rightarrow> nat \<Rightarrow> shell_thread \<Rightarrow> shell_thread option" where
  "shell_turns E V 0 t = Some t"
| "shell_turns E V (Suc n) t =
     (if ty_dying V (th_turn t) then None
      else case shell_turn E V (t\<lparr>th_turn := Suc (th_turn t)\<rparr>) of
          Some (False, t1) \<Rightarrow> shell_turns E V n t1 | _ \<Rightarrow> None)"

lemma shell_turns_loop: "shell_turns E V n t = Some t1 \<Longrightarrow> shell_loop E V t = shell_loop E V t1"
  by (induction E V n t rule: shell_turns.induct)
    (auto split: if_splits option.splits prod.splits bool.splits simp: shell_loop.simps [of E V t for E V t])

lemma shell_turns_eof:
  assumes "bytes (K_in (th_world t)) = []" and "\<forall>n. \<not> ty_dying V n"
  shows "\<exists>t1. shell_turns E V n t = Some t1 \<and> bytes (K_in (th_world t1)) = [] \<and> th_turn t1 = th_turn t + n \<and>
    sh_out (th_sh t1) = sh_out (th_sh t) @ replicate n (clear_line V) \<and> K_files (th_world t1) = K_files (th_world t)"
  using assms
proof (induction n arbitrary: t)
  case (Suc n)
  let ?t = "t\<lparr>th_turn := Suc (th_turn t)\<rparr>"
  have "bytes (K_in (th_world ?t)) = []" using Suc.prems(1) by simp
  from shell_turn_eof [OF this, of E V] obtain ta where
    ta: "shell_turn E V ?t = Some (False, ta)" "bytes (K_in (th_world ta)) = []" "th_turn ta = Suc (th_turn t)"
      "sh_out (th_sh ta) = sh_out (th_sh t) @ [clear_line V]" "K_files (th_world ta) = K_files (th_world t)"
    by (auto simp: emit_def)
  from Suc.IH [OF ta(2) Suc.prems(2)] ta Suc.prems(2) show ?case by simp
qed simp

lemma shell_loop_eof:
  assumes "shell_loop E V t = Some y" and "bytes (K_in (th_world t)) = []"
  shows "\<exists>n. ty_dying V n"
proof -
  have "bytes (K_in (th_world t)) = [] \<longrightarrow> (\<exists>n. ty_dying V n)"
    using _ assms(1)
  proof (rule shell_loop.raw_induct [where P = "\<lambda>E V t y. bytes (K_in (th_world t)) = [] \<longrightarrow> (\<exists>n. ty_dying V n)"], goal_cases)
    case (1 loop E V t y)
    show ?case
    proof (cases "ty_dying V (th_turn t)")
      case False
      show ?thesis
      proof
        assume b: "bytes (K_in (th_world t)) = []"
        obtain gone t1 where t1: "shell_turn E V (t\<lparr>th_turn := Suc (th_turn t)\<rparr>) = Some (gone, t1)"
          "gone \<or> loop E V t1 = Some y"
          using 1(2) False by (auto simp: bind_eq_Some_conv split: if_splits)
        moreover have "bytes (K_in (th_world (t\<lparr>th_turn := Suc (th_turn t)\<rparr>))) = []" using b by simp
        ultimately show "\<exists>n. ty_dying V n"
          using shell_turn_eof [of "t\<lparr>th_turn := Suc (th_turn t)\<rparr>" E V] 1(1) [of E V t1 y] by auto
      qed
    qed blast
  qed
  then show ?thesis using assms(2) by blast
qed

text \<open>
  C39. At the end of its input the thread of the shell neither ends nor blocks nor fails: whatever the terminal and as long as
  \<open>conf.dying\<close> is not set by someone else, it makes any number of turns, each of which runs through, finds no line, writes the same escape sequence
  and leaves the files as they were; and the loop has no result.\<close>
theorem shell_spins_at_eof:
  assumes "\<forall>n. \<not> ty_dying V n" and "bytes (K_in (th_world t)) = []"
  shows "(\<forall>n. \<exists>t1. shell_turns E V n t = Some t1 \<and> shell_loop E V t = shell_loop E V t1 \<and> th_turn t1 = th_turn t + n \<and>
      bytes (K_in (th_world t1)) = [] \<and> sh_out (th_sh t1) = sh_out (th_sh t) @ replicate n (clear_line V) \<and>
      K_files (th_world t1) = K_files (th_world t)) \<and>
    shell_loop E V t = None"
proof
  show "\<forall>n. \<exists>t1. shell_turns E V n t = Some t1 \<and> shell_loop E V t = shell_loop E V t1 \<and> th_turn t1 = th_turn t + n \<and>
      bytes (K_in (th_world t1)) = [] \<and> sh_out (th_sh t1) = sh_out (th_sh t) @ replicate n (clear_line V) \<and>
      K_files (th_world t1) = K_files (th_world t)"
    using shell_turns_eof [OF assms(2,1), of E] shell_turns_loop [of E V _ t] by metis
  show "shell_loop E V t = None"
    using shell_loop_eof [of E V t] assms by (cases "shell_loop E V t") auto
qed

section \<open>What a command does outside the shell\<close>

text \<open>Output that has no effect on the editor and the process.\<close>
definition inert :: "shell_out \<Rightarrow> bool" where
  "inert e \<longleftrightarrow> (case e of KiloMain p \<Rightarrow> False | Raised s \<Rightarrow> s \<noteq> SIGTERM | _ \<Rightarrow> True)"

definition adds_inert :: "shell_st \<Rightarrow> shell_st \<Rightarrow> bool" where
  "adds_inert st st' \<longleftrightarrow> (\<exists>os. sh_out st' = sh_out st @ os \<and> list_all inert os)"

lemma adds_inert_refl [simp]: "adds_inert st st"
  by (simp add: adds_inert_def)

lemma adds_inert_trans: "adds_inert st st1 \<Longrightarrow> adds_inert st1 st2 \<Longrightarrow> adds_inert st st2"
  by (auto simp: adds_inert_def)

lemma adds_inert_emit: "list_all inert os \<Longrightarrow> adds_inert st (emit os st)"
  by (auto simp: adds_inert_def emit_def)

lemma adds_inert_level [simp]: "adds_inert st (shell_level_set l st)"
  by (simp add: adds_inert_def shell_level_set_def shell_prompt_reset_def)

lemma adds_inert_Log: "Log E level n msg st = Some st' \<Longrightarrow> adds_inert st st'"
  by (auto simp: Log_def Let_def bind_eq_Some_conv intro!: adds_inert_emit split: option.splits if_splits)
    (auto simp: inert_def)

lemma perform_inert: "list_all inert os \<Longrightarrow> perform v os w = Some (False, w)"
  by (induction os) (auto simp: inert_def split: shell_out.splits)

lemma perform_append: "list_all inert os \<Longrightarrow> perform v (os @ es) w = perform v es w"
  by (induction os) (auto simp: inert_def split: shell_out.splits)

lemma adds_inert_help_loop: "help_loop E es st = Some st' \<Longrightarrow> adds_inert st st'"
proof (induction E es st rule: help_loop.induct)
  case (2 E e es st)
  show ?case
  proof (cases "sc_desc e = None")
    case False
    then obtain st1 where "Log E LOG_SHELL 3 (help_line e) st = Some st1" "help_loop E es st1 = Some st'"
      using 2(2) by (auto simp: bind_eq_Some_conv)
    then show ?thesis using 2(1) False adds_inert_Log adds_inert_trans by blast
  qed (use 2(2) in simp)
qed simp

lemma adds_inert_help: "cmd_help E st = Some st' \<Longrightarrow> adds_inert st st'"
  by (auto simp: cmd_help_def bind_eq_Some_conv split: option.splits if_splits
      dest!: adds_inert_Log adds_inert_help_loop intro: adds_inert_trans)

lemma adds_inert_conf_dump: "cmd_conf_dump E st = Some st' \<Longrightarrow> adds_inert st st'"
proof -
  assume "cmd_conf_dump E st = Some st'"
  then obtain st1 ls where "Log E LOG_SHELL 0 ''Dumping configuration:'' st = Some st1" "st' = emit (map (Out Stdout) ls) st1"
    by (auto simp: cmd_conf_dump_def bind_eq_Some_conv)
  moreover have "adds_inert st1 (emit (map (Out Stdout) ls) st1)"
    by (rule adds_inert_emit) (auto simp: list_all_iff inert_def)
  ultimately show ?thesis using adds_inert_Log adds_inert_trans by blast
qed

text \<open>The commands that stop the service.\<close>
definition stops :: "string \<Rightarrow> bool" where
  "stops line \<longleftrightarrow> strcaseeq line ''shutdown'' \<or> strcaseeq line ''quit''"

lemma adds_inert_handler:
  "run_handler E h args st = Some st' \<Longrightarrow> h \<noteq> HShutdown \<Longrightarrow> h \<noteq> HEdit \<Longrightarrow> adds_inert st st'"
  by (cases h) (auto simp: run_handler_def cmd_clear_def cmd_reload_def cmd_run_def cmd_stats_def cmd_user_def inert_def
      SIGHUP_def SIGTERM_def intro: adds_inert_emit adds_inert_Log adds_inert_conf_dump)

lemma strcaseeq_trans: "strcaseeq a b \<Longrightarrow> strcaseeq a c \<Longrightarrow> strcaseeq b c"
  by (simp add: strcaseeq_def)

lemma adds_inert_menu_loop:
  assumes "menu_loop E args es line st = Some st'" and "\<not> stops line"
    and "\<forall>e \<in> set es. sc_handler e \<noteq> Some HEdit \<and> (sc_handler e = Some HShutdown \<longrightarrow> sc_cmd e \<in> {Some ''quit'', Some ''shutdown''})"
  shows "adds_inert st st'"
  using assms
proof (induction es)
  case (Cons e es)
  show ?case
  proof (cases "sc_desc e = None")
    case True
    then show ?thesis using Cons(2) adds_inert_Log by simp
  next
    case False
    then obtain c where c: "sc_cmd e = Some c" using Cons(2) by (auto split: option.splits)
    show ?thesis
    proof (cases "strcaseeq c line")
      case True
      then have "sc_handler e \<noteq> Some HShutdown" using Cons(3,4) c by (auto simp: stops_def strcaseeq_def)
      then show ?thesis
        using Cons(2,4) False c True by (auto split: option.splits if_splits intro: adds_inert_Log adds_inert_handler)
    next
      case no: False
      then show ?thesis using Cons False c by simp
    qed
  qed
qed simp

lemma menu_main_handlers:
  "\<forall>e \<in> set menu_main. sc_handler e \<noteq> Some HEdit \<and> (sc_handler e = Some HShutdown \<longrightarrow> sc_cmd e \<in> {Some ''quit'', Some ''shutdown''})"
  by (simp add: menu_main_def entry_def menu_end_def)

definition edits :: "string \<Rightarrow> bool" where
  "edits line \<longleftrightarrow> strncaseeq line ''vfs edit'' 8"

lemma shell_dispatch_inert:
  assumes "shell_dispatch E args line st = Some (rv, st')" and "\<not> stops line" and "\<not> edits line"
  shows "rv = 0 \<and> adds_inert st st'"
proof -
  obtain menu where menu: "shell_get_menu (sh_level st) = Some menu" "menu = None \<or> menu = Some MMain"
    using get_menu_other [of "sh_level st"] get_menu_main by (cases "sh_level st = ''main''") auto
  have gc: "adds_inert st st1" if "Log E LOG_SHELL 1 m (emit [GcAll] st) = Some st1" for m st1
    by (rule adds_inert_trans [OF adds_inert_emit adds_inert_Log [OF that]]) (simp add: inert_def)
  have loop: "adds_inert st st1" if "menu_loop E args menu_main line st = Some st1" for st1
    by (rule adds_inert_menu_loop [OF that assms(2) menu_main_handlers])
  show ?thesis
    using assms menu
    by (auto simp: shell_dispatch_def stops_def edits_def entries_of_def bind_eq_Some_conv split: if_splits
        intro: adds_inert_help adds_inert_conf_dump gc adds_inert_Log loop)
qed

section \<open>Lines\<close>

definition tty_ok :: "shell_tty \<Rightarrow> bool" where
  "tty_ok V \<longleftrightarrow> ty_tty V \<and> \<not> isUnsupportedTerm (ty_term V) \<and> ty_raw V \<and> ty_mem V \<and> ty_hist V \<and> 20 \<le> ty_cols V \<and>
     ty_cols V < 2 ^ 32 \<and> ty_buf V \<noteq> [] \<and> length (ty_buf V) \<le> 2 ^ 31 \<and> (\<forall>n. \<not> ty_dying V n)"

text \<open>The keys \<open>ks\<close> give the line \<open>l\<close>.\<close>
definition types :: "shell_tty \<Rightarrow> string \<Rightarrow> string \<Rightarrow> bool" where
  "types V ks l \<longleftrightarrow> list_all (editing True) ks \<and>
     (case z_run (length (ty_buf V) - 1) ks ([], []) of None \<Rightarrow> False | Some (a, b) \<Rightarrow> l = c_str (a @ b))"

definition th_ok :: "shell_thread \<Rightarrow> bool" where
  "th_ok t \<longleftrightarrow> not_syslog (th_sh t) \<and> shell_inv (th_sh t) \<and> hist_inv (th_hist t) \<and> [] \<notin> set (lh_list (th_hist t))"

text \<open>Reading a line costs a full history its oldest entry.\<close>
definition hist_trim :: "ln_history \<Rightarrow> ln_history" where
  "hist_trim H = H\<lparr>lh_list := (if int (length (lh_list H)) = lh_max H then drop 1 (lh_list H) else lh_list H)\<rparr>"

definition remember :: "ln_history \<Rightarrow> string \<Rightarrow> ln_history" where
  "remember H l = snd (linenoiseHistoryAdd True l (hist_trim H))"

lemma hist_trim_inv: "hist_inv H \<Longrightarrow> hist_inv (hist_trim H)"
  using distinct_adj_drop [of "lh_list H" 1] by (auto simp: hist_inv_def hist_trim_def)

lemma hist_trim_set: "x \<in> set (lh_list (hist_trim H)) \<Longrightarrow> x \<in> set (lh_list H)"
  by (auto simp: hist_trim_def dest: in_set_dropD split: if_splits)

lemma remember_ok:
  assumes "hist_inv H" and "[] \<notin> set (lh_list H)" and "l \<noteq> []"
  shows "hist_inv (remember H l) \<and> [] \<notin> set (lh_list (remember H l)) \<and> lh_max (remember H l) = lh_max H"
proof -
  have "set (lh_list (remember H l)) \<subseteq> insert l (set (lh_list (hist_trim H)))"
    by (auto simp: remember_def linenoiseHistoryAdd_def Let_def dest: in_set_dropD split: if_splits)
  then show ?thesis
    using assms add_inv [OF hist_trim_inv [OF assms(1)], of True l] hist_trim_set [of "[]" H]
    by (auto simp: remember_def linenoiseHistoryAdd_def hist_trim_def Let_def)
qed

text \<open>The last line is the one before it again.\<close>
definition repeats :: "string list \<Rightarrow> bool" where
  "repeats ls \<longleftrightarrow> butlast ls \<noteq> [] \<and> last (butlast ls) = last ls"

text \<open>
  What the history is after the lines \<open>ls\<close>: the last ones, as many as it may have, repetitions in a row left out. When
  the last line is a repetition, the oldest entry of a full history is lost and no new one comes in.\<close>
definition remembered :: "ln_history \<Rightarrow> string list \<Rightarrow> string list" where
  "remembered H ls =
     (let L = remdups_adj (lh_list H @ ls);
          n = (if repeats (lh_list H @ ls) \<and> 1 < lh_max H then nat (lh_max H) - 1 else nat (lh_max H)) in
      drop (length L - n) L)"

lemma remdups_adj_snoc: "remdups_adj (ls @ [l]) = (if ls \<noteq> [] \<and> last ls = l then remdups_adj ls else remdups_adj ls @ [l])"
proof (cases ls rule: rev_cases)
  case (snoc xs x)
  then show ?thesis by (simp add: remdups_adj_append_two)
qed simp

lemma last_remdups_adj: "ls \<noteq> [] \<Longrightarrow> last (remdups_adj ls) = last ls"
  by (induction ls rule: remdups_adj.induct) auto

lemma repeats_snoc [simp]: "repeats (ls @ [l]) \<longleftrightarrow> ls \<noteq> [] \<and> last ls = l"
  by (auto simp: repeats_def)

text \<open>Reading a line leaves the last entries, one less than the maximum.\<close>
lemma trim_suffix:
  assumes "lh_list H = drop (length L - n) L" and "n = m \<or> n = m - 1 \<and> 1 < m" and "lh_max H = int m" and "0 < m"
  shows "lh_list (hist_trim H) = drop (length L - (m - 1)) L"
proof (cases "n = m \<and> m \<le> length L")
  case True
  then have "Suc (length L - m) = length L - (m - 1)" using assms(4) by linarith
  then show ?thesis using True assms(1,3) by (simp add: hist_trim_def del: diff_Suc_eq_diff_pred)
next
  case False
  then have "length (lh_list H) \<noteq> m" using assms(1,2,4) by auto
  then show ?thesis using False assms by (auto simp: hist_trim_def)
qed

text \<open>And the new line is added unless it is the last entry.\<close>
lemma remember_list:
  assumes "lh_list (hist_trim H) = h" and "int (length h) < lh_max H"
  shows "lh_list (remember H l) = (if h \<noteq> [] \<and> last h = l then h else h @ [l])"
proof -
  have "lh_max (hist_trim H) = lh_max H" by (simp add: hist_trim_def)
  then show ?thesis using assms by (auto simp: remember_def linenoiseHistoryAdd_def Let_def)
qed

lemma remembered_step:
  assumes "lh_list G = remembered H ls" and "lh_max G = lh_max H" and "1 \<le> lh_max H"
  shows "lh_list (remember G l) = remembered H (ls @ [l])"
proof -
  define K L m where "K = lh_list H @ ls" and "L = remdups_adj K" and "m = nat (lh_max H)"
  have m: "0 < m" "lh_max H = int m" using assms(3) by (simp_all add: m_def)
  have "lh_list G = drop (length L - (if repeats K \<and> 1 < lh_max H then m - 1 else m)) L"
    using assms(1) by (simp add: remembered_def Let_def K_def L_def m_def)
  then have t: "lh_list (hist_trim G) = drop (length L - (m - 1)) L"
    by (rule trim_suffix) (use assms(2) m in auto)
  have "int (length (drop (length L - (m - 1)) L)) < lh_max G" using m assms(2) by auto
  note r = remember_list [OF t this, of l]
  have K: "lh_list H @ ls @ [l] = K @ [l]" by (simp add: K_def)
  show ?thesis
  proof (cases "K \<noteq> [] \<and> last K = l")
    case True
    then have L: "L \<noteq> []" "last L = l" using last_remdups_adj [of K] by (simp_all add: L_def)
    then have one: "drop (length L - 1) L = [l]" by (cases L rule: rev_cases) auto
    have "0 < length L" using L by simp
    then have "length L - (m - 1) < length L" if "1 < m" using that by linarith
    then have "last (drop (length L - (m - 1)) L) = l" if "1 < m" using that L by (simp add: last_drop)
    moreover have rem: "remembered H (ls @ [l]) = drop (length L - (if 1 < m then m - 1 else m)) L"
      using True m(2) unfolding remembered_def Let_def K remdups_adj_snoc by (simp add: L_def [symmetric] m_def [symmetric])
    moreover have "drop (length L - (m - 1)) L \<noteq> []" if "1 < m"
      using \<open>1 < m \<Longrightarrow> length L - (m - 1) < length L\<close> [OF that] by simp
    moreover have "m = 1" if "\<not> 1 < m" using that m(1) by simp
    ultimately show ?thesis using r one by (cases "1 < m") simp_all
  next
    case False
    have "drop (length L - (m - 1)) L = [] \<or> last (drop (length L - (m - 1)) L) \<noteq> l"
      using False last_remdups_adj [of K] by (cases "K = []") (auto simp: L_def last_drop)
    then have "lh_list (remember G l) = drop (length L - (m - 1)) L @ [l]" using r by auto
    then show ?thesis using False m by (auto simp: remembered_def Let_def K remdups_adj_snoc L_def [symmetric])
  qed
qed

lemma remember_all:
  assumes "hist_inv H" and "[] \<notin> set (lh_list H)" and "\<forall>l \<in> set ls. l \<noteq> []"
  shows "lh_list (foldl remember H ls) = remembered H ls \<and> lh_max (foldl remember H ls) = lh_max H \<and>
    hist_inv (foldl remember H ls) \<and> [] \<notin> set (lh_list (foldl remember H ls))"
  using assms(3)
proof (induction ls rule: rev_induct)
  case Nil
  have "\<not> repeats (lh_list H)"
    using assms(1) by (cases "lh_list H" rule: rev_cases) (auto simp: hist_inv_def distinct_adj_append_iff repeats_def)
  then show ?case using assms by (auto simp: remembered_def Let_def hist_inv_def distinct_adj_altdef)
next
  case (snoc l ls)
  then have i: "lh_list (foldl remember H ls) = remembered H ls" "lh_max (foldl remember H ls) = lh_max H"
    "hist_inv (foldl remember H ls)" "[] \<notin> set (lh_list (foldl remember H ls))" "l \<noteq> []" by auto
  have "1 \<le> lh_max H" using assms(1) by (simp add: hist_inv_def)
  then show ?case
    using remember_ok [OF i(3-5)] remembered_step [OF i(1,2)] i(2) by simp
qed

section \<open>Turns of the loop\<close>

lemma shell_line_typed:
  assumes "tty_ok V" and "th_ok t" and "types V ks l" and "K_in (th_world t) = map Some (ks @ [ENTER]) @ rest"
  shows "shell_line E V t = Some (Some l, t\<lparr>th_hist := hist_trim (th_hist t), th_world := (th_world t)\<lparr>K_in := rest\<rparr>\<rparr>)"
proof -
  obtain a b where ab: "z_run (length (ty_buf V) - 1) ks ([], []) = Some (a, b)" "l = c_str (a @ b)"
    using assms(3) by (auto simp: types_def split: option.splits)
  have level: "length (sh_level (th_sh t)) \<le> 9"
    using assms(2) opens_menu_length [of "sh_level (th_sh t)"] by (auto simp: th_ok_def shell_inv_def)
  then have prompt: "length (sh_prompt (th_sh t)) < ty_cols V"
    using assms(1,2) by (simp add: th_ok_def shell_inv_def tty_ok_def)
  have H: "1 \<le> lh_max (th_hist t)" "lh_list (th_hist t) = [] \<or> last (lh_list (th_hist t)) \<noteq> []"
    using assms(2) by (auto simp: th_ok_def hist_inv_def) (metis last_in_set)
  have inp: "bytes (K_in (th_world t)) = ks @ ENTER # bytes rest" unfolding assms(4) by simp
  have "length (bytes (K_in (th_world t))) - length (bytes rest) = length (ks @ [ENTER])" unfolding inp by simp
  then have skip: "skip_bytes (length (bytes (K_in (th_world t))) - length (bytes rest)) (K_in (th_world t)) = rest"
    unfolding assms(4) by (metis skip_bytes_Some)
  have e: "\<forall>c \<in> set ks. editing (Some cb \<noteq> None) c" for cb :: "string \<Rightarrow> string list option"
    using assms(3) by (simp add: types_def list_all_iff)
  have tv: "ty_tty V" "ty_raw V" "ty_mem V" "\<not> isUnsupportedTerm (ty_term V)" "ty_cols V < 2 ^ 32" "ty_buf V \<noteq> []" "length (ty_buf V) \<le> 2 ^ 31"
    using assms(1) by (simp_all add: tty_ok_def)
  define hc where "hc = Some (shell_hinter (sh_level (th_sh t)))"
  define cb where "cb = (\<lambda>buf. map_option fst (shell_completion E buf (th_sh t)))"
  have "linenoise (ty_tty V) (ty_term V) (ty_raw V) hc (Some cb) (ty_junk V) (ty_mem V) (ty_cols V) (sh_prompt (th_sh t)) (ty_buf V)
      (th_hist t) (ks @ ENTER # bytes rest) = Some (Some l, hist_trim (th_hist t), bytes rest)"
    using linenoise_keys [OF ab(1) e [of cb] prompt tv(5-7,4) H, of hc "ty_junk V" "bytes rest"] tv(1-3)
    by (simp add: ab(2) hist_trim_def)
  then show ?thesis
    unfolding shell_line_def Let_def hc_def [symmetric] cb_def [symmetric] inp using skip [unfolded inp] by simp
qed

lemma turn_prompt_simps [simp]:
  "th_hist (turn_prompt V t) = th_hist t" "th_world (turn_prompt V t) = th_world t" "th_turn (turn_prompt V t) = th_turn t"
  "sh_level (th_sh (turn_prompt V t)) = sh_level (th_sh t)" "th_ok (turn_prompt V t) = th_ok t"
  by (simp_all add: turn_prompt_def th_ok_def not_syslog_def shell_inv_def emit_def)

text \<open>The state in which a line has been read.\<close>
definition line_read :: "shell_tty \<Rightarrow> char option list \<Rightarrow> shell_thread \<Rightarrow> shell_thread" where
  "line_read V rest t =
     (turn_prompt V (t\<lparr>th_turn := Suc (th_turn t)\<rparr>))\<lparr>th_hist := hist_trim (th_hist t), th_world := (th_world t)\<lparr>K_in := rest\<rparr>\<rparr>"

lemma line_read_simps [simp]:
  "th_hist (line_read V rest t) = hist_trim (th_hist t)" "th_world (line_read V rest t) = (th_world t)\<lparr>K_in := rest\<rparr>"
  "sh_level (th_sh (line_read V rest t)) = sh_level (th_sh t)"
  by (simp_all add: line_read_def turn_prompt_def emit_def)

lemma line_read_ok: "th_ok t \<Longrightarrow> th_ok (line_read V rest t)"
  using hist_trim_inv [of "th_hist t"] hist_trim_set [of "[]" "th_hist t"]
  by (auto simp: line_read_def turn_prompt_def th_ok_def not_syslog_def shell_inv_def emit_def)

lemma shell_loop_line:
  assumes "tty_ok V" and "th_ok t" and "types V ks l" and "K_in (th_world t) = map Some (ks @ [ENTER]) @ rest"
    and "run_line E V l (line_read V rest t) = Some (gone, t1)"
  shows "shell_loop E V t = (if gone then Some (True, t1) else shell_loop E V t1)"
proof -
  define t0 where "t0 = turn_prompt V (t\<lparr>th_turn := Suc (th_turn t)\<rparr>)"
  have t0: "th_ok t0" "K_in (th_world t0) = map Some (ks @ [ENTER]) @ rest"
    using assms(2,4) turn_prompt_simps(5) [of V "t\<lparr>th_turn := Suc (th_turn t)\<rparr>"] by (simp_all add: t0_def th_ok_def)
  have "shell_line E V t0 = Some (Some l, line_read V rest t)"
    using shell_line_typed [OF assms(1) t0(1) assms(3) t0(2)] by (simp add: line_read_def t0_def)
  then have "shell_turn E V (t\<lparr>th_turn := Suc (th_turn t)\<rparr>) = Some (gone, t1)"
    using assms(5) by (simp add: shell_turn_def t0_def)
  moreover have "\<not> ty_dying V (th_turn t)" using assms(1) by (simp add: tty_ok_def)
  ultimately show ?thesis by (subst shell_loop.simps) simp
qed

text \<open>A line that is remembered.\<close>
definition line_done :: "string \<Rightarrow> shell_thread \<Rightarrow> shell_thread \<Rightarrow> kilo \<Rightarrow> bool" where
  "line_done l t t1 w \<longleftrightarrow> th_ok t1 \<and> sh_level (th_sh t1) = level_step (sh_level (th_sh t)) l \<and>
     th_hist t1 = remember (th_hist t) l \<and>
     th_world t1 = put_file HISTORY_FILE (concat (map (\<lambda>e. e @ [c_nl]) (lh_list (remember (th_hist t) l)))) w"

lemma run_line_done:
  assumes "conf_ok E" and "tty_ok V" and "th_ok t" and "l \<noteq> []"
    and cmd: "shell_command E (Some l) (th_sh (line_read V rest t)) = Some (0, st)"
    and out: "perform (ty_kilo V) (drop (length (sh_out (th_sh (line_read V rest t)))) (sh_out st)) ((th_world t)\<lparr>K_in := rest\<rparr>) =
      Some (False, w)"
  shows "\<exists>t1. run_line E V l (line_read V rest t) = Some (False, t1) \<and> line_done l t t1 w"
proof -
  have ok: "not_syslog (th_sh (line_read V rest t))" "shell_inv (th_sh (line_read V rest t))"
    using line_read_ok [OF assms(3), of V rest] by (simp_all add: th_ok_def)
  from shell_command_step [OF assms(1) ok assms(4)] cmd
  have st: "shell_inv st" "sh_log st = sh_log (th_sh (line_read V rest t))" "sh_level st = level_step (sh_level (th_sh t)) l"
    by auto
  have r: "hist_inv (remember (th_hist t) l)" "[] \<notin> set (lh_list (remember (th_hist t) l))"
    using remember_ok assms(3,4) by (auto simp: th_ok_def)
  define t1 where "t1 = history_save V ((line_read V rest t)\<lparr>th_sh := st, th_world := w, th_hist := remember (th_hist t) l\<rparr>)"
  have "run_line E V l (line_read V rest t) = Some (False, t1)"
    using assms(2,4) cmd out by (simp add: run_line_def t1_def remember_def tty_ok_def)
  moreover have "not_syslog st" using ok(1) st(2) by (simp add: not_syslog_def)
  ultimately show ?thesis
    using st r assms(2)
    by (intro exI [of _ t1]) (simp add: line_done_def t1_def history_save_def linenoiseHistorySave_def tty_ok_def th_ok_def)
qed

lemma run_line_plain:
  assumes "conf_ok E" and "tty_ok V" and "th_ok t" and "l \<noteq> []" and "\<not> stops l" and "\<not> edits l"
  shows "\<exists>t1. run_line E V l (line_read V rest t) = Some (False, t1) \<and> line_done l t t1 ((th_world t)\<lparr>K_in := rest\<rparr>)"
proof -
  have ok: "not_syslog (th_sh (line_read V rest t))" "shell_inv (th_sh (line_read V rest t))"
    using line_read_ok [OF assms(3), of V rest] by (simp_all add: th_ok_def)
  from shell_command_step [OF assms(1) ok assms(4)] obtain rv st where
    st: "shell_command E (Some l) (th_sh (line_read V rest t)) = Some (rv, st)" by blast
  from shell_dispatch_inert [OF st [unfolded shell_command_dispatch [OF assms(1,4)]] assms(5,6)]
  have rv: "rv = 0" and "adds_inert (th_sh (line_read V rest t)) st" by auto
  then obtain os where "sh_out st = sh_out (th_sh (line_read V rest t)) @ os" "list_all inert os"
    by (auto simp: adds_inert_def)
  then show ?thesis
    using run_line_done [OF assms(1-4) st [unfolded rv]] perform_inert [of os] by simp
qed

lemma stops_level: "stops l \<Longrightarrow> level_step level l = level"
proof -
  assume s: "stops l"
  then have "universal l" by (auto simp: stops_def universal_def)
  then have "\<not> opens_menu l" using opens_not_universal by blast
  moreover have "\<not> strcaseeq l ''back''"
    using s by (auto simp: stops_def strcaseeq_def c_tolower_def c_isupper_def)
  ultimately show ?thesis by (simp add: level_step_def)
qed

lemma run_line_stop:
  assumes "conf_ok E" and "th_ok t" and "stops l"
  shows "\<exists>st. run_line E V l (line_read V rest t) = Some (True, (line_read V rest t)\<lparr>th_sh := st\<rparr>) \<and>
    sh_level st = sh_level (th_sh t)"
proof -
  define t0 where "t0 = line_read V rest t"
  have ne: "l \<noteq> []" using assms(3) by (auto simp: stops_def strcaseeq_def)
  have ok: "not_syslog (th_sh t0)" "shell_inv (th_sh t0)"
    using line_read_ok [OF assms(2), of V rest] by (simp_all add: th_ok_def t0_def)
  have no: "\<not> strncaseeq l ''help'' 4 \<and> l \<noteq> ''?'' \<and> \<not> strncaseeq l ''vfs edit'' 8 \<and> \<not> strcaseeq l ''back''"
    using assms(3) by (auto simp: stops_def strcaseeq_def strncaseeq_def c_tolower_def c_isupper_def)
  obtain st1 where st1: "Log E LOG_NOTICE 0 ''shutdown command from console.'' (th_sh t0) = Some st1"
    using Log_emits [OF assms(1) ok(1)] by blast
  have cmd: "shell_command E (Some l) (th_sh t0) = Some (0, emit [Raised SIGTERM] st1)"
    using no assms(3) st1 shell_command_dispatch [OF assms(1) ne]
    by (simp add: shell_dispatch_def stops_def cmd_shutdown_def)
  obtain os where os: "sh_out st1 = sh_out (th_sh t0) @ os" "list_all inert os"
    using adds_inert_Log [OF st1] by (auto simp: adds_inert_def)
  then have "perform (ty_kilo V) (drop (length (sh_out (th_sh t0))) (sh_out (emit [Raised SIGTERM] st1))) (th_world t0) =
      Some (True, th_world t0)"
    using perform_append [OF os(2)] by (simp add: emit_def)
  then have "run_line E V l t0 = Some (True, t0\<lparr>th_sh := emit [Raised SIGTERM] st1\<rparr>)"
    using ne cmd by (simp add: run_line_def)
  moreover have "sh_level (emit [Raised SIGTERM] st1) = sh_level (th_sh t)"
    using shell_command_step [OF assms(1) ok ne] cmd stops_level [OF assms(3)] by (auto simp: t0_def)
  ultimately show ?thesis unfolding t0_def by blast
qed

section \<open>Sessions\<close>

definition keys_of :: "string list \<Rightarrow> char option list" where
  "keys_of kss = map Some (concat (map (\<lambda>ks. ks @ [ENTER]) kss))"

lemma keys_of_Cons: "keys_of (ks # kss) = map Some (ks @ [ENTER]) @ keys_of kss"
  by (simp add: keys_of_def)

text \<open>The files after some lines.\<close>
definition history_file :: "ln_history \<Rightarrow> string" where
  "history_file H = concat (map (\<lambda>e. e @ [c_nl]) (lh_list H))"

definition plain_line :: "string \<Rightarrow> bool" where
  "plain_line l \<longleftrightarrow> l \<noteq> [] \<and> \<not> stops l \<and> \<not> edits l"

lemma shell_loop_lines:
  assumes "conf_ok E" and "tty_ok V" and "list_all2 (types V) kss ls" and "\<forall>l \<in> set ls. plain_line l"
    and "th_ok t" and "K_in (th_world t) = keys_of kss @ rest"
  shows "\<exists>t1. shell_loop E V t = shell_loop E V t1 \<and> th_ok t1 \<and> sh_level (th_sh t1) = foldl level_step (sh_level (th_sh t)) ls \<and>
    th_hist t1 = foldl remember (th_hist t) ls \<and>
    th_world t1 = (th_world t)\<lparr>K_in := rest, K_files := (if ls = [] then K_files (th_world t)
      else (K_files (th_world t))(HISTORY_FILE \<mapsto> history_file (foldl remember (th_hist t) ls)))\<rparr>"
  using assms(3-6)
proof (induction kss ls arbitrary: t rule: list_all2_induct)
  case Nil
  then show ?case by (intro exI [of _ t]) (simp add: keys_of_def)
next
  case (Cons ks kss l ls)
  have inp: "K_in (th_world t) = map Some (ks @ [ENTER]) @ (keys_of kss @ rest)"
    using Cons.prems(3) by (simp add: keys_of_Cons)
  have l: "l \<noteq> []" "\<not> stops l" "\<not> edits l" using Cons.prems(1) by (simp_all add: plain_line_def)
  from run_line_plain [OF assms(1,2) Cons.prems(2) l, of "keys_of kss @ rest"] obtain ta where
    ta: "run_line E V l (line_read V (keys_of kss @ rest) t) = Some (False, ta)"
      "line_done l t ta ((th_world t)\<lparr>K_in := keys_of kss @ rest\<rparr>)" by blast
  have loop: "shell_loop E V t = shell_loop E V ta"
    using shell_loop_line [OF assms(2) Cons.prems(2) Cons.hyps(1) inp ta(1)] by simp
  have tad: "th_ok ta" "sh_level (th_sh ta) = level_step (sh_level (th_sh t)) l" "th_hist ta = remember (th_hist t) l"
      "th_world ta = (th_world t)\<lparr>K_in := keys_of kss @ rest, K_files := (K_files (th_world t))(HISTORY_FILE \<mapsto> history_file (th_hist ta))\<rparr>"
    using ta(2) by (simp_all add: line_done_def put_file_def history_file_def)
  from Cons.IH [of ta] Cons.prems(1) tad(1,4) obtain tb where
    tb: "shell_loop E V ta = shell_loop E V tb" "th_ok tb" "sh_level (th_sh tb) = foldl level_step (sh_level (th_sh ta)) ls"
      "th_hist tb = foldl remember (th_hist ta) ls"
      "th_world tb = (th_world ta)\<lparr>K_in := rest, K_files := (if ls = [] then K_files (th_world ta)
        else (K_files (th_world ta))(HISTORY_FILE \<mapsto> history_file (foldl remember (th_hist ta) ls)))\<rparr>" by auto
  have "th_world tb = (th_world t)\<lparr>K_in := rest, K_files := (if l # ls = [] then K_files (th_world t)
      else (K_files (th_world t))(HISTORY_FILE \<mapsto> history_file (foldl remember (th_hist t) (l # ls))))\<rparr>"
    using tb(5) tad(3) unfolding tad(4) by (cases "ls = []") (simp_all del: fun_upd_apply)
  then show ?case
    using loop tb(1-4) tad(2,3) by (intro exI [of _ tb]) (simp del: fun_upd_apply)
qed

lemma shell_loop_stop:
  assumes "conf_ok E" and "tty_ok V" and "th_ok t" and "types V ks l" and "stops l" and "K_in (th_world t) = keys_of [ks] @ rest"
  shows "\<exists>t1. shell_loop E V t = Some (True, t1) \<and> sh_level (th_sh t1) = sh_level (th_sh t) \<and>
    th_world t1 = (th_world t)\<lparr>K_in := rest\<rparr>"
proof -
  have inp: "K_in (th_world t) = map Some (ks @ [ENTER]) @ rest" using assms(6) by (simp add: keys_of_def)
  from run_line_stop [OF assms(1,3,5), of V rest] obtain st where
    st: "run_line E V l (line_read V rest t) = Some (True, (line_read V rest t)\<lparr>th_sh := st\<rparr>)" "sh_level st = sh_level (th_sh t)"
    by blast
  show ?thesis using shell_loop_line [OF assms(2-4) inp st(1)] st(2) by simp
qed

text \<open>
  C7. A session with the shell: lines are typed with the keys of the line editor (the history keys and completion are not among them), none of
  them the edit command, the last is \<open>shutdown\<close> or \<open>quit\<close>. All lines are read as they were typed and interpreted in
  turn, and the process ends. The history file then holds exactly the last of the earlier entries and of the lines typed before the last one, without
  repetitions in a row: as many as the history may have, or one less when the last of them repeats the one before it and more than one may be kept.\<close>
theorem shell_session_remembered:
  assumes "conf_ok E" and "tty_ok V" and "th_ok t" and "list_all2 (types V) kss ls" and "\<forall>l \<in> set ls. plain_line l"
    and "types V ks l" and "stops l" and "K_in (th_world t) = keys_of (kss @ [ks]) @ rest"
  shows "\<exists>t1. shell_loop E V t = Some (True, t1) \<and> sh_level (th_sh t1) = foldl level_step (sh_level (th_sh t)) ls \<and>
    K_in (th_world t1) = rest \<and>
    K_files (th_world t1) = (if ls = [] then K_files (th_world t)
      else (K_files (th_world t))(HISTORY_FILE \<mapsto> concat (map (\<lambda>e. e @ [c_nl]) (remembered (th_hist t) ls))))"
proof -
  have inp: "K_in (th_world t) = keys_of kss @ (keys_of [ks] @ rest)" using assms(8) by (simp add: keys_of_def)
  from shell_loop_lines [OF assms(1,2,4,5,3) inp] obtain ta where
    ta: "shell_loop E V t = shell_loop E V ta" "th_ok ta" "sh_level (th_sh ta) = foldl level_step (sh_level (th_sh t)) ls"
      "th_world ta = (th_world t)\<lparr>K_in := keys_of [ks] @ rest, K_files := (if ls = [] then K_files (th_world t)
        else (K_files (th_world t))(HISTORY_FILE \<mapsto> history_file (foldl remember (th_hist t) ls)))\<rparr>" by blast
  have "K_in (th_world ta) = keys_of [ks] @ rest" by (simp add: ta(4))
  from shell_loop_stop [OF assms(1,2) ta(2) assms(6,7) this] obtain tb where
    tb: "shell_loop E V ta = Some (True, tb)" "sh_level (th_sh tb) = sh_level (th_sh ta)" "th_world tb = (th_world ta)\<lparr>K_in := rest\<rparr>"
    by blast
  have "lh_list (foldl remember (th_hist t) ls) = remembered (th_hist t) ls"
    using remember_all [of "th_hist t" ls] assms(3,5) by (simp add: th_ok_def plain_line_def)
  then show ?thesis using ta(1,3) tb by (intro exI [of _ tb]) (simp add: ta(4) history_file_def)
qed

section \<open>A session with the text editor\<close>

text \<open>The file that \<open>vfs edit\<close> opens.\<close>
definition edited_file :: "shell_env \<Rightarrow> string \<Rightarrow> string" where
  "edited_file E f =
     snprintf (PATH_MAX - 1) (f @ ''/'' @ pr_str (case dconf_get_str (se_conf E) (Some ''path.mountpoint'') None of Some m \<Rightarrow> m | None \<Rightarrow> None))"

lemma shell_command_edit:
  assumes "conf_ok E"
  shows "shell_command E (Some (''vfs edit '' @ f)) st = Some (0, emit [KiloMain (edited_file E f)] st)"
proof -
  obtain mp where "dconf_get_str (se_conf E) (Some ''path.mountpoint'') None = Some mp" using conf_get [OF assms] by blast
  moreover have "\<not> strncaseeq (''vfs edit '' @ f) ''help'' 4" "strncaseeq (''vfs edit '' @ f) ''vfs edit'' 8"
    by (simp_all add: strncaseeq_def c_tolower_def c_isupper_def)
  ultimately show ?thesis
    using shell_command_dispatch [OF assms, of "''vfs edit '' @ f" st] by (simp add: shell_dispatch_def edited_file_def)
qed

text \<open>
  C3. From the shell into the text editor and back. The line \<open>vfs edit F\<close> is typed, then a text with Enter between its lines, Ctrl-S and Ctrl-Q,
  then \<open>quit\<close>. The line editor, the interpreter and the text editor read the same input one after the other; the process
  ends, the command is in the history file, and the text is in a new file. Its name is not the name of F below the mount point but F
  followed by the mount point.\<close>
theorem edit_from_shell:
  assumes "conf_ok E" and "tty_ok V" and "th_ok t" and "types V ks (''vfs edit '' @ f)" and "types V qs q" and "stops q"
    and "p = edited_file E f" and "K_files (th_world t) p = None" and "p \<noteq> HISTORY_FILE"
    and "kv_winsize (ty_kilo V) = Some (rows, cols)" and "int (length welcome_text) \<le> cols + 1" and "\<not> kv_fopen_err (ty_kilo V)"
    and "\<forall>e \<in> set C_HL_extensions. \<not> pattern_matches p e" and "save_ok (kv_save (ty_kilo V) (K_saves (th_world t)))"
    and "\<not> K_exiting (th_world t)" and "\<forall>c \<in> set cs. typable c" and "length cs < 10 ^ 10"
    and "K_in (th_world t) = keys_of [ks] @ map Some cs @ [Some chr_ctrl_s, Some chr_ctrl_q] @ keys_of [qs]"
  shows "\<exists>t1. shell_loop E V t = Some (True, t1) \<and> K_in (th_world t1) = [] \<and>
    K_files (th_world t1) p = Some (if set cs \<subseteq> {c_cr} then map newline_of cs else map newline_of cs @ [c_nl]) \<and>
    K_files (th_world t1) HISTORY_FILE = Some (history_file (remember (th_hist t) (''vfs edit '' @ f)))"
proof -
  let ?l = "''vfs edit '' @ f" and ?s = "if set cs \<subseteq> {c_cr} then map newline_of cs else map newline_of cs @ [c_nl]"
  define rest where "rest = map Some cs @ Some chr_ctrl_s # Some chr_ctrl_q # keys_of [qs]"
  define t0 where "t0 = line_read V rest t"
  have inp: "K_in (th_world t) = map Some (ks @ [ENTER]) @ rest" using assms(18) by (simp add: keys_of_def rest_def)
  obtain w where w: "kilo_main (ty_kilo V) p ((th_world t)\<lparr>K_in := rest\<rparr>) = Some (Return w)" "K_in w = keys_of [qs]"
      "K_files w = (K_files (th_world t))(p \<mapsto> ?s)"
    using new_file_session [where v = "ty_kilo V" and rows = rows and cols = cols and f = p and w = "(th_world t)\<lparr>K_in := rest\<rparr>" and
          cs = cs and rest = "keys_of [qs]"] assms(8,10-17)
    by (auto simp: rest_def)
  have cmd: "shell_command E (Some ?l) (th_sh t0) = Some (0, emit [KiloMain p] (th_sh t0))"
    by (simp only: shell_command_edit [OF assms(1)] assms(7))
  have "perform (ty_kilo V) (drop (length (sh_out (th_sh t0))) (sh_out (emit [KiloMain p] (th_sh t0)))) ((th_world t)\<lparr>K_in := rest\<rparr>) =
      Some (False, w)" using w(1) by (simp add: emit_def)
  from run_line_done [OF assms(1-3) _ cmd [unfolded t0_def] this [unfolded t0_def]] obtain ta where
    ta: "run_line E V ?l (line_read V rest t) = Some (False, ta)" "line_done ?l t ta w" by auto
  have loop: "shell_loop E V t = shell_loop E V ta" using shell_loop_line [OF assms(2-4) inp ta(1)] by simp
  have tad: "th_ok ta" "th_world ta = put_file HISTORY_FILE (history_file (remember (th_hist t) ?l)) w"
    using ta(2) by (simp_all add: line_done_def history_file_def)
  have "K_in (th_world ta) = keys_of [qs] @ []" using w(2) by (simp add: tad(2) put_file_def)
  from shell_loop_stop [OF assms(1,2) tad(1) assms(5,6) this] obtain tb where
    "shell_loop E V ta = Some (True, tb)" "th_world tb = (th_world ta)\<lparr>K_in := []\<rparr>" by blast
  then show ?thesis using loop w(3) assms(9) by (simp add: tad(2) put_file_def)
qed

section \<open>Instances\<close>

definition tty1 :: shell_tty where
  "tty1 = \<lparr>ty_tty = True, ty_term = Some ''xterm'', ty_raw = True, ty_rows = 26, ty_cols = 80, ty_buf = replicate 32 c_nul,
     ty_junk = c_nul, ty_mem = True, ty_hist = True, ty_dying = (\<lambda>_. False), ty_kilo = env_fine\<rparr>"

definition thread1 :: "char option list \<Rightarrow> shell_thread" where
  "thread1 inp = \<lparr>th_sh = shell_st0, th_hist = \<lparr>lh_list = [''help''], lh_max = 2\<rparr>,
     th_world = kilo_of (config_of [] 0 0 0 80) Map.empty inp, th_turn = 0\<rparr>"

lemma tty1_ok: "tty_ok tty1"
  by (simp add: tty_ok_def tty1_def isUnsupportedTerm_def unsupported_term_def strcaseeq_def c_tolower_def c_isupper_def)

lemma thread1_ok: "th_ok (thread1 inp)"
  using shell_env0_ok by (simp add: th_ok_def thread1_def hist_inv_def)

lemma thread1_simps [simp]:
  "K_in (th_world (thread1 inp)) = inp" "K_files (th_world (thread1 inp)) = Map.empty" "\<not> K_exiting (th_world (thread1 inp))"
  "K_saves (th_world (thread1 inp)) = 0" "th_hist (thread1 inp) = \<lparr>lh_list = [''help''], lh_max = 2\<rparr>" "ty_kilo tty1 = env_fine"
  "th_sh (thread1 inp) = shell_st0"
  by (simp_all add: thread1_def tty1_def kilo_of_def)

lemma shell_spins_at_eof_witness:
  "(\<exists>t1. shell_turns shell_env0 tty1 5 (thread1 []) = Some t1 \<and> th_turn t1 = 5) \<and> shell_loop shell_env0 tty1 (thread1 []) = None"
proof -
  have "\<forall>n. \<not> ty_dying tty1 n" "bytes (K_in (th_world (thread1 []))) = []" "th_turn (thread1 []) = 0" by (simp_all add: tty1_def thread1_def kilo_of_def)
  with shell_spins_at_eof [of tty1 "thread1 []" shell_env0] show ?thesis by fastforce
qed

lemma shell_session_remembered_witness:
  "\<exists>t1. shell_loop shell_env0 tty1 (thread1 (keys_of [''stats'', ''memoryy'' @ [BACKSPACE], ''quit''])) = Some (True, t1) \<and>
     sh_level (th_sh t1) = ''memory'' \<and> K_in (th_world t1) = [] \<and>
     K_files (th_world t1) HISTORY_FILE = Some (''stats'' @ [c_nl] @ ''memory'' @ [c_nl])"
proof -
  have ty: "list_all2 (types tty1) [''stats'', ''memoryy'' @ [BACKSPACE]] [''stats'', ''memory'']" "types tty1 ''quit'' ''quit''"
    by code_simp+
  have pl: "\<forall>l \<in> set [''stats'', ''memory'']. plain_line l" "stops ''quit''" by code_simp+
  have lv: "foldl level_step ''main'' [''stats'', ''memory''] = ''memory''" by code_simp
  have h: "remembered \<lparr>lh_list = [''help''], lh_max = 2\<rparr> [''stats'', ''memory''] = [''stats'', ''memory'']" by code_simp
  show ?thesis
    using shell_session_remembered [OF shell_env0_ok(1) tty1_ok thread1_ok ty(1) pl(1) ty(2) pl(2), of _ "[]"] shell_env0_ok(4) lv h
    by fastforce
qed

lemma edit_from_shell_witness:
  "\<exists>t1. shell_loop shell_env0 tty1 (thread1 (keys_of [''vfs edit notes''] @ map Some ''ab'' @ [Some chr_ctrl_s, Some chr_ctrl_q] @
       keys_of [''quit''])) = Some (True, t1) \<and> K_in (th_world t1) = [] \<and>
     K_files (th_world t1) ''notes/(null)'' = Some (''ab'' @ [c_nl])"
proof -
  have ty: "types tty1 ''vfs edit notes'' (''vfs edit '' @ ''notes'')" "types tty1 ''quit'' ''quit''" "stops ''quit''"
    by code_simp+
  have p: "''notes/(null)'' = edited_file shell_env0 ''notes''"
    by (simp add: edited_file_def snprintf_def PATH_MAX_def pr_str_def shell_env0_def dconf_get_str_def)
  define I where "I = keys_of [''vfs edit notes''] @ map Some ''ab'' @ [Some chr_ctrl_s, Some chr_ctrl_q] @ keys_of [''quit'']"
  have "\<exists>t1. shell_loop shell_env0 tty1 (thread1 I) = Some (True, t1) \<and> K_in (th_world t1) = [] \<and>
     K_files (th_world t1) ''notes/(null)'' = Some (if set ''ab'' \<subseteq> {c_cr} then map newline_of ''ab'' else map newline_of ''ab'' @ [c_nl]) \<and>
     K_files (th_world t1) HISTORY_FILE = Some (history_file (remember (th_hist (thread1 I)) (''vfs edit '' @ ''notes'')))"
    by (rule edit_from_shell [OF shell_env0_ok(1) tty1_ok thread1_ok ty p, where rows = 26 and cols = 80])
      (simp_all add: HISTORY_FILE_def env_fine_def welcome_text_def KILO_VERSION_def snprintf_def C_HL_extensions_def
        pattern_matches_def typable_def c_isprint_def save_ok_def I_def)
  then show ?thesis unfolding I_def [symmetric] by (auto simp: newline_of_def c_cr_def)
qed

end
