(* ===== verification/Spec2Isabelle.thy ===== *)
theory Spec2Isabelle
  imports DictOps DlinkOps DlinkAlloc BallocOps Timestr Str ConfOps Llist TreeProps ShellOps PkgOps VfsOps ThreadsOps DaemonOps StartupProps LinenoiseOps KiloSyntax KiloFind ShellThread
begin

text \<open>
  A verification development of jailfs, a daemon that presents the contents of package archives as a read-only FUSE file system,
  with an interactive shell. The C sources are in lsd/ (a support library) and src/ (the daemon). Every definition
  keeps the name of the C function, type or constant it models; loops and inner blocks that have a definition of their own are named after their
  function.

  \<^bold>\<open>How the program is modelled.\<close> C structs are records, enums and tagged values are datatypes, functions return their
  result together with the new state. Machine integers are words where wrap-around or bit operations matter (the dictionary's 32-bit
  table indices, the 64-bit counters of the heaps and lists), and int or nat otherwise. Pointers are \<open>nat option\<close> with \<open>None\<close> for NULL, and
  structures that are linked by pointers live in maps from addresses. The result \<open>None\<close> stands for behaviour
  that does not return: a use of NULL or of freed memory, a failed assertion, a division by zero, or a loop that
  never ends; \<open>Exits\<close> in Balloc stands for \<open>exit(1)\<close>. Loops that may not end are \<open>partial_function (option)\<close>; the only bound chosen by hand is
  \<open>RESIZE_DEPTH\<close> of Dict (33 nested resizes, more than the 32 doublings that a 32-bit size allows, and never reached in
  the domain of the theorems). Memory allocation, files, the clock, libarchive,
  libfuse, inotify and pthreads are arguments of the definitions; what is assumed of them (fresh memory, no more) are named predicates such as
  \<open>env_ok\<close> and \<open>balloc_env_ok\<close>, each with an instance in the witnesses.

  \<^bold>\<open>The theories\<close>, in the order of their dependencies:

  \<^item> Prelude: characters, \<open>strchr\<close>, \<open>strtok\<close>, \<open>strtol\<close>, decimal printing, folds that may fail.

  \<^item> Dict (lsd/dict.c), with Probe, DictLookup, DictInv, DictGrow, DictMap, DictOps: the open-addressing string dictionary.
    The probe sequence visits every slot (Probe: the recurrence 5 i + 1 has full period), which decides when
    a lookup returns. Add, delete, resize and enumeration refine a map from strings to values. KVStore states the contract of a string
    map as a locale, interpreted on the dictionary.

  \<^item> Dlink (lsd/dlink.c), with DlinkSeq and DlinkOps: doubly linked lists refine sequences. DlinkAlloc: the variants
    that take their nodes from a block heap.

  \<^item> Balloc (lsd/balloc.c), with BallocInv and BallocOps: the block allocator refines a set of live elements; the contract of an allocator is a
    locale, interpreted on the heap functions, and sequences of allocations and releases are proved in it. BallocFrame and BallocGrow: what an operation on one heap leaves of the
    others, also when it takes memory from the system.

  \<^item> Timestr (lsd/timestr.c), Str (lsd/str.c): durations and their text, tokens and parameter vectors, as round trips.

  \<^item> Llist (lsd/list.c, src/module.c): the iterable list and the search for a module in it.

  \<^item> Trees (lsd/tree.c), with TreeRep, TreeOps, TreeRB, TreeProps: binary search trees with parent pointers as zippers; insertion, search and deletion,
    red-black insertion with its balance invariant, and the failing red-black deletion.

  \<^item> Conf (src/conf.c), with ConfOps: reading and writing the configuration file, typed settings.

  \<^item> Logger, Shell (src/shell.c), with ShellOps: log levels and targets; menus, commands, help, completion
    and hints. A locale states what a log promises to its callers.

  \<^item> Linenoise (src/linenoise.c), with LinenoiseOps: the line editor of the shell on its byte buffer, refined to a text with a cursor; redrawing, completion and history.

  \<^item> KiloRow and Kilo (src/kilo.c): the text editor that the shell starts, from the rows with their rendering and highlighting to keys, files, the
    drawing of the screen, incremental search and the main loop. KiloRender: rendering is the expansion of tabs. KiloOps: every editing key
    refines an abstract buffer (lines and a cursor), and the keys that leave the arrays. KiloFile: saving and opening, quitting.
    KiloSession: whole sessions, the position of the cursor on the screen. KiloSyntax: highlighting does not change the text, lines of C that are highlighted
    inside their arrays, and lines that are not. KiloFind: the search.

  \<^item> ShellThread (the thread of src/shell.c): the loop that reads lines, interprets them, runs the text editor and keeps the history file,
    over Shell, Linenoise and Kilo; whole sessions with the exact content of the history file, and the loop at the end of its input, turn by turn.

  \<^item> Pkg (src/pkg.c, src/database.c, the cache of src/vfs.c), with PkgOps: packages as a map from names to handles; opening, importing, releasing.
    The reference count is an \<open>int\<close>; the elements of the file cache are a store by their addresses, to which the code keeps no pointer; the
    strings of an archive's entry are the memory behind their pointers, as far as it can be read, because \<open>vfs_add_path\<close> copies more than the string.

  \<^item> Vfs (src/vfs.c), with VfsOps: FUSE handlers, the walk over the package directories, inotify events.

  \<^item> Threads (src/threads.c, the start in src/main.c), with ThreadsOps: thread pools, and the start barrier as a step relation
    over all interleavings; a locale for systems that settle carries the liveness proof.

  \<^item> Daemon (src/api.c, src/hooks.c, src/gc.c, src/cron.c, src/unix.c), with DaemonOps: messages, hooks, the collection of all heaps, timers, pid file, signals.

  \<^item> Startup (the initialisation in src/main.c, \<open>pkg_init\<close>, the thread of src/vfs.c, \<open>goodbye\<close>), with StartupOps and StartupProps: the daemon from its
    start on (the log included, its messages not) as a step relation over the timers, packages that are opened and closed, and the thread of the file system; the invariant that ties the
    heaps to the packages, when the start succeeds, and an environment that always grants memory.

  \<^bold>\<open>How the parts interact.\<close> The configuration is a dictionary; log levels, periods, directories and heap sizes are read from it by
  the shell, the packages, the file system and the timers. The shell reads its lines through the line editor and its edit command starts the text editor. Handles, watches, hints, messages and list nodes are elements of block heaps. The
  file system's walk and its inotify events open and forget packages, and opening a package fills the file cache.
  The tick of the timers collects all heaps and releases expired packages: the theorem below spans these
  components.

  \<^bold>\<open>What is shown.\<close> Functional correctness by refinement: dictionary, lists, heaps, trees, packages, the text editor and the
  collector against maps, sequences, buffers and sets. Equivalence: the rendering of a row with the reference expansion of its tabs, editing with and without highlighting. Round trips: configuration file, durations, tokens, the shell's history, edited files. Sessions: what is typed into shell and editor, over all three components. Bounds: every access of the line editor is inside its buffer. Invariants: red-black balance, shell
  level and prompt. Termination: when dictionary lookups and configuration loading return. Liveness: the start of the
  daemon and of its threads. Over all runs: the heaps and timers of the daemon. Error behaviour: where the code blocks for ever, loops, or uses a NULL pointer, stated as theorems about those inputs.

  \<^bold>\<open>Not modelled.\<close> The vendored SQLite, and of linenoise the terminal modes and the multi line redraw, which the shell turns off; src/cell.c, src/debugger.c, src/file-magic.c and
  src/i18n.c, which consist of calls of the system or of libraries; the empty files src/control.c, src/scripting.c and src/warden.c; the threads of the database and of the cell,
  and mounting through libfuse. The
  bytes of heap elements and of mapped files are not part of the state.
\<close>

section \<open>The tick of the daemon\<close>

text \<open>
  C18. The tick of the daemon, over configuration, packages, block heaps and the garbage collector. With
  the collection period read from \<open>tuning.timer.global_gc\<close> (60 seconds when it is not set), \<open>cron_tick\<close>
  returns the time; when the time leaves remainder one by the period, all heaps are collected: the packages without
  references that are older than the lifetime are gone and all others remain, the elements in use in the package heap are again exactly the handles
  listed, and the elements in use in every other heap are untouched. At any other time nothing changes. A period
  of zero is a division by zero.
\<close>
theorem cron_tick_collects:
  assumes "in_step g s w m" "dconf_get_str conf (Some ''tuning.timer.global_gc'') None = Some v" "timestr_to_time v 60 = Some p"
  shows "if p = 0 then cron_tick g conf time life s w = None
    else \<exists>s' w' m'. cron_tick g conf time life s w = Some (time, s', w') \<and> in_step g s' w' m' \<and>
      (if time smod p = 1
       then pkg_view s' = unexpired time life (pkg_view s) \<and> (\<forall>x. g_pkg g \<noteq> Some x \<longrightarrow> lives m' x = lives m x)
       else s' = s \<and> w' = w)"
proof (cases "p = 0 \<or> time smod p \<noteq> 1")
  case True
  then show ?thesis using assms by (auto simp: cron_tick_def)
next
  case False
  from gc_all_ok [OF assms(1), of time life] obtain s' w' m' where
    "gc_all g time life s w = Some (0, s', w')" "in_step g s' w' m'" "pkg_view s' = unexpired time life (pkg_view s)"
    "\<forall>x. g_pkg g \<noteq> Some x \<longrightarrow> lives m' x = lives m x" by blast
  then show ?thesis using False assms(2,3)
    by (auto simp: cron_tick_def intro!: exI [of _ s'] exI [of _ w'] exI [of _ m'])
qed

definition gc1 :: gc_heaps where
  "gc1 = \<lparr>g_api = None, g_hints = None, g_pkg_file = None, g_pkg = Some 32, g_cache = None, g_handle = None,
     g_inode = None, g_watch = None, g_dlink = None\<rparr>"

text \<open>One package without references, whose handle is the element \<open>q\<close>.\<close>
definition pkg_at :: "nat \<Rightarrow> pkg_state" where
  "pkg_at q = \<lparr>pk_handles = [q \<mapsto> \<lparr>ph_pkgid = 2, ph_fd = 5, ph_refcnt = 0, ph_otime = 0, ph_name = Some ''a.tar''\<rparr>], pk_list = [q],
     pk_locked = False, pk_gpkgid = 2, pk_cache = Map.empty\<rparr>"

lemma pkg_at_ok: "pkg_inv (pkg_at q)"
  "pkg_view (pkg_at q) = [''a.tar'' \<mapsto> \<lparr>ph_pkgid = 2, ph_fd = 5, ph_refcnt = 0, ph_otime = 0, ph_name = Some ''a.tar''\<rparr>]"
  by (simp_all add: pkg_at_def pkg_inv_def pkg_view_def name_at_def handle_at_def)

lemma heap1_alloc: "\<exists>q w m. heaps_rep w m \<and> lives m = [32 \<mapsto> {q}]"
proof -
  obtain q w bs where r: "heap_rep w 32 bs" "live bs = {q}" using heap1_used by blast
  have "heaps_rep w [32 \<mapsto> bs]" "lives [32 \<mapsto> bs] = [32 \<mapsto> {q}]"
    using r by (auto simp: heaps_rep_def lives_def fun_eq_iff split: if_splits)
  then show ?thesis by blast
qed

theorem cron_tick_collects_witness:
  "\<exists>q m w s' w' m'. in_step gc1 (pkg_at q) w m \<and> lives m 32 = Some {q} \<and> pkg_view (pkg_at q) ''a.tar'' \<noteq> None \<and>
     cron_tick gc1 None 61 60 (pkg_at q) w = Some (61, s', w') \<and> in_step gc1 s' w' m' \<and> pkg_view s' = Map.empty"
proof -
  obtain q w m where h: "heaps_rep w m" "lives m = [32 \<mapsto> {q}]" using heap1_alloc by blast
  have st: "in_step gc1 (pkg_at q) w m"
    using h pkg_at_ok(1) by (auto simp: in_step_def gc_known_def gc1_def pkg_at_def lives_def fun_eq_iff split: if_splits)
  have v: "dconf_get_str None (Some ''tuning.timer.global_gc'') None = Some None" by (simp add: dconf_get_str_def)
  have p: "timestr_to_time None 60 = Some 60" by (simp add: timestr_to_time_def)
  have "61 smod (60 :: int) = 1" by code_simp
  with cron_tick_collects [OF st v p, of 61 60] obtain s' w' m' where
    t: "cron_tick gc1 None 61 60 (pkg_at q) w = Some (61, s', w')" "in_step gc1 s' w' m'"
      "pkg_view s' = unexpired 61 60 (pkg_view (pkg_at q))" by auto
  have "pkg_view s' = Map.empty" by (auto simp: t(3) unexpired_def pkg_at_ok fun_eq_iff)
  moreover have "lives m 32 = Some {q}" "pkg_view (pkg_at q) ''a.tar'' \<noteq> None" by (simp_all add: h(2) pkg_at_ok)
  ultimately show ?thesis using st t(1,2) by blast
qed

end
